(* ===== verification/Go_Prelude.thy ===== *)
theory Go_Prelude
  imports Main "HOL-Library.Sublist" "HOL-Library.Word"
begin

text \<open>
  What the components share: the fragment of the Go language and of its standard library that the
  sources use. A Go string or byte slice is a list of bytes (\<^typ>\<open>char list\<close>); a rune is a code
  point (\<^typ>\<open>nat\<close>). \<open>HasPrefix\<close>, \<open>HasSuffix\<close>, \<open>Index\<close>, \<open>LastIndex\<close>, \<open>Cut\<close>, \<open>Split\<close>, \<open>Join\<close>,
  \<open>TrimLeftFunc\<close> and \<open>TrimSpace\<close> follow package \<open>strings\<close> on every byte sequence, through the
  UTF-8 decoder of package \<open>unicode/utf8\<close>. \<open>ToLower\<close> and \<open>EqualFold\<close> map the ASCII letters and
  leave every other byte alone, which is what package \<open>strings\<close> computes on ASCII text.
\<close>

named_theorems go_simps \<open>evaluation of the string library on concrete input\<close>
named_theorems trim_simps \<open>trimming of white space\<close>

section \<open>Prefixes, suffixes and searching\<close>

abbreviation HasPrefix :: "'a list \<Rightarrow> 'a list \<Rightarrow> bool" where
  "HasPrefix s p \<equiv> prefix p s"

abbreviation HasSuffix :: "'a list \<Rightarrow> 'a list \<Rightarrow> bool" where
  "HasSuffix s p \<equiv> suffix p s"

text \<open>\<open>strings.Index\<close>: the first position of \<open>sub\<close>, \<open>None\<close> for Go's \<open>-1\<close>.\<close>

fun Index :: "'a list \<Rightarrow> 'a list \<Rightarrow> nat option" where
  "Index [] sub = (if sub = [] then Some 0 else None)"
| "Index (x # xs) sub =
     (if prefix sub (x # xs) then Some 0 else map_option Suc (Index xs sub))"

text \<open>\<open>strings.LastIndex\<close>, with Go's \<open>-1\<close> for a miss.\<close>

fun LastIndex :: "'a list \<Rightarrow> 'a list \<Rightarrow> int" where
  "LastIndex [] sep = (if sep = [] then 0 else -1)"
| "LastIndex (x # xs) sep =
     (let i = LastIndex xs sep in
      if i \<ge> 0 then i + 1 else if prefix sep (x # xs) then 0 else -1)"

definition Contains :: "'a list \<Rightarrow> 'a list \<Rightarrow> bool" where
  "Contains s sub \<longleftrightarrow> Index s sub \<noteq> None"

definition Cut :: "'a list \<Rightarrow> 'a list \<Rightarrow> 'a list \<times> 'a list \<times> bool" where
  "Cut s sep = (case Index s sep of
      None \<Rightarrow> (s, [], False)
    | Some i \<Rightarrow> (take i s, drop (i + length sep) s, True))"

fun Join :: "'a list list \<Rightarrow> 'a list \<Rightarrow> 'a list" where
  "Join [] sep = []"
| "Join [x] sep = x"
| "Join (x # y # zs) sep = x @ sep @ Join (y # zs) sep"

lemma Index_le: "Index s sub = Some i \<Longrightarrow> i + length sub \<le> length s"
proof (induction s arbitrary: i)
  case Nil
  then show ?case by (auto split: if_splits)
next
  case (Cons a s)
  then show ?case by (auto split: if_splits dest: prefix_length_le)
qed

lemma Index_prefix: "Index s sub = Some i \<Longrightarrow> prefix sub (drop i s)"
  by (induction s arbitrary: i) (auto split: if_splits)

lemma Index_least: "Index s sub = Some i \<Longrightarrow> j < i \<Longrightarrow> \<not> prefix sub (drop j s)"
proof (induction s arbitrary: i j)
  case Nil
  then show ?case by (auto split: if_splits)
next
  case (Cons a s)
  then show ?case by (cases j) (auto split: if_splits)
qed

lemma Index_None: "Index s sub = None \<longleftrightarrow> (\<forall>i \<le> length s. \<not> prefix sub (drop i s))"
proof (induction s)
  case Nil
  then show ?case by auto
next
  case (Cons a s)
  show ?case
  proof
    assume "Index (a # s) sub = None"
    then have "\<not> prefix sub (a # s)" and "Index s sub = None"
      by (auto split: if_splits)
    with Cons show "\<forall>i \<le> length (a # s). \<not> prefix sub (drop i (a # s))"
      by (auto simp: drop_Cons' split: if_splits)
  next
    assume *: "\<forall>i \<le> length (a # s). \<not> prefix sub (drop i (a # s))"
    from * have "\<not> prefix sub (a # s)" by fastforce
    moreover from * have "\<forall>i \<le> length s. \<not> prefix sub (drop i s)" by fastforce
    ultimately show "Index (a # s) sub = None" using Cons by simp
  qed
qed

text \<open>The first occurrence is the only position that has these two properties.\<close>

lemma Index_SomeI:
  assumes "prefix sub (drop i s)" and "i \<le> length s"
    and "\<And>j. j < i \<Longrightarrow> \<not> prefix sub (drop j s)"
  shows "Index s sub = Some i"
proof (cases "Index s sub")
  case None
  with assms(1,2) show ?thesis by (auto simp: Index_None)
next
  case (Some k)
  have "\<not> k < i" using assms(3) Index_prefix [OF Some] by blast
  moreover have "\<not> i < k" using assms(1) Index_least [OF Some] by blast
  ultimately show ?thesis using Some by simp
qed

lemma Index_append_prefix: "Index s sub = Some i \<Longrightarrow> Index (s @ t) sub = Some i"
proof (rule Index_SomeI)
  assume i: "Index s sub = Some i"
  from Index_prefix [OF i] Index_le [OF i] show "prefix sub (drop i (s @ t))"
    by (simp add: prefix_prefix)
  from Index_le [OF i] show "i \<le> length (s @ t)" by simp
  fix j assume "j < i"
  then have no: "\<not> prefix sub (drop j s)" using Index_least [OF i] by blast
  from i \<open>j < i\<close> Index_le [OF i] have "length sub \<le> length (drop j s)" and "j \<le> length s"
    by auto
  with no show "\<not> prefix sub (drop j (s @ t))"
    using prefix_length_prefix [of sub "drop j s @ t" "drop j s"] by auto
qed

lemma Index_Some_0: "prefix sub s \<Longrightarrow> Index s sub = Some 0"
  by (cases s) auto

text \<open>A string that holds none of the separator's first character has no occurrence.\<close>

lemma Index_no_hd: "c \<notin> set s \<Longrightarrow> Index s (c # cs) = None"
  by (induction s) auto

lemma LastIndex_no_hd: "c \<notin> set s \<Longrightarrow> LastIndex s (c # cs) = -1"
  by (induction s) auto

lemma LastIndex_single_append:
  "c \<notin> set t \<Longrightarrow> LastIndex (s @ c # t) [c] = int (length s)"
  by (induction s) (auto simp: LastIndex_no_hd)

lemma LastIndex_bounds: "LastIndex s sep < int (length s) + 1" "LastIndex s sep \<ge> -1"
  by (induction s) (auto simp: Let_def)

lemma LastIndex_nonneg_occurs:
  "0 \<le> LastIndex s sep \<Longrightarrow> prefix sep (drop (nat (LastIndex s sep)) s)"
proof (induction s)
  case Nil
  then show ?case by (auto split: if_splits)
next
  case (Cons a s)
  show ?case
  proof (cases "0 \<le> LastIndex s sep")
    case True
    then have "nat (LastIndex s sep + 1) = Suc (nat (LastIndex s sep))" by simp
    with True Cons show ?thesis by (simp add: Let_def)
  next
    case False
    with Cons show ?thesis by (auto simp: Let_def split: if_splits)
  qed
qed

section \<open>Runes and UTF-8\<close>

type_synonym rune = nat

abbreviation byte :: "char \<Rightarrow> nat" where
  "byte c \<equiv> of_char c"

definition RuneError :: rune where
  "RuneError = 65533"

definition in_range :: "nat \<Rightarrow> nat \<Rightarrow> nat \<Rightarrow> bool" where
  "in_range lo hi b \<longleftrightarrow> lo \<le> b \<and> b \<le> hi"

text \<open>
  \<open>utf8.DecodeRune\<close>: the rune at the start of the bytes and its width; an ill-formed sequence is
  \<open>RuneError\<close> of width 1. The ranges of the second byte are the table of package \<open>utf8\<close>.
\<close>

definition second_range :: "nat \<Rightarrow> (nat \<times> nat \<times> nat) option" where
  "second_range b =
     (if in_range 194 223 b then Some (2, 128, 191)
      else if b = 224 then Some (3, 160, 191)
      else if in_range 225 236 b then Some (3, 128, 191)
      else if b = 237 then Some (3, 128, 159)
      else if in_range 238 239 b then Some (3, 128, 191)
      else if b = 240 then Some (4, 144, 191)
      else if in_range 241 243 b then Some (4, 128, 191)
      else if b = 244 then Some (4, 128, 143)
      else None)"

fun DecodeRune :: "string \<Rightarrow> rune \<times> nat" where
  "DecodeRune [] = (RuneError, 0)"
| "DecodeRune (c # cs) =
     (let b0 = byte c in
      if b0 < 128 then (b0, 1)
      else (case second_range b0 of
          None \<Rightarrow> (RuneError, 1)
        | Some (sz, lo, hi) \<Rightarrow>
            (if length cs + 1 < sz then (RuneError, 1)
             else (let bs = map byte (take (sz - 1) cs) in
               if \<not> in_range lo hi (bs ! 0) \<or> \<not> list_all (in_range 128 191) (drop 1 bs)
               then (RuneError, 1)
               else if sz = 2 then ((b0 - 192) * 64 + (bs ! 0 - 128), 2)
               else if sz = 3 then
                 ((b0 - 224) * 4096 + (bs ! 0 - 128) * 64 + (bs ! 1 - 128), 3)
               else ((b0 - 240) * 262144 + (bs ! 0 - 128) * 4096 +
                     (bs ! 1 - 128) * 64 + (bs ! 2 - 128), 4)))))"

lemma DecodeRune_width: "s \<noteq> [] \<Longrightarrow> 0 < snd (DecodeRune s)"
  by (cases s) (auto simp: Let_def split: option.splits prod.splits)

lemma DecodeRune_ascii [simp]: "byte c < 128 \<Longrightarrow> DecodeRune (c # cs) = (byte c, 1)"
  by (simp add: Let_def)

text \<open>\<open>utf8.RuneStart\<close> and \<open>utf8.DecodeLastRune\<close>: the loop looks back over at most three bytes.\<close>

definition RuneStart :: "char \<Rightarrow> bool" where
  "RuneStart c \<longleftrightarrow> \<not> in_range 128 191 (byte c)"

definition DecodeLastRune :: "string \<Rightarrow> rune \<times> nat" where
  "DecodeLastRune s =
     (if s = [] then (RuneError, 0)
      else if byte (last s) < 128 then (byte (last s), 1)
      else (case find (\<lambda>k. k \<le> length s \<and> RuneStart (s ! (length s - k))) [2, 3, 4] of
          None \<Rightarrow> (RuneError, 1)
        | Some k \<Rightarrow> (let (r, w) = DecodeRune (drop (length s - k) s) in
            if w = k then (r, w) else (RuneError, 1))))"

lemma DecodeLastRune_width: "s \<noteq> [] \<Longrightarrow> 0 < snd (DecodeLastRune s)"
proof -
  assume s: "s \<noteq> []"
  have "0 < k" if "find (\<lambda>k. k \<le> length s \<and> RuneStart (s ! (length s - k))) [2, 3, 4] = Some k" for k
    using that by (auto split: if_splits)
  with s show ?thesis
    by (auto simp: DecodeLastRune_def Let_def split: option.splits prod.splits)
qed

text \<open>\<open>unicode.IsSpace\<close>: the Latin-1 cases and the White\_Space table above it.\<close>

definition IsSpace :: "rune \<Rightarrow> bool" where
  "IsSpace r \<longleftrightarrow>
     r \<in> {9, 10, 11, 12, 13, 32, 133, 160, 5760, 8232, 8233, 8239, 8287, 12288}
     \<or> in_range 8192 8202 r"

section \<open>Trimming\<close>

function TrimLeftFunc :: "string \<Rightarrow> (rune \<Rightarrow> bool) \<Rightarrow> string" where
  "TrimLeftFunc s f =
     (if s = [] then []
      else (let (r, w) = DecodeRune s in if f r then TrimLeftFunc (drop w s) f else s))"
  by pat_completeness auto
termination
proof (relation "measure (\<lambda>(s, f). length s)")
  fix s :: string and f :: "rune \<Rightarrow> bool" and x r w
  assume "s \<noteq> []" "x = DecodeRune s" "(r, w) = x" "f r"
  then have "0 < w" using DecodeRune_width [of s] by (metis snd_conv)
  with \<open>s \<noteq> []\<close> show "((drop w s, f), s, f) \<in> measure (\<lambda>(s, f). length s)" by simp
qed simp

function TrimRightFunc :: "string \<Rightarrow> (rune \<Rightarrow> bool) \<Rightarrow> string" where
  "TrimRightFunc s f =
     (if s = [] then []
      else (let (r, w) = DecodeLastRune s in
            if f r then TrimRightFunc (take (length s - w) s) f else s))"
  by pat_completeness auto
termination
proof (relation "measure (\<lambda>(s, f). length s)")
  fix s :: string and f :: "rune \<Rightarrow> bool" and x r w
  assume "s \<noteq> []" "x = DecodeLastRune s" "(r, w) = x" "f r"
  then have "0 < w" using DecodeLastRune_width [of s] by (metis snd_conv)
  with \<open>s \<noteq> []\<close> show "((take (length s - w) s, f), s, f) \<in> measure (\<lambda>(s, f). length s)"
    by simp
qed simp

declare TrimLeftFunc.simps [simp del] TrimRightFunc.simps [simp del]
declare TrimLeftFunc.simps [go_simps] TrimRightFunc.simps [go_simps] IsSpace_def [go_simps]
  in_range_def [go_simps] DecodeLastRune_def [go_simps]

definition TrimSpace :: "string \<Rightarrow> string" where
  [go_simps]: "TrimSpace s = TrimRightFunc (TrimLeftFunc s IsSpace) IsSpace"

definition ascii :: "string \<Rightarrow> bool" where
  "ascii s \<longleftrightarrow> (\<forall>c \<in> set s. byte c < 128)"

lemma ascii_append [simp]: "ascii (s @ t) \<longleftrightarrow> ascii s \<and> ascii t"
  by (auto simp: ascii_def)

lemma ascii_Cons [simp]: "ascii (c # s) \<longleftrightarrow> byte c < 128 \<and> ascii s"
  by (auto simp: ascii_def)

lemma ascii_Nil [simp]: "ascii []"
  by (simp add: ascii_def)

lemma ascii_subset: "ascii s \<Longrightarrow> set t \<subseteq> set s \<Longrightarrow> ascii t"
  by (auto simp: ascii_def)

lemma ascii_take [simp]: "ascii s \<Longrightarrow> ascii (take n s)"
  by (erule ascii_subset) (rule set_take_subset)

lemma ascii_drop [simp]: "ascii s \<Longrightarrow> ascii (drop n s)"
  by (erule ascii_subset) (rule set_drop_subset)

lemma ascii_dropWhile [simp]: "ascii s \<Longrightarrow> ascii (dropWhile P s)"
  by (erule ascii_subset) (auto dest: set_dropWhileD)

lemma TrimLeftFunc_Nil [simp, trim_simps]: "TrimLeftFunc [] f = []"
  by (simp add: TrimLeftFunc.simps)

text \<open>On ASCII text both trims are the byte-wise ones.\<close>

lemma TrimLeftFunc_ascii: "ascii s \<Longrightarrow> TrimLeftFunc s f = dropWhile (\<lambda>c. f (byte c)) s"
proof (induction s)
  case Nil
  then show ?case by simp
next
  case (Cons c s)
  then show ?case by (subst TrimLeftFunc.simps) simp
qed

lemmas [trim_simps] = TrimLeftFunc_ascii

lemma TrimRightFunc_snoc:
  "byte c < 128 \<Longrightarrow> TrimRightFunc (s @ [c]) f = (if f (byte c) then TrimRightFunc s f else s @ [c])"
  by (subst TrimRightFunc.simps) (simp add: DecodeLastRune_def)

lemma TrimRightFunc_ascii:
  "ascii s \<Longrightarrow> TrimRightFunc s f = rev (dropWhile (\<lambda>c. f (byte c)) (rev s))"
proof (induction s rule: rev_induct)
  case Nil
  then show ?case by (simp add: TrimRightFunc.simps)
next
  case (snoc c s)
  then show ?case by (simp add: TrimRightFunc_snoc)
qed

text \<open>A trim only ever drops from its own end, whatever the bytes.\<close>

lemma TrimLeftFunc_suffix: "suffix (TrimLeftFunc s f) s"
proof (induction s f rule: TrimLeftFunc.induct)
  case (1 s f)
  show ?case
  proof (cases "s = []")
    case False
    obtain r w where rw: "DecodeRune s = (r, w)" by force
    show ?thesis
    proof (cases "f r")
      case True
      have "suffix (TrimLeftFunc (drop w s) f) (drop w s)"
        by (rule "1.IH" [OF False refl rw [symmetric] True])
      then show ?thesis
        using False True rw by (subst TrimLeftFunc.simps) (auto intro: suffix_order.trans suffix_drop)
    qed (use False rw in \<open>subst TrimLeftFunc.simps, simp\<close>)
  qed simp
qed

lemma TrimRightFunc_prefix: "prefix (TrimRightFunc s f) s"
proof (induction s f rule: TrimRightFunc.induct)
  case (1 s f)
  show ?case
  proof (cases "s = []")
    case True
    then show ?thesis by (simp add: TrimRightFunc.simps)
  next
    case False
    obtain r w where rw: "DecodeLastRune s = (r, w)" by force
    show ?thesis
    proof (cases "f r")
      case True
      have "prefix (TrimRightFunc (take (length s - w) s) f) (take (length s - w) s)"
        by (rule "1.IH" [OF False refl rw [symmetric] True])
      then show ?thesis
        using False True rw
        by (subst TrimRightFunc.simps) (auto intro: prefix_order.trans take_is_prefix)
    qed (use False rw in \<open>subst TrimRightFunc.simps, simp\<close>)
  qed
qed

lemma dropWhile_append_cases:
  "dropWhile P (s @ t) = (if dropWhile P s = [] then dropWhile P t else dropWhile P s @ t)"
  by (induction s) auto

section \<open>Splitting\<close>

text \<open>
  \<open>strings.Split\<close>: the pieces between the non-overlapping occurrences of \<open>sep\<close>; with an empty
  separator, the UTF-8 sequences of the text (\<open>strings.explode\<close>).
\<close>

function explode :: "string \<Rightarrow> string list" where
  "explode s =
     (if s = [] then []
      else (let w = snd (DecodeRune s) in take w s # explode (drop w s)))"
  by pat_completeness auto
termination
  by (relation "measure length") (auto simp: DecodeRune_width)

function Split_at :: "'a list \<Rightarrow> 'a list \<Rightarrow> 'a list list" where
  "Split_at s sep =
     (if sep = [] then [s]
      else (case Index s sep of
        None \<Rightarrow> [s]
      | Some i \<Rightarrow> take i s # Split_at (drop (i + length sep) s) sep))"
  by pat_completeness auto
termination
proof (relation "measure (\<lambda>(s, sep). length s)")
  fix s sep :: "'a list" and i
  assume "sep \<noteq> []" "Index s sep = Some i"
  then have "0 < length sep" and "i + length sep \<le> length s" by (auto dest: Index_le)
  then have "length s - (i + length sep) < length s" by linarith
  then show "((drop (i + length sep) s, sep), s, sep) \<in> measure (\<lambda>(s, sep). length s)"
    by simp
qed simp

declare explode.simps [simp del] Split_at.simps [simp del]
declare explode.simps [go_simps] Split_at.simps [go_simps]

definition Split :: "string \<Rightarrow> string \<Rightarrow> string list" where
  [go_simps]: "Split s sep = (if sep = [] then explode s else Split_at s sep)"

lemma Split_at_nonempty: "Split_at s sep \<noteq> []"
  by (subst Split_at.simps) (simp split: option.splits)

lemma Join_Split_at: "Join (Split_at s sep) sep = s"
proof (induction s sep rule: Split_at.induct)
  case (1 s sep)
  show ?case
  proof (cases "sep = [] \<or> Index s sep = None")
    case True
    then show ?thesis by (subst Split_at.simps) auto
  next
    case False
    then obtain i where i: "Index s sep = Some i" and ne: "sep \<noteq> []" by auto
    have IH: "Join (Split_at (drop (i + length sep) s) sep) sep = drop (i + length sep) s"
      by (rule "1.IH" [OF ne i])
    obtain y ys where ys: "Split_at (drop (i + length sep) s) sep = y # ys"
      using Split_at_nonempty by (cases "Split_at (drop (i + length sep) s) sep") auto
    have "take (length sep) (drop i s) = sep"
      using Index_prefix [OF i] by (auto simp: prefix_def)
    then have "take i s @ sep @ drop (i + length sep) s = s"
      by (metis add.commute append_take_drop_id drop_drop)
    with i ne ys IH show ?thesis by (subst Split_at.simps) simp
  qed
qed

text \<open>Dropping the first piece and joining the rest is what follows the first occurrence.\<close>

lemma Join_tl_Split_at:
  assumes "Index s sep = Some i" and "sep \<noteq> []"
  shows "Join (tl (Split_at s sep)) sep = drop (i + length sep) s"
    and "hd (Split_at s sep) = take i s"
  using assms by (subst Split_at.simps, simp add: Join_Split_at)+

lemma Split_at_single:
  "c \<notin> set s \<Longrightarrow> Split_at s [c] = [s]"
  by (subst Split_at.simps) (simp add: Index_no_hd)

lemma Index_single_append: "c \<notin> set s \<Longrightarrow> Index (s @ c # t) [c] = Some (length s)"
  by (induction s) auto

lemma Split_at_single_append:
  "c \<notin> set s \<Longrightarrow> Split_at (s @ c # t) [c] = s # Split_at t [c]"
  by (subst Split_at.simps) (simp add: Index_single_append)

section \<open>Letter case\<close>

definition lower_byte :: "char \<Rightarrow> char" where
  "lower_byte c = (if in_range 65 90 (byte c) then char_of (byte c + 32) else c)"

definition upper_byte :: "char \<Rightarrow> char" where
  "upper_byte c = (if in_range 97 122 (byte c) then char_of (byte c - 32) else c)"

definition ToLower :: "string \<Rightarrow> string" where
  "ToLower s = map lower_byte s"

definition ToUpper :: "string \<Rightarrow> string" where
  "ToUpper s = map upper_byte s"

definition EqualFold :: "string \<Rightarrow> string \<Rightarrow> bool" where
  "EqualFold s t \<longleftrightarrow> ToLower s = ToLower t"

declare lower_byte_def [go_simps] upper_byte_def [go_simps] ToLower_def [go_simps]
  ToUpper_def [go_simps] EqualFold_def [go_simps]

lemma EqualFold_refl [simp]: "EqualFold s s"
  by (simp add: EqualFold_def)

lemma EqualFold_sym: "EqualFold s t \<Longrightarrow> EqualFold t s"
  by (simp add: EqualFold_def)

lemma EqualFold_trans: "EqualFold s t \<Longrightarrow> EqualFold t u \<Longrightarrow> EqualFold s u"
  by (simp add: EqualFold_def)

text \<open>\<open>cmp.Or\<close> on strings: the first argument unless it is empty.\<close>

definition cmp_Or :: "string \<Rightarrow> string \<Rightarrow> string" where
  [go_simps]: "cmp_Or a b = (if a \<noteq> [] then a else b)"

end
