(* ===== verification/Go_Filepath.thy ===== *)
theory Go_Filepath
  imports Go_Prelude
begin

text \<open>
  Package \<open>path/filepath\<close> on a system whose separator is \<open>/\<close>: \<open>Clean\<close>, \<open>Join\<close>, \<open>Dir\<close> and
  \<open>Base\<close> as the sources use them. A path is read as the list of its elements; \<open>clean_elems\<close> is
  the loop of \<open>filepath.Clean\<close> over them, with the elements kept so far as a stack.
\<close>

definition Sep :: char where
  [go_simps]: "Sep = CHR ''/''"

fun clean_elems :: "bool \<Rightarrow> string list \<Rightarrow> string list \<Rightarrow> string list" where
  "clean_elems rooted out [] = rev out"
| "clean_elems rooted out (e # es) =
     (if e = '''' \<or> e = ''.'' then clean_elems rooted out es
      else if e = ''..'' then
        (if out \<noteq> [] \<and> hd out \<noteq> ''..'' then clean_elems rooted (tl out) es
         else if rooted then clean_elems rooted out es
         else clean_elems rooted (''..'' # out) es)
      else clean_elems rooted (e # out) es)"

definition Clean :: "string \<Rightarrow> string" where
  [go_simps]: "Clean p =
     (let rooted = prefix [Sep] p;
          es = clean_elems rooted [] (Split_at p [Sep]);
          r = (if rooted then [Sep] else []) @ Join es [Sep]
      in if r = [] then ''.'' else r)"

text \<open>\<open>filepath.Join\<close>: leading empty elements are dropped, the rest joined and cleaned.\<close>

definition filepath_Join :: "string list \<Rightarrow> string" where
  [go_simps]: "filepath_Join elem =
     (case dropWhile (\<lambda>e. e = []) elem of [] \<Rightarrow> [] | es \<Rightarrow> Clean (Join es [Sep]))"

text \<open>\<open>filepath.Dir\<close>: what precedes the last separator, cleaned.\<close>

definition filepath_Dir :: "string \<Rightarrow> string" where
  [go_simps]: "filepath_Dir p = Clean (take (nat (LastIndex p [Sep] + 1)) p)"

section \<open>Elements that Clean leaves alone\<close>

text \<open>A path element that is neither empty, nor a dot, nor two dots, and holds no separator.\<close>

definition plain_elem :: "string \<Rightarrow> bool" where
  "plain_elem e \<longleftrightarrow> e \<noteq> '''' \<and> e \<noteq> ''.'' \<and> e \<noteq> ''..'' \<and> Sep \<notin> set e"

lemma plain_elemD: "plain_elem e \<Longrightarrow> e \<noteq> []" "plain_elem e \<Longrightarrow> Sep \<notin> set e"
  by (auto simp: plain_elem_def)

lemma clean_elems_plain:
  "list_all plain_elem es \<Longrightarrow> clean_elems rooted out es = rev out @ es"
  by (induction es arbitrary: out) (simp_all add: plain_elem_def)

lemma Split_at_Join:
  "es \<noteq> [] \<Longrightarrow> list_all (\<lambda>e. c \<notin> set e) es \<Longrightarrow> Split_at (Join es [c]) [c] = es"
proof (induction es rule: induct_list012)
  case (2 x)
  then show ?case by (simp add: Split_at_single)
next
  case (3 x y zs)
  then show ?case by (simp add: Split_at_single_append)
qed simp

lemma hd_Join: "es \<noteq> [] \<Longrightarrow> hd es \<noteq> [] \<Longrightarrow> Join es sep = hd (hd es) # tl (Join es sep)"
  by (induction es rule: induct_list012) auto

lemma Clean_Join_plain:
  assumes "es \<noteq> []" and "list_all plain_elem es"
  shows "Clean (Join es [Sep]) = Join es [Sep]"
proof -
  have hd: "plain_elem (hd es)" using assms by (cases es) auto
  have split: "Split_at (Join es [Sep]) [Sep] = es"
    using assms by (intro Split_at_Join) (auto elim: list.pred_mono_strong dest: plain_elemD)
  have J: "Join es [Sep] = hd (hd es) # tl (Join es [Sep])"
    using assms plain_elemD [OF hd] by (intro hd_Join) auto
  have "hd (hd es) \<noteq> Sep" using plain_elemD [OF hd] by (metis hd_in_set)
  with J have "\<not> prefix [Sep] (Join es [Sep])" by (metis Cons_prefix_Cons)
  moreover have "Join es [Sep] \<noteq> []" by (subst J) simp
  ultimately show ?thesis using split assms(2) by (simp add: Clean_def Let_def clean_elems_plain)
qed

lemma filepath_Join_plain:
  assumes "es \<noteq> []" and "list_all plain_elem es"
  shows "filepath_Join es = Join es [Sep]"
proof -
  have "dropWhile (\<lambda>e. e = []) es = es" using assms by (cases es) (auto dest: plain_elemD)
  with assms show ?thesis by (cases es) (auto simp: filepath_Join_def Clean_Join_plain)
qed

end
