(* ===== verification/Model_Name.thy ===== *)
theory Model_Name
  imports Go_Filepath
begin

text \<open>
  Model names, after \<open>types/model/name.go\<close>: parsing, merging with the defaults, validity of each
  part, printing and the mapping to a path below the manifest directory. A Go string is its bytes;
  \<open>Filepath\<close> panics on an invalid name, which is \<open>None\<close> here.
\<close>

section \<open>Data\<close>

definition MissingPart :: string where "MissingPart = ''!MISSING!''"
definition defaultHost :: string where "defaultHost = ''registry.yollama.ai''"
definition defaultNamespace :: string where "defaultNamespace = ''library''"
definition defaultTag :: string where "defaultTag = ''latest''"
definition defaultProtocolScheme :: string where "defaultProtocolScheme = ''https''"

datatype partKind = kindHost | kindNamespace | kindModel | kindTag | kindDigest

fun partKind_String :: "partKind \<Rightarrow> string" where
  "partKind_String kindHost = ''host''"
| "partKind_String kindNamespace = ''namespace''"
| "partKind_String kindModel = ''model''"
| "partKind_String kindTag = ''tag''"
| "partKind_String kindDigest = ''digest''"

record Name =
  Host :: string
  Namespace :: string
  Model :: string
  Tag :: string
  ProtocolScheme :: string

definition emptyName :: Name where
  "emptyName = \<lparr>Host = [], Namespace = [], Model = [], Tag = [], ProtocolScheme = []\<rparr>"

definition DefaultName :: Name where
  "DefaultName = \<lparr>Host = defaultHost, Namespace = defaultNamespace, Model = [],
     Tag = defaultTag, ProtocolScheme = defaultProtocolScheme\<rparr>"

section \<open>Operations\<close>

definition cutLast :: "string \<Rightarrow> string \<Rightarrow> string \<times> string \<times> bool" where
  "cutLast s sep =
     (let i = LastIndex s sep in
      if i \<ge> 0 then (take (nat i) s, drop (nat i + length sep) s, True) else (s, [], False))"

definition cutPromised :: "string \<Rightarrow> string \<Rightarrow> string \<times> string \<times> bool" where
  "cutPromised s sep =
     (let (before, after, ok) = cutLast s sep in
      if \<not> ok then (before, after, False)
      else (cmp_Or before MissingPart, cmp_Or after MissingPart, True))"

definition ParseNameBare :: "string \<Rightarrow> Name" where
  "ParseNameBare s =
     (let (s, tag) =
        (if LastIndex s '':'' > LastIndex s ''/''
         then (let (b, a, _) = cutPromised s '':'' in (b, a)) else (s, []));
          n = emptyName\<lparr>Tag := tag\<rparr>;
          (s, model, promised) = cutPromised s ''/''
      in if \<not> promised then n\<lparr>Model := s\<rparr>
      else (let n = n\<lparr>Model := model\<rparr>;
                (s, ns, promised) = cutPromised s ''/''
        in if \<not> promised then n\<lparr>Namespace := s\<rparr>
        else (let n = n\<lparr>Namespace := ns\<rparr>;
                  (scheme, host, ok) = Cut s ''://''
          in if ok then n\<lparr>ProtocolScheme := scheme, Host := host\<rparr>
             else n\<lparr>Host := scheme\<rparr>)))"

definition Merge :: "Name \<Rightarrow> Name \<Rightarrow> Name" where
  "Merge a b = a\<lparr>Host := cmp_Or (Host a) (Host b),
     Namespace := cmp_Or (Namespace a) (Namespace b),
     Tag := cmp_Or (Tag a) (Tag b),
     ProtocolScheme := cmp_Or (ProtocolScheme a) (ProtocolScheme b)\<rparr>"

definition ParseName :: "string \<Rightarrow> Name" where
  "ParseName s = Merge (ParseNameBare s) DefaultName"

definition Name_String :: "Name \<Rightarrow> string" where
  "Name_String n =
     (if Host n \<noteq> [] then Host n @ ''/'' else []) @
     (if Namespace n \<noteq> [] then Namespace n @ ''/'' else []) @
     Model n @ (if Tag n \<noteq> [] then '':'' @ Tag n else [])"

definition DisplayShortest :: "Name \<Rightarrow> string" where
  "DisplayShortest n =
     (if \<not> EqualFold (Host n) defaultHost then Host n @ ''/'' @ Namespace n @ ''/''
      else if \<not> EqualFold (Namespace n) defaultNamespace then Namespace n @ ''/''
      else []) @ Model n @ '':'' @ Tag n"

definition DisplayNamespaceModel :: "Name \<Rightarrow> string" where
  "DisplayNamespaceModel n = Namespace n @ ''/'' @ Model n"

definition isAlphanumericOrUnderscore :: "char \<Rightarrow> bool" where
  "isAlphanumericOrUnderscore c \<longleftrightarrow>
     in_range 65 90 (byte c) \<or> in_range 97 122 (byte c) \<or> in_range 48 57 (byte c) \<or> c = CHR ''_''"

definition isValidLen :: "partKind \<Rightarrow> string \<Rightarrow> bool" where
  "isValidLen kind s =
     (case kind of
        kindHost \<Rightarrow> length s \<ge> 1 \<and> length s \<le> 350
      | _ \<Rightarrow> length s \<ge> 1 \<and> length s \<le> 80)"

text \<open>
  The body of the loop of \<open>isValidPart\<close>. The loop ranges over the runes of the string and reads
  the first byte of each; a byte above 127 that starts a rune fails, so the first byte above 127
  ends the loop and looking at every byte gives the same answer.
\<close>

definition validChar :: "partKind \<Rightarrow> nat \<Rightarrow> char \<Rightarrow> bool" where
  "validChar kind i c =
     (if i = 0 then isAlphanumericOrUnderscore c
      else if c = CHR ''_'' \<or> c = CHR ''-'' then True
      else if c = CHR ''.'' then kind \<noteq> kindNamespace
      else if c = CHR '':'' then kind = kindHost \<or> kind = kindDigest
      else isAlphanumericOrUnderscore c)"

fun validChars :: "partKind \<Rightarrow> nat \<Rightarrow> string \<Rightarrow> bool" where
  "validChars kind i [] = True"
| "validChars kind i (c # cs) = (validChar kind i c \<and> validChars kind (Suc i) cs)"

definition isValidPart :: "partKind \<Rightarrow> string \<Rightarrow> bool" where
  "isValidPart kind s \<longleftrightarrow> isValidLen kind s \<and> validChars kind 0 s"

definition IsValidNamespace :: "string \<Rightarrow> bool" where
  "IsValidNamespace s = isValidPart kindNamespace s"

definition IsFullyQualified :: "Name \<Rightarrow> bool" where
  "IsFullyQualified n \<longleftrightarrow>
     isValidPart kindHost (Host n) \<and> isValidPart kindNamespace (Namespace n) \<and>
     isValidPart kindModel (Model n) \<and> isValidPart kindTag (Tag n)"

definition IsValid :: "Name \<Rightarrow> bool" where
  "IsValid n = IsFullyQualified n"

definition Filepath :: "Name \<Rightarrow> string option" where
  "Filepath n =
     (if \<not> IsFullyQualified n then None
      else Some (filepath_Join [Host n, Namespace n, Model n, Tag n]))"

definition ParseNameFromFilepath :: "string \<Rightarrow> Name" where
  "ParseNameFromFilepath s =
     (case Split_at s [Sep] of
        [h, ns, m, t] \<Rightarrow>
          (let n = emptyName\<lparr>Host := h, Namespace := ns, Model := m, Tag := t\<rparr>
           in if \<not> IsFullyQualified n then emptyName else n)
      | _ \<Rightarrow> emptyName)"

definition Name_EqualFold :: "Name \<Rightarrow> Name \<Rightarrow> bool" where
  "Name_EqualFold n m \<longleftrightarrow>
     EqualFold (Host n) (Host m) \<and> EqualFold (Namespace n) (Namespace m) \<and>
     EqualFold (Model n) (Model m) \<and> EqualFold (Tag n) (Tag m)"

text \<open>The scheme and host of \<open>BaseURL\<close>.\<close>

definition BaseURL :: "Name \<Rightarrow> string \<times> string" where
  "BaseURL n = (ProtocolScheme n, Host n)"

lemmas name_eval = ParseName_def ParseNameBare_def Merge_def cutPromised_def cutLast_def Cut_def
  Name_String_def DisplayShortest_def IsFullyQualified_def isValidPart_def isValidLen_def
  validChar_def isAlphanumericOrUnderscore_def in_range_def emptyName_def DefaultName_def
  MissingPart_def defaultHost_def defaultNamespace_def defaultTag_def defaultProtocolScheme_def
  Let_def cmp_Or_def EqualFold_def ToLower_def lower_byte_def

section \<open>What a valid part cannot hold\<close>

lemma validChars_no_sep: "validChars kind i s \<Longrightarrow> CHR ''/'' \<notin> set s"
proof (induction s arbitrary: i)
  case (Cons c s)
  have "\<not> validChar kind i (CHR ''/'')"
    by (simp add: validChar_def isAlphanumericOrUnderscore_def in_range_def)
  with Cons show ?case by auto
qed simp

lemma validChars_no_colon:
  "validChars kind i s \<Longrightarrow> kind \<noteq> kindHost \<Longrightarrow> kind \<noteq> kindDigest \<Longrightarrow> CHR '':'' \<notin> set s"
proof (induction s arbitrary: i)
  case (Cons c s)
  then have "\<not> validChar kind i (CHR '':'')"
    by (simp add: validChar_def isAlphanumericOrUnderscore_def in_range_def)
  with Cons show ?case by auto
qed simp

lemma valid_part_nonempty: "isValidPart kind s \<Longrightarrow> s \<noteq> []"
  by (auto simp: isValidPart_def isValidLen_def split: partKind.splits)

lemma valid_part_no_sep: "isValidPart kind s \<Longrightarrow> CHR ''/'' \<notin> set s"
  by (auto simp: isValidPart_def dest: validChars_no_sep)

lemma valid_part_no_colon:
  "isValidPart kind s \<Longrightarrow> kind \<noteq> kindHost \<Longrightarrow> kind \<noteq> kindDigest \<Longrightarrow> CHR '':'' \<notin> set s"
  by (auto simp: isValidPart_def dest: validChars_no_colon)

lemma valid_part_hd: "isValidPart kind s \<Longrightarrow> isAlphanumericOrUnderscore (hd s)"
  by (cases s) (auto simp: isValidPart_def isValidLen_def validChar_def split: partKind.splits)

lemma valid_part_plain: "isValidPart kind s \<Longrightarrow> plain_elem s"
proof -
  assume v: "isValidPart kind s"
  have "hd s \<noteq> CHR ''.''"
    using valid_part_hd [OF v] by (auto simp: isAlphanumericOrUnderscore_def in_range_def)
  with valid_part_nonempty [OF v] valid_part_no_sep [OF v] show ?thesis
    by (auto simp: plain_elem_def Sep_def)
qed

lemma MissingPart_invalid [simp]: "\<not> isValidPart kind MissingPart"
  by (simp add: MissingPart_def isValidPart_def validChar_def isAlphanumericOrUnderscore_def
      in_range_def)

lemma MissingPart_nonempty [simp]: "MissingPart \<noteq> []"
  by (simp add: MissingPart_def)

section \<open>Printing and parsing\<close>

lemma cutLast_single:
  assumes "c \<notin> set t"
  shows "cutLast (s @ c # t) [c] = (s, t, True)"
  using LastIndex_single_append [OF assms, of s] by (simp add: cutLast_def Let_def)

lemma cutPromised_single:
  assumes "c \<notin> set t" and "s \<noteq> []" and "t \<noteq> []"
  shows "cutPromised (s @ c # t) [c] = (s, t, True)"
  using assms by (simp add: cutPromised_def cutLast_single cmp_Or_def)

lemma cutPromised_none: "c \<notin> set s \<Longrightarrow> cutPromised s [c] = (s, [], False)"
  by (simp add: cutPromised_def cutLast_def LastIndex_no_hd)

text \<open>How the parser reads the three shapes of a name that has a tag.\<close>

lemma parse_tag_split:
  assumes "CHR '':'' \<notin> set t" and "CHR ''/'' \<notin> set t" and "s \<noteq> []" and "t \<noteq> []"
  shows "LastIndex (s @ CHR '':'' # t) '':'' > LastIndex (s @ CHR '':'' # t) ''/''"
    and "cutPromised (s @ CHR '':'' # t) '':'' = (s, t, True)"
proof -
  have "LastIndex (s @ CHR '':'' # t) ''/'' < int (length s)" for s
    by (induction s) (use assms(2) in \<open>auto simp: Let_def LastIndex_no_hd\<close>)
  with LastIndex_single_append [OF assms(1), of s]
  show "LastIndex (s @ CHR '':'' # t) '':'' > LastIndex (s @ CHR '':'' # t) ''/''" by simp
  show "cutPromised (s @ CHR '':'' # t) '':'' = (s, t, True)"
    using assms by (intro cutPromised_single)
qed

lemma Cut_no_scheme: "CHR ''/'' \<notin> set s \<Longrightarrow> Cut s ''://'' = (s, [], False)"
proof -
  assume s: "CHR ''/'' \<notin> set s"
  have "\<not> prefix ''://'' (drop i s)" for i
    using s by (auto simp: prefix_def) (metis in_set_dropD list.set_intros(1) list.set_intros(2))
  then have "Index s ''://'' = None" by (simp add: Index_None)
  then show ?thesis by (simp add: Cut_def)
qed

lemma ParseNameBare_full:
  assumes "isValidPart kindHost h" and "isValidPart kindNamespace ns"
    and "isValidPart kindModel m" and "isValidPart kindTag t"
  shows "ParseNameBare (h @ CHR ''/'' # ns @ CHR ''/'' # m @ CHR '':'' # t) =
    emptyName\<lparr>Host := h, Namespace := ns, Model := m, Tag := t\<rparr>"
proof -
  note ne = assms [THEN valid_part_nonempty] and ns = assms [THEN valid_part_no_sep]
  have t: "CHR '':'' \<notin> set t" using valid_part_no_colon [OF assms(4)] by simp
  let ?p = "h @ CHR ''/'' # ns @ CHR ''/'' # m"
  have "?p \<noteq> []" by simp
  note tag = parse_tag_split [OF t ns(4) this ne(4)]
  have 1: "cutPromised (?p) ''/'' = (h @ CHR ''/'' # ns, m, True)"
    using cutPromised_single [OF ns(3), of "h @ CHR ''/'' # ns"] ne by simp
  have 2: "cutPromised (h @ CHR ''/'' # ns) ''/'' = (h, ns, True)"
    using cutPromised_single [OF ns(2), of h] ne by simp
  from tag 1 2 Cut_no_scheme [OF ns(1)] show ?thesis
    by (simp add: ParseNameBare_def emptyName_def)
qed

lemma ParseNameBare_ns:
  assumes "isValidPart kindNamespace ns" and "isValidPart kindModel m" and "isValidPart kindTag t"
  shows "ParseNameBare (ns @ CHR ''/'' # m @ CHR '':'' # t) =
    emptyName\<lparr>Namespace := ns, Model := m, Tag := t\<rparr>"
proof -
  note ne = assms [THEN valid_part_nonempty] and ns = assms [THEN valid_part_no_sep]
  have t: "CHR '':'' \<notin> set t" using valid_part_no_colon [OF assms(3)] by simp
  have "ns @ CHR ''/'' # m \<noteq> []" by simp
  note tag = parse_tag_split [OF t ns(3) this ne(3)]
  from tag cutPromised_single [OF ns(2), of ns] cutPromised_none [OF ns(1)] ne show ?thesis
    by (simp add: ParseNameBare_def emptyName_def)
qed

lemma ParseNameBare_model:
  assumes "isValidPart kindModel m" and "isValidPart kindTag t"
  shows "ParseNameBare (m @ CHR '':'' # t) = emptyName\<lparr>Model := m, Tag := t\<rparr>"
proof -
  note ne = assms [THEN valid_part_nonempty] and ns = assms [THEN valid_part_no_sep]
  have t: "CHR '':'' \<notin> set t" using valid_part_no_colon [OF assms(2)] by simp
  from parse_tag_split [OF t ns(2) ne(1) ne(2)] cutPromised_none [OF ns(1)] show ?thesis
    by (simp add: ParseNameBare_def emptyName_def)
qed

text \<open>Which cut decides the tag and the model, whatever the rest of the name is.\<close>

lemma cutPromised_trailing:
  "cutPromised (s @ [c]) [c] = (cmp_Or s MissingPart, MissingPart, True)"
  using cutLast_single [of c "[]" s] by (simp add: cutPromised_def cmp_Or_def)

lemma ParseNameBare_Tag:
  assumes "LastIndex s ''/'' < LastIndex s '':''" and "cutPromised s '':'' = (b, a, ok)"
  shows "Tag (ParseNameBare s) = a"
  using assms by (simp add: ParseNameBare_def emptyName_def Let_def split: prod.split)

lemma ParseNameBare_Model:
  assumes "LastIndex s '':'' \<le> LastIndex s ''/''" and "cutPromised s ''/'' = (b, a, True)"
  shows "Model (ParseNameBare s) = a"
  using assms by (simp add: ParseNameBare_def emptyName_def Let_def split: prod.split)

lemmas fully_qualifiedD = IsFullyQualified_def [THEN iffD1, THEN conjunct1]
  IsFullyQualified_def [THEN iffD1, THEN conjunct2, THEN conjunct1]
  IsFullyQualified_def [THEN iffD1, THEN conjunct2, THEN conjunct2, THEN conjunct1]
  IsFullyQualified_def [THEN iffD1, THEN conjunct2, THEN conjunct2, THEN conjunct2]

lemma filepath_of_name:
  assumes "IsFullyQualified n"
  shows "\<exists>p. Filepath n = Some p \<and> Split_at p [Sep] = [Host n, Namespace n, Model n, Tag n]
    \<and> list_all plain_elem (Split_at p [Sep])
    \<and> ParseNameFromFilepath p = n\<lparr>ProtocolScheme := []\<rparr>"
proof -
  let ?es = "[Host n, Namespace n, Model n, Tag n]"
  have plain: "list_all plain_elem ?es"
    using assms by (auto simp: IsFullyQualified_def dest: valid_part_plain)
  have p: "Filepath n = Some (Join ?es [Sep])"
    using assms filepath_Join_plain [OF _ plain] by (simp add: Filepath_def)
  have split: "Split_at (Join ?es [Sep]) [Sep] = ?es"
    using plain by (intro Split_at_Join) (auto dest: plain_elemD)
  have "ParseNameFromFilepath (Join ?es [Sep]) = n\<lparr>ProtocolScheme := []\<rparr>"
    unfolding ParseNameFromFilepath_def split
    using assms by (simp add: IsFullyQualified_def emptyName_def)
  with p split plain show ?thesis by metis
qed

section \<open>Properties\<close>

text \<open>C12: printing a fully qualified name and parsing it back without defaults returns the same
  four parts; only the protocol scheme, which is never printed, is lost.\<close>

theorem name_string_roundtrip:
  assumes "IsFullyQualified n"
  shows "ParseNameBare (Name_String n) = n\<lparr>ProtocolScheme := []\<rparr>"
proof -
  note v = assms [THEN fully_qualifiedD(1)] assms [THEN fully_qualifiedD(2)]
    assms [THEN fully_qualifiedD(3)] assms [THEN fully_qualifiedD(4)]
  from ParseNameBare_full [OF v] v [THEN valid_part_nonempty] show ?thesis
    by (simp add: Name_String_def emptyName_def)
qed

text \<open>C13: a fully qualified name has a path, the path has exactly the four parts as its
  elements, none of them empty, a dot or two dots, so it stays below the manifest directory, and
  parsing the path gives the name back.\<close>

theorem name_filepath_roundtrip:
  assumes "IsFullyQualified n"
  shows "\<exists>p. Filepath n = Some p \<and> Split_at p [Sep] = [Host n, Namespace n, Model n, Tag n]
    \<and> list_all plain_elem (Split_at p [Sep])
    \<and> ParseNameFromFilepath p = n\<lparr>ProtocolScheme := []\<rparr>"
  using assms by (rule filepath_of_name)

text \<open>The shortest display form of a fully qualified name parses, with the defaults, to a
  fully qualified name equal to it up to letter case.\<close>

theorem display_shortest_roundtrip:
  assumes "IsFullyQualified n"
  shows "Name_EqualFold (ParseName (DisplayShortest n)) n
    \<and> IsFullyQualified (ParseName (DisplayShortest n))"
proof -
  note v = assms [THEN fully_qualifiedD(1)] assms [THEN fully_qualifiedD(2)]
    assms [THEN fully_qualifiedD(3)] assms [THEN fully_qualifiedD(4)]
  note ne = v [THEN valid_part_nonempty]
  have dflt: "isValidPart kindHost defaultHost" "isValidPart kindNamespace defaultNamespace"
    by (simp_all add: name_eval)
  have dne: "defaultHost \<noteq> []" "defaultNamespace \<noteq> []"
    by (simp_all add: defaultHost_def defaultNamespace_def)
  note parse = ParseNameBare_full [OF v] ParseNameBare_ns [OF v(2,3,4)]
    ParseNameBare_model [OF v(3,4)]
  show ?thesis
    using parse ne v dflt dne
    by (auto simp: DisplayShortest_def ParseName_def Merge_def DefaultName_def emptyName_def
        cmp_Or_def Name_EqualFold_def IsFullyQualified_def intro: EqualFold_sym)
qed

text \<open>A separator promises a part: whatever comes before it, a name that ends in a slash or
  in a colon never parses to a valid name.\<close>

theorem promised_part_missing:
  "\<not> IsValid (ParseName (s @ ''/'')) \<and> \<not> IsValid (ParseName (s @ '':''))"
proof
  have "LastIndex (s @ ''/'') '':'' < int (length s)" by (induction s) (auto simp: Let_def)
  then have "Model (ParseNameBare (s @ ''/'')) = MissingPart"
    using LastIndex_single_append [of "CHR ''/''" "[]" s]
    by (intro ParseNameBare_Model [OF _ cutPromised_trailing]) simp
  then show "\<not> IsValid (ParseName (s @ ''/''))"
    by (simp add: IsValid_def IsFullyQualified_def ParseName_def Merge_def)
  have "LastIndex (s @ '':'') ''/'' < int (length s)" by (induction s) (auto simp: Let_def)
  then have "Tag (ParseNameBare (s @ '':'')) = MissingPart"
    using LastIndex_single_append [of "CHR '':''" "[]" s]
    by (intro ParseNameBare_Tag [OF _ cutPromised_trailing]) simp
  then show "\<not> IsValid (ParseName (s @ '':''))"
    by (simp add: IsValid_def IsFullyQualified_def ParseName_def Merge_def cmp_Or_def)
qed

section \<open>Witnesses\<close>

definition sample_name :: Name where
  "sample_name = \<lparr>Host = ''example.com:80'', Namespace = ''ns'', Model = ''llama3.1'',
     Tag = ''8b'', ProtocolScheme = ''http''\<rparr>"

lemma sample_name_valid: "IsFullyQualified sample_name"
  by (simp add: sample_name_def name_eval)

theorem name_string_roundtrip_witness:
  "IsFullyQualified sample_name \<and>
   ParseNameBare ''example.com:80/ns/llama3.1:8b'' = sample_name\<lparr>ProtocolScheme := []\<rparr>"
  using name_string_roundtrip [OF sample_name_valid] sample_name_valid
  by (simp add: Name_String_def sample_name_def)

theorem name_filepath_roundtrip_witness:
  "Filepath sample_name = Some ''example.com:80/ns/llama3.1/8b'' \<and>
   ParseNameFromFilepath ''example.com:80/ns/llama3.1/8b'' = sample_name\<lparr>ProtocolScheme := []\<rparr>"
proof -
  obtain p where p: "Filepath sample_name = Some p"
    and r: "ParseNameFromFilepath p = sample_name\<lparr>ProtocolScheme := []\<rparr>"
    using name_filepath_roundtrip [OF sample_name_valid] by blast
  have "p = ''example.com:80/ns/llama3.1/8b''"
    using p sample_name_valid
    by (simp add: Filepath_def sample_name_def filepath_Join_plain plain_elem_def Sep_def)
  with p r show ?thesis by simp
qed

theorem display_shortest_roundtrip_witness:
  "IsFullyQualified sample_name \<and> Name_EqualFold (ParseName (DisplayShortest sample_name)) sample_name"
  using display_shortest_roundtrip [OF sample_name_valid] sample_name_valid by simp

end
