(* ===== verification/Chunked_Streams.thy ===== *)
theory Chunked_Streams
  imports Go_Prelude
begin

text \<open>
  Streaming. A model's output arrives in chunks, and several parsers look for a delimiter that may
  be cut anywhere. This theory holds what they share: the longest overlap between the end of the
  text seen so far and the start of the delimiter (\<open>overlap\<close> of \<open>thinking/parser.go\<close>), the facts
  that justify buffering exactly that overlap, and the interface of an incremental parser, the
  locale \<open>chunked\<close>, in which it is proved once that the cutting of the stream does not matter.
\<close>

section \<open>Overlaps\<close>

text \<open>The longest overlap between a suffix of \<open>s\<close> and a prefix of \<open>delim\<close>.\<close>

fun overlap_loop :: "'a list \<Rightarrow> 'a list \<Rightarrow> nat \<Rightarrow> nat" where
  "overlap_loop s delim 0 = 0"
| "overlap_loop s delim (Suc i) =
     (if HasSuffix s (take (Suc i) delim) then Suc i else overlap_loop s delim i)"

definition overlap :: "'a list \<Rightarrow> 'a list \<Rightarrow> nat" where
  "overlap s delim = overlap_loop s delim (min (length delim) (length s))"

lemma overlap_loop_le: "overlap_loop s d n \<le> n"
  by (induction n) auto

lemma overlap_loop_suffix: "HasSuffix s (take (overlap_loop s d n) d)"
  by (induction n) auto

lemma overlap_loop_ge: "i \<le> n \<Longrightarrow> HasSuffix s (take i d) \<Longrightarrow> i \<le> overlap_loop s d n"
  by (induction n) (auto simp: le_Suc_eq)

lemma overlap_le: "overlap s d \<le> length s" "overlap s d \<le> length d"
  using overlap_loop_le [of s d "min (length d) (length s)"] by (auto simp: overlap_def)

lemma overlap_suffix: "HasSuffix s (take (overlap s d) d)"
  by (simp add: overlap_def overlap_loop_suffix)

lemma overlap_ge: "i \<le> length d \<Longrightarrow> HasSuffix s (take i d) \<Longrightarrow> i \<le> overlap s d"
  by (auto simp: overlap_def dest: suffix_length_le intro!: overlap_loop_ge)

text \<open>Nothing before the buffered overlap can start an occurrence of the delimiter.\<close>

lemma no_occurrence_before_overlap:
  assumes none: "Index x d = None" and j: "j < length x - overlap x d"
  shows "\<not> prefix d (drop j (x @ b))"
proof
  assume p: "prefix d (drop j (x @ b))"
  have jx: "j < length x" using j by simp
  show False
  proof (cases "length d \<le> length x - j")
    case True
    with p jx have "prefix d (drop j x)"
      by (auto intro: prefix_length_prefix [of d "drop j x @ b" "drop j x"])
    with none jx show False by (auto simp: Index_None)
  next
    case False
    have "prefix (drop j x) d"
      by (rule prefix_length_prefix [of _ "drop j x @ b"]) (use p jx False in auto)
    then have "drop j x = take (length x - j) d" by (auto simp: prefix_def)
    then have "HasSuffix x (take (length x - j) d)" by (metis suffix_drop)
    then have "length x - j \<le> overlap x d" using False by (intro overlap_ge) auto
    with j show False by linarith
  qed
qed

lemma Index_shift:
  assumes "\<And>j. j < n \<Longrightarrow> \<not> prefix d (drop j s)" and "n \<le> length s"
  shows "Index s d = map_option ((+) n) (Index (drop n s) d)"
  using assms
proof (induction n arbitrary: s)
  case 0
  then show ?case by (simp add: option.map_ident)
next
  case (Suc n)
  then obtain a s' where s: "s = a # s'" by (cases s) auto
  have "\<not> prefix d s" using Suc.prems(1) [of 0] by simp
  moreover have "Index s' d = map_option ((+) n) (Index (drop n s') d)"
    using Suc.prems s by (intro Suc.IH) fastforce+
  ultimately show ?case by (simp add: s option.map_comp comp_def)
qed

lemma Index_overlap_append:
  assumes "Index x d = None"
  shows "Index (x @ b) d =
    map_option ((+) (length x - overlap x d)) (Index (drop (length x - overlap x d) x @ b) d)"
  using Index_shift [of "length x - overlap x d" d "x @ b"] no_occurrence_before_overlap [OF assms]
  by simp

lemma overlap_append:
  "overlap (x @ b) d = overlap (drop (length x - overlap x d) x @ b) d" (is "_ = overlap (?u @ b) d")
proof (rule antisym)
  have u: "length ?u = overlap x d" using overlap_le(1) [of x d] by simp
  have "HasSuffix (x @ b) (?u @ b)"
    by (simp add: suffix_drop)
  then show "overlap (?u @ b) d \<le> overlap (x @ b) d"
    by (intro overlap_ge overlap_le) (rule suffix_order.trans [OF overlap_suffix])
  define i where "i = overlap (x @ b) d"
  have suf: "HasSuffix (x @ b) (take i d)" unfolding i_def by (rule overlap_suffix)
  have id: "i \<le> length d" unfolding i_def by (rule overlap_le)
  then have len: "length (take i d) = i" by simp
  have "i \<le> length (?u @ b)"
  proof (rule ccontr)
    assume "\<not> i \<le> length (?u @ b)"
    then have big: "overlap x d + length b < i" using u by simp
    from suf obtain zs where zs: "x @ b = zs @ take i d" by (auto simp: suffix_def)
    from zs len have n: "length x + length b = length zs + i"
      by (metis length_append)
    have "take i d = drop (length zs) (x @ b)" by (simp add: zs)
    also have "\<dots> = drop (length zs) x @ b" using n big by simp
    finally have "take (i - length b) (take i d) = drop (length zs) x" using n by simp
    then have "HasSuffix x (take (i - length b) d)" by (simp add: min_def suffix_drop)
    then have "i - length b \<le> overlap x d"
      using id by (intro overlap_ge) auto
    with big show False by linarith
  qed
  moreover have "HasSuffix (x @ b) (?u @ b)" by (simp add: suffix_drop)
  ultimately have "HasSuffix (?u @ b) (take i d)"
    using suf len by (metis suffix_length_suffix)
  then have "i \<le> overlap (?u @ b) d" by (rule overlap_ge [OF id])
  then show "overlap (x @ b) d \<le> overlap (?u @ b) d" by (simp add: i_def)
qed

section \<open>Incremental parsers\<close>

text \<open>Feeding a first chunk and then the others, joining the outputs.\<close>

fun run_chunks :: "('s \<Rightarrow> 'c list \<Rightarrow> ('s \<times> 'o) option) \<Rightarrow> ('o \<Rightarrow> 'o \<Rightarrow> 'o) \<Rightarrow>
    's \<Rightarrow> 'c list \<Rightarrow> 'c list list \<Rightarrow> ('s \<times> 'o) option" where
  "run_chunks add join s c [] = add s c"
| "run_chunks add join s c (d # ds) =
     (case add s c of
        None \<Rightarrow> None
      | Some (s', out) \<Rightarrow>
          map_option (\<lambda>(s'', out'). (s'', join out out')) (run_chunks add join s' d ds))"

text \<open>
  The contract of an incremental parser: on good input it always answers and keeps its invariant,
  and two successive calls are one call on the joined input.
\<close>

locale chunked =
  fixes add :: "'s \<Rightarrow> 'c list \<Rightarrow> ('s \<times> 'o) option"
    and join :: "'o \<Rightarrow> 'o \<Rightarrow> 'o"
    and inv :: "'s \<Rightarrow> bool"
    and good :: "'c list \<Rightarrow> bool"
  assumes add_total: "inv s \<Longrightarrow> good c \<Longrightarrow> \<exists>s' out. add s c = Some (s', out) \<and> inv s'"
    and add_append: "inv s \<Longrightarrow> good a \<Longrightarrow> good b \<Longrightarrow> add s a = Some (s1, o1) \<Longrightarrow>
      add s1 b = Some (s2, o2) \<Longrightarrow> add s (a @ b) = Some (s2, join o1 o2)"
    and good_append: "good a \<Longrightarrow> good b \<Longrightarrow> good (a @ b)"
begin

lemma good_concat: "list_all good (c # cs) \<Longrightarrow> good (concat (c # cs))"
proof (induction cs arbitrary: c)
  case (Cons d cs)
  then have "good c" and "good (concat (d # cs))" by simp_all
  then show ?case using good_append by simp
qed simp

lemma run_chunks_concat:
  "inv s \<Longrightarrow> list_all good (c # cs) \<Longrightarrow> run_chunks add join s c cs = add s (concat (c # cs))"
proof (induction cs arbitrary: s c)
  case Nil
  then show ?case by simp
next
  case (Cons d cs)
  then have c: "good c" and rest: "good (concat (d # cs))"
    using good_concat [of d cs] by simp_all
  obtain s1 o1 where 1: "add s c = Some (s1, o1)" and inv1: "inv s1"
    using add_total [OF Cons.prems(1) c] by blast
  obtain s2 o2 where 2: "add s1 (concat (d # cs)) = Some (s2, o2)"
    using add_total [OF inv1 rest] by blast
  have "run_chunks add join s1 d cs = Some (s2, o2)"
    using Cons.IH [OF inv1] Cons.prems(2) 2 by simp
  with 1 add_append [OF Cons.prems(1) c rest 1 2] show ?case by simp
qed

lemma run_chunks_total:
  "inv s \<Longrightarrow> list_all good (c # cs) \<Longrightarrow> run_chunks add join s c cs \<noteq> None"
  using run_chunks_concat add_total [OF _ good_concat] by fastforce

end

end
