(* ===== verification/Thinking_Parser.thy ===== *)
theory Thinking_Parser
  imports Chunked_Streams
begin

text \<open>
  The streaming parser that separates a model's thinking from its answer, after
  \<open>thinking/parser.go\<close>. The parser keeps a state and the bytes it has not yet decided about;
  \<open>eat\<close> is one round of the loop of \<open>AddContent\<close>, \<open>None\<close> where the Go code would panic on an
  empty slice (which needs an empty tag).
\<close>

section \<open>Data\<close>

datatype thinkingState =
    LookingForOpening
  | ThinkingStartedEatingWhitespace
  | Thinking
  | ThinkingDoneEatingWhitespace
  | ThinkingDone

fun thinkingState_String :: "thinkingState \<Rightarrow> string" where
  "thinkingState_String LookingForOpening = ''LookingForOpening''"
| "thinkingState_String ThinkingStartedEatingWhitespace = ''ThinkingStartedEatingWhitespace''"
| "thinkingState_String Thinking = ''Thinking''"
| "thinkingState_String ThinkingDoneEatingWhitespace = ''ThinkingDoneEatingWhitespace''"
| "thinkingState_String ThinkingDone = ''ThinkingDone''"

record ThinkParser =
  state :: thinkingState
  OpeningTag :: string
  ClosingTag :: string
  acc :: string

section \<open>Operations\<close>

text \<open>Slicing \<open>split[1:]\<close> and reading \<open>split[0]\<close> panic on an empty split.\<close>

definition after_first :: "string \<Rightarrow> string \<Rightarrow> (string \<times> string) option" where
  "after_first s tag =
     (case Split s tag of [] \<Rightarrow> None | x # xs \<Rightarrow> Some (x, Join xs tag))"

definition eat :: "ThinkParser \<Rightarrow> (ThinkParser \<times> string \<times> string \<times> bool) option" where
  "eat s = (case state s of
     LookingForOpening \<Rightarrow>
       (let trimmed = TrimLeftFunc (acc s) IsSpace in
        if HasPrefix trimmed (OpeningTag s) then
          (case after_first trimmed (OpeningTag s) of
             None \<Rightarrow> None
           | Some (_, after) \<Rightarrow>
               (let after = TrimLeftFunc after IsSpace in
                Some (s\<lparr>acc := after, state :=
                    (if after = [] then ThinkingStartedEatingWhitespace else Thinking)\<rparr>,
                  [], [], True)))
        else if HasPrefix (OpeningTag s) trimmed then Some (s, [], [], False)
        else if trimmed = [] then Some (s, [], [], False)
        else Some (s\<lparr>state := ThinkingDone, acc := []\<rparr>, [], acc s, False))
   | ThinkingStartedEatingWhitespace \<Rightarrow>
       (let trimmed = TrimLeftFunc (acc s) IsSpace in
        if trimmed = [] then Some (s\<lparr>acc := []\<rparr>, [], [], False)
        else Some (s\<lparr>state := Thinking, acc := trimmed\<rparr>, [], [], True))
   | Thinking \<Rightarrow>
       (if Contains (acc s) (ClosingTag s) then
          (case after_first (acc s) (ClosingTag s) of
             None \<Rightarrow> None
           | Some (thinking, remaining) \<Rightarrow>
               (let remaining = TrimLeftFunc remaining IsSpace in
                Some (s\<lparr>acc := [], state :=
                    (if remaining = [] then ThinkingDoneEatingWhitespace else ThinkingDone)\<rparr>,
                  thinking, remaining, False)))
        else (let k = overlap (acc s) (ClosingTag s); n = length (acc s) in
          if k > 0 then Some (s\<lparr>acc := drop (n - k) (acc s)\<rparr>, take (n - k) (acc s), [], False)
          else Some (s\<lparr>acc := []\<rparr>, acc s, [], False)))
   | ThinkingDoneEatingWhitespace \<Rightarrow>
       (let trimmed = TrimLeftFunc (acc s) IsSpace in
        Some ((if trimmed \<noteq> [] then s\<lparr>acc := [], state := ThinkingDone\<rparr> else s\<lparr>acc := []\<rparr>),
          [], trimmed, False))
   | ThinkingDone \<Rightarrow> Some (s\<lparr>acc := []\<rparr>, [], acc s, False))"

text \<open>\<open>keepLooping\<close> is only ever set when the parser moves forward.\<close>

fun rank :: "thinkingState \<Rightarrow> nat" where
  "rank LookingForOpening = 2"
| "rank ThinkingStartedEatingWhitespace = 1"
| "rank _ = 0"

lemma eat_progress: "eat s = Some (s', t, r, True) \<Longrightarrow> rank (state s') < rank (state s)"
  by (auto simp: eat_def Let_def split: thinkingState.splits if_splits option.splits)

function eat_loop :: "ThinkParser \<Rightarrow> (ThinkParser \<times> string \<times> string) option" where
  "eat_loop s =
     (case eat s of
        None \<Rightarrow> None
      | Some (s', t, r, keepLooping) \<Rightarrow>
          (if keepLooping
           then (case eat_loop s' of
               None \<Rightarrow> None
             | Some (s'', t', r') \<Rightarrow> Some (s'', t @ t', r @ r'))
           else Some (s', t, r)))"
  by pat_completeness auto
termination
  by (relation "measure (\<lambda>s. rank (state s))") (auto dest: eat_progress)

declare eat_loop.simps [simp del]

definition AddContent :: "ThinkParser \<Rightarrow> string \<Rightarrow> (ThinkParser \<times> string \<times> string) option" where
  "AddContent s content = eat_loop (s\<lparr>acc := acc s @ content\<rparr>)"

text \<open>A stream of chunks, as the runner delivers them, with the outputs concatenated.\<close>

definition join_output :: "string \<times> string \<Rightarrow> string \<times> string \<Rightarrow> string \<times> string" where
  "join_output o1 o2 = (fst o1 @ fst o2, snd o1 @ snd o2)"

abbreviation feed :: "ThinkParser \<Rightarrow> string \<Rightarrow> string list \<Rightarrow> (ThinkParser \<times> string \<times> string) option"
  where "feed s c cs \<equiv> run_chunks AddContent join_output s c cs"

definition newParser :: "string \<Rightarrow> string \<Rightarrow> ThinkParser" where
  "newParser opening closing =
     \<lparr>state = LookingForOpening, OpeningTag = opening, ClosingTag = closing, acc = []\<rparr>"

section \<open>One call of the loop\<close>

abbreviation trim_ws :: "string \<Rightarrow> string" where
  "trim_ws s \<equiv> dropWhile (\<lambda>c. IsSpace (byte c)) s"

declare dropWhile_eq_Nil_conv [simp del]

lemma after_first_Index:
  "Index s tag = Some i \<Longrightarrow> tag \<noteq> [] \<Longrightarrow>
   after_first s tag = Some (take i s, drop (i + length tag) s)"
  using Join_tl_Split_at [of s tag i] Split_at_nonempty [of s tag]
  by (cases "Split_at s tag") (auto simp: after_first_def Split_def)

lemma eat_loop_rank_0:
  "rank (state s) = 0 \<Longrightarrow> eat_loop s = map_option (\<lambda>(s', t, r, _). (s', t, r)) (eat s)"
  by (subst eat_loop.simps) (auto split: option.splits dest: eat_progress)

lemma loop_done: "state s = ThinkingDone \<Longrightarrow> eat_loop s = Some (s\<lparr>acc := []\<rparr>, [], acc s)"
  by (simp add: eat_loop_rank_0 eat_def)

lemma loop_done_ws:
  "state s = ThinkingDoneEatingWhitespace \<Longrightarrow> ascii (acc s) \<Longrightarrow>
   eat_loop s = Some (s\<lparr>acc := [], state := (if trim_ws (acc s) = []
     then ThinkingDoneEatingWhitespace else ThinkingDone)\<rparr>, [], trim_ws (acc s))"
  by (cases s) (simp add: eat_loop_rank_0 eat_def Let_def TrimLeftFunc_ascii)

lemma loop_thinking_found:
  "state s = Thinking \<Longrightarrow> ascii (acc s) \<Longrightarrow> ClosingTag s \<noteq> [] \<Longrightarrow>
   Index (acc s) (ClosingTag s) = Some i \<Longrightarrow>
   eat_loop s = (let rem = trim_ws (drop (i + length (ClosingTag s)) (acc s)) in
     Some (s\<lparr>acc := [], state := (if rem = [] then ThinkingDoneEatingWhitespace else ThinkingDone)\<rparr>,
       take i (acc s), rem))"
  by (simp add: eat_loop_rank_0 eat_def Let_def Contains_def after_first_Index TrimLeftFunc_ascii)

lemma loop_thinking_none:
  "state s = Thinking \<Longrightarrow> Index (acc s) (ClosingTag s) = None \<Longrightarrow>
   eat_loop s = (let n = length (acc s) - overlap (acc s) (ClosingTag s) in
     Some (s\<lparr>acc := drop n (acc s)\<rparr>, take n (acc s), []))"
  by (auto simp: eat_loop_rank_0 eat_def Let_def Contains_def)

lemma loop_started:
  "state s = ThinkingStartedEatingWhitespace \<Longrightarrow> ascii (acc s) \<Longrightarrow>
   eat_loop s = (if trim_ws (acc s) = [] then Some (s\<lparr>acc := []\<rparr>, [], [])
     else eat_loop (s\<lparr>state := Thinking, acc := trim_ws (acc s)\<rparr>))"
  by (subst eat_loop.simps)
    (auto simp: eat_def Let_def TrimLeftFunc_ascii split: option.splits)

lemma loop_looking_open:
  assumes "state s = LookingForOpening" "ascii (acc s)" "OpeningTag s \<noteq> []"
    and eq: "trim_ws (acc s) = OpeningTag s @ rest"
  shows "eat_loop s = eat_loop (s\<lparr>acc := trim_ws rest, state :=
    (if trim_ws rest = [] then ThinkingStartedEatingWhitespace else Thinking)\<rparr>)"
proof -
  have "ascii (trim_ws (acc s))" using assms(2) by simp
  then have "ascii rest" unfolding eq by simp
  moreover have "Index (OpeningTag s @ rest) (OpeningTag s) = Some 0"
    by (rule Index_Some_0) simp
  ultimately show ?thesis
    using assms by (subst eat_loop.simps)
      (auto simp: eat_def Let_def TrimLeftFunc_ascii after_first_Index split: option.splits)
qed

lemma loop_looking_other:
  assumes "state s = LookingForOpening" "ascii (acc s)"
    and "\<not> prefix (OpeningTag s) (trim_ws (acc s))"
  shows "eat_loop s = (if prefix (trim_ws (acc s)) (OpeningTag s) then Some (s, [], [])
    else Some (s\<lparr>state := ThinkingDone, acc := []\<rparr>, [], acc s))"
proof -
  define t where "t = trim_ws (acc s)"
  have "TrimLeftFunc (acc s) IsSpace = t" using assms(2) by (simp add: TrimLeftFunc_ascii t_def)
  with assms show ?thesis
    unfolding t_def [symmetric] by (subst eat_loop.simps) (auto simp: eat_def Let_def)
qed

section \<open>Splitting the input does not matter\<close>

text \<open>Running the parser on what is buffered and then adding more, against adding it at once.\<close>

definition then_add :: "(ThinkParser \<times> string \<times> string) option \<Rightarrow> string \<Rightarrow>
    (ThinkParser \<times> string \<times> string) option" where
  "then_add res b = (case res of
      None \<Rightarrow> None
    | Some (s, t, r) \<Rightarrow> map_option (\<lambda>(s', t', r'). (s', t @ t', r @ r')) (AddContent s b))"

lemma then_add_Some:
  "then_add (Some (s, t, [])) b = map_option (\<lambda>(s', t', r'). (s', t @ t', r')) (AddContent s b)"
  by (simp add: then_add_def)

lemma then_add_Nil [simp]: "then_add (Some (s, [], [])) b = AddContent s b"
  by (cases "AddContent s b") (auto simp: then_add_def)

lemma split_thinking:
  assumes st: "state s = Thinking" and tag: "ClosingTag s \<noteq> []"
    and a: "ascii (acc s)" "ascii b"
  shows "then_add (eat_loop s) b = eat_loop (s\<lparr>acc := acc s @ b\<rparr>)"
proof (cases "Index (acc s) (ClosingTag s)")
  case (Some i)
  let ?rem = "trim_ws (drop (i + length (ClosingTag s)) (acc s))"
  have le: "i + length (ClosingTag s) \<le> length (acc s)" using Index_le [OF Some] .
  note whole = loop_thinking_found [of "s\<lparr>acc := acc s @ b\<rparr>" i]
  show ?thesis
    using whole loop_thinking_found [OF st a(1) tag Some] Index_append_prefix [OF Some, of b] le
      st a tag
    by (simp add: then_add_def AddContent_def Let_def dropWhile_append_cases loop_done
        loop_done_ws)
next
  case None
  define n where "n = length (acc s) - overlap (acc s) (ClosingTag s)"
  have n: "n \<le> length (acc s)" by (simp add: n_def)
  define s1 where "s1 = s\<lparr>acc := drop n (acc s) @ b\<rparr>"
  define s2 where "s2 = s\<lparr>acc := acc s @ b\<rparr>"
  have st12: "state s1 = Thinking" "state s2 = Thinking" "ClosingTag s1 = ClosingTag s"
    "ClosingTag s2 = ClosingTag s" "ascii (acc s1)" "ascii (acc s2)"
    using st a by (simp_all add: s1_def s2_def)
  have dr: "drop (n + m) (acc s2) = drop m (acc s1)" for m
    using n by (simp add: s1_def s2_def add.commute)
  have tk: "take (n + m) (acc s2) = take n (acc s) @ take m (acc s1)" for m
    using n by (subst take_add) (simp add: s1_def s2_def)
  have first: "then_add (eat_loop s) b =
      map_option (\<lambda>(s', t', r'). (s', take n (acc s) @ t', r')) (eat_loop s1)"
    using loop_thinking_none [OF st None]
    by (simp add: then_add_Some AddContent_def n_def s1_def Let_def)
  have ix: "Index (acc s2) (ClosingTag s) = map_option ((+) n) (Index (acc s1) (ClosingTag s))"
    using Index_overlap_append [OF None, of b] by (simp add: s1_def s2_def n_def)
  have upd: "s2\<lparr>acc := x, state := y\<rparr> = s1\<lparr>acc := x, state := y\<rparr>" "s2\<lparr>acc := x\<rparr> = s1\<lparr>acc := x\<rparr>"
    for x y by (simp_all add: s1_def s2_def)
  have "then_add (eat_loop s) b = eat_loop s2"
  proof (cases "Index (acc s1) (ClosingTag s)")
    case (Some i)
    with ix have "Index (acc s2) (ClosingTag s) = Some (n + i)" by simp
    from first loop_thinking_found [of s1 i] loop_thinking_found [of s2 "n + i"] this Some st12 tag
    show ?thesis by (simp add: Let_def tk dr upd add.assoc)
  next
    case none1: None
    with ix have none2: "Index (acc s2) (ClosingTag s) = None" by simp
    have ov: "overlap (acc s2) (ClosingTag s) = overlap (acc s1) (ClosingTag s)"
      using overlap_append [of "acc s" b "ClosingTag s"] by (simp add: s1_def s2_def n_def)
    have "length (acc s2) - overlap (acc s1) (ClosingTag s)
      = n + (length (acc s1) - overlap (acc s1) (ClosingTag s))"
      using overlap_le(1) [of "acc s1" "ClosingTag s"] n by (simp add: s1_def s2_def)
    with first loop_thinking_none [of s1] loop_thinking_none [of s2] st12 none1 none2 ov
    show ?thesis by (simp add: Let_def tk dr upd)
  qed
  then show ?thesis by (simp add: s2_def)
qed

lemma split_eat_loop:
  assumes tags: "OpeningTag s \<noteq> []" "ClosingTag s \<noteq> []" and a: "ascii (acc s)" "ascii b"
  shows "then_add (eat_loop s) b = eat_loop (s\<lparr>acc := acc s @ b\<rparr>)"
proof (cases "state s")
  case ThinkingDone
  then show ?thesis by (simp add: loop_done then_add_def AddContent_def)
next
  case ThinkingDoneEatingWhitespace
  then show ?thesis
    using a by (simp add: loop_done_ws loop_done then_add_def AddContent_def dropWhile_append_cases)
next
  case Thinking
  with tags a show ?thesis by (intro split_thinking)
next
  case ThinkingStartedEatingWhitespace
  show ?thesis
  proof (cases "trim_ws (acc s) = []")
    case True
    with ThinkingStartedEatingWhitespace a show ?thesis
      by (simp add: loop_started AddContent_def dropWhile_append_cases)
  next
    case False
    let ?s = "s\<lparr>state := Thinking, acc := trim_ws (acc s)\<rparr>"
    have "then_add (eat_loop s) b = then_add (eat_loop ?s) b"
      using ThinkingStartedEatingWhitespace a False
      by (simp add: loop_started)
    also have "\<dots> = eat_loop (?s\<lparr>acc := acc ?s @ b\<rparr>)"
      using tags a by (intro split_thinking) simp_all
    also have "\<dots> = eat_loop (s\<lparr>acc := acc s @ b\<rparr>)"
      using ThinkingStartedEatingWhitespace a False
      by (simp add: loop_started dropWhile_append_cases)
    finally show ?thesis .
  qed
next
  case LookingForOpening
  let ?t = "trim_ws (acc s)"
  consider (opened) rest where "?t = OpeningTag s @ rest"
    | (waiting) "\<not> prefix (OpeningTag s) ?t" "prefix ?t (OpeningTag s)"
    | (skipped) "\<not> prefix (OpeningTag s) ?t" "\<not> prefix ?t (OpeningTag s)"
    by (auto simp: prefix_def)
  then show ?thesis
  proof cases
    case opened
    have t: "trim_ws (acc s @ b) = OpeningTag s @ (rest @ b)"
      using opened tags by (simp add: dropWhile_append_cases)
    have "ascii ?t" using a(1) by simp
    then have rest: "ascii rest" unfolding opened by simp
    let ?s = "\<lambda>r. s\<lparr>acc := trim_ws r, state :=
      (if trim_ws r = [] then ThinkingStartedEatingWhitespace else Thinking)\<rparr>"
    have now: "eat_loop s = eat_loop (?s rest)"
      using loop_looking_open [OF LookingForOpening a(1) tags(1) opened] .
    have whole: "eat_loop (s\<lparr>acc := acc s @ b\<rparr>) = eat_loop (?s (rest @ b))"
      using loop_looking_open [of "s\<lparr>acc := acc s @ b\<rparr>" "rest @ b"] LookingForOpening a tags t
      by simp
    show ?thesis
    proof (cases "trim_ws rest = []")
      case True
      have tb: "trim_ws (rest @ b) = trim_ws b" using True by (simp add: dropWhile_append_cases)
      show ?thesis
        unfolding now whole tb using True a
        by (cases s) (simp add: AddContent_def loop_started)
    next
      case False
      have "then_add (eat_loop (?s rest)) b = eat_loop ((?s rest)\<lparr>acc := acc (?s rest) @ b\<rparr>)"
        using False rest a tags by (intro split_thinking) simp_all
      then show ?thesis
        unfolding now whole using False by (cases s) (simp add: dropWhile_append_cases)
    qed
  next
    case waiting
    with LookingForOpening a show ?thesis
      by (simp add: loop_looking_other AddContent_def)
  next
    case skipped
    then have "trim_ws (acc s) \<noteq> []" by auto
    then have t: "trim_ws (acc s @ b) = ?t @ b" by (simp add: dropWhile_append_cases)
    have "\<not> prefix (OpeningTag s) (?t @ b)" "\<not> prefix (?t @ b) (OpeningTag s)"
      using skipped by (auto simp: prefix_append dest: append_prefixD)
    with skipped LookingForOpening a t show ?thesis
      by (simp add: loop_looking_other loop_done then_add_def AddContent_def)
  qed
qed

section \<open>What every call keeps\<close>

definition wf_parser :: "ThinkParser \<Rightarrow> bool" where
  "wf_parser s \<longleftrightarrow> OpeningTag s \<noteq> [] \<and> ClosingTag s \<noteq> [] \<and> ascii (acc s)"

lemma eat_total:
  assumes "wf_parser s"
  obtains s' t r k where "eat s = Some (s', t, r, k)" and "wf_parser s'"
proof -
  have "\<exists>s' t r k. eat s = Some (s', t, r, k) \<and> wf_parser s'"
  proof (cases "state s")
    case LookingForOpening
    show ?thesis
    proof (cases "prefix (OpeningTag s) (trim_ws (acc s))")
      case True
      then have "Index (trim_ws (acc s)) (OpeningTag s) = Some 0" by (rule Index_Some_0)
      with True LookingForOpening assms show ?thesis
        by (auto simp: eat_def Let_def wf_parser_def TrimLeftFunc_ascii after_first_Index)
    qed (use LookingForOpening assms in \<open>auto simp: eat_def Let_def wf_parser_def TrimLeftFunc_ascii\<close>)
  next
    case Thinking
    then show ?thesis
      using assms
      by (cases "Index (acc s) (ClosingTag s)")
        (auto simp: eat_def Let_def wf_parser_def Contains_def after_first_Index)
  qed (use assms in \<open>auto simp: eat_def Let_def wf_parser_def TrimLeftFunc_ascii\<close>)
  with that show ?thesis by blast
qed

lemma eat_loop_total: "wf_parser s \<Longrightarrow> \<exists>s' t r. eat_loop s = Some (s', t, r) \<and> wf_parser s'"
proof (induction s rule: eat_loop.induct)
  case (1 s)
  obtain s' t r k where e: "eat s = Some (s', t, r, k)" and wf: "wf_parser s'"
    using eat_total [OF "1.prems"] by blast
  show ?case
  proof (cases k)
    case True
    obtain s'' t' r' where "eat_loop s' = Some (s'', t', r')" "wf_parser s''"
      using "1.IH" [OF e refl refl refl True wf] by blast
    with e True show ?thesis by (subst eat_loop.simps) simp
  next
    case False
    with e wf show ?thesis by (subst eat_loop.simps) simp
  qed
qed

lemma AddContent_total:
  "wf_parser s \<Longrightarrow> ascii c \<Longrightarrow> \<exists>s' t r. AddContent s c = Some (s', t, r) \<and> wf_parser s'"
  unfolding AddContent_def by (rule eat_loop_total) (simp add: wf_parser_def)

lemma AddContent_append:
  assumes "wf_parser s" and "ascii a" and "ascii b"
    and "AddContent s a = Some (s1, o1)" and "AddContent s1 b = Some (s2, o2)"
  shows "AddContent s (a @ b) = Some (s2, join_output o1 o2)"
proof -
  obtain t r where o1: "o1 = (t, r)" by force
  have "then_add (AddContent s a) b = AddContent s (a @ b)"
    using split_eat_loop [of "s\<lparr>acc := acc s @ a\<rparr>" b] assms(1-3)
    by (simp add: AddContent_def wf_parser_def)
  with assms(4,5) show ?thesis
    by (simp add: then_add_def join_output_def o1 split: prod.splits)
qed

interpretation thinking: chunked AddContent join_output wf_parser ascii
proof
  show "\<exists>s' out. AddContent s c = Some (s', out) \<and> wf_parser s'" if "wf_parser s" "ascii c" for s c
    using AddContent_total [OF that] by blast
qed (simp_all add: AddContent_append)

section \<open>Properties\<close>

text \<open>C7: the thinking parser is insensitive to how the stream is cut into chunks: for
  non-empty tags and ASCII text, feeding the chunks one by one never panics and gives the same
  concatenated thinking, the same concatenated answer and the same final state as one call on the
  whole text.\<close>

theorem thinking_chunking_invariant:
  assumes "opening \<noteq> []" and "closing \<noteq> []" and "list_all ascii (c # cs)"
  shows "feed (newParser opening closing) c cs
      = AddContent (newParser opening closing) (concat (c # cs))
    \<and> feed (newParser opening closing) c cs \<noteq> None"
proof -
  have wf: "wf_parser (newParser opening closing)"
    using assms by (simp add: wf_parser_def newParser_def)
  from thinking.run_chunks_total [OF wf assms(3)] thinking.run_chunks_concat [OF wf assms(3)]
  show ?thesis by auto
qed

text \<open>On a well-formed answer the parser returns exactly what stands between the tags as
  thinking and what follows the closing tag as content, each without its leading white space,
  provided the closing tag does not occur earlier.\<close>

theorem thinking_well_formed_answer:
  assumes tags: "opening \<noteq> []" "closing \<noteq> []" "\<not> IsSpace (byte (hd opening))"
      "\<not> IsSpace (byte (hd closing))"
    and asc: "ascii (ws @ opening @ thought @ closing @ answer)" "\<forall>c \<in> set ws. IsSpace (byte c)"
    and first: "Index (thought @ closing) closing = Some (length thought)"
  shows "\<exists>s. AddContent (newParser opening closing) (ws @ opening @ thought @ closing @ answer)
    = Some (s, TrimLeftFunc thought IsSpace, TrimLeftFunc answer IsSpace)"
proof -
  let ?s = "(newParser opening closing)\<lparr>acc := ws @ opening @ thought @ closing @ answer\<rparr>"
  let ?x = "trim_ws thought @ closing @ answer"
  have trim_tag: "trim_ws (t @ u) = t @ u" if "t \<noteq> []" "\<not> IsSpace (byte (hd t))" for t u
    using that by (cases t) auto
  have rest: "trim_ws (thought @ closing @ answer) = ?x"
    using trim_tag [OF tags(2,4)] by (simp add: dropWhile_append_cases)
  have lead: "trim_ws (ws @ opening @ thought @ closing @ answer)
      = opening @ thought @ closing @ answer"
    using trim_tag [OF tags(1,3)] asc(2) by simp
  have x: "?x \<noteq> []" using tags by simp
  obtain n where n: "trim_ws thought = drop n thought" "n \<le> length thought"
    by (metis dropWhile_eq_drop length_takeWhile_le)
  have "Index (trim_ws thought @ closing) closing = Some (length (trim_ws thought))"
  proof (rule Index_SomeI)
    fix j assume "j < length (trim_ws thought)"
    then have "n + j < length thought" using n by simp
    from Index_least [OF first this] n
    show "\<not> prefix closing (drop j (trim_ws thought @ closing))" by (simp add: add.commute)
  qed simp_all
  from Index_append_prefix [OF this, of answer]
  have ix: "Index ?x closing = Some (length (trim_ws thought))" by simp
  have "eat_loop ?s = eat_loop (?s\<lparr>acc := ?x, state := Thinking\<rparr>)"
    using loop_looking_open [of ?s "thought @ closing @ answer"] tags asc(1) lead rest x
    by (simp add: newParser_def)
  also have "\<dots> = Some ((?s\<lparr>acc := [], state := (if trim_ws answer = []
      then ThinkingDoneEatingWhitespace else ThinkingDone)\<rparr>), trim_ws thought, trim_ws answer)"
    using loop_thinking_found [of "?s\<lparr>acc := ?x, state := Thinking\<rparr>"] ix tags asc(1)
    by (simp add: newParser_def Let_def)
  finally show ?thesis
    using asc(1) by (simp add: AddContent_def TrimLeftFunc_ascii newParser_def)
qed

section \<open>Witnesses\<close>

theorem thinking_chunking_invariant_witness:
  "feed (newParser ''<t>'' ''</t>'') ''<'' [''t> a'', ''</'', ''t>'', '' b'']
     = AddContent (newParser ''<t>'' ''</t>'') ''<t> a</t> b''"
  using thinking_chunking_invariant [of "''<t>''" "''</t>''" "''<''"
      "[''t> a'', ''</'', ''t>'', '' b'']", THEN conjunct1] by (simp del: run_chunks.simps)

theorem thinking_well_formed_answer_witness:
  "\<exists>s. AddContent (newParser ''<t>'' ''</t>'') '' <t> hm</t> yes'' = Some (s, ''hm'', ''yes'')"
  using thinking_well_formed_answer [of "''<t>''" "''</t>''" "'' ''" "'' hm''" "'' yes''"]
  by (simp add: IsSpace_def in_range_def TrimLeftFunc_ascii)

end
