(* ===== verification/Tool_Parser.thy ===== *)
theory Tool_Parser
  imports Chunked_Streams
begin

text \<open>
  The parser that finds tool calls in a model's output stream, after \<open>tools/tools.go\<close>, and the
  search for the tag in a chat template, after \<open>tools/template.go\<close>. Package \<open>encoding/json\<close> is a
  parameter: \<open>unm\<close> stands for \<open>json.Unmarshal\<close> into a \<open>map[string]any\<close>, \<open>None\<close> for an error and
  \<open>Some None\<close> for a nil map. A Go map is listed in the order in which \<open>range\<close> visits it, so the
  theorems hold for every iteration order. The parser reads only the function name of a tool.
\<close>

section \<open>Data\<close>

datatype json =
    JNull
  | JBool bool
  | JNumber string
  | JString string
  | JArray "json list"
  | JObject "(string \<times> json) list"

type_synonym object = "(string \<times> json) list"
type_synonym unmarshal = "string \<Rightarrow> object option option"

datatype toolsState = LookingForTag | ToolCalling | Done

record Tool =
  Function_Name :: string

record ToolCall =
  Call_Name :: string
  Call_Arguments :: object
  Call_Index :: nat

record ToolParser =
  tool_tag :: string
  tools :: "Tool list"
  tool_state :: toolsState
  buffer :: string
  call_n :: nat

definition NewParserWithTag :: "Tool list \<Rightarrow> string \<Rightarrow> ToolParser" where
  "NewParserWithTag ts tag =
     \<lparr>tool_tag = tag, tools = ts, tool_state = LookingForTag, buffer = [], call_n = 0\<rparr>"

section \<open>Finding the tag, a tool name and its arguments\<close>

text \<open>The position, \<open>None\<close> for Go's \<open>-1\<close>, and whether the whole tag stands there.\<close>

definition findTag :: "ToolParser \<Rightarrow> nat option \<times> bool" where
  "findTag p = (case Index (buffer p) (tool_tag p) of
      Some i \<Rightarrow> (Some i, True)
    | None \<Rightarrow>
        (case find (\<lambda>i. HasSuffix (buffer p) (take i (tool_tag p)))
            (rev [1..<min (length (buffer p)) (length (tool_tag p)) + 1]) of
           Some i \<Rightarrow> (Some (length (buffer p) - i), False)
         | None \<Rightarrow> (None, False)))"

definition longest_name :: "Tool list \<Rightarrow> string" where
  "longest_name ts =
     fold (\<lambda>t longest. if length (Function_Name t) > length longest then Function_Name t
       else longest) ts []"

text \<open>Whether the buffer ends in a proper prefix of a tool's name.\<close>

definition partial_name :: "Tool list \<Rightarrow> string \<Rightarrow> bool" where
  "partial_name ts buf \<longleftrightarrow>
     list_ex (\<lambda>i. let tail = drop (length buf - i) buf in
         list_ex (\<lambda>t. length tail < length (Function_Name t) \<and> HasPrefix (Function_Name t) tail) ts)
       [1..<min (length buf) (length (longest_name ts)) + 1]"

text \<open>One round of the search; the state is the best match, its start and its end.\<close>

definition better_match ::
  "string \<Rightarrow> Tool \<Rightarrow> (Tool \<times> nat \<times> nat) option \<Rightarrow> (Tool \<times> nat \<times> nat) option" where
  "better_match buf t best =
     (case Index buf (Function_Name t) of
        None \<Rightarrow> best
      | Some pos \<Rightarrow>
          (let this = Some (t, pos, pos + length (Function_Name t)) in
           case best of
             None \<Rightarrow> this
           | Some (found, start, _) \<Rightarrow>
               if pos > start then best
               else if pos = start \<and> length (Function_Name t) \<le> length (Function_Name found)
               then best
               else this))"

definition findTool :: "Tool list \<Rightarrow> string \<Rightarrow> Tool option \<times> nat" where
  "findTool ts buf =
     (if buf = [] then (None, 0)
      else if partial_name ts buf then (None, 0)
      else (case fold (better_match buf) ts None of
          Some (found, start, end_pos) \<Rightarrow> (Some found, end_pos)
        | None \<Rightarrow> (None, 0)))"

text \<open>
  \<open>findMap\<close> and \<open>findObject\<close>: the map found, \<open>None\<close> for nil, and the flag. A value under a key may
  be an object or a string that holds one.
\<close>

definition findMap :: "unmarshal \<Rightarrow> string \<Rightarrow> object \<Rightarrow> object option \<times> bool" where
  "findMap unm name obj = (case map_of obj name of
      Some (JObject args) \<Rightarrow> (Some args, True)
    | Some (JString argsStr) \<Rightarrow>
        (case unm argsStr of Some argsData \<Rightarrow> (argsData, True) | None \<Rightarrow> (None, False))
    | _ \<Rightarrow> (None, False))"

function (sequential) findObject :: "unmarshal \<Rightarrow> string \<Rightarrow> object \<Rightarrow> object option \<times> bool"
  and findChild :: "unmarshal \<Rightarrow> string \<Rightarrow> object \<Rightarrow> object option \<times> bool"
  and findItem :: "unmarshal \<Rightarrow> string \<Rightarrow> json list \<Rightarrow> object option \<times> bool" where
  "findObject unm tool obj =
     (if map_of obj ''name'' \<noteq> None then
        (if snd (findMap unm ''arguments'' obj) then findMap unm ''arguments'' obj
         else if snd (findMap unm ''parameters'' obj) then findMap unm ''parameters'' obj
         else (None, True))
      else if snd (findMap unm tool obj) then findMap unm tool obj
      else findChild unm tool obj)"
| "findChild unm tool [] = (None, False)"
| "findChild unm tool ((k, JObject child) # rest) =
     (let (result, found) = findObject unm tool child in
      if found then (result, True) else findChild unm tool rest)"
| "findChild unm tool ((k, JArray items) # rest) =
     (let (result, found) = findItem unm tool items in
      if found then (result, True) else findChild unm tool rest)"
| "findChild unm tool (_ # rest) = findChild unm tool rest"
| "findItem unm tool [] = (None, False)"
| "findItem unm tool (JObject child # rest) =
     (let (result, found) = findObject unm tool child in
      if found then (result, True) else findItem unm tool rest)"
| "findItem unm tool (_ # rest) = findItem unm tool rest"
  by pat_completeness auto
termination
  by (relation "measure (\<lambda>x. case x of
        Inl (_, _, obj) \<Rightarrow> 2 * size_list (size_prod (\<lambda>_. 0) size) obj + 1
      | Inr (Inl (_, _, obj)) \<Rightarrow> 2 * size_list (size_prod (\<lambda>_. 0) size) obj
      | Inr (Inr (_, _, items)) \<Rightarrow> 2 * size_list size items)") auto

text \<open>
  The scan of \<open>findArguments\<close>: \<open>i\<close> is the position of the head of the rest, \<open>start\<close> the position
  of the outermost brace, \<open>None\<close> for \<open>-1\<close>. A nil map has no entries, hence finds nothing and is
  returned as it is.
\<close>

definition arguments_of :: "unmarshal \<Rightarrow> string \<Rightarrow> object option \<Rightarrow> object option" where
  "arguments_of unm tool data = (case data of
      None \<Rightarrow> None
    | Some obj \<Rightarrow> (let (args, found) = findObject unm tool obj in if found then args else data))"

fun scan_arguments :: "unmarshal \<Rightarrow> string \<Rightarrow> string \<Rightarrow> nat \<Rightarrow> nat option \<Rightarrow> int \<Rightarrow> bool \<Rightarrow> bool \<Rightarrow>
    string \<Rightarrow> object option \<times> nat" where
  "scan_arguments unm tool buf i start braces inString escaped [] = (None, 0)"
| "scan_arguments unm tool buf i start braces inString escaped (c # cs) =
     (if escaped then scan_arguments unm tool buf (i + 1) start braces inString False cs
      else if c = CHR 0x5C then scan_arguments unm tool buf (i + 1) start braces inString True cs
      else if c = CHR 0x22 then
        scan_arguments unm tool buf (i + 1) start braces (\<not> inString) False cs
      else if inString then scan_arguments unm tool buf (i + 1) start braces inString False cs
      else if c = CHR ''{'' then
        scan_arguments unm tool buf (i + 1) (if braces = 0 then Some i else start) (braces + 1)
          inString False cs
      else if c = CHR ''}'' then
        (case start of
           Some s \<Rightarrow>
             if braces - 1 = 0 then
               (case unm (take (i + 1 - s) (drop s buf)) of
                  None \<Rightarrow> scan_arguments unm tool buf (i + 1) None 0 inString False cs
                | Some data \<Rightarrow> (arguments_of unm tool data, i))
             else scan_arguments unm tool buf (i + 1) start (max 0 (braces - 1)) inString False cs
         | None \<Rightarrow>
             scan_arguments unm tool buf (i + 1) start (max 0 (braces - 1)) inString False cs)
      else scan_arguments unm tool buf (i + 1) start braces inString False cs)"

definition findArguments :: "unmarshal \<Rightarrow> Tool \<Rightarrow> string \<Rightarrow> object option \<times> nat" where
  "findArguments unm tool buf =
     scan_arguments unm (Function_Name tool) buf 0 None 0 False False buf"

section \<open>The parser\<close>

definition parseToolCall :: "unmarshal \<Rightarrow> ToolParser \<Rightarrow> (ToolCall \<times> ToolParser) option" where
  "parseToolCall unm p = (case findTool (tools p) (buffer p) of
      (None, _) \<Rightarrow> None
    | (Some tool, end_pos) \<Rightarrow>
        (case findArguments unm tool (buffer p) of
           (None, _) \<Rightarrow> None
         | (Some args, i) \<Rightarrow>
             Some (\<lparr>Call_Name = Function_Name tool, Call_Arguments = args, Call_Index = call_n p\<rparr>,
               p\<lparr>call_n := call_n p + 1, buffer := drop (max end_pos i) (buffer p)\<rparr>)))"

text \<open>The closing brace of the arguments is never the first byte, so every call consumes some.\<close>

lemma scan_arguments_step:
  "(\<exists>st b q e. (st = start \<or> st = Some i \<or> st = None) \<and>
      scan_arguments unm tool buf i start braces inStr esc (c # cs) =
      scan_arguments unm tool buf (i + 1) st b q e cs) \<or>
   (\<exists>s a. start = Some s \<and>
      scan_arguments unm tool buf i start braces inStr esc (c # cs) = (a, i))"
  by (cases start; simp split: option.split) blast+

lemma scan_arguments_pos:
  "scan_arguments unm tool buf i start braces inStr esc cs = (Some args, j) \<Longrightarrow>
   (\<And>s. start = Some s \<Longrightarrow> s < i) \<Longrightarrow> 0 < j \<and> j < i + length cs"
proof (induction cs arbitrary: i start braces inStr esc)
  case (Cons c cs)
  consider (go) st b q e where "st = start \<or> st = Some i \<or> st = None"
      "scan_arguments unm tool buf (i + 1) st b q e cs = (Some args, j)"
    | (ret) s where "start = Some s" "j = i"
    using scan_arguments_step [of start i unm tool buf braces inStr esc c cs] Cons.prems(1)
    by fastforce
  then show ?case
  proof cases
    case go
    have "0 < j \<and> j < (i + 1) + length cs"
      by (rule Cons.IH [OF go(2)]) (use go(1) Cons.prems(2) in fastforce)
    then show ?thesis by simp
  next
    case ret
    then show ?thesis using Cons.prems(2) by fastforce
  qed
qed simp

lemma parseToolCall_consumes:
  assumes "parseToolCall unm p = Some (call, p')"
  shows "length (buffer p') < length (buffer p)"
proof -
  from assms obtain tool e args i where
    a: "findArguments unm tool (buffer p) = (Some args, i)"
    and b: "buffer p' = drop (max e i) (buffer p)"
    by (auto simp: parseToolCall_def split: prod.splits option.splits)
  from a have "0 < i" "i < length (buffer p)"
    using scan_arguments_pos [of unm "Function_Name tool" "buffer p" 0 None 0 False False "buffer p"]
    by (simp_all add: findArguments_def)
  with b show ?thesis by auto
qed

function parseToolCalls :: "unmarshal \<Rightarrow> ToolParser \<Rightarrow> ToolCall list \<times> ToolParser" where
  "parseToolCalls unm p = (case parseToolCall unm p of
      None \<Rightarrow> ([], p)
    | Some (call, p') \<Rightarrow> (let (calls, p'') = parseToolCalls unm p' in (call # calls, p'')))"
  by pat_completeness auto
termination
  by (relation "measure (\<lambda>(_, p). length (buffer p))") (auto dest: parseToolCall_consumes)

declare parseToolCalls.simps [simp del]

fun balanced :: "char \<Rightarrow> char \<Rightarrow> int \<Rightarrow> string \<Rightarrow> bool" where
  "balanced opn cls count [] \<longleftrightarrow> False"
| "balanced opn cls count (c # cs) \<longleftrightarrow>
     (if c = opn then balanced opn cls (count + 1) cs
      else if c = cls then count - 1 = 0 \<or> balanced opn cls (count - 1) cs
      else balanced opn cls count cs)"

definition done_calling :: "ToolParser \<Rightarrow> bool" where
  "done_calling p \<longleftrightarrow>
     (if tool_tag p = ''{'' then balanced (CHR ''{'') (CHR ''}'') 0 (buffer p)
      else if tool_tag p = ''['' then balanced (CHR ''['') (CHR '']'') 0 (buffer p)
      else False)"

definition bracket_tag :: "ToolParser \<Rightarrow> bool" where
  "bracket_tag p \<longleftrightarrow> tool_tag p = ''{'' \<or> tool_tag p = ''[''"

text \<open>The part of \<open>Add\<close> after the tag has been found.\<close>

definition Add_calls ::
  "unmarshal \<Rightarrow> ToolParser \<Rightarrow> string \<Rightarrow> ToolParser \<times> ToolCall list \<times> string" where
  "Add_calls unm p content =
     (let (calls, p) = parseToolCalls unm p in
      if done_calling p then (p\<lparr>tool_state := Done, buffer := []\<rparr>, calls, buffer p)
      else (p, calls, content))"

definition Add :: "unmarshal \<Rightarrow> ToolParser \<Rightarrow> string \<Rightarrow> ToolParser \<times> ToolCall list \<times> string" where
  "Add unm p s =
     (if tool_state p = Done then (p, [], s)
      else (let p = p\<lparr>buffer := buffer p @ s\<rparr> in
        if tool_state p = LookingForTag then
          (let (i, found) = findTag p;
               content = (case i of None \<Rightarrow> buffer p | Some i \<Rightarrow> take i (buffer p));
               p = p\<lparr>buffer := (case i of None \<Rightarrow> [] | Some i \<Rightarrow> drop i (buffer p))\<rparr> in
           if bracket_tag p \<and> TrimSpace content \<noteq> [] then
             (p\<lparr>tool_state := Done\<rparr>, [], content @ buffer p)
           else if \<not> found then (p, [], content)
           else Add_calls unm (p\<lparr>tool_state := ToolCalling\<rparr>) content)
        else Add_calls unm p []))"

definition Content :: "ToolParser \<Rightarrow> string" where
  "Content p = (if call_n p > 0 then [] else if bracket_tag p then buffer p else [])"

section \<open>The tag of a template\<close>

text \<open>The nodes of package \<open>text/template/parse\<close>, with the lists that the search descends into.\<close>

datatype Node =
    TextNode string
  | IfNode "Node list" "Node list option"
  | ListNode "Node list"
  | RangeNode "Node list" "Node list option"
  | WithNode "Node list" "Node list option"
  | ActionNode
  | OtherNode

function (sequential) findTextNode :: "Node list \<Rightarrow> string option"
  and findBranches :: "Node list \<Rightarrow> Node list option \<Rightarrow> string option" where
  "findTextNode [] = None"
| "findTextNode (TextNode text # rest) =
     (if TrimSpace text = [] then findTextNode rest else Some text)"
| "findTextNode (IfNode lst els # rest) = findBranches lst els"
| "findTextNode (RangeNode lst els # rest) = findBranches lst els"
| "findTextNode (WithNode lst els # rest) = findBranches lst els"
| "findTextNode (ListNode nodes # rest) =
     (case findTextNode nodes of Some text \<Rightarrow> Some text | None \<Rightarrow> findTextNode rest)"
| "findTextNode (ActionNode # rest) = None"
| "findTextNode (OtherNode # rest) = findTextNode rest"
| "findBranches lst els = (case findTextNode lst of
      Some text \<Rightarrow> Some text
    | None \<Rightarrow> (case els of Some nodes \<Rightarrow> findTextNode nodes | None \<Rightarrow> None))"
  by pat_completeness auto
termination
  by (relation "measure (\<lambda>x. case x of
        Inl nodes \<Rightarrow> 2 * size_list size nodes
      | Inr (lst, els) \<Rightarrow>
          2 * (size_list size lst + size_option (size_list size) els) + 1)") auto

definition ReplaceAll :: "string \<Rightarrow> string \<Rightarrow> string \<Rightarrow> string" where
  "ReplaceAll s old new = Join (Split_at s old) new"

text \<open>The tag from the text node on: \<open>None\<close> is the template without one.\<close>

definition tag_of_text :: "string option \<Rightarrow> string" where
  "tag_of_text tn = (case tn of
      None \<Rightarrow> ''{''
    | Some text \<Rightarrow>
        (let tag = ReplaceAll text [CHR 0x0D, CHR 0x0A] [CHR 0x0A];
             tag = TrimSpace (fst (Cut tag ''{''))
         in if tag = [] then ''{'' else tag))"

section \<open>Feeding a stream\<close>

fun Add_all :: "unmarshal \<Rightarrow> ToolParser \<Rightarrow> string list \<Rightarrow> ToolParser \<times> ToolCall list \<times> string" where
  "Add_all unm p [] = (p, [], [])"
| "Add_all unm p (c # cs) =
     (let (p', calls, content) = Add unm p c;
          (p'', calls', content') = Add_all unm p' cs
      in (p'', calls @ calls', content @ content'))"

section \<open>The calls\<close>

text \<open>What a call may change: only the buffer and the counter.\<close>

definition same_config :: "ToolParser \<Rightarrow> ToolParser \<Rightarrow> bool" where
  "same_config p q \<longleftrightarrow> tool_tag q = tool_tag p \<and> tools q = tools p"

definition good_calls :: "ToolParser \<Rightarrow> ToolCall list \<Rightarrow> ToolParser \<Rightarrow> bool" where
  "good_calls p calls q \<longleftrightarrow> same_config p q \<and>
     map Call_Index calls = [call_n p..<call_n q] \<and> call_n p \<le> call_n q \<and>
     (\<forall>call \<in> set calls. Call_Name call \<in> Function_Name ` set (tools p))"

lemma good_calls_Nil: "same_config p q \<Longrightarrow> call_n q = call_n p \<Longrightarrow> good_calls p [] q"
  by (simp add: good_calls_def)

lemma good_calls_append:
  "good_calls p xs q \<Longrightarrow> good_calls q ys r \<Longrightarrow> good_calls p (xs @ ys) r"
  by (auto simp: good_calls_def same_config_def upt_add_eq_append [symmetric] le_iff_add)

lemma better_match_fold:
  assumes "fold (better_match buf) ts best = Some (t, pos, e)"
  shows "(t \<in> set ts \<and> Index buf (Function_Name t) = Some pos \<and> e = pos + length (Function_Name t)
      \<or> best = Some (t, pos, e)) \<and>
    (\<forall>u \<in> set ts. \<forall>q. Index buf (Function_Name u) = Some q \<longrightarrow>
       pos < q \<or> pos = q \<and> length (Function_Name u) \<le> length (Function_Name t)) \<and>
    (\<forall>u q f. best = Some (u, q, f) \<longrightarrow>
       pos < q \<or> pos = q \<and> length (Function_Name u) \<le> length (Function_Name t))"
  using assms
proof (induction ts arbitrary: best)
  case (Cons a ts)
  note IH = Cons.IH [of "better_match buf a best"]
  show ?case
  proof (cases "Index buf (Function_Name a)")
    case None
    with IH Cons.prems show ?thesis by (auto simp: better_match_def)
  next
    case (Some p)
    show ?thesis
    proof (cases best)
      case None
      with Some IH Cons.prems show ?thesis by (auto simp: better_match_def Let_def)
    next
      case (Some b)
      obtain f s e' where b: "b = (f, s, e')" by (cases b)
      have best: "best = Some (f, s, e')" using Some b by simp
      note a = \<open>Index buf (Function_Name a) = Some p\<close>
      show ?thesis
      proof (cases "p > s \<or> p = s \<and> length (Function_Name a) \<le> length (Function_Name f)")
        case True
        then have "better_match buf a best = best" using a best by (auto simp: better_match_def)
        with IH Cons.prems best have "pos < s \<or> pos = s \<and> length (Function_Name f) \<le> length (Function_Name t)"
          by simp
        with True IH Cons.prems a best \<open>better_match buf a best = best\<close> show ?thesis by auto
      next
        case False
        then have new: "better_match buf a best = Some (a, p, p + length (Function_Name a))"
          using a best by (auto simp: better_match_def)
        with IH Cons.prems have "pos < p \<or> pos = p \<and> length (Function_Name a) \<le> length (Function_Name t)"
          by simp
        with False IH Cons.prems a best new show ?thesis by auto
      qed
    qed
  qed
qed auto

lemma better_match_fold_None:
  "fold (better_match buf) ts best = None \<longleftrightarrow>
    best = None \<and> (\<forall>t \<in> set ts. Index buf (Function_Name t) = None)"
proof (induction ts arbitrary: best)
  case (Cons a ts)
  then show ?case by (auto simp: better_match_def Let_def split: option.splits if_splits)
qed simp

lemma findTool_in: "findTool ts buf = (Some t, e) \<Longrightarrow> t \<in> set ts"
  using better_match_fold [of buf ts None]
  by (auto simp: findTool_def split: if_splits option.splits)

lemma parseToolCall_good:
  assumes "parseToolCall unm p = Some (call, p')"
  shows "good_calls p [call] p'" and "tool_state p' = tool_state p"
  using assms findTool_in [of "tools p" "buffer p"]
  by (auto simp: parseToolCall_def good_calls_def same_config_def
      split: prod.splits option.splits)

lemma parseToolCalls_good:
  "parseToolCalls unm p = (calls, p') \<Longrightarrow> good_calls p calls p' \<and> tool_state p' = tool_state p"
proof (induction unm p arbitrary: calls p' rule: parseToolCalls.induct)
  case (1 unm p)
  show ?case
  proof (cases "parseToolCall unm p")
    case None
    with 1 show ?thesis by (auto simp: parseToolCalls.simps [of _ p] good_calls_def same_config_def)
  next
    case (Some x)
    obtain call q where x: "x = (call, q)" by (cases x)
    obtain calls' where c: "calls = call # calls'" "parseToolCalls unm q = (calls', p')"
      using 1(2) Some x by (auto simp: parseToolCalls.simps [of _ p] split: prod.splits)
    have "good_calls q calls' p'" "tool_state p' = tool_state q"
      using 1(1) [OF Some x [symmetric]] c by (auto simp: x)
    moreover note parseToolCall_good [of unm p call q]
    ultimately show ?thesis
      using Some x c good_calls_append [of p "[call]" q calls' p'] by auto
  qed
qed

lemma Add_calls_good:
  assumes "Add_calls unm p content = (p', calls, content')"
  shows "good_calls p calls p'"
    and "\<not> bracket_tag p \<Longrightarrow> tool_state p' = tool_state p \<and> content' = content"
proof -
  obtain cs q where q: "parseToolCalls unm p = (cs, q)" by (cases "parseToolCalls unm p")
  note g = parseToolCalls_good [OF q]
  from g assms q show "good_calls p calls p'"
    by (auto simp: Add_calls_def good_calls_def same_config_def split: if_splits)
  assume "\<not> bracket_tag p"
  then have "\<not> done_calling q" using g
    by (simp add: bracket_tag_def done_calling_def good_calls_def same_config_def)
  with g assms q show "tool_state p' = tool_state p \<and> content' = content"
    by (simp add: Add_calls_def)
qed

lemma good_calls_update_left [simp]:
  "good_calls (p\<lparr>buffer := b\<rparr>) calls q = good_calls p calls q"
  "good_calls (p\<lparr>tool_state := st\<rparr>) calls q = good_calls p calls q"
  by (simp_all add: good_calls_def same_config_def)

lemma Add_good: "Add unm p s = (p', calls, content) \<Longrightarrow> good_calls p calls p'"
  by (auto simp: Add_def Let_def good_calls_Nil same_config_def
      dest!: Add_calls_good(1) split: if_splits prod.splits)

lemma Add_all_good: "Add_all unm p cs = (p', calls, content) \<Longrightarrow> good_calls p calls p'"
proof (induction cs arbitrary: p p' calls content)
  case Nil
  then show ?case by (simp add: good_calls_Nil same_config_def)
next
  case (Cons c cs)
  then show ?case by (auto dest!: Add_good split: prod.splits intro: good_calls_append)
qed

section \<open>The content\<close>

lemma find_rev_upt:
  "find P (rev [1..<n + 1]) = None \<longleftrightarrow> (\<forall>i. 1 \<le> i \<and> i \<le> n \<longrightarrow> \<not> P i)"
  by (auto simp: find_None_iff)

lemma find_overlap_loop:
  "find (\<lambda>i. HasSuffix s (take i d)) (rev [1..<n + 1]) =
    (if overlap_loop s d n = 0 then None else Some (overlap_loop s d n))"
  by (induction n) auto

lemma findTag_overlap:
  "findTag p = (case Index (buffer p) (tool_tag p) of
      Some i \<Rightarrow> (Some i, True)
    | None \<Rightarrow> (let k = overlap (buffer p) (tool_tag p) in
        (if k = 0 then None else Some (length (buffer p) - k), False)))"
  by (simp only: findTag_def find_overlap_loop)
    (simp add: overlap_def min.commute Let_def split: option.split)

text \<open>Looking for a tag that is not a bracket: what \<open>Add\<close> does with the unsent bytes \<open>u\<close>.\<close>

lemma Add_looking_None:
  assumes "tool_state p = LookingForTag" and "\<not> bracket_tag p"
    and "Index (buffer p @ c) (tool_tag p) = None"
  shows "Add unm p c = (let u = buffer p @ c; k = overlap u (tool_tag p) in
    (p\<lparr>buffer := drop (length u - k) u\<rparr>, [], take (length u - k) u))"
  using assms by (simp add: Add_def findTag_overlap bracket_tag_def Let_def)

lemma Add_looking_Some:
  assumes "tool_state p = LookingForTag" and "\<not> bracket_tag p"
    and "Index (buffer p @ c) (tool_tag p) = Some i"
  obtains p' calls where "Add unm p c = (p', calls, take i (buffer p @ c))"
    and "tool_state p' = ToolCalling" and "\<not> bracket_tag p'"
proof -
  define q where "q = p\<lparr>buffer := drop i (buffer p @ c), tool_state := ToolCalling\<rparr>"
  have A: "Add unm p c = Add_calls unm q (take i (buffer p @ c))"
    using assms by (simp add: Add_def findTag_overlap bracket_tag_def q_def)
  obtain p' calls content where r: "Add_calls unm q (take i (buffer p @ c)) = (p', calls, content)"
    by (metis prod_cases3)
  have b: "\<not> bracket_tag q" using assms(2) by (simp add: q_def bracket_tag_def)
  show thesis
  proof (rule that)
    show "Add unm p c = (p', calls, take i (buffer p @ c))"
      using A r Add_calls_good(2) [OF r b] by simp
    show "tool_state p' = ToolCalling" using Add_calls_good(2) [OF r b] by (simp add: q_def)
    show "\<not> bracket_tag p'"
      using Add_calls_good(1) [OF r] b by (simp add: good_calls_def same_config_def bracket_tag_def)
  qed
qed

lemma Add_all_calling:
  "tool_state p = ToolCalling \<Longrightarrow> \<not> bracket_tag p \<Longrightarrow>
   \<exists>p' calls. Add_all unm p cs = (p', calls, []) \<and> tool_state p' = ToolCalling"
proof (induction cs arbitrary: p)
  case (Cons c cs)
  obtain q calls content where r: "Add unm p c = (q, calls, content)" by (metis prod_cases3)
  define p1 where "p1 = p\<lparr>buffer := buffer p @ c\<rparr>"
  have r': "Add_calls unm p1 [] = (q, calls, content)"
    using r Cons.prems by (simp add: Add_def p1_def)
  have b: "\<not> bracket_tag p1" using Cons.prems by (simp add: p1_def bracket_tag_def)
  have "tool_state q = ToolCalling" "content = []"
    using Add_calls_good(2) [OF r' b] Cons.prems by (simp_all add: p1_def)
  moreover have "\<not> bracket_tag q"
    using Add_calls_good(1) [OF r'] b by (simp add: good_calls_def same_config_def bracket_tag_def)
  ultimately show ?case using Cons.IH [of q] r by auto
qed simp

lemma take_middle: "i \<le> length u \<Longrightarrow> take (length a + i) ((a @ u) @ t) = a @ take i u"
  by simp

text \<open>The run over the rest of a stream of which \<open>s\<close> has been fed without a tag in it.\<close>

lemma Add_all_looking:
  assumes "tool_state p = LookingForTag" and "\<not> bracket_tag p" and "tool_tag p = tag"
    and "buffer p = drop (length s - overlap s tag) s" and "Index s tag = None"
    and "Add_all unm p cs = (p', calls, content)"
  shows "case Index (s @ concat cs) tag of
      Some i \<Rightarrow> tool_state p' = ToolCalling \<and> take (length s - overlap s tag) s @ content = take i (s @ concat cs)
    | None \<Rightarrow> tool_state p' = LookingForTag \<and> calls = [] \<and>
        take (length s - overlap s tag) s @ content @ buffer p' = s @ concat cs \<and>
        length (buffer p') = overlap (s @ concat cs) tag"
  using assms
proof (induction cs arbitrary: p s calls content)
  case Nil
  then show ?case by (simp add: overlap_le)
next
  case (Cons c cs)
  let ?sent = "take (length s - overlap s tag) s" and ?u = "buffer p @ c"
  have su: "s @ c = ?sent @ ?u" using Cons.prems(4) by simp
  have len: "length ?sent = length s - overlap s tag" by simp
  have idx: "Index (s @ c) tag = map_option ((+) (length ?sent)) (Index ?u tag)"
    using Index_overlap_append [OF Cons.prems(5), of c] Cons.prems(4) by simp
  show ?case
  proof (cases "Index ?u tag")
    case None
    let ?k = "overlap ?u tag"
    define q where "q = p\<lparr>buffer := drop (length ?u - ?k) ?u\<rparr>"
    have A: "Add unm p c = (q, [], take (length ?u - ?k) ?u)"
      using Add_looking_None [OF Cons.prems(1,2)] None Cons.prems(3) by (simp add: Let_def q_def)
    have k: "overlap (s @ c) tag = ?k" using overlap_append [of s c tag] Cons.prems(4) by simp
    obtain p2 calls2 content2 where R: "Add_all unm q cs = (p2, calls2, content2)"
      by (metis prod_cases3)
    have sent: "take (length (s @ c) - overlap (s @ c) tag) (s @ c) = ?sent @ take (length ?u - ?k) ?u"
      unfolding k unfolding su using overlap_le(1) [of ?u tag] by simp
    have un: "buffer q = drop (length (s @ c) - overlap (s @ c) tag) (s @ c)"
      unfolding k unfolding su using overlap_le(1) [of ?u tag] by (simp add: q_def)
    have r: "calls = calls2" "content = take (length ?u - ?k) ?u @ content2" "p' = p2"
      using Cons.prems(6) A R by simp_all
    have q: "tool_state q = LookingForTag" "\<not> bracket_tag q" "tool_tag q = tag"
      using Cons.prems(1-3) by (simp_all add: q_def bracket_tag_def)
    have nn: "Index (s @ c) tag = None" using idx None by simp
    note IH = Cons.IH [OF q un nn R [folded r(3)]]
    have cat: "(s @ c) @ concat cs = s @ concat (c # cs)" by simp
    show ?thesis using IH unfolding sent r(1,2) cat by (simp only: append_assoc)
  next
    case (Some i)
    obtain q calls1 where A: "Add unm p c = (q, calls1, take i ?u)"
      and q: "tool_state q = ToolCalling" "\<not> bracket_tag q"
      using Add_looking_Some [OF Cons.prems(1,2), of c i unm] Some Cons.prems(3) by metis
    obtain p2 calls2 where R: "Add_all unm q cs = (p2, calls2, [])" "tool_state p2 = ToolCalling"
      using Add_all_calling [OF q, of unm cs] by blast
    have "Index (s @ concat (c # cs)) tag = Some (length ?sent + i)"
      using Index_append_prefix [of "s @ c" tag _ "concat cs"] idx Some by simp
    moreover have "take (length ?sent + i) (s @ concat (c # cs)) = ?sent @ take i ?u"
    proof -
      have "s @ concat (c # cs) = (?sent @ ?u) @ concat cs" unfolding su [symmetric] by simp
      moreover have "i \<le> length ?u" using Index_le [OF Some] by simp
      ultimately show ?thesis using take_middle by metis
    qed
    moreover have "content = take i ?u" "p' = p2" using Cons.prems(6) A R by simp_all
    ultimately show ?thesis using R(2) by (simp only: option.case)
  qed
qed

section \<open>Properties\<close>

text \<open>C14: for a tag that is not a bare bracket, the text shown to the user is exactly what stands
  before the first occurrence of the tag in the whole stream, however the stream is cut into
  chunks; while no tag has occurred no call is made and everything is shown except the longest
  end of the stream that might still begin a tag.\<close>

theorem tool_content_before_tag:
  assumes "tag \<noteq> []" and "tag \<noteq> ''{''" and "tag \<noteq> ''[''"
    and "Add_all unm (NewParserWithTag ts tag) chunks = (p, calls, content)"
  shows "case Index (concat chunks) tag of
      Some i \<Rightarrow> tool_state p = ToolCalling \<and> content = take i (concat chunks)
    | None \<Rightarrow> tool_state p = LookingForTag \<and> calls = [] \<and> content @ buffer p = concat chunks \<and>
        length (buffer p) = overlap (concat chunks) tag"
  using Add_all_looking [of "NewParserWithTag ts tag" tag "[]" unm chunks p calls content] assms
  by (simp add: NewParserWithTag_def bracket_tag_def split: option.splits)


text \<open>FindTool returns a given tool whose name occurs first in the buffer, the longest one at
  that position, with the end of the occurrence; it returns none exactly if the buffer ends in an
  incomplete tool name, or no tool name occurs in it.\<close>

theorem findTool_spec:
  "case findTool ts buf of
     (Some t, e) \<Rightarrow> t \<in> set ts \<and> \<not> partial_name ts buf \<and>
       (\<exists>pos. Index buf (Function_Name t) = Some pos \<and> e = pos + length (Function_Name t) \<and>
         (\<forall>u \<in> set ts. \<forall>q. Index buf (Function_Name u) = Some q \<longrightarrow>
           pos < q \<or> pos = q \<and> length (Function_Name u) \<le> length (Function_Name t)))
   | (None, e) \<Rightarrow> e = 0 \<and> (buf = [] \<or> partial_name ts buf \<or>
       (\<forall>t \<in> set ts. Index buf (Function_Name t) = None))"
proof (cases "buf = [] \<or> partial_name ts buf")
  case True
  then show ?thesis by (auto simp: findTool_def)
next
  case False
  show ?thesis
  proof (cases "fold (better_match buf) ts None")
    case None
    then have "findTool ts buf = (None, 0)" using False by (simp add: findTool_def)
    with None show ?thesis by (simp add: better_match_fold_None)
  next
    case (Some x)
    obtain t pos e where x: "x = (t, pos, e)" by (cases x)
    then have "findTool ts buf = (Some t, e)" using False Some by (simp add: findTool_def)
    moreover have "fold (better_match buf) ts None = Some (t, pos, e)" using Some x by simp
    ultimately show ?thesis using False better_match_fold [of buf ts None t pos e] by auto
  qed
qed

text \<open>When the tag is a bare bracket and other text stands before the first bracket, nothing of
  the stream is taken for a tool call: all of it, now and later, is shown unchanged.\<close>

theorem bracket_in_prose_passes_through:
  assumes "tag = ''{'' \<or> tag = ''[''" and "TrimSpace (fst (Cut chunk tag)) \<noteq> []"
  shows "\<exists>p. Add_all unm (NewParserWithTag ts tag) (chunk # chunks) =
    (p, [], concat (chunk # chunks)) \<and> tool_state p = Done"
proof -
  have len: "length tag = 1" using assms(1) by auto
  have k: "overlap chunk tag = 0" if "Index chunk tag = None"
  proof -
    have "overlap chunk tag \<noteq> 1"
    proof
      assume "overlap chunk tag = 1"
      then have "HasSuffix chunk tag" using overlap_suffix [of chunk tag] len by simp
      then obtain zs where "chunk = zs @ tag" by (auto simp: suffix_def)
      then have "prefix tag (drop (length zs) chunk)" "length zs \<le> length chunk" by simp_all
      with that show False by (auto simp: Index_None)
    qed
    then show ?thesis using overlap_le(2) [of chunk tag] len by linarith
  qed
  have "\<exists>p. Add unm (NewParserWithTag ts tag) chunk = (p, [], chunk) \<and> tool_state p = Done"
    using assms k by (auto simp: Add_def findTag_overlap NewParserWithTag_def bracket_tag_def Cut_def
        Let_def split: option.splits)
  moreover have "tool_state p = Done \<Longrightarrow> Add_all unm p cs = (p, [], concat cs)" for p cs
    by (induction cs) (simp_all add: Add_def)
  ultimately show ?thesis by fastforce
qed

section \<open>Concrete runs\<close>

text \<open>A decoder that accepts one object, and a parser with one tool.\<close>

definition sample_unmarshal :: unmarshal where
  "sample_unmarshal s = (if s = ''{a}'' then Some (Some [(''x'', JNull)]) else None)"

definition sample_parser :: "string \<Rightarrow> ToolParser" where
  "sample_parser tag = NewParserWithTag [\<lparr>Function_Name = ''f''\<rparr>] tag"

theorem tool_content_before_tag_witness:
  "\<exists>p calls. Add_all sample_unmarshal (NewParserWithTag [\<lparr>Function_Name = ''f''\<rparr>] ''<t>'')
      [''hi <'', ''t>f{a}'', ''bye''] = (p, calls, ''hi '') \<and> tool_state p = ToolCalling"
proof -
  obtain p calls content where r: "Add_all sample_unmarshal (NewParserWithTag [\<lparr>Function_Name = ''f''\<rparr>] ''<t>'')
      [''hi <'', ''t>f{a}'', ''bye''] = (p, calls, content)" by (metis prod_cases3)
  show ?thesis using tool_content_before_tag [OF _ _ _ r] r by simp
qed

lemma sample_run:
  "Add_all sample_unmarshal (NewParserWithTag [\<lparr>Function_Name = ''f''\<rparr>] ''<t>'') [''a<'', ''t>f{a}''] =
    (\<lparr>tool_tag = ''<t>'', tools = [\<lparr>Function_Name = ''f''\<rparr>], tool_state = ToolCalling, buffer = ''}'', call_n = 1\<rparr>,
     [\<lparr>Call_Name = ''f'', Call_Arguments = [(''x'', JNull)], Call_Index = 0\<rparr>], ''a'')"
  by code_simp


theorem findTool_spec_witness:
  "findTool [\<lparr>Function_Name = ''get''\<rparr>, \<lparr>Function_Name = ''get_it''\<rparr>] ''get_it('' =
     (Some \<lparr>Function_Name = ''get_it''\<rparr>, 6) \<and>
   (\<exists>pos. Index ''get_it('' ''get_it'' = Some pos \<and> 6 = pos + length ''get_it'')"
proof -
  have r: "findTool [\<lparr>Function_Name = ''get''\<rparr>, \<lparr>Function_Name = ''get_it''\<rparr>] ''get_it('' =
     (Some \<lparr>Function_Name = ''get_it''\<rparr>, 6)" by code_simp
  then show ?thesis
    using findTool_spec [where buf = "''get_it(''"
        and ts = "[\<lparr>Function_Name = ''get''\<rparr>, \<lparr>Function_Name = ''get_it''\<rparr>]"]
    by auto
qed

theorem bracket_in_prose_passes_through_witness:
  "\<exists>p. Add_all sample_unmarshal (sample_parser ''{'') [''see {a}'', ''f{a}''] =
    (p, [], ''see {a}f{a}'') \<and> tool_state p = Done"
  using bracket_in_prose_passes_through [of "''{''" "''see {a}''" sample_unmarshal
      "[\<lparr>Function_Name = ''f''\<rparr>]" "[''f{a}'']"]
  by (simp add: sample_parser_def Cut_def go_simps)

end
