(* ===== verification/Modelfile.thy ===== *)
theory Modelfile
  imports Go_Filepath
begin

text \<open>
  Modelfiles, after \<open>parser/parser.go\<close>: the rune-driven state machine of \<open>ParseFile\<close>, printing
  (\<open>Command.String\<close>, \<open>Modelfile.String\<close>), quoting, and the choice of the files of a local model.
  The reader's decoder is outside the model: the input is the sequence of runes it delivers, and a
  string that the parser builds from runes is the list of these runes. \<open>tbl\<close> stands for the part of
  the table of \<open>strconv.IsPrint\<close> above Latin-1; everything holds for every table.
\<close>

section \<open>Data\<close>

type_synonym rtext = "rune list"

definition runes :: "string \<Rightarrow> rtext" where
  [go_simps]: "runes s = map byte s"

lemma runes_simps [simp]: "runes [] = []" "runes (c # s) = byte c # runes s"
  by (simp_all add: runes_def)

record Command =
  cmd_Name :: rtext
  cmd_Args :: rtext

type_synonym Modelfile = "Command list"

datatype pstate = stateNil | stateName | stateValue | stateParameter | stateMessage | stateComment

datatype parse_error =
    UnexpectedEOF
  | InvalidCommand
  | InvalidMessageRole
  | MissingFrom

text \<open>An error of \<open>ParseFile\<close>, with the line where the source reports one.\<close>

datatype file_error = ParserError nat parse_error | PlainError parse_error

section \<open>Character classes\<close>

definition isAlpha :: "rune \<Rightarrow> bool" where
  "isAlpha r \<longleftrightarrow> in_range 97 122 r \<or> in_range 65 90 r"

definition isNumber :: "rune \<Rightarrow> bool" where
  "isNumber r \<longleftrightarrow> in_range 48 57 r"

definition isSpace :: "rune \<Rightarrow> bool" where
  "isSpace r \<longleftrightarrow> r = 32 \<or> r = 9"

definition isNewline :: "rune \<Rightarrow> bool" where
  "isNewline r \<longleftrightarrow> r = 13 \<or> r = 10"

text \<open>\<open>strconv.IsPrint\<close>: the Latin-1 part is spelled out in the library, the rest is a table.\<close>

definition IsPrint :: "(rune \<Rightarrow> bool) \<Rightarrow> rune \<Rightarrow> bool" where
  "IsPrint tbl r =
     (if r \<le> 255 then in_range 32 126 r \<or> (in_range 161 255 r \<and> r \<noteq> 173) else tbl r)"

lemmas rune_class = isAlpha_def isNumber_def isSpace_def isNewline_def IsPrint_def in_range_def

text \<open>\<open>strings.ToLower\<close> and \<open>strings.ToUpper\<close> on ASCII, and \<open>strings.TrimSpace\<close>, on runes.\<close>

definition rlower :: "rtext \<Rightarrow> rtext" where
  "rlower = map (\<lambda>r. if in_range 65 90 r then r + 32 else r)"

definition rupper :: "rtext \<Rightarrow> rtext" where
  "rupper = map (\<lambda>r. if in_range 97 122 r then r - 32 else r)"

definition rtrim :: "rtext \<Rightarrow> rtext" where
  "rtrim s = rev (dropWhile IsSpace (rev (dropWhile IsSpace s)))"

definition isValidMessageRole :: "rtext \<Rightarrow> bool" where
  "isValidMessageRole role \<longleftrightarrow>
     role = runes ''system'' \<or> role = runes ''user'' \<or> role = runes ''assistant''"

definition isValidCommand :: "rtext \<Rightarrow> bool" where
  "isValidCommand cmd \<longleftrightarrow> rlower cmd \<in> set (map runes
     [''from'', ''license'', ''template'', ''system'', ''adapter'', ''renderer'', ''parser'',
      ''parameter'', ''message'', ''requires''])"

section \<open>Quoting and printing\<close>

abbreviation dquote :: rune where "dquote \<equiv> 34"

definition quote :: "rtext \<Rightarrow> rtext" where
  "quote s =
     (if 10 \<in> set s \<or> HasPrefix s [32] \<or> HasSuffix s [32] then
        (if dquote \<in> set s then replicate 3 dquote @ s @ replicate 3 dquote
         else dquote # s @ [dquote])
      else s)"

text \<open>\<open>None\<close> for a quoted value that is not closed.\<close>

definition unquote :: "rtext \<Rightarrow> rtext option" where
  "unquote s =
     (if HasPrefix s (replicate 3 dquote) then
        (if length s \<ge> 6 \<and> HasSuffix s (replicate 3 dquote)
         then Some (take (length s - 6) (drop 3 s)) else None)
      else if HasPrefix s [dquote] then
        (if length s \<ge> 2 \<and> HasSuffix s [dquote]
         then Some (take (length s - 2) (drop 1 s)) else None)
      else Some s)"

definition plain_commands :: "rtext set" where
  "plain_commands = set (map runes
     [''license'', ''template'', ''system'', ''adapter'', ''renderer'', ''parser'', ''requires''])"

definition Command_String :: "Command \<Rightarrow> rtext" where
  "Command_String c =
     (if cmd_Name c = runes ''model'' then runes ''FROM '' @ cmd_Args c
      else if cmd_Name c \<in> plain_commands then
        rupper (cmd_Name c) @ 32 # quote (cmd_Args c)
      else if cmd_Name c = runes ''message'' then
        (let (role, message, _) = Cut (cmd_Args c) (runes '': '') in
         runes ''MESSAGE '' @ role @ 32 # quote message)
      else runes ''PARAMETER '' @ cmd_Name c @ 32 # quote (cmd_Args c))"

definition Modelfile_String :: "Modelfile \<Rightarrow> rtext" where
  "Modelfile_String f = concat (map (\<lambda>c. Command_String c @ [10]) f)"

section \<open>Parsing\<close>

text \<open>The error \<open>Inl\<close>, or the next state and the rune to keep, 0 for none.\<close>

fun parseRuneForState :: "rune \<Rightarrow> pstate \<Rightarrow> parse_error + pstate \<times> rune" where
  "parseRuneForState r stateNil =
     (if r = 35 then Inr (stateComment, 0)
      else if isSpace r \<or> isNewline r then Inr (stateNil, 0)
      else Inr (stateName, r))"
| "parseRuneForState r stateName =
     (if isAlpha r then Inr (stateName, r)
      else if isSpace r then Inr (stateValue, 0)
      else Inl InvalidCommand)"
| "parseRuneForState r stateValue =
     (if isNewline r then Inr (stateNil, r)
      else if isSpace r then Inr (stateNil, r)
      else Inr (stateValue, r))"
| "parseRuneForState r stateParameter =
     (if isAlpha r \<or> isNumber r \<or> r = 95 then Inr (stateParameter, r)
      else if isSpace r then Inr (stateValue, 0)
      else Inl UnexpectedEOF)"
| "parseRuneForState r stateMessage =
     (if isAlpha r then Inr (stateMessage, r)
      else if isSpace r then Inr (stateValue, 0)
      else Inl UnexpectedEOF)"
| "parseRuneForState r stateComment =
     (if isNewline r then Inr (stateNil, 0) else Inr (stateComment, 0))"

text \<open>The locals of \<open>ParseFile\<close>: the command being read, the state, the line, the buffer, the role
  of a message and the commands so far.\<close>

record parse_state =
  cur_cmd :: Command
  cur_state :: pstate
  cur_line :: nat
  val_buf :: rtext
  msg_role :: rtext
  cmds :: "Command list"

definition parse_start :: parse_state where
  "parse_start = \<lparr>cur_cmd = \<lparr>cmd_Name = [], cmd_Args = []\<rparr>, cur_state = stateNil, cur_line = 1, val_buf = [],
     msg_role = [], cmds = []\<rparr>"

definition write_printable :: "(rune \<Rightarrow> bool) \<Rightarrow> rune \<Rightarrow> parse_state \<Rightarrow> parse_state" where
  "write_printable tbl r s = (if IsPrint tbl r then s\<lparr>val_buf := val_buf s @ [r]\<rparr> else s)"

definition enter :: "(rune \<Rightarrow> bool) \<Rightarrow> rune \<Rightarrow> pstate \<Rightarrow> parse_state \<Rightarrow> parse_state" where
  "enter tbl r nxt s = write_printable tbl r (s\<lparr>val_buf := [], cur_state := nxt\<rparr>)"

text \<open>A finished value: a pending role is put in front of it and the command is recorded.\<close>

definition finish_value :: "rtext \<Rightarrow> parse_state \<Rightarrow> parse_state" where
  "finish_value v s =
     (let args = (if msg_role s \<noteq> [] then msg_role s @ runes '': '' @ v else v);
          c = (cur_cmd s)\<lparr>cmd_Args := args\<rparr>
      in s\<lparr>msg_role := [], cur_cmd := c, cmds := cmds s @ [c]\<rparr>)"

text \<open>The transition out of \<open>curr\<close> towards \<open>nxt\<close>, with the redirections of the source.\<close>

definition transition ::
  "(rune \<Rightarrow> bool) \<Rightarrow> rune \<Rightarrow> pstate \<Rightarrow> parse_state \<Rightarrow> file_error + parse_state" where
  "transition tbl r nxt s = (case cur_state s of
      stateName \<Rightarrow>
        if \<not> isValidCommand (val_buf s) then Inl (ParserError (cur_line s) InvalidCommand)
        else (let l = rlower (val_buf s) in
          if l = runes ''from'' then
            Inr (enter tbl r nxt (s\<lparr>cur_cmd := (cur_cmd s)\<lparr>cmd_Name := runes ''model''\<rparr>\<rparr>))
          else if l = runes ''parameter'' then Inr (enter tbl r stateParameter s)
          else if l = runes ''message'' then
            Inr (enter tbl r stateMessage (s\<lparr>cur_cmd := (cur_cmd s)\<lparr>cmd_Name := l\<rparr>\<rparr>))
          else Inr (enter tbl r nxt (s\<lparr>cur_cmd := (cur_cmd s)\<lparr>cmd_Name := l\<rparr>\<rparr>)))
    | stateParameter \<Rightarrow> Inr (enter tbl r nxt (s\<lparr>cur_cmd := (cur_cmd s)\<lparr>cmd_Name := val_buf s\<rparr>\<rparr>))
    | stateMessage \<Rightarrow>
        if \<not> isValidMessageRole (val_buf s) then Inl (ParserError (cur_line s) InvalidMessageRole)
        else Inr (enter tbl r nxt (s\<lparr>msg_role := val_buf s\<rparr>))
    | stateComment \<Rightarrow> Inr (enter tbl r nxt s)
    | stateNil \<Rightarrow> Inr (enter tbl r nxt s)
    | stateValue \<Rightarrow>
        (case unquote (rtrim (val_buf s)) of
           None \<Rightarrow> Inr (s\<lparr>val_buf := val_buf s @ [r]\<rparr>)
         | Some v \<Rightarrow>
             if isSpace r then Inr (s\<lparr>val_buf := val_buf s @ [r]\<rparr>)
             else Inr (enter tbl r nxt (finish_value v s))))"

text \<open>One round of the loop of \<open>ParseFile\<close>.\<close>

definition parse_step ::
  "(rune \<Rightarrow> bool) \<Rightarrow> parse_state \<Rightarrow> rune \<Rightarrow> file_error + parse_state" where
  "parse_step tbl s r =
     (let s = (if isNewline r then s\<lparr>cur_line := cur_line s + 1\<rparr> else s) in
      case parseRuneForState r (cur_state s) of
        Inl UnexpectedEOF \<Rightarrow> Inl (PlainError UnexpectedEOF)
      | Inl e \<Rightarrow> Inl (ParserError (cur_line s) e)
      | Inr (nxt, r) \<Rightarrow>
          if nxt \<noteq> cur_state s then transition tbl r nxt s else Inr (write_printable tbl r s))"

fun parse_runes ::
  "(rune \<Rightarrow> bool) \<Rightarrow> parse_state \<Rightarrow> rtext \<Rightarrow> file_error + parse_state" where
  "parse_runes tbl s [] = Inr s"
| "parse_runes tbl s (r # rs) =
     (case parse_step tbl s r of Inl e \<Rightarrow> Inl e | Inr s' \<Rightarrow> parse_runes tbl s' rs)"

text \<open>Flushing the buffer at the end of the input.\<close>

definition parse_flush :: "parse_state \<Rightarrow> file_error + Modelfile" where
  "parse_flush s = (case cur_state s of
      stateComment \<Rightarrow> Inr (cmds s)
    | stateNil \<Rightarrow> Inr (cmds s)
    | stateValue \<Rightarrow>
        (case unquote (rtrim (val_buf s)) of
           None \<Rightarrow> Inl (PlainError UnexpectedEOF)
         | Some v \<Rightarrow> Inr (cmds (finish_value v s)))
    | _ \<Rightarrow> Inl (PlainError UnexpectedEOF))"

definition ParseFile :: "(rune \<Rightarrow> bool) \<Rightarrow> rtext \<Rightarrow> file_error + Modelfile" where
  "ParseFile tbl input =
     (case parse_runes tbl parse_start input of
        Inl e \<Rightarrow> Inl e
      | Inr s \<Rightarrow>
          (case parse_flush s of
             Inl e \<Rightarrow> Inl e
           | Inr f \<Rightarrow>
               if list_ex (\<lambda>c. cmd_Name c = runes ''model'') f then Inr f
               else Inl (PlainError MissingFrom)))"

section \<open>Reading what was printed\<close>

text \<open>Values that survive printing and parsing: bare ones, and ones that \<open>quote\<close> protects.\<close>

definition value_rune :: "(rune \<Rightarrow> bool) \<Rightarrow> rune \<Rightarrow> bool" where
  "value_rune tbl r \<longleftrightarrow> IsPrint tbl r \<or> isSpace r \<or> isNewline r"

definition bare_value :: "(rune \<Rightarrow> bool) \<Rightarrow> rtext \<Rightarrow> bool" where
  "bare_value tbl v \<longleftrightarrow> list_all (\<lambda>r. value_rune tbl r \<and> \<not> isNewline r) v \<and> rtrim v = v \<and>
     \<not> HasPrefix v [dquote]"

definition needs_quote :: "rtext \<Rightarrow> bool" where
  "needs_quote v \<longleftrightarrow> 10 \<in> set v \<or> HasPrefix v [32] \<or> HasSuffix v [32]"

definition printable_value :: "(rune \<Rightarrow> bool) \<Rightarrow> rtext \<Rightarrow> bool" where
  "printable_value tbl v \<longleftrightarrow>
     (if needs_quote v then list_all (value_rune tbl) v \<and> \<not> Contains v (replicate 3 dquote)
      else bare_value tbl v)"

text \<open>The text \<open>w\<close> is one value: no white space inside ends it early.\<close>

definition one_value :: "(rune \<Rightarrow> bool) \<Rightarrow> rtext \<Rightarrow> rtext \<Rightarrow> bool" where
  "one_value tbl v w \<longleftrightarrow> list_all (value_rune tbl) w \<and> unquote (rtrim w) = Some v \<and>
     (\<forall>xs r ys. w = xs @ r # ys \<longrightarrow> isNewline r \<longrightarrow> unquote (rtrim xs) = None)"

lemma prefix_rev_dropWhile: "prefix (rev (dropWhile P (rev xs))) xs"
  using suffix_dropWhile [of P "rev xs"] by (simp add: suffix_to_prefix)

lemma rtrim_id:
  "rtrim v = v \<longleftrightarrow> v = [] \<or> (\<not> IsSpace (hd v) \<and> \<not> IsSpace (last v))"
proof
  assume t: "rtrim v = v"
  show "v = [] \<or> (\<not> IsSpace (hd v) \<and> \<not> IsSpace (last v))"
  proof (cases "v = []")
    case False
    let ?w = "dropWhile IsSpace v"
    have len: "length v \<le> length ?w"
      using t length_dropWhile_le [of IsSpace "rev ?w"] unfolding rtrim_def by (metis length_rev)
    then have w: "?w = v" using suffix_dropWhile [of IsSpace v]
      by (metis suffix_order.antisym suffix_length_suffix suffix_order.refl)
    then have "\<not> IsSpace (hd v)" using False by (metis hd_dropWhile)
    moreover have "dropWhile IsSpace (rev v) = rev v" using t w unfolding rtrim_def by (metis rev_rev_ident)
    then have "\<not> IsSpace (last v)" using False by (metis hd_dropWhile hd_rev rev_is_Nil_conv)
    ultimately show ?thesis by simp
  qed simp
next
  assume "v = [] \<or> (\<not> IsSpace (hd v) \<and> \<not> IsSpace (last v))"
  then show "rtrim v = v"
  proof
    assume n: "\<not> IsSpace (hd v) \<and> \<not> IsSpace (last v)"
    then have "dropWhile IsSpace v = v" by (cases v) auto
    moreover have "dropWhile IsSpace (rev v) = rev v"
      using n by (cases "rev v") (auto simp: last_conv_nth hd_rev [symmetric])
    ultimately show ?thesis by (simp add: rtrim_def)
  qed (simp add: rtrim_def)
qed

lemma dquote_not_space [simp]: "\<not> IsSpace dquote"
  by (simp add: IsSpace_def in_range_def)

text \<open>Trimming a text that starts with a quote only drops from the end.\<close>

lemma rtrim_dquote: "\<exists>ys. rtrim (dquote # xs) = dquote # ys \<and> prefix ys xs"
proof -
  have "prefix (rtrim (dquote # xs)) (dquote # xs)"
    unfolding rtrim_def using prefix_rev_dropWhile [of IsSpace "dquote # xs"] by simp
  moreover have "rtrim (dquote # xs) \<noteq> []"
    by (auto simp: rtrim_def dropWhile_eq_Nil_conv)
  ultimately show ?thesis by (cases "rtrim (dquote # xs)") auto
qed

lemma unquote_open_single:
  assumes "dquote \<notin> set ys"
  shows "unquote (dquote # ys) = None"
proof -
  have "\<not> HasPrefix (dquote # ys) (replicate 3 dquote)"
    using assms by (auto simp: numeral_3_eq_3 prefix_def)
  moreover have "\<not> HasSuffix (dquote # ys) [dquote]" if "ys \<noteq> []"
    using assms that by (auto simp: suffix_def append_eq_Cons_conv Cons_eq_append_conv)
  ultimately show ?thesis by (cases ys) (simp_all add: unquote_def)
qed

lemma Contains_append: "Contains (xs @ d @ ys) d"
  by (auto simp: Contains_def Index_None intro!: exI [of _ "length xs"])

lemma unquote_open_triple:
  assumes "\<not> Contains ys (replicate 3 dquote)"
  shows "unquote (replicate 3 dquote @ ys) = None"
proof -
  have "\<not> HasSuffix (replicate 3 dquote @ ys) (replicate 3 dquote)" if "3 \<le> length ys"
  proof
    assume "HasSuffix (replicate 3 dquote @ ys) (replicate 3 dquote)"
    then have "HasSuffix ys (replicate 3 dquote)"
      using that suffix_length_suffix [of "replicate 3 dquote" "replicate 3 dquote @ ys" ys]
      by (simp add: suffixI)
    then obtain xs where "ys = xs @ replicate 3 dquote" by (auto simp: suffix_def)
    with assms Contains_append [of xs "replicate 3 dquote" "[]"] show False by simp
  qed
  then show ?thesis by (auto simp: unquote_def)
qed

lemma Contains_prefix: "prefix xs ys \<Longrightarrow> Contains xs d \<Longrightarrow> Contains ys d"
  by (auto simp: Contains_def prefix_def dest: Index_append_prefix)

lemma rtrim_triple:
  "\<exists>ys. rtrim (replicate 3 dquote @ xs) = replicate 3 dquote @ ys \<and> prefix ys xs"
proof -
  define w where "w = rtrim (replicate 3 dquote @ xs)"
  have "dropWhile IsSpace (replicate 3 dquote @ xs) = replicate 3 dquote @ xs"
    by (simp add: numeral_3_eq_3)
  then have w: "w = rev (dropWhile IsSpace (rev xs @ replicate 3 dquote))"
    by (simp add: w_def rtrim_def)
  show ?thesis
  proof (cases "dropWhile IsSpace (rev xs) = []")
    case True
    then have "w = rev (dropWhile IsSpace (replicate 3 dquote))"
      unfolding w dropWhile_append_cases by simp
    then have "w = replicate 3 dquote @ []"
      by (simp add: numeral_3_eq_3)
    then show ?thesis unfolding w_def by (intro exI [of _ "[]"] conjI) simp_all
  next
    case False
    then have "w = replicate 3 dquote @ rev (dropWhile IsSpace (rev xs))"
      unfolding w dropWhile_append_cases by simp
    moreover have "prefix (rev (dropWhile IsSpace (rev xs))) xs"
      by (rule prefix_rev_dropWhile)
    ultimately show ?thesis
      unfolding w_def by (intro exI [of _ "rev (dropWhile IsSpace (rev xs))"] conjI)
  qed
qed

lemma split_inside:
  assumes "a @ v @ c = xs @ r # ys" and "r \<notin> set a" and "r \<notin> set c"
  shows "\<exists>p. xs = a @ p \<and> prefix p v"
proof -
  have "length a \<le> length xs"
  proof (rule ccontr)
    assume "\<not> length a \<le> length xs"
    then have l: "length xs < length a" by simp
    then have "a ! length xs = (a @ v @ c) ! length xs" by (simp add: nth_append)
    also have "\<dots> = r" using assms(1) by simp
    finally show False using assms(2) l nth_mem by metis
  qed
  then obtain p where p: "xs = a @ p" using assms(1)
    by (metis append_eq_append_conv_if append_take_drop_id)
  with assms(1) have e: "v @ c = p @ r # ys" by simp
  have "length p < length v"
  proof (rule ccontr)
    assume "\<not> length p < length v"
    then have "prefix v p" using e by (metis linorder_not_less prefixI prefix_length_prefix)
    then obtain q where "p = v @ q" by (auto simp: prefix_def)
    with e have "r \<in> set c" by auto
    with assms(3) show False by simp
  qed
  then have "prefix p v" using e by (metis less_imp_le prefixI prefix_length_prefix)
  with p show ?thesis by blast
qed

lemma bare_one_value: "bare_value tbl v \<Longrightarrow> one_value tbl v v"
  by (auto simp: bare_value_def one_value_def unquote_def list_all_iff numeral_3_eq_3 prefix_def)

lemma value_rune_dquote [simp]: "value_rune tbl dquote"
  by (simp add: value_rune_def IsPrint_def in_range_def)

lemma newline_not_dquote: "isNewline r \<Longrightarrow> r \<noteq> dquote"
  by (auto simp: isNewline_def)

lemma quote_one_value:
  assumes "printable_value tbl v"
  shows "one_value tbl v (quote v)"
proof (cases "needs_quote v")
  case False
  with assms show ?thesis
    by (simp add: printable_value_def quote_def needs_quote_def bare_one_value)
next
  case True
  then have r: "list_all (value_rune tbl) v" and n: "\<not> Contains v (replicate 3 dquote)"
    using assms by (simp_all add: printable_value_def)
  show ?thesis
  proof (cases "dquote \<in> set v")
    case True
    let ?q = "replicate 3 dquote"
    have q: "quote v = ?q @ v @ ?q" using True \<open>needs_quote v\<close> by (simp add: quote_def needs_quote_def)
    have t: "rtrim (?q @ v @ ?q) = ?q @ v @ ?q" by (simp add: rtrim_id numeral_3_eq_3)
    have u: "unquote (?q @ v @ ?q) = Some v" by (simp add: unquote_def suffix_def)
    have "unquote (rtrim xs) = None" if eq: "?q @ v @ ?q = xs @ r # ys" and nl: "isNewline r" for xs r ys
    proof -
      obtain p where p: "xs = ?q @ p" "prefix p v"
        using split_inside [OF eq] newline_not_dquote [OF nl] by auto
      obtain zs where "rtrim xs = ?q @ zs" "prefix zs p" using rtrim_triple p(1) by blast
      then show ?thesis
        using n p(2) by (metis Contains_prefix prefix_order.trans unquote_open_triple)
    qed
    with r u t show ?thesis
      unfolding q one_value_def by (simp add: numeral_3_eq_3)
  next
    case False
    have q: "quote v = dquote # v @ [dquote]"
      using False \<open>needs_quote v\<close> by (simp add: quote_def needs_quote_def)
    have t: "rtrim (dquote # v @ [dquote]) = dquote # v @ [dquote]" by (simp add: rtrim_id)
    have "v \<noteq> []" using True by (auto simp: needs_quote_def)
    then have "\<not> HasPrefix (dquote # v @ [dquote]) (replicate 3 dquote)"
      using False by (cases v) (auto simp: numeral_3_eq_3)
    then have u: "unquote (dquote # v @ [dquote]) = Some v" by (simp add: unquote_def suffix_def)
    have "unquote (rtrim xs) = None" if eq: "dquote # v @ [dquote] = xs @ r # ys" and nl: "isNewline r" for xs r ys
    proof -
      obtain p where p: "xs = [dquote] @ p" "prefix p v"
        using split_inside [of "[dquote]" v "[dquote]" xs r ys] eq newline_not_dquote [OF nl] by auto
      obtain zs where z: "rtrim xs = dquote # zs" "prefix zs p" using rtrim_dquote p(1) by auto
      then have "dquote \<notin> set zs" using False p(2) by (meson set_mono_prefix subsetD)
      with z show ?thesis by (simp add: unquote_open_single)
    qed
    with r u t show ?thesis
      unfolding q one_value_def by simp
  qed
qed

section \<open>The run of the parser over a printed command\<close>

lemma parse_runes_append:
  "parse_runes tbl s (xs @ ys) =
    (case parse_runes tbl s xs of Inl e \<Rightarrow> Inl e | Inr s' \<Rightarrow> parse_runes tbl s' ys)"
  by (induction xs arbitrary: s) (simp_all split: sum.split)

lemma read_value:
  assumes "cur_state s = stateValue" and "list_all (value_rune tbl) w"
    and "\<And>xs r ys. w = xs @ r # ys \<Longrightarrow> isNewline r \<Longrightarrow> unquote (rtrim (val_buf s @ xs)) = None"
  shows "\<exists>l. parse_runes tbl s w = Inr (s\<lparr>val_buf := val_buf s @ w, cur_line := l\<rparr>)"
  using assms
proof (induction w arbitrary: s)
  case Nil
  then show ?case by (intro exI [of _ "cur_line s"]) simp
next
  case (Cons r w)
  define s' where "s' = s\<lparr>val_buf := val_buf s @ [r], cur_line := (if isNewline r then cur_line s + 1 else cur_line s)\<rparr>"
  have nl: "isNewline r \<Longrightarrow> unquote (rtrim (val_buf s)) = None"
    using Cons.prems(3) [of "[]" r w] by simp
  have vr: "value_rune tbl r" using Cons.prems(2) by simp
  have step: "parse_step tbl s r = Inr s'"
    using Cons.prems(1) nl vr
    by (auto simp: parse_step_def transition_def s'_def write_printable_def value_rune_def
        Let_def split: option.split)
  have "\<exists>l. parse_runes tbl s' w = Inr (s'\<lparr>val_buf := val_buf s' @ w, cur_line := l\<rparr>)"
  proof (rule Cons.IH)
    show "cur_state s' = stateValue" using Cons.prems(1) by (simp add: s'_def)
    show "list_all (value_rune tbl) w" using Cons.prems(2) by simp
    show "unquote (rtrim (val_buf s' @ xs)) = None" if "w = xs @ q # ys" "isNewline q" for xs q ys
      using Cons.prems(3) [of "r # xs" q ys] that by (simp add: s'_def)
  qed
  then show ?case using step by (simp add: s'_def)
qed

text \<open>Reading a whole value and the newline after it.\<close>

lemma read_value_line:
  assumes "cur_state s = stateValue" and "val_buf s = []" and "one_value tbl v w"
  shows "\<exists>l. parse_runes tbl s (w @ [10]) =
    Inr ((finish_value v s)\<lparr>val_buf := [], cur_state := stateNil, cur_line := l\<rparr>)"
proof -
  obtain l where l: "parse_runes tbl s w = Inr (s\<lparr>val_buf := val_buf s @ w, cur_line := l\<rparr>)"
    using read_value [OF assms(1), of tbl w] assms(2,3) by (fastforce simp: one_value_def)
  have "unquote (rtrim w) = Some v" using assms(3) by (simp add: one_value_def)
  then show ?thesis using assms(1,2) l
    by (intro exI [of _ "l + 1"])
      (simp add: parse_runes_append parse_step_def transition_def enter_def write_printable_def
        finish_value_def rune_class Let_def)
qed

text \<open>Runes that leave the parser in its state and are kept.\<close>

lemma read_stay:
  assumes "list_all (\<lambda>r. parseRuneForState r (cur_state s) = Inr (cur_state s, r) \<and>
      IsPrint tbl r \<and> \<not> isNewline r) w"
  shows "parse_runes tbl s w = Inr (s\<lparr>val_buf := val_buf s @ w\<rparr>)"
  using assms
proof (induction w arbitrary: s)
  case (Cons r w)
  then have "parse_step tbl s r = Inr (s\<lparr>val_buf := val_buf s @ [r]\<rparr>)"
    by (simp add: parse_step_def write_printable_def)
  with Cons show ?case by simp
qed simp

lemma alpha_kept: "isAlpha r \<Longrightarrow> IsPrint tbl r \<and> \<not> isNewline r \<and> \<not> isSpace r \<and> r \<noteq> 35"
  by (auto simp: rune_class)

definition param_rune :: "rune \<Rightarrow> bool" where
  "param_rune r \<longleftrightarrow> isAlpha r \<or> isNumber r \<or> r = 95"

lemma param_kept: "param_rune r \<Longrightarrow> IsPrint tbl r \<and> \<not> isNewline r"
  by (auto simp: param_rune_def rune_class)

text \<open>A keyword and the space after it, from between two commands.\<close>

lemma read_keyword:
  assumes "cur_state s = stateNil" and "kw \<noteq> []" and "list_all isAlpha kw"
  shows "parse_runes tbl s (kw @ 32 # rest) =
    (case transition tbl 0 stateValue (s\<lparr>cur_state := stateName, val_buf := kw\<rparr>) of
       Inl e \<Rightarrow> Inl e | Inr s' \<Rightarrow> parse_runes tbl s' rest)"
proof -
  obtain r w where kw: "kw = r # w" using assms(2) by (cases kw) auto
  let ?s = "s\<lparr>cur_state := stateName, val_buf := [r]\<rparr>"
  have 1: "parse_step tbl s r = Inr ?s"
    using assms kw alpha_kept [of r tbl]
    by (simp add: parse_step_def transition_def enter_def write_printable_def)
  have 2: "parse_runes tbl ?s w = Inr (?s\<lparr>val_buf := val_buf ?s @ w\<rparr>)"
    by (rule read_stay) (use assms kw in \<open>auto simp: list_all_iff dest: alpha_kept\<close>)
  have 3: "parse_step tbl (s\<lparr>cur_state := stateName, val_buf := kw\<rparr>) 32 =
      transition tbl 0 stateValue (s\<lparr>cur_state := stateName, val_buf := kw\<rparr>)"
    by (simp add: parse_step_def rune_class)
  show ?thesis using 1 2 3 kw by (simp add: parse_runes_append)
qed

text \<open>A word of state \<open>st\<close> and the space after it.\<close>

lemma read_word:
  assumes "cur_state s = st" and "val_buf s = []"
    and "st = stateParameter \<and> list_all param_rune w \<or>
      st = stateMessage \<and> list_all isAlpha w"
  shows "parse_runes tbl s (w @ 32 # rest) =
    (case transition tbl 0 stateValue (s\<lparr>val_buf := w\<rparr>) of
       Inl e \<Rightarrow> Inl e | Inr s' \<Rightarrow> parse_runes tbl s' rest)"
proof -
  have "parse_runes tbl s w = Inr (s\<lparr>val_buf := val_buf s @ w\<rparr>)"
    by (rule read_stay) (use assms in \<open>auto simp: list_all_iff param_rune_def [symmetric] dest: alpha_kept param_kept\<close>)
  moreover have "parse_step tbl (s\<lparr>val_buf := w\<rparr>) 32 =
      transition tbl 0 stateValue (s\<lparr>val_buf := w\<rparr>)"
    using assms(1,3) by (auto simp: parse_step_def rune_class)
  ultimately show ?thesis using assms(2) by (simp add: parse_runes_append)
qed

text \<open>Commands that survive printing.\<close>

definition printable_command :: "(rune \<Rightarrow> bool) \<Rightarrow> Command \<Rightarrow> bool" where
  "printable_command tbl c =
     (if cmd_Name c = runes ''model'' then bare_value tbl (cmd_Args c)
      else if cmd_Name c \<in> plain_commands then printable_value tbl (cmd_Args c)
      else if cmd_Name c = runes ''message'' then
        (let (role, message, found) = Cut (cmd_Args c) (runes '': '') in
         found \<and> isValidMessageRole role \<and> printable_value tbl message)
      else list_all param_rune (cmd_Name c) \<and>
        printable_value tbl (cmd_Args c))"

lemma not_print_0 [simp]: "\<not> IsPrint tbl 0"
  by (simp add: IsPrint_def in_range_def)

lemma plain_keyword:
  assumes "n \<in> plain_commands"
  shows "rupper n \<noteq> []" "list_all isAlpha (rupper n)" "isValidCommand (rupper n)"
    "rlower (rupper n) = n" "n \<noteq> runes ''from''" "n \<noteq> runes ''parameter''" "n \<noteq> runes ''message''"
  using assms unfolding plain_commands_def
  by (auto simp: rupper_def rlower_def isValidCommand_def rune_class)

lemma Cut_found: "Cut s sep = (a, c, True) \<Longrightarrow> s = a @ sep @ c"
  using append_take_drop_id [of "length sep"]
  by (auto simp: Cut_def prefix_def split: option.splits dest!: Index_prefix)
    (metis append_take_drop_id append_eq_conv_conj drop_drop add.commute)

text \<open>Any command before its value: the state in which the value is read.\<close>

definition ready :: "parse_state \<Rightarrow> rtext \<Rightarrow> rtext \<Rightarrow> parse_state" where
  "ready s n rl = s\<lparr>cur_cmd := (cur_cmd s)\<lparr>cmd_Name := n\<rparr>, cur_state := stateValue, val_buf := [],
     msg_role := rl\<rparr>"

lemma read_from:
  "cur_state s = stateNil \<Longrightarrow> msg_role s = [] \<Longrightarrow>
   parse_runes tbl s (runes ''FROM '' @ rest) = parse_runes tbl (ready s (runes ''model'') []) rest"
  using read_keyword [of s "runes ''FROM''" tbl rest]
  by (cases s, simp add: rune_class transition_def enter_def write_printable_def ready_def isValidCommand_def
      rlower_def Let_def)

lemma read_plain:
  "cur_state s = stateNil \<Longrightarrow> msg_role s = [] \<Longrightarrow> n \<in> plain_commands \<Longrightarrow>
   parse_runes tbl s (rupper n @ 32 # rest) = parse_runes tbl (ready s n []) rest"
  using plain_keyword [of n]
  by (cases s, simp add: read_keyword transition_def enter_def write_printable_def ready_def Let_def)

lemma read_message:
  assumes "cur_state s = stateNil" and "isValidMessageRole rl"
  shows "parse_runes tbl s (runes ''MESSAGE '' @ rl @ 32 # rest) =
    parse_runes tbl (ready s (runes ''message'') rl) rest"
proof -
  have "list_all isAlpha rl" using assms(2) by (auto simp: isValidMessageRole_def rune_class)
  then show ?thesis
    using read_keyword [of s "runes ''MESSAGE''" tbl "rl @ 32 # rest"] assms
    by (cases s, simp add: rune_class transition_def enter_def write_printable_def ready_def
        isValidCommand_def rlower_def Let_def read_word)
qed

lemma read_parameter:
  assumes "cur_state s = stateNil" and "msg_role s = []"
    and "list_all param_rune n"
  shows "parse_runes tbl s (runes ''PARAMETER '' @ n @ 32 # rest) =
    parse_runes tbl (ready s n []) rest"
  using read_keyword [of s "runes ''PARAMETER''" tbl "n @ 32 # rest"] assms
  by (cases s, simp add: rune_class transition_def enter_def write_printable_def ready_def
      isValidCommand_def rlower_def Let_def read_word)

text \<open>One printed line adds the command it came from and leaves the parser between commands.\<close>

definition between :: "parse_state \<Rightarrow> bool" where
  "between s \<longleftrightarrow> cur_state s = stateNil \<and> msg_role s = []"

lemma read_ready:
  assumes "one_value tbl v w" and "cmd_Name c = n"
    and "cmd_Args c = (if rl \<noteq> [] then rl @ runes '': '' @ v else v)"
  shows "\<exists>s'. parse_runes tbl (ready s n rl) (w @ [10]) = Inr s' \<and> between s' \<and> cmds s' = cmds s @ [c]"
proof -
  have "(cur_cmd (ready s n rl))\<lparr>cmd_Args := cmd_Args c\<rparr> = c"
    using assms(2) by (simp add: ready_def)
  moreover obtain l where "parse_runes tbl (ready s n rl) (w @ [10]) =
      Inr ((finish_value v (ready s n rl))\<lparr>val_buf := [], cur_state := stateNil, cur_line := l\<rparr>)"
    using read_value_line [of "ready s n rl" tbl v w] assms(1) by (auto simp: ready_def)
  ultimately show ?thesis using assms(3)
    by (cases "rl = []") (simp_all add: finish_value_def between_def ready_def Let_def)
qed

lemma read_command:
  assumes "printable_command tbl c" and "between s"
  shows "\<exists>s'. parse_runes tbl s (Command_String c @ [10]) = Inr s' \<and> between s' \<and>
    cmds s' = cmds s @ [c]"
proof -
  have s: "cur_state s = stateNil" "msg_role s = []" using assms(2) by (auto simp: between_def)
  consider (model) "cmd_Name c = runes ''model''"
    | (plain) "cmd_Name c \<noteq> runes ''model''" "cmd_Name c \<in> plain_commands"
    | (message) "cmd_Name c = runes ''message''" "cmd_Name c \<noteq> runes ''model''"
        "cmd_Name c \<notin> plain_commands"
    | (param) "cmd_Name c \<noteq> runes ''message''" "cmd_Name c \<noteq> runes ''model''"
        "cmd_Name c \<notin> plain_commands" by blast
  then show ?thesis
  proof cases
    case model
    then have o: "one_value tbl (cmd_Args c) (cmd_Args c)"
      using assms(1) by (simp add: printable_command_def bare_one_value)
    show ?thesis using read_ready [OF o model, where rl = "[]" and s = s] read_from [OF s, of tbl "cmd_Args c @ [10]"] model
      by (simp add: Command_String_def)
  next
    case plain
    then have o: "one_value tbl (cmd_Args c) (quote (cmd_Args c))"
      using assms(1) by (simp add: printable_command_def quote_one_value)
    show ?thesis using read_ready [OF o refl, where rl = "[]" and s = s] read_plain [OF s plain(2)] plain
      by (simp add: Command_String_def)
  next
    case message
    obtain rl msg where cut: "Cut (cmd_Args c) (runes '': '') = (rl, msg, True)"
      and ok: "isValidMessageRole rl" "printable_value tbl msg"
      using assms(1) message by (auto simp: printable_command_def split: prod.splits)
    have "rl \<noteq> []" using ok(1) by (auto simp: isValidMessageRole_def)
    then show ?thesis
      using read_ready [OF quote_one_value [OF ok(2)] message(1), where rl = rl and s = s]
        read_message [OF s(1) ok(1)] message cut Cut_found [OF cut]
      by (simp add: Command_String_def)
  next
    case param
    then have o: "one_value tbl (cmd_Args c) (quote (cmd_Args c))"
      and n: "list_all param_rune (cmd_Name c)"
      using assms(1) by (auto simp: printable_command_def intro: quote_one_value)
    show ?thesis using read_ready [OF o refl, where rl = "[]" and s = s] read_parameter [OF s n] param
      by (simp add: Command_String_def)
  qed
qed

lemma read_commands:
  "list_all (printable_command tbl) f \<Longrightarrow> between s \<Longrightarrow>
   \<exists>s'. parse_runes tbl s (Modelfile_String f) = Inr s' \<and> between s' \<and> cmds s' = cmds s @ f"
proof (induction f arbitrary: s)
  case Nil
  then show ?case by (simp add: Modelfile_String_def)
next
  case (Cons c f)
  obtain s1 where 1: "parse_runes tbl s (Command_String c @ [10]) = Inr s1" "between s1"
      "cmds s1 = cmds s @ [c]"
    using read_command [of tbl c s] Cons.prems by auto
  obtain s2 where 2: "parse_runes tbl s1 (Modelfile_String f) = Inr s2" "between s2"
      "cmds s2 = cmds s1 @ f"
    using Cons.IH [OF _ 1(2)] Cons.prems by auto
  have "Modelfile_String (c # f) = (Command_String c @ [10]) @ Modelfile_String f"
    by (simp add: Modelfile_String_def)
  then have "parse_runes tbl s (Modelfile_String (c # f)) = Inr s2"
    using 1(1) 2(1) by (simp only: parse_runes_append) simp
  then show ?case using 1(3) 2 by simp
qed

section \<open>Properties\<close>

text \<open>C6: printing a Modelfile and parsing the text gives the same commands in the same order, for
  every Modelfile with a FROM command whose values are bare or are protected by quote (multi-line
  and quoted texts, messages and parameters included).\<close>

theorem modelfile_roundtrip:
  assumes "list_all (printable_command tbl) f"
    and "\<exists>c \<in> set f. cmd_Name c = runes ''model''"
  shows "ParseFile tbl (Modelfile_String f) = Inr f"
proof -
  obtain s where "parse_runes tbl parse_start (Modelfile_String f) = Inr s" "between s" "cmds s = f"
    using read_commands [OF assms(1), of parse_start] by (auto simp: between_def parse_start_def)
  then show ?thesis using assms(2)
    by (simp add: ParseFile_def parse_flush_def between_def Bex_set [symmetric] del: runes_simps)
qed

text \<open>The invariant of the loop: every name is a word of letters, digits and underscores, and the line
  counts the newlines read.\<close>

definition wf_parse :: "parse_state \<Rightarrow> bool" where
  "wf_parse s \<longleftrightarrow> list_all (\<lambda>c. list_all param_rune (cmd_Name c)) (cmds s) \<and>
     list_all param_rune (cmd_Name (cur_cmd s)) \<and>
     (cur_state s = stateParameter \<longrightarrow> list_all param_rune (val_buf s))"

lemma valid_command_word: "isValidCommand w \<Longrightarrow> list_all param_rune (rlower w)"
  by (auto simp: isValidCommand_def param_rune_def rune_class)

lemma model_word: "list_all param_rune (runes ''model'')"
  by (simp add: param_rune_def rune_class)

lemma wf_parse_enter:
  "nxt \<noteq> stateParameter \<or> \<not> IsPrint tbl r \<Longrightarrow> wf_parse (s\<lparr>val_buf := [], cur_state := nxt\<rparr>) \<Longrightarrow>
   wf_parse (enter tbl r nxt s)"
  by (auto simp: wf_parse_def enter_def write_printable_def)

lemma wf_parse_step:
  assumes "wf_parse s" and "parse_step tbl s r = Inr s'"
  shows "wf_parse s'"
proof -
  define s0 where "s0 = (if isNewline r then s\<lparr>cur_line := cur_line s + 1\<rparr> else s)"
  have s0: "wf_parse s0" using assms(1) by (simp add: s0_def wf_parse_def)
  from assms(2) obtain nxt q where pr: "parseRuneForState r (cur_state s0) = Inr (nxt, q)"
    and res: "(if nxt \<noteq> cur_state s0 then transition tbl q nxt s0 else Inr (write_printable tbl q s0)) = Inr s'"
    unfolding parse_step_def s0_def [symmetric] Let_def
    by (auto split: sum.splits parse_error.splits)
  have q0: "cur_state s0 = stateName \<Longrightarrow> nxt \<noteq> cur_state s0 \<Longrightarrow> q = 0 \<and> nxt = stateValue"
    "nxt = stateParameter \<Longrightarrow> param_rune q \<and> cur_state s0 = stateParameter"
    using pr by (cases "cur_state s0"; auto split: if_splits simp: param_rune_def)+
  show ?thesis
  proof (cases "nxt = cur_state s0")
    case True
    with res s0 q0(2) show ?thesis by (auto simp: wf_parse_def write_printable_def)
  next
    case False
    with res have t: "transition tbl q nxt s0 = Inr s'" by simp
    have np: "nxt \<noteq> stateParameter" using q0(2) False by auto
    show ?thesis
      using t s0 q0(1) False np valid_command_word [of "val_buf s0"] model_word
      by (cases "cur_state s0")
        (auto simp: transition_def Let_def wf_parse_def finish_value_def enter_def
          write_printable_def split: if_splits option.splits)
  qed
qed

lemma wf_parse_runes: "wf_parse s \<Longrightarrow> parse_runes tbl s rs = Inr s' \<Longrightarrow> wf_parse s'"
  by (induction rs arbitrary: s) (auto split: sum.splits dest: wf_parse_step)


lemma transition_line:
  "transition tbl q nxt s = Inr s' \<Longrightarrow> cur_line s' = cur_line s"
  "transition tbl q nxt s = Inl (ParserError n e) \<Longrightarrow> n = cur_line s"
  by (cases "cur_state s"; auto simp: transition_def enter_def write_printable_def finish_value_def
      Let_def split: if_splits option.splits)+

lemma parse_step_line:
  "parse_step tbl s r = Inr s' \<Longrightarrow> cur_line s' = cur_line s + (if isNewline r then 1 else 0)"
  "parse_step tbl s r = Inl (ParserError n e) \<Longrightarrow> n = cur_line s + (if isNewline r then 1 else 0)"
  by (auto simp: parse_step_def Let_def write_printable_def dest!: transition_line
      split: if_splits sum.splits parse_error.splits)

lemma parse_runes_line:
  "parse_runes tbl s rs = Inl (ParserError n e) \<Longrightarrow>
   \<exists>xs r ys. rs = xs @ r # ys \<and> n = cur_line s + length (filter isNewline (xs @ [r]))"
proof (induction rs arbitrary: s)
  case (Cons r rs)
  show ?case
  proof (cases "parse_step tbl s r")
    case (Inl err)
    with Cons.prems show ?thesis
      by (intro exI [of _ "[]"] exI [of _ r] exI [of _ rs]) (auto dest: parse_step_line(2))
  next
    case (Inr s')
    then have "parse_runes tbl s' rs = Inl (ParserError n e)" using Cons.prems by simp
    then obtain xs q ys where "rs = xs @ q # ys"
      and "n = cur_line s' + length (filter isNewline (xs @ [q]))" using Cons.IH by blast
    with parse_step_line(1) [OF Inr] show ?thesis
      by (intro exI [of _ "r # xs"] exI [of _ q] exI [of _ ys]) auto
  qed
qed simp

text \<open>The line in a syntax error is one more than the number of line ends up to and including the
  rune at which the parser stopped.\<close>

theorem parse_error_line:
  assumes "ParseFile tbl input = Inl (ParserError n e)"
  shows "\<exists>xs r ys. input = xs @ r # ys \<and> n = 1 + length (filter isNewline (xs @ [r]))"
proof -
  have "parse_runes tbl parse_start input = Inl (ParserError n e)"
    using assms by (auto simp: ParseFile_def parse_flush_def
        split: sum.splits if_splits pstate.splits option.splits)
  from parse_runes_line [OF this] show ?thesis by (simp add: parse_start_def)
qed

section \<open>Concrete inputs\<close>

definition sample_modelfile :: Modelfile where
  "sample_modelfile =
    [\<lparr>cmd_Name = runes ''model'', cmd_Args = runes ''m''\<rparr>,
     \<lparr>cmd_Name = runes ''system'', cmd_Args = [97, 10, 34, 98, 34]\<rparr>,
     \<lparr>cmd_Name = runes ''message'', cmd_Args = runes ''user: hi''\<rparr>,
     \<lparr>cmd_Name = runes ''top_k'', cmd_Args = runes ''4''\<rparr>]"

lemmas modelfile_eval = sample_modelfile_def printable_command_def bare_value_def printable_value_def
  needs_quote_def value_rune_def rune_class rtrim_def IsSpace_def plain_commands_def Contains_def
  Cut_def isValidMessageRole_def param_rune_def numeral_3_eq_3 suffix_def

lemmas parse_eval = ParseFile_def parse_start_def parse_step_def transition_def enter_def
  write_printable_def finish_value_def parse_flush_def rune_class isValidCommand_def rlower_def
  rtrim_def IsSpace_def unquote_def numeral_3_eq_3 Let_def

theorem modelfile_roundtrip_witness:
  "ParseFile (\<lambda>_. False) (Modelfile_String sample_modelfile) = Inr sample_modelfile"
  by (rule modelfile_roundtrip) (simp_all add: modelfile_eval)


theorem parse_error_line_witness:
  "\<exists>xs r ys. (10 # runes ''bad x'') = xs @ r # ys \<and> 2 = 1 + length (filter isNewline (xs @ [r]))"
proof -
  have "ParseFile (\<lambda>_. False) (10 # runes ''bad x'') = Inl (ParserError 2 InvalidCommand)"
    by code_simp
  from parse_error_line [OF this] show ?thesis .
qed

text \<open>A parameter may be called \<open>model\<close>, and then stands for the missing FROM command.\<close>

lemma parameter_model_counts_as_from:
  "ParseFile (\<lambda>_. False) (runes ''PARAMETER model x'') =
    Inr [\<lparr>cmd_Name = runes ''model'', cmd_Args = runes ''x''\<rparr>]"
  by (simp add: parse_eval)

text \<open>A value that begins with a quote is printed bare and loses its quotes when it is read back.\<close>

lemma leading_quote_is_lost:
  "ParseFile (\<lambda>_. False) (Modelfile_String
      [\<lparr>cmd_Name = runes ''model'', cmd_Args = runes ''m''\<rparr>,
       \<lparr>cmd_Name = runes ''system'', cmd_Args = [34, 97, 34]\<rparr>]) =
    Inr [\<lparr>cmd_Name = runes ''model'', cmd_Args = runes ''m''\<rparr>,
       \<lparr>cmd_Name = runes ''system'', cmd_Args = [97]\<rparr>]"
  by (simp add: parse_eval Modelfile_String_def Command_String_def plain_commands_def quote_def
      rupper_def suffix_def)

end
