(* ===== verification/Model_Ref.thy ===== *)
theory Model_Ref
  imports Go_Prelude
begin

text \<open>
  References to models with a source suffix (\<open>:local\<close>, \<open>:cloud\<close>, \<open>-cloud\<close>), after
  \<open>internal/modelref/modelref.go\<close>.
\<close>

section \<open>Model\<close>

datatype ModelSource = ModelSourceUnspecified | ModelSourceLocal | ModelSourceCloud

datatype ref_error = ErrConflictingSourceSuffix | ErrModelRequired

record ParsedRef =
  Original :: string
  Base :: string
  Source :: ModelSource

definition parseSourceSuffix :: "string \<Rightarrow> string \<times> ModelSource \<times> bool" where
  "parseSourceSuffix raw =
     (let idx = LastIndex raw '':'' in
      if idx \<ge> 0 then
        (let i = nat idx;
             suffixRaw = TrimSpace (drop (i + 1) raw);
             sfx = ToLower suffixRaw in
         if sfx = ''cloud'' then (take i raw, ModelSourceCloud, True)
         else if sfx = ''local'' then (take i raw, ModelSourceLocal, True)
         else if \<not> Contains suffixRaw ''/'' \<and> HasSuffix sfx ''-cloud'' then
           (take (i + 1) raw @ take (length suffixRaw - length ''-cloud'') suffixRaw,
            ModelSourceCloud, True)
         else (raw, ModelSourceUnspecified, False))
      else (raw, ModelSourceUnspecified, False))"

definition ParseRef :: "string \<Rightarrow> ref_error + ParsedRef" where
  "ParseRef raw =
     (let raw = TrimSpace raw in
      if raw = [] then Inl ErrModelRequired
      else (let (base, source, explicit) = parseSourceSuffix raw in
        if explicit \<and> snd (snd (parseSourceSuffix base)) then Inl ErrConflictingSourceSuffix
        else Inr \<lparr>Original = raw, Base = base, Source = source\<rparr>))"

definition HasExplicitCloudSource :: "string \<Rightarrow> bool" where
  "HasExplicitCloudSource raw =
     (case ParseRef raw of Inr r \<Rightarrow> Source r = ModelSourceCloud | Inl _ \<Rightarrow> False)"

definition HasExplicitLocalSource :: "string \<Rightarrow> bool" where
  "HasExplicitLocalSource raw =
     (case ParseRef raw of Inr r \<Rightarrow> Source r = ModelSourceLocal | Inl _ \<Rightarrow> False)"

definition StripCloudSourceTag :: "string \<Rightarrow> string \<times> bool" where
  "StripCloudSourceTag raw =
     (case ParseRef raw of
        Inl _ \<Rightarrow> (TrimSpace raw, False)
      | Inr r \<Rightarrow> if Source r \<noteq> ModelSourceCloud then (TrimSpace raw, False) else (Base r, True))"

definition hasExplicitTag :: "string \<Rightarrow> bool" where
  "hasExplicitTag name \<longleftrightarrow> LastIndex name '':'' > LastIndex name ''/''"

definition toLegacyCloudPullName :: "string \<Rightarrow> string" where
  "toLegacyCloudPullName base =
     (if hasExplicitTag base then base @ ''-cloud'' else base @ '':cloud'')"

definition NormalizePullName :: "string \<Rightarrow> ref_error + string \<times> bool" where
  "NormalizePullName raw =
     (case ParseRef raw of
        Inl e \<Rightarrow> Inl e
      | Inr r \<Rightarrow>
          if Source r \<noteq> ModelSourceCloud then Inr (Base r, False)
          else Inr (toLegacyCloudPullName (Base r), True))"

section \<open>Names without white space\<close>

definition compact :: "string \<Rightarrow> bool" where
  "compact s \<longleftrightarrow> list_all (\<lambda>c. byte c < 128 \<and> \<not> IsSpace (byte c)) s"

lemma compact_append [simp]: "compact (s @ t) \<longleftrightarrow> compact s \<and> compact t"
  by (simp add: compact_def)

lemma compact_Cons [simp]:
  "compact (c # s) \<longleftrightarrow> (byte c < 128 \<and> \<not> IsSpace (byte c)) \<and> compact s"
  by (simp add: compact_def)

lemma compact_Nil [simp]: "compact []"
  by (simp add: compact_def)

lemma compact_take [simp]: "compact s \<Longrightarrow> compact (take n s)"
  by (auto simp: compact_def list_all_iff dest: in_set_takeD)

lemma compact_drop [simp]: "compact s \<Longrightarrow> compact (drop n s)"
  by (auto simp: compact_def list_all_iff dest: in_set_dropD)

lemma TrimSpace_compact [simp]:
  assumes "compact s"
  shows "TrimSpace s = s"
proof -
  have a: "ascii s" and n: "\<And>c. c \<in> set s \<Longrightarrow> \<not> IsSpace (byte c)"
    using assms by (auto simp: compact_def ascii_def list_all_iff)
  have "dropWhile (\<lambda>c. IsSpace (byte c)) s = s" using n by (cases s) auto
  moreover have "dropWhile (\<lambda>c. IsSpace (byte c)) (rev s) = rev s"
    using n by (cases "rev s") (auto simp: rev_eq_Cons_iff)
  ultimately show ?thesis
    using a by (simp add: TrimSpace_def TrimLeftFunc_ascii TrimRightFunc_ascii)
qed

lemma compact_suffix_letters [simp]: "compact '':cloud''" "compact ''-cloud''"
  by (simp_all add: IsSpace_def in_range_def)

lemma parse_ref_compact:
  assumes "compact raw"
  shows "parseSourceSuffix raw = (base, src, ex) \<Longrightarrow> compact base"
  using assms by (auto simp: parseSourceSuffix_def Let_def split: if_splits)

lemma suffix_cloud: "parseSourceSuffix (base @ '':cloud'') = (base, ModelSourceCloud, True)"
proof -
  have "LastIndex (base @ CHR '':'' # ''cloud'') '':'' = int (length base)"
    by (rule LastIndex_single_append) simp
  moreover have "TrimSpace ''cloud'' = ''cloud''"
    by (rule TrimSpace_compact) (simp add: IsSpace_def in_range_def)
  ultimately show ?thesis
    by (simp add: parseSourceSuffix_def Let_def ToLower_def lower_byte_def in_range_def)
qed

text \<open>The last colon of a name with an explicit tag splits off a tag without a slash.\<close>

lemma explicit_tag_split:
  assumes "hasExplicitTag base"
  obtains a t where "base = a @ CHR '':'' # t" and "CHR '':'' \<notin> set t" and "CHR ''/'' \<notin> set t"
proof -
  let ?i = "LastIndex base '':''"
  have i: "0 \<le> ?i" using assms LastIndex_bounds(2) [of base "''/''"]
    by (simp add: hasExplicitTag_def)
  then have c: "CHR '':'' \<in> set base"
    using LastIndex_no_hd [of "CHR '':''" base "[]"] by auto
  then obtain a t where s: "base = a @ CHR '':'' # t" "CHR '':'' \<notin> set t"
    by (meson split_list_last)
  have "CHR ''/'' \<notin> set t"
  proof
    assume "CHR ''/'' \<in> set t"
    then obtain u w where t: "t = u @ CHR ''/'' # w" "CHR ''/'' \<notin> set w"
      by (meson split_list_last)
    have "LastIndex ((a @ CHR '':'' # u) @ CHR ''/'' # w) ''/'' = int (length (a @ CHR '':'' # u))"
      by (rule LastIndex_single_append) (rule t(2))
    moreover have "?i = int (length a)" unfolding s(1) by (rule LastIndex_single_append) (rule s(2))
    ultimately show False using assms s(1) t(1) by (simp add: hasExplicitTag_def)
  qed
  with s show thesis using that by blast
qed

lemma suffix_legacy_tag:
  assumes "hasExplicitTag base" and "compact base"
  shows "parseSourceSuffix (base @ ''-cloud'') = (base, ModelSourceCloud, True)"
proof -
  obtain a t where s: "base = a @ CHR '':'' # t" and c: "CHR '':'' \<notin> set t" and sl: "CHR ''/'' \<notin> set t"
    using explicit_tag_split [OF assms(1)] .
  have "LastIndex (a @ CHR '':'' # (t @ ''-cloud'')) '':'' = int (length a)"
    by (rule LastIndex_single_append) (simp add: c)
  then have i: "LastIndex (base @ ''-cloud'') '':'' = int (length a)" using s by simp
  have tr: "TrimSpace (t @ ''-cloud'') = t @ ''-cloud''" using assms(2) s by (simp add: IsSpace_def in_range_def)
  have "\<not> Contains (t @ ''-cloud'') ''/''"
    using sl Index_no_hd [of "CHR ''/''" "t @ ''-cloud''" "[]"] by (simp add: Contains_def)
  moreover have lc: "ToLower (t @ ''-cloud'') = ToLower t @ ''-cloud''"
    by (simp add: ToLower_def lower_byte_def in_range_def)
  moreover have "ToLower t @ ''-cloud'' \<noteq> ''cloud''" "ToLower t @ ''-cloud'' \<noteq> ''local''"
    by (auto dest: arg_cong [of _ _ length])
  ultimately show ?thesis
    using i tr s by (simp add: parseSourceSuffix_def Let_def suffix_def)
qed

lemma suffix_legacy:
  "compact base \<Longrightarrow>
   parseSourceSuffix (toLegacyCloudPullName base) = (base, ModelSourceCloud, True)"
  by (simp add: toLegacyCloudPullName_def suffix_cloud suffix_legacy_tag)

section \<open>Properties\<close>

text \<open>The name under which a cloud model is pulled parses back to the same base name and the
  cloud source, whatever suffix form the user wrote.\<close>

theorem legacy_pull_name_roundtrip:
  assumes "compact raw" and "ParseRef raw = Inr r" and "Source r = ModelSourceCloud"
  shows "\<exists>name r'. NormalizePullName raw = Inr (name, True) \<and> ParseRef name = Inr r' \<and>
    Base r' = Base r \<and> Source r' = ModelSourceCloud"
proof -
  obtain ex where p: "parseSourceSuffix raw = (Base r, ModelSourceCloud, ex)"
    and nn: "\<not> (ex \<and> snd (snd (parseSourceSuffix (Base r))))"
    using assms by (auto simp: ParseRef_def Let_def split: if_splits prod.splits)
  have ex: ex using p by (auto simp: parseSourceSuffix_def Let_def split: if_splits)
  have base: "compact (Base r)" by (rule parse_ref_compact [OF assms(1) p])
  let ?name = "toLegacyCloudPullName (Base r)"
  have "compact ?name" "?name \<noteq> []" using base
    by (simp_all add: toLegacyCloudPullName_def IsSpace_def in_range_def)
  then have "ParseRef ?name = Inr \<lparr>Original = ?name, Base = Base r, Source = ModelSourceCloud\<rparr>"
    using suffix_legacy [OF base] nn ex by (simp add: ParseRef_def)
  then show ?thesis using assms(2,3) by (simp add: NormalizePullName_def)
qed

text \<open>A reference with an explicit source has a base name without one, so that stripping the
  source twice is impossible, and a base name cannot be both local and cloud.\<close>

theorem explicit_source_not_nested:
  assumes "ParseRef raw = Inr r" and "Source r \<noteq> ModelSourceUnspecified"
    and "compact raw" and "Base r \<noteq> []"
  shows "\<not> HasExplicitCloudSource (Base r) \<and> \<not> HasExplicitLocalSource (Base r) \<and>
    StripCloudSourceTag (Base r) = (Base r, False)"
proof -
  obtain ex where p: "parseSourceSuffix raw = (Base r, Source r, ex)"
    and nn: "\<not> (ex \<and> snd (snd (parseSourceSuffix (Base r))))"
    using assms by (auto simp: ParseRef_def Let_def split: if_splits prod.splits)
  have ex: ex using p assms(2) by (auto simp: parseSourceSuffix_def Let_def split: if_splits)
  have base: "compact (Base r)" by (rule parse_ref_compact [OF assms(3) p])
  have u: "fst (snd (parseSourceSuffix (Base r))) = ModelSourceUnspecified"
    using nn ex by (auto simp: parseSourceSuffix_def Let_def split: if_splits)
  show ?thesis using base u assms(4)
    by (auto simp: HasExplicitCloudSource_def HasExplicitLocalSource_def StripCloudSourceTag_def
        ParseRef_def Let_def split: prod.splits sum.splits if_splits)
qed

theorem legacy_pull_name_roundtrip_witness:
  "\<exists>name r'. NormalizePullName ''m:8b-cloud'' = Inr (name, True) \<and> ParseRef name = Inr r' \<and>
    Base r' = ''m:8b'' \<and> Source r' = ModelSourceCloud"
proof -
  have c: "compact ''m:8b-cloud''" by (simp add: IsSpace_def in_range_def)
  have "parseSourceSuffix ''m:8b-cloud'' = (''m:8b'', ModelSourceCloud, True)"
    using suffix_legacy_tag [of "''m:8b''"] by (simp add: hasExplicitTag_def IsSpace_def in_range_def)
  moreover have "TrimSpace ''8b'' = ''8b''" by (rule TrimSpace_compact) (simp add: IsSpace_def in_range_def)
  then have "parseSourceSuffix ''m:8b'' = (''m:8b'', ModelSourceUnspecified, False)"
    by (simp add: parseSourceSuffix_def Let_def ToLower_def lower_byte_def in_range_def suffix_def)
  ultimately have "ParseRef ''m:8b-cloud'' =
      Inr \<lparr>Original = ''m:8b-cloud'', Base = ''m:8b'', Source = ModelSourceCloud\<rparr>"
    using TrimSpace_compact [OF c] by (simp add: ParseRef_def)
  from legacy_pull_name_roundtrip [OF c this] show ?thesis by simp
qed

theorem explicit_source_not_nested_witness:
  "StripCloudSourceTag ''m'' = (''m'', False)"
proof -
  have c: "compact ''m:cloud''" by (simp add: IsSpace_def in_range_def)
  have "ParseRef ''m:cloud'' = Inr \<lparr>Original = ''m:cloud'', Base = ''m'', Source = ModelSourceCloud\<rparr>"
    using TrimSpace_compact [OF c] suffix_cloud [of "''m''"]
    by (simp add: ParseRef_def parseSourceSuffix_def [of "''m''"])
  from explicit_source_not_nested [OF this _ c] show ?thesis by simp
qed

end
