(* ===== verification/Registry_Names.thy ===== *)
theory Registry_Names
  imports Go_Prelude
begin

text \<open>
  The names of the registry client, after \<open>server/internal/internal/names/name.go\<close>, and the
  case-insensitive order on strings, after \<open>server/internal/internal/stringsx/stringsx.go\<close>. \<open>tbl\<close>
  stands for the table of \<open>unicode.ToLower\<close> above ASCII.
\<close>

section \<open>Comparing strings\<close>

definition unicode_ToLower :: "(rune \<Rightarrow> rune) \<Rightarrow> rune \<Rightarrow> rune" where
  "unicode_ToLower tbl r = (if r < 128 then (if in_range 65 90 r then r + 32 else r) else tbl r)"

definition nextRuneLower :: "(rune \<Rightarrow> rune) \<Rightarrow> string \<Rightarrow> rune \<times> nat" where
  "nextRuneLower tbl s = (let (r, width) = DecodeRune s in (unicode_ToLower tbl r, width))"

text \<open>The loop keeps the rests \<open>a[ia:]\<close> and \<open>b[ib:]\<close>. The width of a rune is never 0 there.\<close>

function CompareFold :: "(rune \<Rightarrow> rune) \<Rightarrow> string \<Rightarrow> string \<Rightarrow> int" where
  "CompareFold tbl a b =
     (if a = [] \<or> b = [] then (if a = [] \<and> b = [] then 0 else if a = [] then -1 else 1)
      else (let (ra, wa) = nextRuneLower tbl a; (rb, wb) = nextRuneLower tbl b in
        if ra < rb then -1 else if ra > rb then 1
        else CompareFold tbl (drop wa a) (drop wb b)))"
  by pat_completeness auto
termination
proof (relation "measure (\<lambda>(_, a, _). length a)")
  fix tbl :: "rune \<Rightarrow> rune" and a b x ra wa y rb wb
  assume "\<not> (a = [] \<or> b = [])" "x = nextRuneLower tbl a" "(ra, wa) = x"
  moreover from this have "wa = snd (DecodeRune a)"
    by (auto simp: nextRuneLower_def split: prod.splits)
  ultimately show "((tbl, drop wa a, drop wb b), tbl, a, b) \<in> measure (\<lambda>(_, a, _). length a)"
    using DecodeRune_width [of a] by auto
qed simp

declare CompareFold.simps [simp del]

lemma CompareFold_Nil [simp]:
  "CompareFold tbl [] [] = 0" "CompareFold tbl [] (c # s) = -1" "CompareFold tbl (c # s) [] = 1"
  by (simp_all add: CompareFold.simps)

lemma CompareFold_ascii:
  assumes "byte c < 128" and "byte d < 128"
  shows "CompareFold tbl (c # s) (d # t) =
    (if byte (lower_byte c) < byte (lower_byte d) then -1
     else if byte (lower_byte c) > byte (lower_byte d) then 1 else CompareFold tbl s t)"
proof -
  have "unicode_ToLower tbl (byte x) = byte (lower_byte x)" if "byte x < 128" for x
    using that by (simp add: unicode_ToLower_def lower_byte_def in_range_def)
  with assms show ?thesis
    by (simp add: CompareFold.simps [of tbl "c # s"] nextRuneLower_def Let_def)
qed

text \<open>The reference order: the lexicographic one on the lower-case bytes.\<close>

fun lex_compare :: "nat list \<Rightarrow> nat list \<Rightarrow> int" where
  "lex_compare [] [] = 0"
| "lex_compare [] (y # ys) = -1"
| "lex_compare (x # xs) [] = 1"
| "lex_compare (x # xs) (y # ys) =
     (if x < y then -1 else if x > y then 1 else lex_compare xs ys)"

lemma CompareFold_lex:
  "ascii a \<Longrightarrow> ascii b \<Longrightarrow> CompareFold tbl a b = lex_compare (map byte (ToLower a)) (map byte (ToLower b))"
proof (induction a arbitrary: b)
  case Nil
  then show ?case by (cases b) (simp_all add: ToLower_def)
next
  case (Cons c a)
  then show ?case by (cases b) (simp_all add: CompareFold_ascii ToLower_def)
qed

lemma lex_compare_zero: "lex_compare xs ys = 0 \<longleftrightarrow> xs = ys"
  by (induction xs ys rule: lex_compare.induct) auto

lemma lex_compare_swap: "lex_compare ys xs = - lex_compare xs ys"
  by (induction xs ys rule: lex_compare.induct) auto

lemma lex_compare_range: "lex_compare xs ys \<in> {-1, 0, 1}"
  by (induction xs ys rule: lex_compare.induct) auto

lemma lex_compare_trans:
  "lex_compare xs ys \<le> 0 \<Longrightarrow> lex_compare ys zs \<le> 0 \<Longrightarrow> lex_compare xs zs \<le> 0"
proof (induction xs ys arbitrary: zs rule: lex_compare.induct)
  case (4 x xs y ys)
  show ?case
  proof (cases zs)
    case Nil
    with 4 show ?thesis by simp
  next
    case (Cons z zs')
    have xy: "x < y \<or> x = y \<and> lex_compare xs ys \<le> 0" and yz: "y < z \<or> y = z \<and> lex_compare ys zs' \<le> 0"
      using 4(2,3) Cons by (simp_all split: if_splits)
    show ?thesis
    proof (cases "x < z")
      case False
      with xy yz have "x = y" "y = z" "lex_compare xs ys \<le> 0" "lex_compare ys zs' \<le> 0" by auto
      with 4(1) [of zs'] Cons show ?thesis by simp
    qed (simp add: Cons)
  qed
next
  case (1 zs)
  then show ?case by simp
next
  case (2 y ys)
  then show ?case by (cases zs) simp_all
next
  case (3 x xs)
  then show ?case by simp
qed

lemma map_byte_eq: "map byte s = map byte t \<longleftrightarrow> s = t"
  by (rule inj_map_eq_map) (simp add: inj_def)

section \<open>Names\<close>

definition MaxNameLength :: nat where
  "MaxNameLength = 350 + 1 + 80 + 1 + 80 + 1 + 80"

record RName =
  rhost :: string
  rns :: string
  rmodel :: string
  rtag :: string

definition emptyRName :: RName where
  "emptyRName = \<lparr>rhost = [], rns = [], rmodel = [], rtag = []\<rparr>"

text \<open>\<open>strings.LastIndexAny\<close> for a set of ASCII characters.\<close>

fun LastIndexAny :: "string \<Rightarrow> string \<Rightarrow> nat option" where
  "LastIndexAny [] chars = None"
| "LastIndexAny (c # s) chars =
     (case LastIndexAny s chars of
        Some i \<Rightarrow> Some (i + 1)
      | None \<Rightarrow> if c \<in> set chars then Some 0 else None)"

definition cutLastAny :: "string \<Rightarrow> string \<Rightarrow> string \<times> string \<times> char option" where
  "cutLastAny s chars = (case LastIndexAny s chars of
      Some i \<Rightarrow> (take i s, drop (i + 1) s, Some (s ! i))
    | None \<Rightarrow> ([], s, None))"

lemma LastIndexAny_lt: "LastIndexAny s chars = Some i \<Longrightarrow> i < length s"
  by (induction s arbitrary: i) (auto split: option.splits if_splits)

lemma LastIndexAny_None: "set s \<inter> set chars = {} \<Longrightarrow> LastIndexAny s chars = None"
  by (induction s) auto

lemma LastIndexAny_append:
  "c \<in> set chars \<Longrightarrow> set v \<inter> set chars = {} \<Longrightarrow> LastIndexAny (u @ c # v) chars = Some (length u)"
  by (induction u) (auto simp: LastIndexAny_None)

lemma cutLastAny_append:
  "c \<in> set chars \<Longrightarrow> set v \<inter> set chars = {} \<Longrightarrow> cutLastAny (u @ c # v) chars = (u, v, Some c)"
  by (simp add: cutLastAny_def LastIndexAny_append nth_append)

lemma cutLastAny_none: "set s \<inter> set chars = {} \<Longrightarrow> cutLastAny s chars = ([], s, None)"
  by (simp add: cutLastAny_def LastIndexAny_None)

text \<open>The loop of \<open>Parse\<close>; only a colon makes it go round again, with a shorter text.\<close>

function Parse_loop :: "string \<Rightarrow> RName \<Rightarrow> RName" where
  "Parse_loop s nm =
     (case cutLastAny s ''/:'' of
        (rest, tail, None) \<Rightarrow> nm\<lparr>rmodel := tail\<rparr>
      | (rest, tail, Some c) \<Rightarrow>
          if c = CHR '':'' then Parse_loop rest (nm\<lparr>rtag := tail\<rparr>)
          else (let (hh, nn, _) = cutLastAny rest ''/'' in nm\<lparr>rhost := hh, rns := nn, rmodel := tail\<rparr>))"
  by pat_completeness auto
termination
  by (relation "measure (\<lambda>(s, _). length s)")
    (auto simp: cutLastAny_def split: option.splits dest: LastIndexAny_lt)

declare Parse_loop.simps [simp del]

definition names_Parse :: "string \<Rightarrow> RName" where
  "names_Parse s = (if length s > MaxNameLength then emptyRName else Parse_loop s emptyRName)"

definition names_Split :: "string \<Rightarrow> string \<times> string \<times> string" where
  "names_Split s =
     (let (scheme, s) = (case Index s ''://'' of
            Some i \<Rightarrow> (take i s, drop (i + 3) s) | None \<Rightarrow> ([], s));
          i = LastIndex s ''@''
      in if i \<ge> 0 then (scheme, take (nat i) s, drop (nat i + 1) s) else (scheme, s, []))"

definition names_Merge :: "RName \<Rightarrow> RName \<Rightarrow> RName" where
  "names_Merge a c = a\<lparr>rhost := cmp_Or (rhost a) (rhost c), rns := cmp_Or (rns a) (rns c), rtag := cmp_Or (rtag a) (rtag c)\<rparr>"

datatype part = partHost | partNamespace | partModel | partTag

definition part_char0 :: "char \<Rightarrow> bool" where
  "part_char0 c \<longleftrightarrow> in_range 65 90 (byte c) \<or> in_range 97 122 (byte c) \<or> in_range 48 57 (byte c) \<or>
     c = CHR ''_''"

definition part_char :: "part \<Rightarrow> char \<Rightarrow> bool" where
  "part_char kind c \<longleftrightarrow>
     (if c = CHR ''_'' \<or> c = CHR ''-'' then True
      else if c = CHR ''.'' then kind \<noteq> partNamespace
      else if c = CHR '':'' then kind = partHost
      else part_char0 c)"

definition names_isValidPart :: "part \<Rightarrow> string \<Rightarrow> bool" where
  "names_isValidPart kind s \<longleftrightarrow>
     length s \<le> (if kind = partHost then 350 else 80) \<and>
     (case s of [] \<Rightarrow> True | c # cs \<Rightarrow> part_char0 c \<and> list_all (part_char kind) cs)"

definition names_IsValid :: "RName \<Rightarrow> bool" where
  "names_IsValid nm \<longleftrightarrow>
     \<not> (rhost nm \<noteq> [] \<and> \<not> names_isValidPart partHost (rhost nm)) \<and>
     \<not> (rns nm \<noteq> [] \<and> \<not> names_isValidPart partNamespace (rns nm)) \<and>
     \<not> (rtag nm \<noteq> [] \<and> \<not> names_isValidPart partTag (rtag nm)) \<and>
     rmodel nm \<noteq> [] \<and> names_isValidPart partModel (rmodel nm)"

definition names_IsFullyQualified :: "RName \<Rightarrow> bool" where
  "names_IsFullyQualified nm \<longleftrightarrow>
     names_IsValid nm \<and> rhost nm \<noteq> [] \<and> rns nm \<noteq> [] \<and> rmodel nm \<noteq> [] \<and> rtag nm \<noteq> []"

definition names_Compare :: "(rune \<Rightarrow> rune) \<Rightarrow> RName \<Rightarrow> RName \<Rightarrow> int" where
  "names_Compare tbl x y =
     (let c1 = CompareFold tbl (rhost x) (rhost y); c2 = CompareFold tbl (rns x) (rns y);
          c3 = CompareFold tbl (rmodel x) (rmodel y); c4 = CompareFold tbl (rtag x) (rtag y)
      in if c1 \<noteq> 0 then c1 else if c2 \<noteq> 0 then c2 else if c3 \<noteq> 0 then c3 else c4)"

definition names_String :: "RName \<Rightarrow> string" where
  "names_String nm =
     (if rhost nm \<noteq> [] then rhost nm @ ''/'' else []) @ (if rns nm \<noteq> [] then rns nm @ ''/'' else []) @
     rmodel nm @ (if rtag nm \<noteq> [] then CHR '':'' # rtag nm else [])"

section \<open>Facts\<close>

lemma valid_part_chars:
  assumes "names_isValidPart kind s"
  shows "CHR ''/'' \<notin> set s" and "kind \<noteq> partHost \<Longrightarrow> CHR '':'' \<notin> set s" and "ascii s"
proof -
  have "part_char0 c \<Longrightarrow> c \<noteq> CHR ''/'' \<and> c \<noteq> CHR '':'' \<and> byte c < 128" for c
    by (auto simp: part_char0_def in_range_def)
  moreover from this have "part_char kind c \<Longrightarrow> c \<noteq> CHR ''/'' \<and> (kind \<noteq> partHost \<longrightarrow> c \<noteq> CHR '':'') \<and> byte c < 128" for c
    by (auto simp: part_char_def split: if_splits)
  ultimately show "CHR ''/'' \<notin> set s" "kind \<noteq> partHost \<Longrightarrow> CHR '':'' \<notin> set s" "ascii s"
    using assms by (auto simp: names_isValidPart_def ascii_def list_all_iff split: list.splits)
qed

lemma valid_part_length: "names_isValidPart kind s \<Longrightarrow> length s \<le> (if kind = partHost then 350 else 80)"
  by (simp add: names_isValidPart_def)

section \<open>Properties\<close>

text \<open>A fully qualified registry name is never too long for the parser, and parsing its printed
  form gives the name back, a port in the host included.\<close>

theorem registry_name_roundtrip:
  assumes "names_IsFullyQualified nm"
  shows "length (names_String nm) \<le> MaxNameLength \<and> names_Parse (names_String nm) = nm"
proof -
  have ne: "rhost nm \<noteq> []" "rns nm \<noteq> []" "rmodel nm \<noteq> []" "rtag nm \<noteq> []"
    and v: "names_isValidPart partHost (rhost nm)" "names_isValidPart partNamespace (rns nm)"
      "names_isValidPart partModel (rmodel nm)" "names_isValidPart partTag (rtag nm)"
    using assms by (auto simp: names_IsFullyQualified_def names_IsValid_def)
  note ch = v [THEN valid_part_chars(1)] v(2-4) [THEN valid_part_chars(2), simplified]
  have s: "names_String nm = (rhost nm @ ''/'' @ rns nm @ ''/'' @ rmodel nm) @ CHR '':'' # rtag nm"
    using ne by (simp add: names_String_def)
  have len: "length (names_String nm) \<le> MaxNameLength"
    using v [THEN valid_part_length] unfolding s by (simp add: MaxNameLength_def)
  have "cutLastAny (names_String nm) ''/:'' = (rhost nm @ ''/'' @ rns nm @ ''/'' @ rmodel nm, rtag nm, Some (CHR '':''))"
    unfolding s by (rule cutLastAny_append) (use ch in auto)
  moreover have "cutLastAny (rhost nm @ ''/'' @ rns nm @ ''/'' @ rmodel nm) ''/:'' = (rhost nm @ ''/'' @ rns nm, rmodel nm, Some (CHR ''/''))"
    using cutLastAny_append [of "CHR ''/''" "''/:''" "rmodel nm" "rhost nm @ ''/'' @ rns nm"] ch by simp
  moreover have "cutLastAny (rhost nm @ ''/'' @ rns nm) ''/'' = (rhost nm, rns nm, Some (CHR ''/''))"
    using cutLastAny_append [of "CHR ''/''" "''/''" "rns nm" "rhost nm"] ch by simp
  ultimately have "Parse_loop (names_String nm) emptyRName = nm"
    by (simp add: Parse_loop.simps [of "names_String nm"] Parse_loop.simps [of "rhost nm @ _"]
        emptyRName_def)
  with len show ?thesis by (simp add: names_Parse_def)
qed

text \<open>On ASCII text the case-insensitive comparison is a total order up to letter case: 0 exactly
  for strings equal up to case, antisymmetric and transitive, with values -1, 0 and 1.\<close>

theorem compare_fold_order:
  assumes "ascii a" and "ascii b" and "ascii c"
  shows "(CompareFold tbl a b = 0 \<longleftrightarrow> EqualFold a b) \<and>
    CompareFold tbl b a = - CompareFold tbl a b \<and> CompareFold tbl a b \<in> {-1, 0, 1} \<and>
    (CompareFold tbl a b \<le> 0 \<longrightarrow> CompareFold tbl b c \<le> 0 \<longrightarrow> CompareFold tbl a c \<le> 0)"
proof -
  let ?k = "\<lambda>s. map byte (ToLower s)"
  have "?k a = ?k b \<longleftrightarrow> EqualFold a b" by (simp add: map_byte_eq EqualFold_def)
  moreover have "lex_compare (?k b) (?k a) = - lex_compare (?k a) (?k b)" by (rule lex_compare_swap)
  moreover have "lex_compare (?k a) (?k b) \<in> {-1, 0, 1}" by (rule lex_compare_range)
  moreover have "lex_compare (?k a) (?k b) \<le> 0 \<longrightarrow> lex_compare (?k b) (?k c) \<le> 0 \<longrightarrow>
      lex_compare (?k a) (?k c) \<le> 0"
    using lex_compare_trans by blast
  ultimately show ?thesis using assms by (simp only: CompareFold_lex lex_compare_zero)
qed

theorem registry_name_roundtrip_witness:
  "names_Parse ''localhost:8080/ns/m.1:latest'' =
     \<lparr>rhost = ''localhost:8080'', rns = ''ns'', rmodel = ''m.1'', rtag = ''latest''\<rparr>"
proof -
  have "names_IsFullyQualified \<lparr>rhost = ''localhost:8080'', rns = ''ns'', rmodel = ''m.1'', rtag = ''latest''\<rparr>"
    by (simp add: names_IsFullyQualified_def names_IsValid_def names_isValidPart_def part_char_def
        part_char0_def in_range_def)
  from registry_name_roundtrip [OF this] show ?thesis by (simp add: names_String_def)
qed

theorem compare_fold_order_witness:
  "CompareFold (\<lambda>r. r) ''Model'' ''mODEL'' = 0"
proof -
  have "EqualFold ''Model'' ''mODEL''" by code_simp
  then show ?thesis using compare_fold_order [of "''Model''" "''mODEL''" "[]" "\<lambda>r. r"] by simp
qed

text \<open>Of two tags the parser keeps the first and drops the second without an error.\<close>

lemma second_tag_is_dropped:
  "names_Parse ''m:a:b'' = \<lparr>rhost = [], rns = [], rmodel = ''m'', rtag = ''a''\<rparr> \<and>
   names_IsValid (names_Parse ''m:a:b'')"
proof -
  have "names_Parse ''m:a:b'' = \<lparr>rhost = [], rns = [], rmodel = ''m'', rtag = ''a''\<rparr>"
    by (simp add: names_Parse_def MaxNameLength_def Parse_loop.simps cutLastAny_def emptyRName_def)
  then show ?thesis
    by (simp add: names_IsValid_def names_isValidPart_def part_char0_def in_range_def)
qed

end
