(* ===== verification/Ggml_Types.thy ===== *)
theory Ggml_Types
  imports Go_Prelude
begin

text \<open>
  The types of GGML files and tensors and their sizes, after \<open>fs/ggml/type.go\<close> and the part of
  \<open>fs/ggml/ggml.go\<close> about tensors. Both kinds of type are 32-bit numbers, as in the files; a switch
  over them is a table, searched from the front, with the default of the source.
\<close>

section \<open>File types and tensor types\<close>

type_synonym FileType = "32 word"
type_synonym TensorType = "32 word"

datatype type_error = UnsupportedQuantization string

definition switch :: "('a \<times> 'b) list \<Rightarrow> 'b \<Rightarrow> 'a \<Rightarrow> 'b" where
  "switch table dflt x = (case map_of table x of Some y \<Rightarrow> y | None \<Rightarrow> dflt)"

abbreviation FileTypeF32 :: FileType where
  "FileTypeF32 \<equiv> 0"

abbreviation FileTypeF16 :: FileType where
  "FileTypeF16 \<equiv> 1"

abbreviation fileTypeQ4_0 :: FileType where
  "fileTypeQ4_0 \<equiv> 2"

abbreviation fileTypeQ4_1 :: FileType where
  "fileTypeQ4_1 \<equiv> 3"

abbreviation fileTypeQ4_1_F16 :: FileType where
  "fileTypeQ4_1_F16 \<equiv> 4"

abbreviation fileTypeQ4_2 :: FileType where
  "fileTypeQ4_2 \<equiv> 5"

abbreviation fileTypeQ4_3 :: FileType where
  "fileTypeQ4_3 \<equiv> 6"

abbreviation FileTypeQ8_0 :: FileType where
  "FileTypeQ8_0 \<equiv> 7"

abbreviation fileTypeQ5_0 :: FileType where
  "fileTypeQ5_0 \<equiv> 8"

abbreviation fileTypeQ5_1 :: FileType where
  "fileTypeQ5_1 \<equiv> 9"

abbreviation fileTypeQ2_K :: FileType where
  "fileTypeQ2_K \<equiv> 10"

abbreviation fileTypeQ3_K_S :: FileType where
  "fileTypeQ3_K_S \<equiv> 11"

abbreviation fileTypeQ3_K_M :: FileType where
  "fileTypeQ3_K_M \<equiv> 12"

abbreviation fileTypeQ3_K_L :: FileType where
  "fileTypeQ3_K_L \<equiv> 13"

abbreviation FileTypeQ4_K_S :: FileType where
  "FileTypeQ4_K_S \<equiv> 14"

abbreviation FileTypeQ4_K_M :: FileType where
  "FileTypeQ4_K_M \<equiv> 15"

abbreviation fileTypeQ5_K_S :: FileType where
  "fileTypeQ5_K_S \<equiv> 16"

abbreviation fileTypeQ5_K_M :: FileType where
  "fileTypeQ5_K_M \<equiv> 17"

abbreviation fileTypeQ6_K :: FileType where
  "fileTypeQ6_K \<equiv> 18"

abbreviation fileTypeIQ2_XXS :: FileType where
  "fileTypeIQ2_XXS \<equiv> 19"

abbreviation fileTypeIQ2_XS :: FileType where
  "fileTypeIQ2_XS \<equiv> 20"

abbreviation fileTypeQ2_K_S :: FileType where
  "fileTypeQ2_K_S \<equiv> 21"

abbreviation fileTypeIQ3_XS :: FileType where
  "fileTypeIQ3_XS \<equiv> 22"

abbreviation fileTypeIQ3_XXS :: FileType where
  "fileTypeIQ3_XXS \<equiv> 23"

abbreviation fileTypeIQ1_S :: FileType where
  "fileTypeIQ1_S \<equiv> 24"

abbreviation fileTypeIQ4_NL :: FileType where
  "fileTypeIQ4_NL \<equiv> 25"

abbreviation fileTypeIQ3_S :: FileType where
  "fileTypeIQ3_S \<equiv> 26"

abbreviation fileTypeIQ3_M :: FileType where
  "fileTypeIQ3_M \<equiv> 27"

abbreviation fileTypeIQ2_S :: FileType where
  "fileTypeIQ2_S \<equiv> 28"

abbreviation fileTypeIQ2_M :: FileType where
  "fileTypeIQ2_M \<equiv> 29"

abbreviation fileTypeIQ4_XS :: FileType where
  "fileTypeIQ4_XS \<equiv> 30"

abbreviation fileTypeIQ1_M :: FileType where
  "fileTypeIQ1_M \<equiv> 31"

abbreviation FileTypeBF16 :: FileType where
  "FileTypeBF16 \<equiv> 32"

abbreviation fileTypeQ4_0_4_4 :: FileType where
  "fileTypeQ4_0_4_4 \<equiv> 33"

abbreviation fileTypeQ4_0_4_8 :: FileType where
  "fileTypeQ4_0_4_8 \<equiv> 34"

abbreviation fileTypeQ4_0_8_8 :: FileType where
  "fileTypeQ4_0_8_8 \<equiv> 35"

abbreviation fileTypeTQ1_0 :: FileType where
  "fileTypeTQ1_0 \<equiv> 36"

abbreviation fileTypeTQ2_0 :: FileType where
  "fileTypeTQ2_0 \<equiv> 37"

abbreviation fileTypeMXFP4_MOE :: FileType where
  "fileTypeMXFP4_MOE \<equiv> 38"

abbreviation fileTypeNVFP4 :: FileType where
  "fileTypeNVFP4 \<equiv> 39"

abbreviation fileTypeQ1_0 :: FileType where
  "fileTypeQ1_0 \<equiv> 40"

abbreviation FileTypeUnknown :: FileType where
  "FileTypeUnknown \<equiv> 1024"

abbreviation TensorTypeF32 :: TensorType where
  "TensorTypeF32 \<equiv> 0"

abbreviation TensorTypeF16 :: TensorType where
  "TensorTypeF16 \<equiv> 1"

abbreviation TensorTypeQ4_0 :: TensorType where
  "TensorTypeQ4_0 \<equiv> 2"

abbreviation TensorTypeQ4_1 :: TensorType where
  "TensorTypeQ4_1 \<equiv> 3"

abbreviation tensorTypeQ4_2 :: TensorType where
  "tensorTypeQ4_2 \<equiv> 4"

abbreviation tensorTypeQ4_3 :: TensorType where
  "tensorTypeQ4_3 \<equiv> 5"

abbreviation TensorTypeQ5_0 :: TensorType where
  "TensorTypeQ5_0 \<equiv> 6"

abbreviation TensorTypeQ5_1 :: TensorType where
  "TensorTypeQ5_1 \<equiv> 7"

abbreviation TensorTypeQ8_0 :: TensorType where
  "TensorTypeQ8_0 \<equiv> 8"

abbreviation TensorTypeQ8_1 :: TensorType where
  "TensorTypeQ8_1 \<equiv> 9"

abbreviation TensorTypeQ2_K :: TensorType where
  "TensorTypeQ2_K \<equiv> 10"

abbreviation TensorTypeQ3_K :: TensorType where
  "TensorTypeQ3_K \<equiv> 11"

abbreviation TensorTypeQ4_K :: TensorType where
  "TensorTypeQ4_K \<equiv> 12"

abbreviation TensorTypeQ5_K :: TensorType where
  "TensorTypeQ5_K \<equiv> 13"

abbreviation TensorTypeQ6_K :: TensorType where
  "TensorTypeQ6_K \<equiv> 14"

abbreviation TensorTypeQ8_K :: TensorType where
  "TensorTypeQ8_K \<equiv> 15"

abbreviation tensorTypeIQ2_XXS :: TensorType where
  "tensorTypeIQ2_XXS \<equiv> 16"

abbreviation tensorTypeIQ2_XS :: TensorType where
  "tensorTypeIQ2_XS \<equiv> 17"

abbreviation tensorTypeIQ3_XXS :: TensorType where
  "tensorTypeIQ3_XXS \<equiv> 18"

abbreviation tensorTypeIQ1_S :: TensorType where
  "tensorTypeIQ1_S \<equiv> 19"

abbreviation tensorTypeIQ4_NL :: TensorType where
  "tensorTypeIQ4_NL \<equiv> 20"

abbreviation tensorTypeIQ3_S :: TensorType where
  "tensorTypeIQ3_S \<equiv> 21"

abbreviation tensorTypeIQ2_S :: TensorType where
  "tensorTypeIQ2_S \<equiv> 22"

abbreviation tensorTypeIQ4_XS :: TensorType where
  "tensorTypeIQ4_XS \<equiv> 23"

abbreviation TensorTypeI8 :: TensorType where
  "TensorTypeI8 \<equiv> 24"

abbreviation TensorTypeI16 :: TensorType where
  "TensorTypeI16 \<equiv> 25"

abbreviation TensorTypeI32 :: TensorType where
  "TensorTypeI32 \<equiv> 26"

abbreviation TensorTypeI64 :: TensorType where
  "TensorTypeI64 \<equiv> 27"

abbreviation TensorTypeF64 :: TensorType where
  "TensorTypeF64 \<equiv> 28"

abbreviation tensorTypeIQ1_M :: TensorType where
  "tensorTypeIQ1_M \<equiv> 29"

abbreviation TensorTypeBF16 :: TensorType where
  "TensorTypeBF16 \<equiv> 30"

abbreviation tensorTypeQ4_0_4_4 :: TensorType where
  "tensorTypeQ4_0_4_4 \<equiv> 31"

abbreviation tensorTypeQ4_0_4_8 :: TensorType where
  "tensorTypeQ4_0_4_8 \<equiv> 32"

abbreviation tensorTypeQ4_0_8_8 :: TensorType where
  "tensorTypeQ4_0_8_8 \<equiv> 33"

abbreviation tensorTypeTQ1_0 :: TensorType where
  "tensorTypeTQ1_0 \<equiv> 34"

abbreviation tensorTypeTQ2_0 :: TensorType where
  "tensorTypeTQ2_0 \<equiv> 35"

abbreviation tensorTypeIQ4_NL_4_4 :: TensorType where
  "tensorTypeIQ4_NL_4_4 \<equiv> 36"

abbreviation tensorTypeIQ4_NL_4_8 :: TensorType where
  "tensorTypeIQ4_NL_4_8 \<equiv> 37"

abbreviation tensorTypeIQ4_NL_8_8 :: TensorType where
  "tensorTypeIQ4_NL_8_8 \<equiv> 38"

abbreviation TensorTypeMXFP4 :: TensorType where
  "TensorTypeMXFP4 \<equiv> 39"

abbreviation TensorTypeNVFP4 :: TensorType where
  "TensorTypeNVFP4 \<equiv> 40"

abbreviation TensorTypeQ1_0 :: TensorType where
  "TensorTypeQ1_0 \<equiv> 41"

definition file_type_names :: "(string \<times> FileType) list" where
  "file_type_names =
     [(''F32'', FileTypeF32),
      (''F16'', FileTypeF16),
      (''Q8_0'', FileTypeQ8_0),
      (''Q4_K_S'', FileTypeQ4_K_S),
      (''Q4_K_M'', FileTypeQ4_K_M),
      (''Q4_K'', FileTypeQ4_K_M),
      (''BF16'', FileTypeBF16)]"

definition ParseFileType :: "string \<Rightarrow> type_error + FileType" where
  "ParseFileType s = (case map_of file_type_names s of
      Some t \<Rightarrow> Inr t
    | None \<Rightarrow> Inl (UnsupportedQuantization s))"

definition FileType_String :: "FileType \<Rightarrow> string" where
  "FileType_String = switch
     [(FileTypeF32, ''F32''),
      (FileTypeF16, ''F16''),
      (fileTypeQ4_0, ''Q4_0''),
      (fileTypeQ4_1, ''Q4_1''),
      (FileTypeQ8_0, ''Q8_0''),
      (fileTypeQ5_0, ''Q5_0''),
      (fileTypeQ5_1, ''Q5_1''),
      (fileTypeQ2_K, ''Q2_K''),
      (fileTypeQ3_K_S, ''Q3_K_S''),
      (fileTypeQ3_K_M, ''Q3_K_M''),
      (fileTypeQ3_K_L, ''Q3_K_L''),
      (FileTypeQ4_K_S, ''Q4_K_S''),
      (FileTypeQ4_K_M, ''Q4_K_M''),
      (fileTypeQ5_K_S, ''Q5_K_S''),
      (fileTypeQ5_K_M, ''Q5_K_M''),
      (fileTypeQ6_K, ''Q6_K''),
      (fileTypeIQ2_XXS, ''IQ2_XXS''),
      (fileTypeIQ2_XS, ''IQ2_XS''),
      (fileTypeQ2_K_S, ''Q2_K_S''),
      (fileTypeIQ3_XS, ''IQ3_XS''),
      (fileTypeIQ3_XXS, ''IQ3_XXS''),
      (fileTypeIQ1_S, ''IQ1_S''),
      (fileTypeIQ4_NL, ''IQ4_NL''),
      (fileTypeIQ3_S, ''IQ3_S''),
      (fileTypeIQ3_M, ''IQ3_M''),
      (fileTypeIQ2_S, ''IQ2_S''),
      (fileTypeIQ2_M, ''IQ2_M''),
      (fileTypeIQ4_XS, ''IQ4_XS''),
      (fileTypeIQ1_M, ''IQ1_M''),
      (FileTypeBF16, ''BF16''),
      (fileTypeTQ1_0, ''TQ1_0''),
      (fileTypeTQ2_0, ''TQ2_0''),
      (fileTypeMXFP4_MOE, ''MXFP4_MOE''),
      (fileTypeNVFP4, ''NVFP4''),
      (fileTypeQ1_0, ''Q1_0'')]
     ''unknown''"

definition ToTensorType :: "FileType \<Rightarrow> TensorType" where
  "ToTensorType = switch
     [(FileTypeF32, TensorTypeF32),
      (FileTypeF16, TensorTypeF16),
      (fileTypeQ4_0, TensorTypeQ4_0),
      (fileTypeQ4_1, TensorTypeQ4_1),
      (FileTypeQ8_0, TensorTypeQ8_0),
      (fileTypeQ5_0, TensorTypeQ5_0),
      (fileTypeQ5_1, TensorTypeQ5_1),
      (fileTypeQ2_K, TensorTypeQ2_K),
      (fileTypeQ3_K_S, TensorTypeQ3_K),
      (fileTypeQ3_K_M, TensorTypeQ3_K),
      (fileTypeQ3_K_L, TensorTypeQ3_K),
      (FileTypeQ4_K_S, TensorTypeQ4_K),
      (FileTypeQ4_K_M, TensorTypeQ4_K),
      (fileTypeQ5_K_S, TensorTypeQ5_K),
      (fileTypeQ5_K_M, TensorTypeQ5_K),
      (fileTypeQ6_K, TensorTypeQ6_K),
      (fileTypeIQ2_XXS, tensorTypeIQ2_XXS),
      (fileTypeIQ2_XS, tensorTypeIQ2_XS),
      (fileTypeQ2_K_S, TensorTypeQ2_K),
      (fileTypeIQ3_XS, tensorTypeIQ3_S),
      (fileTypeIQ3_XXS, tensorTypeIQ3_XXS),
      (fileTypeIQ1_S, tensorTypeIQ1_S),
      (fileTypeIQ4_NL, tensorTypeIQ4_NL),
      (fileTypeIQ3_S, tensorTypeIQ3_S),
      (fileTypeIQ3_M, tensorTypeIQ3_S),
      (fileTypeIQ2_S, tensorTypeIQ2_S),
      (fileTypeIQ2_M, tensorTypeIQ2_S),
      (fileTypeIQ4_XS, tensorTypeIQ4_XS),
      (fileTypeIQ1_M, tensorTypeIQ1_M),
      (FileTypeBF16, TensorTypeBF16),
      (fileTypeTQ1_0, tensorTypeTQ1_0),
      (fileTypeTQ2_0, tensorTypeTQ2_0),
      (fileTypeMXFP4_MOE, TensorTypeMXFP4),
      (fileTypeNVFP4, TensorTypeNVFP4),
      (fileTypeQ1_0, TensorTypeQ1_0)]
     0"

definition tensor_type_names :: "(string \<times> TensorType) list" where
  "tensor_type_names =
     [(''F32'', TensorTypeF32),
      (''F16'', TensorTypeF16),
      (''Q4_0'', TensorTypeQ4_0),
      (''Q4_1'', TensorTypeQ4_1),
      (''Q5_0'', TensorTypeQ5_0),
      (''Q5_1'', TensorTypeQ5_1),
      (''Q8_0'', TensorTypeQ8_0),
      (''Q8_1'', TensorTypeQ8_1),
      (''Q2_K'', TensorTypeQ2_K),
      (''Q3_K'', TensorTypeQ3_K),
      (''Q4_K'', TensorTypeQ4_K),
      (''Q5_K'', TensorTypeQ5_K),
      (''Q6_K'', TensorTypeQ6_K),
      (''Q8_K'', TensorTypeQ8_K),
      (''F64'', TensorTypeF64),
      (''BF16'', TensorTypeBF16),
      (''MXFP4'', TensorTypeMXFP4)]"

definition ParseTensorType :: "string \<Rightarrow> type_error + TensorType" where
  "ParseTensorType s = (case map_of tensor_type_names s of
      Some t \<Rightarrow> Inr t
    | None \<Rightarrow> Inl (UnsupportedQuantization s))"

definition TensorType_String :: "TensorType \<Rightarrow> string" where
  "TensorType_String = switch
     [(TensorTypeF32, ''F32''),
      (TensorTypeF16, ''F16''),
      (TensorTypeQ4_0, ''Q4_0''),
      (TensorTypeQ4_1, ''Q4_1''),
      (TensorTypeQ5_0, ''Q5_0''),
      (TensorTypeQ5_1, ''Q5_1''),
      (TensorTypeQ8_0, ''Q8_0''),
      (TensorTypeQ8_1, ''Q8_1''),
      (TensorTypeQ2_K, ''Q2_K''),
      (TensorTypeQ3_K, ''Q3_K''),
      (TensorTypeQ4_K, ''Q4_K''),
      (TensorTypeQ5_K, ''Q5_K''),
      (TensorTypeQ6_K, ''Q6_K''),
      (TensorTypeQ8_K, ''Q8_K''),
      (tensorTypeIQ2_XXS, ''IQ2_XXS''),
      (tensorTypeIQ2_XS, ''IQ2_XS''),
      (tensorTypeIQ3_XXS, ''IQ3_XXS''),
      (tensorTypeIQ1_S, ''IQ1_S''),
      (tensorTypeIQ4_NL, ''IQ4_NL''),
      (tensorTypeIQ3_S, ''IQ3_S''),
      (tensorTypeIQ2_S, ''IQ2_S''),
      (tensorTypeIQ4_XS, ''IQ4_XS''),
      (TensorTypeI8, ''I8''),
      (TensorTypeI16, ''I16''),
      (TensorTypeI32, ''I32''),
      (TensorTypeI64, ''I64''),
      (TensorTypeF64, ''F64''),
      (tensorTypeIQ1_M, ''IQ1_M''),
      (TensorTypeBF16, ''BF16''),
      (tensorTypeTQ1_0, ''TQ1_0''),
      (tensorTypeTQ2_0, ''TQ2_0''),
      (TensorTypeMXFP4, ''MXFP4''),
      (TensorTypeNVFP4, ''NVFP4''),
      (TensorTypeQ1_0, ''Q1_0'')]
     ''unknown''"

definition IsQuantized :: "TensorType \<Rightarrow> bool" where
  "IsQuantized t \<longleftrightarrow> t \<notin> {TensorTypeF32, TensorTypeF16, TensorTypeBF16}"

section \<open>Sizes\<close>

definition BlockSize :: "TensorType \<Rightarrow> 64 word" where
  "BlockSize t =
     (if t \<in> {TensorTypeF32, TensorTypeF16, TensorTypeI8, TensorTypeI16,
         TensorTypeI32, TensorTypeI64, TensorTypeF64, TensorTypeBF16} then 1
      else if t \<in> {TensorTypeQ4_0, TensorTypeQ4_1, TensorTypeQ5_0, TensorTypeQ5_1,
         TensorTypeQ8_0, TensorTypeQ8_1, tensorTypeIQ4_NL, TensorTypeMXFP4} then 32
      else if t = TensorTypeNVFP4 then 64
      else if t = TensorTypeQ1_0 then 128
      else 256)"

definition TypeSize :: "TensorType \<Rightarrow> 64 word" where
  "TypeSize t = (let bs = BlockSize t in switch
     [(TensorTypeF32, 4),
      (TensorTypeF16, 2),
      (TensorTypeQ4_0, 2 + bs div 2),
      (TensorTypeQ4_1, 2 + 2 + bs div 2),
      (TensorTypeQ5_0, 2 + 4 + bs div 2),
      (TensorTypeQ5_1, 2 + 2 + 4 + bs div 2),
      (TensorTypeQ8_0, 2 + bs),
      (TensorTypeQ8_1, 2 + 2 + bs),
      (TensorTypeQ2_K, bs div 16 + bs div 4 + 2 + 2),
      (TensorTypeQ3_K, bs div 8 + bs div 4 + 12 + 2),
      (TensorTypeQ4_K, 2 + 2 + 12 + bs div 2),
      (TensorTypeQ5_K, 2 + 2 + 12 + bs div 8 + bs div 2),
      (TensorTypeQ6_K, bs div 2 + bs div 4 + bs div 16 + 2),
      (TensorTypeQ8_K, 4 + bs + 2 * bs div 16),
      (tensorTypeIQ2_XXS, 2 + 2 * bs div 8),
      (tensorTypeIQ2_XS, 2 + 2 * bs div 8 + bs div 32),
      (tensorTypeIQ3_XXS, 2 + bs div 4 + bs div 8),
      (tensorTypeIQ1_S, 2 + bs div 8 + bs div 16),
      (tensorTypeIQ4_NL, 2 + bs div 2),
      (tensorTypeIQ3_S, 2 + bs div 4 + bs div 8 + bs div 32 + 4),
      (tensorTypeIQ2_S, 2 + bs div 4 + bs div 16),
      (tensorTypeIQ4_XS, 2 + 2 + bs div 2 + bs div 64),
      (TensorTypeI8, 1),
      (TensorTypeI16, 2),
      (TensorTypeI32, 4),
      (TensorTypeI64, 8),
      (TensorTypeF64, 8),
      (tensorTypeIQ1_M, bs div 8 + bs div 16 + bs div 32),
      (TensorTypeBF16, 2),
      (TensorTypeMXFP4, 1 + bs div 2),
      (TensorTypeNVFP4, 4 + bs div 2),
      (TensorTypeQ1_0, 2 + bs div 8)]
     0 t)"

definition RowSize :: "TensorType \<Rightarrow> 64 word \<Rightarrow> 64 word" where
  "RowSize t ne = TypeSize t * ne div BlockSize t"

text \<open>The data of a tensor (its \<open>io.WriterTo\<close>) is not part of the record.\<close>

record Tensor =
  Tensor_Name :: string
  Kind :: "32 word"
  Offset :: "64 word"
  Shape :: "64 word list"

definition blockSize :: "Tensor \<Rightarrow> 64 word" where
  "blockSize t = BlockSize (Kind t)"

definition typeSize :: "Tensor \<Rightarrow> 64 word" where
  "typeSize t = TypeSize (Kind t)"

definition Elements :: "Tensor \<Rightarrow> 64 word" where
  "Elements t = fold (\<lambda>d count. count * d) (Shape t) 1"

definition Tensor_Size :: "Tensor \<Rightarrow> 64 word" where
  "Tensor_Size t = Elements t * typeSize t div blockSize t"

definition Tensor_Type :: "Tensor \<Rightarrow> string" where
  "Tensor_Type t = TensorType_String (Kind t)"

section \<open>Facts\<close>

lemma unat_prod_list: "unat (prod_list xs) = prod_list (map unat xs) mod 2 ^ 64"
  for xs :: "64 word list"
proof (induction xs)
  case Nil
  then show ?case by simp
next
  case (Cons x xs)
  then show ?case by (simp add: unat_word_ariths mod_mult_right_eq)
qed

lemma fold_mult: "fold (\<lambda>d count. count * d) xs (a :: 64 word) = a * prod_list xs"
  by (induction xs arbitrary: a) (simp_all add: mult.assoc)

lemma Elements_prod: "unat (Elements t) = prod_list (map unat (Shape t)) mod 2 ^ 64"
  by (simp add: Elements_def fold_mult unat_prod_list)

lemma BlockSize_pos: "0 < unat (BlockSize t)"
  by (simp add: BlockSize_def)

text \<open>Every block size divides the row length that a quantized tensor of whole blocks has.\<close>

lemma BlockSize_values: "BlockSize t \<in> {1, 32, 64, 128, 256}"
  by (simp add: BlockSize_def)

lemma unat_div_word: "unat (a div b) = unat a div unat b" for a b :: "64 word"
  by (simp add: unat_div)

lemma parse_tensor_in: "ParseTensorType s = Inr t \<Longrightarrow> (s, t) \<in> set tensor_type_names"
  by (auto simp: ParseTensorType_def split: option.splits dest: map_of_SomeD)

lemma parse_file_in: "ParseFileType s = Inr t \<Longrightarrow> (s, t) \<in> set file_type_names"
  by (auto simp: ParseFileType_def split: option.splits dest: map_of_SomeD)

section \<open>Properties\<close>


text \<open>Every tensor type that can be named by a user prints as the name it was parsed from, has a
  known, positive size, and is quantized exactly if its name is not F32, F16 or BF16.\<close>

theorem parsed_tensor_type_sound:
  assumes "ParseTensorType s = Inr tt"
  shows "TensorType_String tt = s \<and> 0 < TypeSize tt \<and> 0 < BlockSize tt \<and>
    (IsQuantized tt \<longleftrightarrow> s \<notin> {''F32'', ''F16'', ''BF16''})"
proof -
  have "\<forall>(s, tt) \<in> set tensor_type_names. TensorType_String tt = s \<and> 0 < TypeSize tt \<and>
      0 < BlockSize tt \<and> (IsQuantized tt \<longleftrightarrow> s \<notin> {''F32'', ''F16'', ''BF16''})"
    by (simp add: tensor_type_names_def TensorType_String_def switch_def TypeSize_def BlockSize_def
        IsQuantized_def)
  with parse_tensor_in [OF assms] show ?thesis by blast
qed

text \<open>The file types that can be asked for print as they were written, up to the alias Q4_K, and
  the tensor type of such a file can be parsed and its name is a prefix of the name of the file type.\<close>

theorem parsed_file_type_sound:
  assumes "ParseFileType s = Inr ft"
  shows "ParseFileType (FileType_String ft) = Inr ft \<and>
    (FileType_String ft = s \<or> s = ''Q4_K'' \<and> FileType_String ft = ''Q4_K_M'') \<and>
    ParseTensorType (TensorType_String (ToTensorType ft)) = Inr (ToTensorType ft) \<and>
    HasPrefix (FileType_String ft) (TensorType_String (ToTensorType ft))"
proof -
  have "\<forall>(s, ft) \<in> set file_type_names. ParseFileType (FileType_String ft) = Inr ft \<and>
      (FileType_String ft = s \<or> s = ''Q4_K'' \<and> FileType_String ft = ''Q4_K_M'') \<and>
      ParseTensorType (TensorType_String (ToTensorType ft)) = Inr (ToTensorType ft) \<and>
      HasPrefix (FileType_String ft) (TensorType_String (ToTensorType ft))"
    by (simp add: file_type_names_def ParseFileType_def FileType_String_def ParseTensorType_def
        tensor_type_names_def TensorType_String_def ToTensorType_def switch_def)
  with parse_file_in [OF assms] show ?thesis by blast
qed


theorem parsed_tensor_type_sound_witness:
  "TensorType_String TensorTypeQ4_K = ''Q4_K'' \<and> 0 < TypeSize TensorTypeQ4_K"
proof -
  have "ParseTensorType ''Q4_K'' = Inr TensorTypeQ4_K" by (simp add: ParseTensorType_def tensor_type_names_def)
  from parsed_tensor_type_sound [OF this] show ?thesis by blast
qed

theorem parsed_file_type_sound_witness:
  "ParseFileType (FileType_String FileTypeQ4_K_M) = Inr FileTypeQ4_K_M"
proof -
  have "ParseFileType ''Q4_K'' = Inr FileTypeQ4_K_M" by (simp add: ParseFileType_def file_type_names_def)
  from parsed_file_type_sound [OF this] show ?thesis by blast
qed

end
