(* ===== verification/Ggml_KV.thy ===== *)
theory Ggml_KV
  imports Ggml_Types "HOL-Library.AList"
begin

text \<open>
  The metadata of a GGML model and the grouping of its tensors, after \<open>fs/ggml/ggml.go\<close>. A \<open>KV\<close> is
  an association list with one entry per key. A value keeps the type it had in the file; signed
  integers and floats are their bit patterns. \<open>keyValue\<close> is generic in Go: here the type assertion
  is a projection out of \<^typ>\<open>'v\<close>. A call that panics is \<open>None\<close>.
\<close>

section \<open>Data\<close>

text \<open>An array knows its length; its values are nil if it is longer than the configured maximum.\<close>

datatype 'a array = Array (array_size: int) (array_values: "'a list option")

datatype "value" =
    Uint8 "8 word" | Int8 "8 word" | Uint16 "16 word" | Int16 "16 word"
  | Uint32 "32 word" | Int32 "32 word" | Uint64 "64 word" | Int64 "64 word"
  | Float32 "32 word" | Float64 "64 word" | Bool bool | String string
  | Uint8s "8 word array" | Int8s "8 word array" | Uint16s "16 word array" | Int16s "16 word array"
  | Uint32s "32 word array" | Int32s "32 word array" | Uint64s "64 word array" | Int64s "64 word array"
  | Float32s "32 word array" | Float64s "64 word array" | Bools "bool array" | Strings "string array"

type_synonym KV = "(string \<times> value) list"

definition values_of :: "'a array \<Rightarrow> 'a list" where
  "values_of a = (case array_values a of Some xs \<Rightarrow> xs | None \<Rightarrow> [])"

text \<open>The type assertions the accessors use.\<close>

fun as_uint32 :: "value \<Rightarrow> 32 word option" where
  "as_uint32 (Uint32 x) = Some x" | "as_uint32 _ = None"

fun as_uint64 :: "value \<Rightarrow> 64 word option" where
  "as_uint64 (Uint64 x) = Some x" | "as_uint64 _ = None"

fun as_float32 :: "value \<Rightarrow> 32 word option" where
  "as_float32 (Float32 x) = Some x" | "as_float32 _ = None"

fun as_bool :: "value \<Rightarrow> bool option" where
  "as_bool (Bool x) = Some x" | "as_bool _ = None"

fun as_string :: "value \<Rightarrow> string option" where
  "as_string (String x) = Some x" | "as_string _ = None"

fun as_uint32s :: "value \<Rightarrow> 32 word array option" where
  "as_uint32s (Uint32s x) = Some x" | "as_uint32s _ = None"

fun as_int32s :: "value \<Rightarrow> 32 word array option" where
  "as_int32s (Int32s x) = Some x" | "as_int32s _ = None"

fun as_float32s :: "value \<Rightarrow> 32 word array option" where
  "as_float32s (Float32s x) = Some x" | "as_float32s _ = None"

fun as_bools :: "value \<Rightarrow> bool array option" where
  "as_bools (Bools x) = Some x" | "as_bools _ = None"

fun as_strings :: "value \<Rightarrow> string array option" where
  "as_strings (Strings x) = Some x" | "as_strings _ = None"

section \<open>Accessors\<close>

definition typed :: "(value \<Rightarrow> 'a option) \<Rightarrow> KV \<Rightarrow> string \<Rightarrow> 'a \<Rightarrow> 'a \<times> bool" where
  "typed proj kv key dflt = (case Option.bind (map_of kv key) proj of
      Some val \<Rightarrow> (val, True) | None \<Rightarrow> (dflt, False))"

definition Architecture :: "KV \<Rightarrow> string" where
  "Architecture kv = fst (typed as_string kv ''general.architecture'' ''unknown'')"

definition keyValue :: "(value \<Rightarrow> 'a option) \<Rightarrow> KV \<Rightarrow> string \<Rightarrow> 'a \<Rightarrow> 'a \<times> bool" where
  "keyValue proj kv key dflt =
     typed proj kv
       (if \<not> HasPrefix key ''tokenizer.'' \<and> \<not> HasPrefix key ''general.''
        then Architecture kv @ ''.'' @ key else key) dflt"

definition KV_String :: "KV \<Rightarrow> string \<Rightarrow> string \<Rightarrow> string" where
  "KV_String kv key dflt = fst (keyValue as_string kv key dflt)"

definition KV_Uint :: "KV \<Rightarrow> string \<Rightarrow> 32 word \<Rightarrow> 32 word" where
  "KV_Uint kv key dflt = fst (keyValue as_uint32 kv key dflt)"

definition KV_Float :: "KV \<Rightarrow> string \<Rightarrow> 32 word \<Rightarrow> 32 word" where
  "KV_Float kv key dflt = fst (keyValue as_float32 kv key dflt)"

definition KV_Bool :: "KV \<Rightarrow> string \<Rightarrow> bool \<Rightarrow> bool" where
  "KV_Bool kv key dflt = fst (keyValue as_bool kv key dflt)"

definition KV_Strings :: "KV \<Rightarrow> string \<Rightarrow> string list option \<Rightarrow> string list option" where
  "KV_Strings kv key dflt = array_values (fst (keyValue as_strings kv key (Array 0 dflt)))"

definition KV_Ints :: "KV \<Rightarrow> string \<Rightarrow> 32 word list option \<Rightarrow> 32 word list option" where
  "KV_Ints kv key dflt = array_values (fst (keyValue as_int32s kv key (Array 0 dflt)))"

definition KV_Uints :: "KV \<Rightarrow> string \<Rightarrow> 32 word list option \<Rightarrow> 32 word list option" where
  "KV_Uints kv key dflt = array_values (fst (keyValue as_uint32s kv key (Array 0 dflt)))"

definition KV_Floats :: "KV \<Rightarrow> string \<Rightarrow> 32 word list option \<Rightarrow> 32 word list option" where
  "KV_Floats kv key dflt = array_values (fst (keyValue as_float32s kv key (Array 0 dflt)))"

definition KV_Bools :: "KV \<Rightarrow> string \<Rightarrow> bool list option \<Rightarrow> bool list option" where
  "KV_Bools kv key dflt = array_values (fst (keyValue as_bools kv key (Array 0 dflt)))"

definition KV_Kind :: "KV \<Rightarrow> string" where
  "KV_Kind kv = KV_String kv ''general.type'' ''unknown''"

definition ParameterCount :: "KV \<Rightarrow> 64 word" where
  "ParameterCount kv = fst (keyValue as_uint64 kv ''general.parameter_count'' 0)"

definition KV_FileType :: "KV \<Rightarrow> FileType" where
  "KV_FileType kv = (let t = KV_Uint kv ''general.file_type'' 0 in
     if t > 0 then t else FileTypeUnknown)"

definition BlockCount :: "KV \<Rightarrow> 64 word" where
  "BlockCount kv = ucast (KV_Uint kv ''block_count'' 0)"

definition EmbeddingLength :: "KV \<Rightarrow> 64 word" where
  "EmbeddingLength kv = ucast (KV_Uint kv ''embedding_length'' 0)"

definition UintOrArrayValueAsArray :: "KV \<Rightarrow> string \<Rightarrow> 32 word \<Rightarrow> 32 word list" where
  "UintOrArrayValueAsArray kv key dflt =
     (case keyValue as_uint32 kv key 0 of
        (u32, True) \<Rightarrow> [u32]
      | (_, False) \<Rightarrow>
          (case keyValue as_uint32s kv key (Array 0 None) of
             (u32s, True) \<Rightarrow> values_of u32s
           | (_, False) \<Rightarrow>
               (case keyValue as_int32s kv key (Array 0 None) of
                  (i32s, True) \<Rightarrow> values_of i32s
                | (_, False) \<Rightarrow> [dflt])))"

text \<open>\<open>slices.Min\<close> and \<open>slices.Max\<close> panic on an empty slice.\<close>

definition UintOrArrayValue :: "KV \<Rightarrow> string \<Rightarrow> 32 word \<Rightarrow> (32 word \<times> 32 word) option" where
  "UintOrArrayValue kv key dflt =
     (let arr = UintOrArrayValueAsArray kv key dflt in
      case arr of [] \<Rightarrow> None | x # xs \<Rightarrow> Some (fold min xs x, fold max xs x))"

definition UintOrMaxArrayValue :: "KV \<Rightarrow> string \<Rightarrow> 32 word \<Rightarrow> 32 word option" where
  "UintOrMaxArrayValue kv key dflt = map_option snd (UintOrArrayValue kv key dflt)"

definition UintOrMinArrayValue :: "KV \<Rightarrow> string \<Rightarrow> 32 word \<Rightarrow> 32 word option" where
  "UintOrMinArrayValue kv key dflt = map_option fst (UintOrArrayValue kv key dflt)"

text \<open>The loop that \<open>HeadCount\<close>, \<open>HeadCountKV\<close> and \<open>FFNLength\<close> share: one entry per layer.\<close>

definition per_layer :: "KV \<Rightarrow> string \<Rightarrow> 32 word \<Rightarrow> 64 word list" where
  "per_layer kv key dflt =
     (let arr = UintOrArrayValueAsArray kv key dflt;
          dflt = (if length arr = 1 then arr ! 0 else dflt)
      in map (\<lambda>i. if i \<ge> length arr then ucast dflt else ucast (arr ! i))
           [0..<unat (BlockCount kv)])"

definition HeadCount :: "KV \<Rightarrow> 64 word list" where
  "HeadCount kv = per_layer kv ''attention.head_count'' 1"

definition HeadCountMax :: "KV \<Rightarrow> 64 word option" where
  "HeadCountMax kv = map_option ucast (UintOrMaxArrayValue kv ''attention.head_count'' 1)"

definition HeadCountMin :: "KV \<Rightarrow> 64 word option" where
  "HeadCountMin kv = map_option ucast (UintOrMinArrayValue kv ''attention.head_count'' 1)"

definition HeadCountKV :: "KV \<Rightarrow> 64 word list" where
  "HeadCountKV kv = per_layer kv ''attention.head_count_kv'' 1"

definition HeadCountKVMax :: "KV \<Rightarrow> 64 word option" where
  "HeadCountKVMax kv = map_option ucast (UintOrMaxArrayValue kv ''attention.head_count_kv'' 1)"

definition HeadCountKVMin :: "KV \<Rightarrow> 64 word option" where
  "HeadCountKVMin kv = map_option ucast (UintOrMinArrayValue kv ''attention.head_count_kv'' 1)"

definition EmbeddingHeadCountMax :: "KV \<Rightarrow> 64 word option" where
  "EmbeddingHeadCountMax kv = map_option
     (\<lambda>heads. if heads > 0 then EmbeddingLength kv div heads else 0) (HeadCountMin kv)"

definition EmbeddingHeadCountK :: "KV \<Rightarrow> 64 word option" where
  "EmbeddingHeadCountK kv = map_option
     (\<lambda>e. ucast (KV_Uint kv ''attention.key_length'' (ucast e))) (EmbeddingHeadCountMax kv)"

definition EmbeddingHeadCountV :: "KV \<Rightarrow> 64 word option" where
  "EmbeddingHeadCountV kv = map_option
     (\<lambda>e. ucast (KV_Uint kv ''attention.value_length'' (ucast e))) (EmbeddingHeadCountMax kv)"

definition ContextLength :: "KV \<Rightarrow> 64 word" where
  "ContextLength kv = ucast (KV_Uint kv ''context_length'' 0)"

definition ChatTemplate :: "KV \<Rightarrow> string" where
  "ChatTemplate kv = KV_String kv ''tokenizer.chat_template'' []"

definition SSMConvKernel :: "KV \<Rightarrow> 64 word" where
  "SSMConvKernel kv = ucast (KV_Uint kv ''ssm.conv_kernel'' 0)"

definition SSMInnerSize :: "KV \<Rightarrow> 64 word" where
  "SSMInnerSize kv = ucast (KV_Uint kv ''ssm.inner_size'' 0)"

definition SSMStateSize :: "KV \<Rightarrow> 64 word" where
  "SSMStateSize kv = ucast (KV_Uint kv ''ssm.state_size'' 0)"

definition SSMGroupCount :: "KV \<Rightarrow> 64 word" where
  "SSMGroupCount kv = ucast (KV_Uint kv ''ssm.group_count'' 0)"

definition FFNLength :: "KV \<Rightarrow> 64 word list" where
  "FFNLength kv = per_layer kv ''feed_forward_length'' 0"

definition YollamaEngineRequired :: "KV \<Rightarrow> bool" where
  "YollamaEngineRequired kv \<longleftrightarrow> Architecture kv \<in> set
     [''bert'', ''deepseek2'', ''deepseekocr'', ''gemma3'', ''gemma3n'', ''gemma4'', ''gptoss'',
      ''gpt-oss'', ''laguna'', ''llama4'', ''mistral3'', ''mllama'', ''nemotron_h'',
      ''nemotron_h_moe'', ''nemotron_h_omni'', ''nomic-bert'', ''olmo3'', ''qwen25vl'', ''qwen3'',
      ''qwen3moe'', ''qwen35'', ''qwen35moe'', ''qwen3next'', ''qwen3vl'', ''qwen3vlmoe'',
      ''glm4moelite'', ''glmocr'', ''lfm2'', ''lfm2moe'']"

definition SupportsKVCacheType :: "string \<Rightarrow> bool" where
  "SupportsKVCacheType cacheType \<longleftrightarrow>
     (if cacheType = [] \<or> cacheType = ''f16'' then True
      else cacheType \<in> set [''q8_0'', ''q4_0''])"

definition KVCacheTypeIsQuantized :: "string \<Rightarrow> bool" where
  "KVCacheTypeIsQuantized cacheType \<longleftrightarrow>
     \<not> (cacheType = [] \<or> cacheType = ''f16'' \<or> cacheType = ''f32'' \<or> cacheType = ''bf16'')"

definition SupportsFlashAttention :: "KV \<Rightarrow> bool option" where
  "SupportsFlashAttention kv =
     (if map_of kv (Architecture kv @ ''.pooling_type'') \<noteq> None then Some False
      else if Architecture kv \<in> set [''qwen35'', ''qwen35moe'', ''qwen3next''] then Some True
      else if Architecture kv \<in> set [''gemma2'', ''grok''] then Some False
      else (case (EmbeddingHeadCountK kv, EmbeddingHeadCountV kv) of
          (Some k, Some v) \<Rightarrow> Some (k \<noteq> 0 \<and> v \<noteq> 0 \<and> k = v)
        | _ \<Rightarrow> None))"

definition FlashAttention :: "KV \<Rightarrow> bool" where
  "FlashAttention kv \<longleftrightarrow> KV_String kv ''general.architecture'' [] \<in> set
     [''bert'', ''gemma3'', ''gemma4'', ''glm4moelite'', ''glmocr'', ''gptoss'', ''gpt-oss'',
      ''lfm2'', ''lfm2moe'', ''mistral3'', ''nemotron_h'', ''nemotron_h_moe'', ''nemotron_h_omni'',
      ''olmo3'', ''qwen3'', ''qwen3moe'', ''qwen35'', ''qwen35moe'', ''qwen3next'', ''qwen3vl'',
      ''qwen3vlmoe'']"

section \<open>Layers\<close>

definition Items :: "Tensor list \<Rightarrow> string option \<Rightarrow> Tensor list" where
  "Items items pre = (case pre of
      None \<Rightarrow> items | Some p \<Rightarrow> filter (\<lambda>t. HasPrefix (Tensor_Name t) p) items)"

text \<open>\<open>slices.IndexFunc\<close>.\<close>

fun IndexFunc :: "('a \<Rightarrow> bool) \<Rightarrow> 'a list \<Rightarrow> nat option" where
  "IndexFunc f [] = None"
| "IndexFunc f (x # xs) = (if f x then Some 0 else map_option Suc (IndexFunc f xs))"

definition layer_parts :: "string \<Rightarrow> string list" where
  "layer_parts name =
     (let parts = Split name ''.'' in
      case IndexFunc (\<lambda>s. s = ''blk'' \<or> s = ''mm'') parts of
        None \<Rightarrow> parts
      | Some index \<Rightarrow>
          if length parts > index + 2 then
            Join (take (index + 2) parts) ''.'' # drop (index + 2) parts
          else parts)"

type_synonym Layer = "(string \<times> Tensor) list"

definition GroupLayers :: "Tensor list \<Rightarrow> (string \<times> Layer) list" where
  "GroupLayers items = fold (\<lambda>t layers.
     let parts = layer_parts (Tensor_Name t);
         layer = (case map_of layers (hd parts) of Some l \<Rightarrow> l | None \<Rightarrow> [])
     in AList.update (hd parts) (AList.update (Join (tl parts) ''.'') t layer) layers) items []"

definition Layer_Size :: "Layer \<Rightarrow> 64 word" where
  "Layer_Size l = fold (\<lambda>(_, t) size. size + Tensor_Size t) l 0"

section \<open>Facts about layers\<close>

lemma Join_append:
  "xs \<noteq> [] \<Longrightarrow> ys \<noteq> [] \<Longrightarrow> Join (xs @ ys) s = Join xs s @ s @ Join ys s"
proof (induction xs rule: induct_list012)
  case (2 x)
  then show ?case by (cases ys) simp_all
qed simp_all

lemma layer_parts_nonempty: "layer_parts name \<noteq> []"
  by (auto simp: layer_parts_def Split_def Split_at_nonempty Let_def split: option.split)

lemma Join_layer_parts: "Join (layer_parts name) ''.'' = name"
proof -
  let ?ps = "Split name ''.''"
  have all: "Join ?ps ''.'' = name" by (simp add: Split_def Join_Split_at)
  have "Join (Join (take k ?ps) ''.'' # drop k ?ps) ''.'' = name" if k: "0 < k" "k < length ?ps" for k
  proof -
    have ne: "take k ?ps \<noteq> []" "drop k ?ps \<noteq> []" using k by auto
    have "Join (Join (take k ?ps) ''.'' # drop k ?ps) ''.'' = Join (take k ?ps) ''.'' @ ''.'' @ Join (drop k ?ps) ''.''"
      using ne(2) by (cases "drop k ?ps") simp_all
    also have "\<dots> = Join (take k ?ps @ drop k ?ps) ''.''" by (rule Join_append [OF ne, symmetric])
    finally show ?thesis using all by simp
  qed
  then show ?thesis using all by (simp add: layer_parts_def Let_def split: option.split)
qed

definition layer_key :: "string \<Rightarrow> string \<times> string" where
  "layer_key name = (hd (layer_parts name), Join (tl (layer_parts name)) ''.'')"

definition layer_entry :: "(string \<times> Layer) list \<Rightarrow> string \<times> string \<Rightarrow> Tensor option" where
  "layer_entry layers k = Option.bind (map_of layers (fst k)) (\<lambda>layer. map_of layer (snd k))"

text \<open>A name that does not end in a dot is determined by its layer and its place in it.\<close>

lemma layer_key_name:
  assumes "\<not> HasSuffix name ''.''"
  shows "name = fst (layer_key name) @
    (if snd (layer_key name) = [] then [] else ''.'' @ snd (layer_key name))"
proof -
  obtain p ps where ps: "layer_parts name = p # ps"
    using layer_parts_nonempty by (cases "layer_parts name") auto
  have name: "name = Join (p # ps) ''.''" using Join_layer_parts [of name] ps by simp
  show ?thesis
  proof (cases ps)
    case Nil
    then show ?thesis using name ps by (simp add: layer_key_def)
  next
    case (Cons q qs)
    then have n: "name = p @ ''.'' @ Join ps ''.''" using name by simp
    then have "Join ps ''.'' \<noteq> []" using assms by (auto simp: suffix_def)
    then show ?thesis using n ps by (simp add: layer_key_def)
  qed
qed

lemma layer_key_inj:
  "\<not> HasSuffix a ''.'' \<Longrightarrow> \<not> HasSuffix c ''.'' \<Longrightarrow> layer_key a = layer_key c \<Longrightarrow> a = c"
  by (metis layer_key_name)

definition group_step :: "Tensor \<Rightarrow> (string \<times> Layer) list \<Rightarrow> (string \<times> Layer) list" where
  "group_step t layers =
     (let parts = layer_parts (Tensor_Name t);
          layer = (case map_of layers (hd parts) of Some l \<Rightarrow> l | None \<Rightarrow> [])
      in AList.update (hd parts) (AList.update (Join (tl parts) ''.'') t layer) layers)"

lemma layer_entry_step:
  "layer_entry (group_step t layers) k =
    (if k = layer_key (Tensor_Name t) then Some t else layer_entry layers k)"
  by (cases k)
    (auto simp: layer_entry_def group_step_def layer_key_def Let_def update_conv' split: option.splits)

lemma layer_entry_fold:
  "layer_entry (fold group_step ts layers) k =
    (case find (\<lambda>t. layer_key (Tensor_Name t) = k) (rev ts) of
       Some t \<Rightarrow> Some t | None \<Rightarrow> layer_entry layers k)"
proof (induction ts rule: rev_induct)
  case (snoc t ts)
  then show ?case by (auto simp: layer_entry_step)
qed simp

lemma GroupLayers_entry:
  "layer_entry (GroupLayers ts) k = find (\<lambda>t. layer_key (Tensor_Name t) = k) (rev ts)"
proof -
  have "GroupLayers ts = fold group_step ts []"
    by (simp add: GroupLayers_def group_step_def [abs_def])
  moreover have "layer_entry [] k = None" by (simp add: layer_entry_def)
  ultimately show ?thesis by (simp add: layer_entry_fold split: option.split)
qed

section \<open>Properties\<close>

text \<open>Grouping the tensors of a model by layer loses none and invents none: with distinct names
  that do not end in a dot, every tensor is the entry of its layer under its own key, and every entry
  of a layer is such a tensor.\<close>

theorem group_layers_complete:
  assumes "distinct (map Tensor_Name ts)" and "\<forall>t \<in> set ts. \<not> HasSuffix (Tensor_Name t) ''.''"
  shows "(\<forall>t \<in> set ts. layer_entry (GroupLayers ts) (layer_key (Tensor_Name t)) = Some t) \<and>
    (\<forall>k t. layer_entry (GroupLayers ts) k = Some t \<longrightarrow>
       t \<in> set ts \<and> k = layer_key (Tensor_Name t))"
proof (intro conjI ballI allI impI)
  fix t assume t: "t \<in> set ts"
  let ?P = "\<lambda>u. layer_key (Tensor_Name u) = layer_key (Tensor_Name t)"
  obtain u where u: "find ?P (rev ts) = Some u"
    using t by (cases "find ?P (rev ts)") (auto simp: find_None_iff)
  then have "u \<in> set ts" "?P u" by (auto simp: find_Some_iff in_set_conv_nth [of _ "rev ts", simplified])
  then have "Tensor_Name u = Tensor_Name t" using assms(2) t layer_key_inj by blast
  then have "u = t" using \<open>u \<in> set ts\<close> t assms(1) by (meson distinct_map inj_onD)
  with u show "layer_entry (GroupLayers ts) (layer_key (Tensor_Name t)) = Some t"
    by (simp add: GroupLayers_entry)
next
  fix k t assume "layer_entry (GroupLayers ts) k = Some t"
  then show "t \<in> set ts" "k = layer_key (Tensor_Name t)"
    by (auto simp: GroupLayers_entry find_Some_iff in_set_conv_nth [of _ "rev ts", simplified])
qed

text \<open>Head counts have exactly one entry per block: a single number is used for every layer, an
  array gives the first entries and the default 1 fills the rest.\<close>

theorem head_count_per_layer:
  "length (HeadCount kv) = unat (BlockCount kv) \<and>
   (\<forall>v. UintOrArrayValueAsArray kv ''attention.head_count'' 1 = [v] \<longrightarrow>
      HeadCount kv = replicate (unat (BlockCount kv)) (ucast v)) \<and>
   (\<forall>xs. UintOrArrayValueAsArray kv ''attention.head_count'' 1 = xs \<longrightarrow> length xs \<noteq> 1 \<longrightarrow>
      HeadCount kv = take (unat (BlockCount kv)) (map ucast xs) @
        replicate (unat (BlockCount kv) - length xs) 1)"
proof (intro conjI allI impI)
  show "length (HeadCount kv) = unat (BlockCount kv)" by (simp add: HeadCount_def per_layer_def Let_def)
next
  fix v assume "UintOrArrayValueAsArray kv ''attention.head_count'' 1 = [v]"
  then show "HeadCount kv = replicate (unat (BlockCount kv)) (ucast v)"
    by (intro nth_equalityI) (auto simp: HeadCount_def per_layer_def Let_def not_less_eq_eq)
next
  fix xs :: "32 word list"
  assume "UintOrArrayValueAsArray kv ''attention.head_count'' 1 = xs" and "length xs \<noteq> 1"
  then show "HeadCount kv = take (unat (BlockCount kv)) (map ucast xs) @
      replicate (unat (BlockCount kv) - length xs) 1"
    by (intro nth_equalityI) (auto simp: HeadCount_def per_layer_def Let_def nth_append min_def)
qed

lemma fold_min_max:
  fixes x :: "32 word"
  shows "fold min xs x \<in> set (x # xs) \<and> fold max xs x \<in> set (x # xs) \<and>
    (\<forall>y \<in> set (x # xs). fold min xs x \<le> y \<and> y \<le> fold max xs x)"
proof -
  have "fold min xs x = Min (set (x # xs))" "fold max xs x = Max (set (x # xs))"
    by (simp_all only: Min.set_eq_fold Max.set_eq_fold)
  moreover have "Min (set (x # xs)) \<in> set (x # xs)" "Max (set (x # xs)) \<in> set (x # xs)"
    by (rule Min_in Max_in; simp)+
  ultimately show ?thesis by simp
qed

text \<open>The head count bounds of the metadata are values of the head count entry and bound all of
  them; asking for them panics exactly if the entry is an array whose values are empty or were not
  loaded because of its length.\<close>

theorem uint_or_array_bounds:
  "case UintOrArrayValue kv key dflt of
     None \<Rightarrow> UintOrArrayValueAsArray kv key dflt = []
   | Some (lo, hi) \<Rightarrow> {lo, hi} \<subseteq> set (UintOrArrayValueAsArray kv key dflt) \<and>
       (\<forall>y \<in> set (UintOrArrayValueAsArray kv key dflt). lo \<le> y \<and> y \<le> hi)"
proof (cases "UintOrArrayValueAsArray kv key dflt")
  case Nil
  then show ?thesis by (simp add: UintOrArrayValue_def)
next
  case (Cons x xs)
  then show ?thesis using fold_min_max [of xs x] by (auto simp: UintOrArrayValue_def)
qed

section \<open>Concrete models\<close>

definition sample_kv :: KV where
  "sample_kv = [(''general.architecture'', String ''llama''), (''llama.block_count'', Uint32 3),
     (''llama.attention.head_count'', Uint32s (Array 2 (Some [8, 4])))]"

definition sample_tensors :: "Tensor list" where
  "sample_tensors =
    [\<lparr>Tensor_Name = ''blk.0.attn.weight'', Kind = 0, Offset = 0, Shape = [4]\<rparr>,
     \<lparr>Tensor_Name = ''output'', Kind = 0, Offset = 32, Shape = [4]\<rparr>]"

theorem group_layers_complete_witness:
  "layer_entry (GroupLayers sample_tensors) (layer_key ''output'') =
    Some \<lparr>Tensor_Name = ''output'', Kind = 0, Offset = 32, Shape = [4]\<rparr>"
  using group_layers_complete [of sample_tensors]
  by (simp add: sample_tensors_def suffix_def append_eq_Cons_conv Cons_eq_append_conv)

lemmas kv_eval = sample_kv_def per_layer_def UintOrArrayValueAsArray_def keyValue_def typed_def
  Architecture_def BlockCount_def KV_Uint_def values_of_def

theorem head_count_per_layer_witness:
  "HeadCount sample_kv = [8, 4, 1]"
proof -
  have a: "UintOrArrayValueAsArray sample_kv ''attention.head_count'' 1 = [8, 4]"
    and b: "BlockCount sample_kv = 3"
    by (simp_all add: kv_eval)
  show ?thesis
    using head_count_per_layer [of sample_kv] by (simp add: a b)
qed

theorem uint_or_array_bounds_witness:
  "UintOrArrayValue sample_kv ''attention.head_count'' 1 = Some (4, 8) \<and>
   {4, 8} \<subseteq> set (UintOrArrayValueAsArray sample_kv ''attention.head_count'' 1)"
proof -
  have "UintOrArrayValue sample_kv ''attention.head_count'' 1 = Some (4, 8)"
    by (simp add: UintOrArrayValue_def kv_eval)
  then show ?thesis
    using uint_or_array_bounds [of sample_kv "''attention.head_count''" 1] by simp
qed

text \<open>An array that was too long to be loaded has no values, and asking for its maximum panics.\<close>

lemma unloaded_head_count_panics:
  "HeadCountMax [(''general.architecture'', String ''llama''),
     (''llama.attention.head_count'', Uint32s (Array 2000 None))] = None"
  by (simp add: HeadCountMax_def UintOrMaxArrayValue_def UintOrArrayValue_def kv_eval)

end
