(* ===== verification/Go_Strconv.thy ===== *)
theory Go_Strconv
  imports Go_Prelude
begin

text \<open>
  Decimal numbers, after package \<open>strconv\<close>: \<open>Itoa\<close> and \<open>Atoi\<close> on the 64-bit type \<open>int\<close>, and the
  white space fields of package \<open>strings\<close>.
\<close>

definition digit_val :: "char \<Rightarrow> nat" where
  "digit_val c = byte c - 48"

definition is_digit :: "char \<Rightarrow> bool" where
  "is_digit c \<longleftrightarrow> in_range 48 57 (byte c)"

definition max_int :: int where
  "max_int = 2 ^ 63 - 1"

definition digits_val :: "string \<Rightarrow> int" where
  "digits_val ds = foldl (\<lambda>n c. 10 * n + int (digit_val c)) 0 ds"

text \<open>An optional sign and at least one digit, within the range of the type.\<close>

definition Atoi :: "string \<Rightarrow> int option" where
  "Atoi s =
     (let neg = HasPrefix s ''-'';
          ds = (if HasPrefix s ''-'' \<or> HasPrefix s ''+'' then tl s else s);
          k = digits_val ds;
          n = (if neg then - k else k)
      in if ds = [] \<or> \<not> list_all is_digit ds \<or> n > max_int \<or> n < - max_int - 1 then None
         else Some n)"

fun utoa :: "nat \<Rightarrow> string" where
  "utoa n = (if n < 10 then [char_of (48 + n)] else utoa (n div 10) @ [char_of (48 + n mod 10)])"

declare utoa.simps [simp del]

definition Itoa :: "int \<Rightarrow> string" where
  "Itoa n = (if n < 0 then CHR ''-'' # utoa (nat (- n)) else utoa (nat n))"

lemma utoa_digits: "list_all is_digit (utoa n) \<and> utoa n \<noteq> []"
proof (induction n rule: utoa.induct)
  case (1 n)
  have d: "is_digit (char_of (48 + k))" if "k < 10" for k :: nat
    using that by (simp add: is_digit_def in_range_def)
  show ?case
  proof (cases "n < 10")
    case True
    then show ?thesis using d [of n] by (simp add: utoa.simps [of n])
  next
    case False
    then show ?thesis using 1 d [of "n mod 10"] by (simp add: utoa.simps [of n])
  qed
qed

lemma digits_val_snoc: "digits_val (ds @ [c]) = 10 * digits_val ds + int (digit_val c)"
  by (simp add: digits_val_def)

lemma digits_val_utoa: "digits_val (utoa n) = int n"
proof (induction n rule: utoa.induct)
  case (1 n)
  have d: "digit_val (char_of (48 + k)) = k" if "k < 10" for k :: nat
    using that by (simp add: digit_val_def)
  show ?case
  proof (cases "n < 10")
    case True
    then show ?thesis using d [of n] by (subst utoa.simps) (simp add: digits_val_def)
  next
    case False
    then have "digits_val (utoa n) = 10 * int (n div 10) + int (n mod 10)"
      using 1 d [of "n mod 10"] by (subst utoa.simps) (simp add: digits_val_snoc)
    also have "\<dots> = int (10 * (n div 10) + n mod 10)" by (simp only: of_nat_add of_nat_mult of_nat_numeral)
    finally show ?thesis by simp
  qed
qed

lemma utoa_no_sign: "\<not> HasPrefix (utoa n) ''-'' \<and> \<not> HasPrefix (utoa n) ''+''"
  using utoa_digits [of n] by (cases "utoa n") (auto simp: is_digit_def in_range_def)

lemma Atoi_Itoa: "- max_int - 1 \<le> n \<Longrightarrow> n \<le> max_int \<Longrightarrow> Atoi (Itoa n) = Some n"
  using utoa_digits [of "nat n"] utoa_digits [of "nat (- n)"] utoa_no_sign [of "nat n"]
  by (simp add: Atoi_def Itoa_def digits_val_utoa Let_def)

section \<open>Fields\<close>

text \<open>\<open>strings.Fields\<close> on ASCII text: the words between runs of white space.\<close>

function Fields :: "string \<Rightarrow> string list" where
  "Fields s =
     (let s = dropWhile (\<lambda>c. IsSpace (byte c)) s in
      if s = [] then []
      else takeWhile (\<lambda>c. \<not> IsSpace (byte c)) s # Fields (dropWhile (\<lambda>c. \<not> IsSpace (byte c)) s))"
  by pat_completeness auto
termination
proof (relation "measure length")
  fix s x :: string
  assume x: "x = dropWhile (\<lambda>c. IsSpace (byte c)) s" "x \<noteq> []"
  then have "\<not> IsSpace (byte (hd x))" using hd_dropWhile by blast
  then have "length (dropWhile (\<lambda>c. \<not> IsSpace (byte c)) x) < length x"
    using x(2) by (cases x) (auto simp: le_imp_less_Suc length_dropWhile_le)
  also have "\<dots> \<le> length s" using x(1) by (simp add: length_dropWhile_le)
  finally show "(dropWhile (\<lambda>c. \<not> IsSpace (byte c)) x, s) \<in> measure length" by simp
qed simp

declare Fields.simps [simp del]

end
