(* ===== verification/Gguf_Codec.thy ===== *)
theory Gguf_Codec
  imports Ggml_KV Go_Strconv "HOL-Library.Signed_Division" "HOL-Library.Char_ord" "HOL-Library.List_Lexorder"
    "HOL-Library.Product_Lexorder" "HOL-Library.Multiset"
begin

text \<open>
  Reading and writing GGUF files, after \<open>fs/ggml/gguf.go\<close> and \<open>Decode\<close> of \<open>fs/ggml/ggml.go\<close>. A
  file is a list of bytes. A reader takes the bytes from the current position and returns a value and
  the rest; a writer is the bytes it writes. A run-time panic is the error \<open>Panic\<close>. Memory is
  unbounded: an allocation fails only where the Go run time rejects a negative length. The locale
  \<open>codec\<close> is the contract between a reader and a writer, interpreted here for numbers, booleans,
  strings, key-value pairs and tensor records.
\<close>

section \<open>Bytes\<close>

fun le_bytes :: "nat \<Rightarrow> nat \<Rightarrow> string" where
  "le_bytes 0 x = []"
| "le_bytes (Suc n) x = char_of (x mod 256) # le_bytes n (x div 256)"

fun le_nat :: "string \<Rightarrow> nat" where
  "le_nat [] = 0"
| "le_nat (c # cs) = byte c + 256 * le_nat cs"

lemma length_le_bytes [simp]: "length (le_bytes n x) = n"
  by (induction n arbitrary: x) simp_all

lemma le_nat_le_bytes: "le_nat (le_bytes n x) = x mod 256 ^ n"
proof (induction n arbitrary: x)
  case (Suc n)
  have "x mod 256 ^ Suc n = x mod 256 + 256 * (x div 256 mod 256 ^ n)"
    by (simp add: mod_mult2_eq)
  then show ?case using Suc by simp
qed simp

section \<open>Errors, readers\<close>

datatype gguf_error =
    UnexpectedEOF
  | InvalidMagic
  | InvalidType "32 word"
  | InvalidArrayType "32 word"
  | TensorOutOfBounds string
  | NegativeSeek
  | ArchitectureNotSet
  | ImproperType string
  | Panic

type_synonym 'a reader = "string \<Rightarrow> gguf_error + 'a \<times> string"

definition rreturn :: "'a \<Rightarrow> 'a reader" where
  "rreturn x s = Inr (x, s)"

definition rfail :: "gguf_error \<Rightarrow> 'a reader" where
  "rfail e s = Inl e"

definition rbind :: "'a reader \<Rightarrow> ('a \<Rightarrow> 'b reader) \<Rightarrow> 'b reader" where
  "rbind p f s = (case p s of Inl e \<Rightarrow> Inl e | Inr (x, s') \<Rightarrow> f x s')"

definition rmap :: "('a \<Rightarrow> 'b) \<Rightarrow> 'a reader \<Rightarrow> 'b reader" where
  "rmap f p = rbind p (\<lambda>x. rreturn (f x))"

fun read_elems :: "'a reader \<Rightarrow> nat \<Rightarrow> 'a list reader" where
  "read_elems p 0 = rreturn []"
| "read_elems p (Suc n) = rbind p (\<lambda>x. rmap ((#) x) (read_elems p n))"

text \<open>\<open>io.ReadFull\<close> of \<open>n\<close> bytes.\<close>

definition ReadFull :: "nat \<Rightarrow> string reader" where
  "ReadFull n s = (if length s < n then Inl UnexpectedEOF else Inr (take n s, drop n s))"

lemma rbind_Inr [simp]: "p s = Inr (x, s') \<Longrightarrow> rbind p f s = f x s'"
  by (simp add: rbind_def)

lemma rreturn_apply [simp]: "rreturn x s = Inr (x, s)"
  by (simp add: rreturn_def)

lemma rmap_Inr [simp]: "p s = Inr (x, s') \<Longrightarrow> rmap f p s = Inr (f x, s')"
  by (simp add: rmap_def)

lemma ReadFull_append [simp]: "length a = n \<Longrightarrow> ReadFull n (a @ rest) = Inr (a, rest)"
  by (simp add: ReadFull_def)

text \<open>The contract of a reader and a writer of the same values.\<close>

locale codec =
  fixes rd :: "'a reader"
    and wr :: "'a \<Rightarrow> string"
    and ok :: "'a \<Rightarrow> bool"
  assumes read_write: "ok x \<Longrightarrow> rd (wr x @ rest) = Inr (x, rest)"
begin

lemma read_list:
  "list_all ok xs \<Longrightarrow> read_elems rd (length xs) (concat (map wr xs) @ rest) = Inr (xs, rest)"
proof (induction xs)
  case (Cons x xs)
  then have "rd (wr x @ concat (map wr xs) @ rest) = Inr (x, concat (map wr xs) @ rest)"
    using read_write by simp
  with Cons show ?case by simp
qed simp

lemma write_inj: "ok x \<Longrightarrow> ok y \<Longrightarrow> wr x = wr y \<Longrightarrow> x = y"
  using read_write [of x "[]"] read_write [of y "[]"] by simp

end

section \<open>Numbers and strings\<close>

datatype ByteOrder = LittleEndian | BigEndian

definition order_nat :: "ByteOrder \<Rightarrow> string \<Rightarrow> nat" where
  "order_nat bo bs = le_nat (case bo of LittleEndian \<Rightarrow> bs | BigEndian \<Rightarrow> rev bs)"

text \<open>\<open>readGGUF\<close> at a type of \<open>n\<close> bytes. Signed and floating point types are read as bit patterns.\<close>

definition readGGUF :: "nat \<Rightarrow> ByteOrder \<Rightarrow> 'w::len word reader" where
  "readGGUF n bo = rmap (\<lambda>bs. word_of_nat (order_nat bo bs)) (ReadFull n)"

definition readBool :: "ByteOrder \<Rightarrow> bool reader" where
  "readBool bo = rmap (\<lambda>bs. bs \<noteq> [CHR 0x00]) (ReadFull 1)"

text \<open>\<open>binary.Write\<close> in little-endian order.\<close>

definition put32 :: "32 word \<Rightarrow> string" where
  "put32 x = le_bytes 4 (unat x)"

definition put64 :: "64 word \<Rightarrow> string" where
  "put64 x = le_bytes 8 (unat x)"

definition putBool :: "bool \<Rightarrow> string" where
  "putBool x = [if x then CHR 0x01 else CHR 0x00]"

text \<open>The conversion \<open>int(x)\<close> of an unsigned 64-bit number.\<close>

definition int_of :: "64 word \<Rightarrow> int" where
  "int_of x = (if unat x < 2 ^ 63 then int (unat x) else int (unat x) - 2 ^ 64)"

definition readGGUFV1String :: "ByteOrder \<Rightarrow> string reader" where
  "readGGUFV1String bo = rbind (readGGUF 8 bo) (\<lambda>len :: 64 word.
     if int_of len \<le> 0 then rfail Panic
     else rmap butlast (ReadFull (nat (int_of len))))"

definition readGGUFString :: "32 word \<Rightarrow> ByteOrder \<Rightarrow> string reader" where
  "readGGUFString version bo =
     (if version = 1 then readGGUFV1String bo
      else rbind (readGGUF 8 bo) (\<lambda>len :: 64 word.
        if int_of len < 0 then rfail Panic else ReadFull (nat (int_of len))))"

text \<open>\<open>discardGGUFString\<close> with its error ignored: at the end of the file it discards nothing more.\<close>

definition discardGGUFString :: "ByteOrder \<Rightarrow> string \<Rightarrow> string" where
  "discardGGUFString bo s =
     (case readGGUF 8 bo s of
        Inl _ \<Rightarrow> []
      | Inr (len :: 64 word, s') \<Rightarrow> drop (nat (int_of len)) s')"

definition putString :: "string \<Rightarrow> string" where
  "putString s = put64 (word_of_nat (length s)) @ s"

interpretation u32: codec "readGGUF 4 LittleEndian" put32 "\<lambda>_. True"
proof
  fix x :: "32 word" and rest
  have "unat x < 256 ^ 4" using unsigned_less [of x] by simp
  then show "readGGUF 4 LittleEndian (put32 x @ rest) = Inr (x, rest)"
    by (simp add: readGGUF_def put32_def order_nat_def le_nat_le_bytes)
qed

interpretation u64: codec "readGGUF 8 LittleEndian" put64 "\<lambda>_. True"
proof
  fix x :: "64 word" and rest
  have "unat x < 256 ^ 8" using unsigned_less [of x] by simp
  then show "readGGUF 8 LittleEndian (put64 x @ rest) = Inr (x, rest)"
    by (simp add: readGGUF_def put64_def order_nat_def le_nat_le_bytes)
qed

interpretation boolean: codec "readBool LittleEndian" putBool "\<lambda>_. True"
proof
  show "readBool LittleEndian (putBool x @ rest) = Inr (x, rest)" for x rest
    by (simp add: readBool_def putBool_def ReadFull_def rmap_def rbind_def)
qed

abbreviation max_len :: nat where
  "max_len \<equiv> 2 ^ 63"

lemma unat_small: "k < 2 ^ 64 \<Longrightarrow> unat (word_of_nat k :: 64 word) = k"
  by (simp add: unsigned_of_nat take_bit_nat_eq_self)

lemma int_of_length: "k < max_len \<Longrightarrow> int_of (word_of_nat k) = int k"
  by (simp add: int_of_def unat_small)

interpretation gstring: codec "readGGUFString 3 LittleEndian" putString "\<lambda>s. length s < max_len"
proof
  fix s rest :: string assume "length s < max_len"
  then show "readGGUFString 3 LittleEndian (putString s @ rest) = Inr (s, rest)"
    by (simp add: readGGUFString_def putString_def u64.read_write int_of_length)
qed

section \<open>Values\<close>

abbreviation ggufTypeUint8 :: "32 word" where "ggufTypeUint8 \<equiv> 0"
abbreviation ggufTypeInt8 :: "32 word" where "ggufTypeInt8 \<equiv> 1"
abbreviation ggufTypeUint16 :: "32 word" where "ggufTypeUint16 \<equiv> 2"
abbreviation ggufTypeInt16 :: "32 word" where "ggufTypeInt16 \<equiv> 3"
abbreviation ggufTypeUint32 :: "32 word" where "ggufTypeUint32 \<equiv> 4"
abbreviation ggufTypeInt32 :: "32 word" where "ggufTypeInt32 \<equiv> 5"
abbreviation ggufTypeFloat32 :: "32 word" where "ggufTypeFloat32 \<equiv> 6"
abbreviation ggufTypeBool :: "32 word" where "ggufTypeBool \<equiv> 7"
abbreviation ggufTypeString :: "32 word" where "ggufTypeString \<equiv> 8"
abbreviation ggufTypeArray :: "32 word" where "ggufTypeArray \<equiv> 9"
abbreviation ggufTypeUint64 :: "32 word" where "ggufTypeUint64 \<equiv> 10"
abbreviation ggufTypeInt64 :: "32 word" where "ggufTypeInt64 \<equiv> 11"
abbreviation ggufTypeFloat64 :: "32 word" where "ggufTypeFloat64 \<equiv> 12"

record containerGGUF =
  byteOrder :: ByteOrder
  Version :: "32 word"
  NumTensor :: "64 word"
  NumKV :: "64 word"
  maxArraySize :: int

text \<open>\<open>newArray\<close>: whether the values are kept; \<open>make\<close> panics on a negative length.\<close>

definition newArray :: "int \<Rightarrow> int \<Rightarrow> gguf_error + bool" where
  "newArray len maxSize =
     (if maxSize < 0 \<or> len \<le> maxSize then (if len < 0 then Inl Panic else Inr True)
      else Inr False)"

definition readGGUFArrayData :: "'a reader \<Rightarrow> ('a array \<Rightarrow> value) \<Rightarrow> int \<Rightarrow> bool \<Rightarrow> value reader" where
  "readGGUFArrayData elem con len keep =
     rmap (\<lambda>xs. con (Array len (if keep then Some xs else None))) (read_elems elem (nat len))"

definition readGGUFStringsData :: "containerGGUF \<Rightarrow> int \<Rightarrow> bool \<Rightarrow> value reader" where
  "readGGUFStringsData c len keep s =
     (if keep then
        readGGUFArrayData (readGGUFString (Version c) (byteOrder c)) Strings len True s
      else Inr (Strings (Array len None), (discardGGUFString (byteOrder c) ^^ nat len) s))"

definition readGGUFArray :: "containerGGUF \<Rightarrow> value reader" where
  "readGGUFArray c = rbind (readGGUF 4 (byteOrder c)) (\<lambda>t. rbind (readGGUF 8 (byteOrder c)) (\<lambda>n.
     let bo = byteOrder c; len = int_of n in
     if t \<notin> set [ggufTypeUint8, ggufTypeInt8, ggufTypeUint16, ggufTypeInt16, ggufTypeUint32,
         ggufTypeInt32, ggufTypeFloat32, ggufTypeBool, ggufTypeString, ggufTypeUint64,
         ggufTypeInt64, ggufTypeFloat64] then rfail (InvalidArrayType t)
     else (case newArray len (maxArraySize c) of
        Inl e \<Rightarrow> rfail e
      | Inr keep \<Rightarrow>
          if t = ggufTypeUint8 then readGGUFArrayData (readGGUF 1 bo) Uint8s len keep
          else if t = ggufTypeInt8 then readGGUFArrayData (readGGUF 1 bo) Int8s len keep
          else if t = ggufTypeUint16 then readGGUFArrayData (readGGUF 2 bo) Uint16s len keep
          else if t = ggufTypeInt16 then readGGUFArrayData (readGGUF 2 bo) Int16s len keep
          else if t = ggufTypeUint32 then readGGUFArrayData (readGGUF 4 bo) Uint32s len keep
          else if t = ggufTypeInt32 then readGGUFArrayData (readGGUF 4 bo) Int32s len keep
          else if t = ggufTypeUint64 then readGGUFArrayData (readGGUF 8 bo) Uint64s len keep
          else if t = ggufTypeInt64 then readGGUFArrayData (readGGUF 8 bo) Int64s len keep
          else if t = ggufTypeFloat32 then readGGUFArrayData (readGGUF 4 bo) Float32s len keep
          else if t = ggufTypeFloat64 then readGGUFArrayData (readGGUF 8 bo) Float64s len keep
          else if t = ggufTypeBool then readGGUFArrayData (readBool bo) Bools len keep
          else readGGUFStringsData c len keep)))"

definition readValue :: "containerGGUF \<Rightarrow> 32 word \<Rightarrow> value reader" where
  "readValue c t =
     (let bo = byteOrder c in
      if t = ggufTypeUint8 then rmap Uint8 (readGGUF 1 bo)
      else if t = ggufTypeInt8 then rmap Int8 (readGGUF 1 bo)
      else if t = ggufTypeUint16 then rmap Uint16 (readGGUF 2 bo)
      else if t = ggufTypeInt16 then rmap Int16 (readGGUF 2 bo)
      else if t = ggufTypeUint32 then rmap Uint32 (readGGUF 4 bo)
      else if t = ggufTypeInt32 then rmap Int32 (readGGUF 4 bo)
      else if t = ggufTypeUint64 then rmap Uint64 (readGGUF 8 bo)
      else if t = ggufTypeInt64 then rmap Int64 (readGGUF 8 bo)
      else if t = ggufTypeFloat32 then rmap Float32 (readGGUF 4 bo)
      else if t = ggufTypeFloat64 then rmap Float64 (readGGUF 8 bo)
      else if t = ggufTypeBool then rmap Bool (readBool bo)
      else if t = ggufTypeString then rmap String (readGGUFString (Version c) bo)
      else if t = ggufTypeArray then readGGUFArray c
      else rfail (InvalidType t))"

definition readKV :: "containerGGUF \<Rightarrow> (string \<times> value) reader" where
  "readKV c = rbind (readGGUFString (Version c) (byteOrder c)) (\<lambda>k.
     rbind (readGGUF 4 (byteOrder c)) (\<lambda>t. rmap (\<lambda>v. (k, v)) (readValue c t)))"

definition readTensor :: "containerGGUF \<Rightarrow> Tensor reader" where
  "readTensor c = rbind (readGGUFString (Version c) (byteOrder c)) (\<lambda>name.
     rbind (readGGUF 4 (byteOrder c)) (\<lambda>dims :: 32 word.
     rbind (read_elems (readGGUF 8 (byteOrder c)) (unat dims)) (\<lambda>shape.
     rbind (readGGUF 4 (byteOrder c)) (\<lambda>kind.
     rmap (\<lambda>offset. \<lparr>Tensor_Name = name, Kind = kind, Offset = offset, Shape = shape\<rparr>)
       (readGGUF 8 (byteOrder c))))))"

section \<open>Decoding a file\<close>

text \<open>\<open>ggufPadding\<close> on Go's truncated remainder; a division by zero panics.\<close>

definition ggufPadding :: "int \<Rightarrow> int \<Rightarrow> int option" where
  "ggufPadding offset align =
     (if align = 0 then None else Some ((align - offset smod align) smod align))"

record gguf =
  gg_kv :: KV
  gg_tensors :: "Tensor list"
  gg_parameters :: "64 word"
  tensorOffset :: "64 word"
  Length :: int

definition addKV :: "string \<times> value \<Rightarrow> KV \<Rightarrow> KV" where
  "addKV p m = AList.update (fst p) (snd p) m"

text \<open>The loop over the tensors at the end of \<open>Decode\<close>: the bounds check and the three seeks, with
  the position after the last of them.\<close>

fun check_tensors :: "64 word \<Rightarrow> int \<Rightarrow> nat \<Rightarrow> int \<Rightarrow> Tensor list \<Rightarrow> gguf_error + int" where
  "check_tensors tOffset align fileSize pos [] = Inr pos"
| "check_tensors tOffset align fileSize pos (t # ts) =
     (if tOffset + Offset t + Tensor_Size t > word_of_nat fileSize
      then Inl (TensorOutOfBounds (Tensor_Name t))
      else (case ggufPadding pos align of
          None \<Rightarrow> Inl Panic
        | Some padding \<Rightarrow>
            let pos1 = pos + padding; pos2 = pos1 + int_of (Tensor_Size t) in
            if pos1 < 0 \<or> pos2 < 0 then Inl NegativeSeek
            else check_tensors tOffset align fileSize pos2 ts))"

definition gguf_Decode :: "containerGGUF \<Rightarrow> nat \<Rightarrow> string \<Rightarrow> gguf_error + gguf" where
  "gguf_Decode c fileSize s =
     (case read_elems (readKV c) (unat (NumKV c)) s of
        Inl e \<Rightarrow> Inl e
      | Inr (kvs, s) \<Rightarrow>
          (case read_elems (readTensor c) (unat (NumTensor c)) s of
             Inl e \<Rightarrow> Inl e
           | Inr (ts, s) \<Rightarrow>
               let params = fold (\<lambda>t n. n + Elements t) ts 0;
                   m = addKV (''general.parameter_count'', Uint64 params) (fold addKV kvs []);
                   alignment = int (unat (KV_Uint m ''general.alignment'' 32));
                   offset = int fileSize - int (length s)
               in (case ggufPadding offset alignment of
                  None \<Rightarrow> Inl Panic
                | Some padding \<Rightarrow>
                    let tOffset = word_of_int (offset + padding) in
                    (case check_tensors tOffset alignment fileSize offset ts of
                       Inl e \<Rightarrow> Inl e
                     | Inr pos \<Rightarrow> Inr \<lparr>gg_kv = m, gg_tensors = ts, gg_parameters = params,
                         tensorOffset = tOffset, Length = pos\<rparr>))))"

text \<open>The container: the version and the two counts, 32-bit in version 1.\<close>

definition container_Decode :: "ByteOrder \<Rightarrow> int \<Rightarrow> nat \<Rightarrow> string \<Rightarrow> gguf_error + gguf" where
  "container_Decode bo maxSize fileSize s =
     (case rbind (readGGUF 4 bo) (\<lambda>version :: 32 word.
        if version = 1 then
          rbind (readGGUF 4 bo) (\<lambda>nt :: 32 word. rmap (\<lambda>nk :: 32 word. (version, ucast nt, ucast nk)) (readGGUF 4 bo))
        else rbind (readGGUF 8 bo) (\<lambda>nt. rmap (\<lambda>nk. (version, nt, nk)) (readGGUF 8 bo))) s of
        Inl e \<Rightarrow> Inl e
      | Inr ((version, nt, nk), s) \<Rightarrow>
          gguf_Decode \<lparr>byteOrder = bo, Version = version, NumTensor = nt, NumKV = nk,
            maxArraySize = maxSize\<rparr> fileSize s)"

abbreviation FILE_MAGIC_GGUF_LE :: "32 word" where "FILE_MAGIC_GGUF_LE \<equiv> 0x46554747"
abbreviation FILE_MAGIC_GGUF_BE :: "32 word" where "FILE_MAGIC_GGUF_BE \<equiv> 0x47475546"

definition DetectContentType :: "string \<Rightarrow> string" where
  "DetectContentType bs = switch
     [(0x67676d6c, ''ggml''), (0x67676d66, ''ggmf''), (0x67676a74, ''ggjt''), (0x67676C61, ''ggla''),
      (FILE_MAGIC_GGUF_LE, ''gguf''), (FILE_MAGIC_GGUF_BE, ''gguf'')] []
     (word_of_nat (le_nat (take 4 bs)) :: 32 word)"

definition ggml_Decode :: "string \<Rightarrow> int \<Rightarrow> gguf_error + gguf" where
  "ggml_Decode file maxSize =
     (case readGGUF 4 LittleEndian file of
        Inl e \<Rightarrow> Inl e
      | Inr (magic :: 32 word, s) \<Rightarrow>
          if magic = FILE_MAGIC_GGUF_LE then container_Decode LittleEndian maxSize (length file) s
          else if magic = FILE_MAGIC_GGUF_BE then container_Decode BigEndian maxSize (length file) s
          else Inl InvalidMagic)"

section \<open>Writing a file\<close>

definition writeGGUF :: "32 word \<Rightarrow> string \<Rightarrow> string" where
  "writeGGUF t v = put32 t @ v"

definition writeGGUFString :: "string \<Rightarrow> string" where
  "writeGGUFString s = put32 ggufTypeString @ putString s"

definition writeGGUFArray :: "32 word \<Rightarrow> ('a \<Rightarrow> string) \<Rightarrow> 'a list \<Rightarrow> string" where
  "writeGGUFArray t wr xs =
     put32 ggufTypeArray @ put32 t @ put64 (word_of_nat (length xs)) @ concat (map wr xs)"

text \<open>The type switch of \<open>ggufWriteKV\<close>; a slice is written as the values of an array.\<close>

fun writeValue :: "value \<Rightarrow> string option" where
  "writeValue (Int32 x) = Some (writeGGUF ggufTypeInt32 (put32 x))"
| "writeValue (Int64 x) = Some (writeGGUF ggufTypeInt64 (put64 x))"
| "writeValue (Uint32 x) = Some (writeGGUF ggufTypeUint32 (put32 x))"
| "writeValue (Uint64 x) = Some (writeGGUF ggufTypeUint64 (put64 x))"
| "writeValue (Float32 x) = Some (writeGGUF ggufTypeFloat32 (put32 x))"
| "writeValue (Bool x) = Some (writeGGUF ggufTypeBool (putBool x))"
| "writeValue (String x) = Some (writeGGUFString x)"
| "writeValue (Int32s a) = Some (writeGGUFArray ggufTypeInt32 put32 (values_of a))"
| "writeValue (Int64s a) = Some (writeGGUFArray ggufTypeInt64 put64 (values_of a))"
| "writeValue (Uint32s a) = Some (writeGGUFArray ggufTypeUint32 put32 (values_of a))"
| "writeValue (Float32s a) = Some (writeGGUFArray ggufTypeFloat32 put32 (values_of a))"
| "writeValue (Strings a) = Some (writeGGUFArray ggufTypeString putString (values_of a))"
| "writeValue (Bools a) = Some (writeGGUFArray ggufTypeBool putBool (values_of a))"
| "writeValue _ = None"

definition qualified_key :: "string \<Rightarrow> string \<Rightarrow> string" where
  "qualified_key arch k =
     (if \<not> HasPrefix k (arch @ ''.'') \<and> \<not> HasPrefix k ''general.'' \<and> \<not> HasPrefix k ''adapter.'' \<and>
         \<not> HasPrefix k ''tokenizer.'' then arch @ ''.'' @ k else k)"

definition ggufWriteKV :: "string \<Rightarrow> string \<times> value \<Rightarrow> gguf_error + string" where
  "ggufWriteKV arch p =
     (let k = qualified_key arch (fst p) in
      case writeValue (snd p) of
        None \<Rightarrow> Inl (ImproperType k)
      | Some bytes \<Rightarrow> Inr (putString k @ bytes))"

definition ggufWriteTensorInfo :: "Tensor \<Rightarrow> string" where
  "ggufWriteTensorInfo t =
     putString (Tensor_Name t) @ put32 (word_of_nat (length (Shape t))) @
     concat (map put64 (Shape t)) @ put32 (Kind t) @ put64 (Offset t)"

fun writeAll :: "('a \<Rightarrow> gguf_error + string) \<Rightarrow> 'a list \<Rightarrow> gguf_error + string" where
  "writeAll f [] = Inr []"
| "writeAll f (x # xs) = (case f x of Inl e \<Rightarrow> Inl e | Inr a \<Rightarrow>
     (case writeAll f xs of Inl e \<Rightarrow> Inl e | Inr rest \<Rightarrow> Inr (a @ rest)))"

text \<open>\<open>fmt.Sscanf(name, "blk.%d.", &n)\<close>: the verb skips blanks, takes a sign and decimal digits.\<close>

definition block :: "string \<Rightarrow> int" where
  "block name =
     (if \<not> HasPrefix name ''blk.'' then max_int
      else (let s = TrimLeftFunc (drop 4 name) (\<lambda>r. IsSpace r \<and> r \<noteq> 10);
                neg = HasPrefix s ''-'';
                s = (if HasPrefix s ''-'' \<or> HasPrefix s ''+'' then tl s else s);
                ds = takeWhile is_digit s;
                k = digits_val ds;
                n = (if neg then - k else k)
            in if ds = [] \<or> n > max_int \<or> n < - max_int - 1 \<or> \<not> HasPrefix (dropWhile is_digit s) ''.''
               then max_int else n))"

text \<open>The loop that gives each tensor its offset and writes its record.\<close>

fun place_tensors :: "int \<Rightarrow> 64 word \<Rightarrow> Tensor list \<Rightarrow> gguf_error + Tensor list" where
  "place_tensors align s [] = Inr []"
| "place_tensors align s (t # ts) =
     (let s1 = s + Tensor_Size t in
      case ggufPadding (int_of s1) align of
        None \<Rightarrow> Inl Panic
      | Some padding \<Rightarrow>
          (case place_tensors align (s1 + word_of_int padding) ts of
             Inl e \<Rightarrow> Inl e
           | Inr ts' \<Rightarrow> Inr (t\<lparr>Offset := s\<rparr> # ts')))"

record written =
  header :: string
  placed :: "Tensor list"
  dataOffset :: int

text \<open>\<open>WriteGGUF\<close>: the bytes before the data, the tensors with their offsets, and the position of
  the data of offset 0. The data of each tensor is then written at its own place.\<close>

definition WriteGGUF :: "KV \<Rightarrow> Tensor list \<Rightarrow> gguf_error + written" where
  "WriteGGUF m ts =
     (let arch = KV_String m ''general.architecture'' [] in
      if arch = [] then Inl ArchitectureNotSet
      else (case writeAll (ggufWriteKV arch) (map (\<lambda>k. (k, the (map_of m k))) (sort (map fst m))) of
         Inl e \<Rightarrow> Inl e
       | Inr kvBytes \<Rightarrow>
           let ts = sort_key (\<lambda>t. (block (Tensor_Name t), Tensor_Name t)) ts;
               align = int (unat (KV_Uint m ''general.alignment'' 32)) in
           (case place_tensors align 0 ts of
              Inl e \<Rightarrow> Inl e
            | Inr ts \<Rightarrow>
                let hdr = ''GGUF'' @ put32 3 @ put64 (word_of_nat (length ts)) @
                      put64 (word_of_nat (length m)) @ kvBytes @ concat (map ggufWriteTensorInfo ts)
                in (case ggufPadding (int (length hdr)) align of
                   None \<Rightarrow> Inl Panic
                 | Some padding \<Rightarrow> Inr \<lparr>header = hdr, placed = ts,
                     dataOffset = int (length hdr) + padding\<rparr>))))"

section \<open>Reading what was written\<close>

definition kept :: "int \<Rightarrow> 'a array \<Rightarrow> bool" where
  "kept mx a \<longleftrightarrow> (case a of Array n vs \<Rightarrow> (case vs of None \<Rightarrow> False
     | Some xs \<Rightarrow> n = int (length xs) \<and> length xs < max_len \<and> (mx < 0 \<or> int (length xs) \<le> mx)))"

text \<open>The values that can be written, and read back with arrays of at most \<open>mx\<close> elements.\<close>

fun writable :: "int \<Rightarrow> value \<Rightarrow> bool" where
  "writable mx (String x) \<longleftrightarrow> length x < max_len"
| "writable mx (Int32s a) \<longleftrightarrow> kept mx a"
| "writable mx (Int64s a) \<longleftrightarrow> kept mx a"
| "writable mx (Uint32s a) \<longleftrightarrow> kept mx a"
| "writable mx (Float32s a) \<longleftrightarrow> kept mx a"
| "writable mx (Bools a) \<longleftrightarrow> kept mx a"
| "writable mx (Strings a) \<longleftrightarrow> kept mx a \<and> list_all (\<lambda>s. length s < max_len) (values_of a)"
| "writable mx v \<longleftrightarrow> writeValue v \<noteq> None"

definition v3 :: "64 word \<Rightarrow> 64 word \<Rightarrow> int \<Rightarrow> containerGGUF" where
  "v3 nt nk mx = \<lparr>byteOrder = LittleEndian, Version = 3, NumTensor = nt, NumKV = nk,
     maxArraySize = mx\<rparr>"

lemma keptE:
  assumes "kept mx a"
  obtains xs where "a = Array (int (length xs)) (Some xs)" and "length xs < max_len"
    and "newArray (int (length xs)) mx = Inr True" and "values_of a = xs"
  using assms that by (cases a) (auto simp: kept_def newArray_def values_of_def split: option.splits)

text \<open>Reading an array whose elements are read by \<open>elem\<close>.\<close>

lemma read_array:
  assumes "\<And>rest. read_elems elem (length xs) (concat (map wr xs) @ rest) = Inr (xs, rest)"
  shows "readGGUFArrayData elem con (int (length xs)) True (concat (map wr xs) @ rest) =
    Inr (con (Array (int (length xs)) (Some xs)), rest)"
  by (simp add: readGGUFArrayData_def assms)

lemma read_array_header:
  assumes "length xs < max_len" and "newArray (int (length xs)) mx = Inr True"
    and "\<And>rest. read_elems elem (length xs) (concat (map wr xs) @ rest) = Inr (xs, rest)"
    and "(t, readGGUFArrayData elem con (int (length xs)) True) \<in>
      {(ggufTypeInt32, readGGUFArrayData (readGGUF 4 LittleEndian) Int32s (int (length xs)) True),
       (ggufTypeInt64, readGGUFArrayData (readGGUF 8 LittleEndian) Int64s (int (length xs)) True),
       (ggufTypeUint32, readGGUFArrayData (readGGUF 4 LittleEndian) Uint32s (int (length xs)) True),
       (ggufTypeFloat32, readGGUFArrayData (readGGUF 4 LittleEndian) Float32s (int (length xs)) True),
       (ggufTypeBool, readGGUFArrayData (readBool LittleEndian) Bools (int (length xs)) True),
       (ggufTypeString, readGGUFArrayData (readGGUFString 3 LittleEndian) Strings (int (length xs)) True)}"
  shows "readGGUFArray (v3 nt nk mx)
      (put32 t @ put64 (word_of_nat (length xs)) @ concat (map wr xs) @ rest) =
    Inr (con (Array (int (length xs)) (Some xs)), rest)"
proof -
  have r: "readGGUFArrayData elem con (int (length xs)) True (concat (map wr xs) @ rest) =
      Inr (con (Array (int (length xs)) (Some xs)), rest)"
    by (rule read_array) (rule assms(3))
  note i = int_of_length [OF assms(1)]
  have "readGGUFArray (v3 nt nk mx)
      (put32 t @ put64 (word_of_nat (length xs)) @ concat (map wr xs) @ rest) =
    readGGUFArrayData elem con (int (length xs)) True (concat (map wr xs) @ rest)"
    using assms(4)
    by (elim insertE emptyE)
      (simp_all add: readGGUFArray_def v3_def u32.read_write u64.read_write i assms(2)
        readGGUFStringsData_def)
  with r show ?thesis by simp
qed

lemma read_written_array:
  assumes "kept mx a"
    and "\<And>xs rest. values_of a = xs \<Longrightarrow>
      read_elems elem (length xs) (concat (map wr xs) @ rest) = Inr (xs, rest)"
    and "\<And>n. (t, readGGUFArrayData elem con n True) \<in>
      {(ggufTypeInt32, readGGUFArrayData (readGGUF 4 LittleEndian) Int32s n True),
       (ggufTypeInt64, readGGUFArrayData (readGGUF 8 LittleEndian) Int64s n True),
       (ggufTypeUint32, readGGUFArrayData (readGGUF 4 LittleEndian) Uint32s n True),
       (ggufTypeFloat32, readGGUFArrayData (readGGUF 4 LittleEndian) Float32s n True),
       (ggufTypeBool, readGGUFArrayData (readBool LittleEndian) Bools n True),
       (ggufTypeString, readGGUFArrayData (readGGUFString 3 LittleEndian) Strings n True)}"
  shows "\<exists>body. writeGGUFArray t wr (values_of a) = put32 ggufTypeArray @ body \<and>
    readValue (v3 nt nk mx) ggufTypeArray (body @ rest) = Inr (con a, rest)"
proof -
  obtain xs where a: "a = Array (int (length xs)) (Some xs)" and len: "length xs < max_len"
    and new: "newArray (int (length xs)) mx = Inr True" and vs: "values_of a = xs"
    using assms(1) by (rule keptE)
  let ?body = "put32 t @ put64 (word_of_nat (length xs)) @ concat (map wr xs)"
  have "readGGUFArray (v3 nt nk mx) (?body @ rest) = Inr (con a, rest)"
    using read_array_header [OF len new, of elem wr t con nt nk rest] assms(2) [OF vs] assms(3) a
    by simp
  then show ?thesis
    by (intro exI [of _ ?body]) (simp add: writeGGUFArray_def vs readValue_def)
qed

lemmas scalar_eval = readValue_def v3_def writeGGUF_def u32.read_write u64.read_write boolean.read_write

text \<open>Every value that can be written is read back with its type.\<close>

lemma read_written_value:
  assumes "writable mx v"
  shows "\<exists>t body. writeValue v = Some (put32 t @ body) \<and>
    readValue (v3 nt nk mx) t (body @ rest) = Inr (v, rest)"
proof (cases v)
  case (String x)
  then have "readValue (v3 nt nk mx) ggufTypeString (putString x @ rest) = Inr (v, rest)"
    using assms gstring.read_write [of x rest] by (simp add: readValue_def v3_def)
  then show ?thesis using String by (auto simp: writeGGUFString_def)
next
  case (Int32s a)
  with assms read_written_array [of mx a "readGGUF 4 LittleEndian" put32 ggufTypeInt32 Int32s nt nk rest]
  show ?thesis by (auto simp: u32.read_list list_all_iff)
next
  case (Int64s a)
  with assms read_written_array [of mx a "readGGUF 8 LittleEndian" put64 ggufTypeInt64 Int64s nt nk rest]
  show ?thesis by (auto simp: u64.read_list list_all_iff)
next
  case (Uint32s a)
  with assms read_written_array [of mx a "readGGUF 4 LittleEndian" put32 ggufTypeUint32 Uint32s nt nk rest]
  show ?thesis by (auto simp: u32.read_list list_all_iff)
next
  case (Float32s a)
  with assms read_written_array [of mx a "readGGUF 4 LittleEndian" put32 ggufTypeFloat32 Float32s nt nk rest]
  show ?thesis by (auto simp: u32.read_list list_all_iff)
next
  case (Bools a)
  with assms read_written_array [of mx a "readBool LittleEndian" putBool ggufTypeBool Bools nt nk rest]
  show ?thesis by (auto simp: boolean.read_list list_all_iff)
next
  case (Strings a)
  then have k: "kept mx a" and l: "list_all (\<lambda>s. length s < max_len) (values_of a)"
    using assms by simp_all
  have "read_elems (readGGUFString 3 LittleEndian) (length xs) (concat (map putString xs) @ r) =
      Inr (xs, r)" if "values_of a = xs" for xs r
    using gstring.read_list l that by blast
  with read_written_array [OF k, of "readGGUFString 3 LittleEndian" putString ggufTypeString Strings nt nk rest]
  show ?thesis using Strings by auto
next
  case (Int32 x)
  then show ?thesis
    by (intro exI [of _ ggufTypeInt32] exI [of _ "put32 x"]) (simp add: scalar_eval)
next
  case (Int64 x)
  then show ?thesis
    by (intro exI [of _ ggufTypeInt64] exI [of _ "put64 x"]) (simp add: scalar_eval)
next
  case (Uint32 x)
  then show ?thesis
    by (intro exI [of _ ggufTypeUint32] exI [of _ "put32 x"]) (simp add: scalar_eval)
next
  case (Uint64 x)
  then show ?thesis
    by (intro exI [of _ ggufTypeUint64] exI [of _ "put64 x"]) (simp add: scalar_eval)
next
  case (Float32 x)
  then show ?thesis
    by (intro exI [of _ ggufTypeFloat32] exI [of _ "put32 x"]) (simp add: scalar_eval)
next
  case (Bool x)
  then show ?thesis
    by (intro exI [of _ ggufTypeBool] exI [of _ "putBool x"]) (simp add: scalar_eval)
qed (use assms in auto)

definition put_kv :: "string \<times> value \<Rightarrow> string" where
  "put_kv p = putString (fst p) @ the (writeValue (snd p))"

interpretation kv_pair: codec "readKV (v3 nt nk mx)" put_kv
    "\<lambda>p. length (fst p) < max_len \<and> writable mx (snd p)" for nt nk mx
proof
  fix p :: "string \<times> value" and rest
  assume ok: "length (fst p) < max_len \<and> writable mx (snd p)"
  obtain t body where w: "writeValue (snd p) = Some (put32 t @ body)"
    and r: "readValue (v3 nt nk mx) t (body @ rest) = Inr (snd p, rest)"
    using read_written_value ok by blast
  have "readGGUFString 3 LittleEndian (putString (fst p) @ put32 t @ body @ rest) =
      Inr (fst p, put32 t @ body @ rest)"
    using gstring.read_write ok by simp
  then show "readKV (v3 nt nk mx) (put_kv p @ rest) = Inr (p, rest)"
    using r by (simp add: readKV_def put_kv_def w v3_def u32.read_write)
qed

interpretation tensor_info: codec "readTensor (v3 nt nk mx)" ggufWriteTensorInfo
    "\<lambda>t. length (Tensor_Name t) < max_len \<and> length (Shape t) < 2 ^ 32" for nt nk mx
proof
  fix t :: Tensor and rest
  assume ok: "length (Tensor_Name t) < max_len \<and> length (Shape t) < 2 ^ 32"
  let ?r = "put32 (Kind t) @ put64 (Offset t) @ rest"
  have name: "readGGUFString 3 LittleEndian (putString (Tensor_Name t) @ r) = Inr (Tensor_Name t, r)" for r
    using gstring.read_write ok by simp
  have dims: "unat (word_of_nat (length (Shape t)) :: 32 word) = length (Shape t)"
    using ok by (simp add: unsigned_of_nat take_bit_nat_eq_self)
  have shape: "read_elems (readGGUF 8 LittleEndian) (length (Shape t))
      (concat (map put64 (Shape t)) @ ?r) = Inr (Shape t, ?r)"
    by (rule u64.read_list) (simp add: list_all_iff)
  show "readTensor (v3 nt nk mx) (ggufWriteTensorInfo t @ rest) = Inr (t, rest)"
    by (simp add: readTensor_def ggufWriteTensorInfo_def v3_def name u32.read_write u64.read_write
        dims shape)
qed

section \<open>Padding and placement\<close>

lemma smod_nonneg: "0 \<le> a \<Longrightarrow> 0 < n \<Longrightarrow> a smod n = a mod n" for a n :: int
  by (cases "a = 0") (simp_all add: smod_int_alt_def)

lemma ggufPadding_nonneg:
  assumes "0 \<le> off" and "0 < align"
  obtains p where "ggufPadding off align = Some p" and "0 \<le> p" and "p < align"
    and "align dvd off + p"
proof -
  let ?p = "(align - off mod align) mod align"
  have m: "0 \<le> off mod align" "off mod align < align" using assms(2) by simp_all
  then have "(align - off mod align) smod align = ?p" using assms m by (intro smod_nonneg) linarith+
  then have "ggufPadding off align = Some ?p"
    using assms smod_nonneg [of off align] by (simp add: ggufPadding_def)
  moreover have "0 \<le> ?p" "?p < align" using assms(2) by simp_all
  moreover have "align dvd off + ?p"
  proof -
    have "off + (align - off mod align) = align * (off div align + 1)"
      by (simp add: distrib_left minus_mod_eq_mult_div)
    then have "(off + (align - off mod align)) mod align = 0" by simp
    then show ?thesis by (simp only: dvd_eq_mod_eq_0 mod_add_right_eq)
  qed
  ultimately show thesis by (rule that)
qed

lemma ggufPadding_zero: "ggufPadding off align = Some p \<Longrightarrow> align \<noteq> 0"
  by (auto simp: ggufPadding_def split: if_splits)

text \<open>In order, aligned and without overlap, from position \<open>s\<close> on.\<close>

fun laid_out :: "nat \<Rightarrow> nat \<Rightarrow> Tensor list \<Rightarrow> bool" where
  "laid_out a s [] \<longleftrightarrow> True"
| "laid_out a s (t # ts) \<longleftrightarrow> s \<le> unat (Offset t) \<and> a dvd unat (Offset t) \<and>
     laid_out a (unat (Offset t) + unat (Tensor_Size t)) ts"

definition room :: "nat \<Rightarrow> Tensor list \<Rightarrow> nat" where
  "room a ts = sum_list (map (\<lambda>t. unat (Tensor_Size t) + a) ts)"

lemma Tensor_Size_Offset [simp]: "Tensor_Size (t\<lparr>Offset := x\<rparr>) = Tensor_Size t"
  by (simp add: Tensor_Size_def Elements_def typeSize_def blockSize_def)

text \<open>One tensor is placed; the next one starts after its padding.\<close>

lemma place_step:
  assumes "place_tensors (int a) s (t # ts) = Inr ts'" and "0 < a" and "unat s + room a (t # ts) < max_len"
  obtains s' us where "place_tensors (int a) s' ts = Inr us" "ts' = t\<lparr>Offset := s\<rparr> # us" "a dvd unat s'"
    "unat s + unat (Tensor_Size t) \<le> unat s'" "unat s' \<le> unat s + unat (Tensor_Size t) + a"
proof -
  define s1 where "s1 = s + Tensor_Size t"
  have fit: "unat s + unat (Tensor_Size t) + a + room a ts < max_len" using assms(3) by (simp add: room_def)
  have s1: "unat s1 = unat s + unat (Tensor_Size t)" using fit by (simp add: s1_def unat_word_ariths)
  then have i: "int_of s1 = int (unat s1)" using fit by (simp add: int_of_def)
  obtain p where p: "ggufPadding (int_of s1) (int a) = Some p" "0 \<le> p" "p < int a" "int a dvd int_of s1 + p"
    using ggufPadding_nonneg [of "int_of s1" "int a"] assms(2) i by auto
  obtain us where us: "place_tensors (int a) (s1 + word_of_int p) ts = Inr us" "ts' = t\<lparr>Offset := s\<rparr> # us"
    using assms(1) p(1) by (auto simp: s1_def [symmetric] Let_def split: sum.splits)
  define k where "k = nat p"
  have k: "p = int k" "k < a" using p by (simp_all add: k_def)
  have s2: "unat (s1 + word_of_int p) = unat s1 + k"
    using fit s1 k by (simp add: unat_word_ariths unsigned_of_nat take_bit_nat_eq_self)
  have "a dvd unat s1 + k" using p(4) i k by (metis int_dvd_int_iff of_nat_add)
  then show thesis using that [OF us] s1 s2 k by simp
qed

lemma place_tensors_layout:
  assumes "place_tensors (int a) s ts = Inr ts'" and "0 < a" and "a dvd unat s"
    and "unat s + room a ts < max_len"
  shows "laid_out a (unat s) ts'"
  using assms
proof (induction ts arbitrary: s ts')
  case (Cons t ts)
  obtain s' us where u: "place_tensors (int a) s' ts = Inr us" "ts' = t\<lparr>Offset := s\<rparr> # us" "a dvd unat s'"
      "unat s + unat (Tensor_Size t) \<le> unat s'" "unat s' \<le> unat s + unat (Tensor_Size t) + a"
    by (rule place_step [OF Cons.prems(1,2,4)])
  have "laid_out a (unat s') us" using Cons.IH [OF u(1) Cons.prems(2) u(3)] u(5) Cons.prems(4) by (simp add: room_def)
  then have "laid_out a (unat s + unat (Tensor_Size t)) us" using u(4) by (cases us) auto
  then show ?case using u(2) Cons.prems(3) by simp
qed simp

lemma place_tensors_bound:
  assumes "place_tensors (int a) s ts = Inr ts'" and "0 < a" and "unat s + room a ts < max_len" and "t \<in> set ts'"
  shows "unat (Offset t) + unat (Tensor_Size t) \<le> unat s + room a ts"
  using assms
proof (induction ts arbitrary: s ts')
  case (Cons u ts)
  obtain s' us where u: "place_tensors (int a) s' ts = Inr us" "ts' = u\<lparr>Offset := s\<rparr> # us" "a dvd unat s'"
      "unat s + unat (Tensor_Size u) \<le> unat s'" "unat s' \<le> unat s + unat (Tensor_Size u) + a"
    by (rule place_step [OF Cons.prems(1,2,3)])
  show ?case
    using Cons.IH [OF u(1) Cons.prems(2)] u(2,5) Cons.prems(3,4) by (cases "t \<in> set us") (auto simp: room_def)
qed simp

lemma place_tensors_same:
  "place_tensors a s ts = Inr ts' \<Longrightarrow> map (\<lambda>t. t\<lparr>Offset := 0\<rparr>) ts' = map (\<lambda>t. t\<lparr>Offset := 0\<rparr>) ts"
  by (induction ts arbitrary: s ts') (auto simp: Let_def split: option.splits sum.splits)

section \<open>Whole files\<close>

lemma writeAll_concat:
  "writeAll f xs = Inr bs \<Longrightarrow> bs = concat (map (\<lambda>x. case f x of Inr a \<Rightarrow> a | Inl _ \<Rightarrow> []) xs)"
  by (induction xs arbitrary: bs) (auto split: sum.splits)

lemma writeAll_ok: "writeAll f xs = Inr bs \<Longrightarrow> x \<in> set xs \<Longrightarrow> \<exists>a. f x = Inr a"
  by (induction xs arbitrary: bs) (auto split: sum.splits)

definition qualify :: "string \<Rightarrow> string \<times> value \<Rightarrow> string \<times> value" where
  "qualify arch p = (qualified_key arch (fst p), snd p)"

lemma written_kvs:
  assumes "writeAll (ggufWriteKV arch) ps = Inr bs"
  shows "bs = concat (map put_kv (map (qualify arch) ps))"
proof -
  have "(case ggufWriteKV arch x of Inr a \<Rightarrow> a | Inl _ \<Rightarrow> []) = put_kv (qualify arch x)" if "x \<in> set ps" for x
    using writeAll_ok [OF assms that]
    by (auto simp: ggufWriteKV_def put_kv_def qualify_def Let_def split: option.splits)
  then show ?thesis using writeAll_concat [OF assms] by (simp add: comp_def cong: map_cong)
qed

text \<open>The map read from a list of pairs with distinct keys.\<close>

lemma map_of_addKV: "map_of (addKV p m) = (map_of m)(fst p \<mapsto> snd p)"
  by (simp add: addKV_def update_conv')

lemma map_of_fold_addKV:
  "distinct (map fst ps) \<Longrightarrow> map_of (fold addKV ps m) = map_of m ++ map_of ps"
proof (induction ps arbitrary: m)
  case (Cons p ps)
  then have "map_of (fold addKV (p # ps) m) = (map_of m)(fst p \<mapsto> snd p) ++ map_of ps"
    by (simp add: map_of_addKV)
  moreover have "map_of ps (fst p) = None" using Cons.prems by (simp add: map_of_eq_None_iff)
  ultimately show ?case by (auto simp: fun_eq_iff map_add_def split: option.splits)
qed simp

lemma sorted_pairs:
  assumes "distinct (map fst m)"
  shows "set (map (\<lambda>k. (k, the (map_of m k))) (sort (map fst m))) = set m"
proof -
  have "the (map_of m (fst p)) = snd p" if "p \<in> set m" for p
    using assms that by (cases p) simp
  then show ?thesis by force
qed

lemma distinct_qualified:
  assumes "distinct (map (\<lambda>p. qualified_key arch (fst p)) m)"
  shows "distinct (map fst m)" and "inj_on (qualified_key arch) (set (map fst m))"
proof -
  have "distinct (map (qualified_key arch) (map fst m))" using assms by (simp add: comp_def)
  then show "distinct (map fst m)" and "inj_on (qualified_key arch) (set (map fst m))"
    by (simp_all only: distinct_map)
qed

lemma map_of_qualified:
  assumes "distinct (map (\<lambda>p. qualified_key arch (fst p)) m)"
    and "ps = map (\<lambda>k. (k, the (map_of m k))) (sort (map fst m))"
  shows "map_of (map (qualify arch) ps) = map_of (map (qualify arch) m)"
    and "distinct (map fst (map (qualify arch) ps))"
proof -
  note dm = distinct_qualified(1) [OF assms(1)] and inj = distinct_qualified(2) [OF assms(1)]
  have fst: "map fst ps = sort (map fst m)" by (simp add: assms(2) comp_def)
  have q: "map fst (map (qualify arch) ps) = map (qualified_key arch) (sort (map fst m))"
    unfolding fst [symmetric] by (simp add: qualify_def comp_def)
  show d: "distinct (map fst (map (qualify arch) ps))"
    unfolding q using dm inj by (simp add: distinct_map)
  have "set (map (qualify arch) ps) = set (map (qualify arch) m)"
    using sorted_pairs [OF dm] unfolding assms(2) by (simp only: set_map)
  moreover have "distinct (map fst (map (qualify arch) m))"
    using assms(1) by (simp add: qualify_def comp_def)
  ultimately show "map_of (map (qualify arch) ps) = map_of (map (qualify arch) m)"
    using d by (metis map_of_inject_set)
qed

text \<open>A key of another group never qualifies to a key of the group \<open>general\<close>.\<close>

lemma qualified_general:
  assumes "arch \<noteq> ''general''" and "qualified_key arch k = ''general.alignment''"
  shows "k = ''general.alignment''"
proof (rule ccontr)
  assume "k \<noteq> ''general.alignment''"
  then have e: "arch @ CHR ''.'' # k = ''general'' @ CHR ''.'' # ''alignment''"
    using assms(2) by (auto simp: qualified_key_def split: if_splits)
  have "CHR ''.'' \<notin> set arch"
  proof
    assume "CHR ''.'' \<in> set arch"
    then have "count_list arch (CHR ''.'') \<noteq> 0" by (simp add: count_list_0_iff)
    then have "2 \<le> count_list (arch @ CHR ''.'' # k) (CHR ''.'')" by simp
    then show False unfolding e by simp
  qed
  then have "takeWhile (\<lambda>c. c \<noteq> CHR ''.'') (arch @ CHR ''.'' # k) = arch"
    by (subst takeWhile_append2) auto
  then have "arch = ''general''" unfolding e by simp
  with assms(1) show False by simp
qed

lemma alignment_same:
  assumes "arch \<noteq> ''general''" and "distinct (map (\<lambda>p. qualified_key arch (fst p)) m)"
    and "map_of m' ''general.alignment'' = map_of (map (qualify arch) m) ''general.alignment''"
  shows "KV_Uint m' ''general.alignment'' d = KV_Uint m ''general.alignment'' d"
proof -
  have "map_of (map (qualify arch) m) ''general.alignment'' = map_of m ''general.alignment''"
  proof (induction m)
    case (Cons p m)
    have "qualified_key arch ''general.alignment'' = ''general.alignment''"
      by (simp add: qualified_key_def)
    then have "qualified_key arch (fst p) = ''general.alignment'' \<longleftrightarrow> fst p = ''general.alignment''"
      using qualified_general [OF assms(1)] by metis
    with Cons show ?case by (cases p) (auto simp: qualify_def)
  qed simp
  then show ?thesis using assms(3) by (simp add: KV_Uint_def keyValue_def typed_def)
qed

text \<open>The bounds check passes for tensors that lie within the file.\<close>

lemma check_tensors_ok:
  assumes "0 < align" and "0 \<le> pos" and "fileSize < max_len"
    and "\<And>t. t \<in> set ts \<Longrightarrow> unat tOff + unat (Offset t) + unat (Tensor_Size t) \<le> fileSize"
  shows "\<exists>p. check_tensors tOff align fileSize pos ts = Inr p"
  using assms(2,4)
proof (induction ts arbitrary: pos)
  case (Cons t ts)
  have le: "unat tOff + unat (Offset t) + unat (Tensor_Size t) \<le> fileSize" using Cons.prems by simp
  then have "unat (tOff + Offset t + Tensor_Size t) \<le> fileSize"
    using assms(3) by (simp add: unat_word_ariths)
  then have 1: "\<not> tOff + Offset t + Tensor_Size t > word_of_nat fileSize"
    using assms(3) by (simp add: word_less_nat_alt unat_small not_less)
  have 2: "0 \<le> int_of (Tensor_Size t)" using le assms(3) by (simp add: int_of_def)
  obtain p where p: "ggufPadding pos align = Some p" "0 \<le> p"
    using ggufPadding_nonneg [OF Cons.prems(1) assms(1)] by blast
  have "\<exists>q. check_tensors tOff align fileSize (pos + p + int_of (Tensor_Size t)) ts = Inr q"
    using Cons.prems p 2 by (intro Cons.IH) auto
  then show ?case using 1 2 p Cons.prems(1) by (simp add: Let_def)
qed simp

text \<open>The steps of a successful decoding.\<close>

lemma gguf_Decode_run:
  assumes "read_elems (readKV c) (unat (NumKV c)) s = Inr (kvs, s1)"
    and "read_elems (readTensor c) (unat (NumTensor c)) s1 = Inr (ts, s2)"
    and "params = fold (\<lambda>t n. n + Elements t) ts 0"
    and "m = addKV (''general.parameter_count'', Uint64 params) (fold addKV kvs [])"
    and "align = int (unat (KV_Uint m ''general.alignment'' 32))"
    and "off = int fileSize - int (length s2)"
    and "ggufPadding off align = Some p"
    and "tOff = word_of_int (off + p)"
    and "check_tensors tOff align fileSize off ts = Inr pos"
  shows "gguf_Decode c fileSize s = Inr \<lparr>gg_kv = m, gg_tensors = ts, gg_parameters = params,
    tensorOffset = tOff, Length = pos\<rparr>"
  using assms(7,9) unfolding assms(3-6,8) gguf_Decode_def assms(1)
  by (simp only: sum.case prod.case assms(2) Let_def option.case)

lemma room_mset: "room a ts = (\<Sum>t \<in># mset ts. unat (Tensor_Size t) + a)"
  by (simp add: room_def sum_mset_sum_list [symmetric])

lemma read_magic: "readGGUF 4 LittleEndian (''GGUF'' @ s) = Inr (FILE_MAGIC_GGUF_LE, s)"
  using ReadFull_append [of "''GGUF''" 4 s] by (simp add: readGGUF_def order_nat_def)

text \<open>The parts of a successful write.\<close>

lemma WriteGGUF_parts:
  assumes "WriteGGUF m ts = Inr w" and "arch = KV_String m ''general.architecture'' []"
    and "a = unat (KV_Uint m ''general.alignment'' 32)"
  obtains ps where "ps = map (\<lambda>k. (k, the (map_of m k))) (sort (map fst m))"
    and "header w = ''GGUF'' @ put32 3 @ put64 (word_of_nat (length (placed w))) @
      put64 (word_of_nat (length m)) @ concat (map put_kv (map (qualify arch) ps)) @
      concat (map ggufWriteTensorInfo (placed w))"
    and "place_tensors (int a) 0 (sort_key (\<lambda>t. (block (Tensor_Name t), Tensor_Name t)) ts) = Inr (placed w)"
    and "ggufPadding (int (length (header w))) (int a) = Some (dataOffset w - int (length (header w)))"
proof -
  let ?ps = "map (\<lambda>k. (k, the (map_of m k))) (sort (map fst m))"
  obtain kvb where kvb: "writeAll (ggufWriteKV arch) ?ps = Inr kvb"
    using assms by (auto simp: WriteGGUF_def Let_def split: if_splits sum.splits)
  obtain us where us: "place_tensors (int a) 0 (sort_key (\<lambda>t. (block (Tensor_Name t), Tensor_Name t)) ts) = Inr us"
    using assms kvb by (auto simp: WriteGGUF_def Let_def split: if_splits sum.splits)
  let ?h = "''GGUF'' @ put32 3 @ put64 (word_of_nat (length us)) @
      put64 (word_of_nat (length m)) @ kvb @ concat (map ggufWriteTensorInfo us)"
  obtain p where p: "ggufPadding (int (length ?h)) (int a) = Some p"
      "w = \<lparr>header = ?h, placed = us, dataOffset = int (length ?h) + p\<rparr>"
    using assms kvb us by (simp add: WriteGGUF_def Let_def split: if_splits option.splits)
  show thesis
    by (rule that [OF refl]) (use p us written_kvs [OF kvb] in simp_all)
qed

lemma placed_same:
  assumes "place_tensors a s (sort_key k ts) = Inr us"
  shows "length us = length ts"
    and "\<And>t. t \<in> set us \<Longrightarrow> \<exists>u \<in> set ts. Tensor_Name t = Tensor_Name u \<and> Shape t = Shape u"
proof -
  note m = place_tensors_same [OF assms]
  show "length us = length ts" using arg_cong [OF m, of length] by simp
  fix t assume "t \<in> set us"
  then have "t\<lparr>Offset := 0\<rparr> \<in> (\<lambda>t. t\<lparr>Offset := 0\<rparr>) ` set ts"
    using arg_cong [OF m, of set] by (metis (no_types, lifting) imageI set_map set_sort)
  then obtain u where u: "u \<in> set ts" "t\<lparr>Offset := 0\<rparr> = u\<lparr>Offset := 0\<rparr>" by auto
  have "Tensor_Name t = Tensor_Name (t\<lparr>Offset := 0\<rparr>)" "Shape t = Shape (t\<lparr>Offset := 0\<rparr>)" by simp_all
  then show "\<exists>u \<in> set ts. Tensor_Name t = Tensor_Name u \<and> Shape t = Shape u" using u by auto
qed

lemma written_file_decodes:
  assumes "WriteGGUF m ts = Inr w"
    and "arch = KV_String m ''general.architecture'' []" and "arch \<noteq> ''general''"
    and "distinct (map (\<lambda>p. qualified_key arch (fst p)) m)"
    and "\<forall>p \<in> set m. length (qualified_key arch (fst p)) < max_len \<and> writable mx (snd p)"
    and "\<forall>t \<in> set ts. length (Tensor_Name t) < max_len \<and> length (Shape t) < 2 ^ 32"
    and "length m < max_len" and "length ts < max_len"
    and "file = header w @ data" and "length file < max_len"
    and "\<forall>t \<in> set (placed w). dataOffset w + int (unat (Offset t)) + int (unat (Tensor_Size t)) \<le>
      int (length file)"
  shows "\<exists>g. ggml_Decode file mx = Inr g \<and> gg_tensors g = placed w \<and>
    int (unat (tensorOffset g)) = dataOffset w \<and>
    map_of (gg_kv g) = (map_of (map (qualify arch) m))
      (''general.parameter_count'' \<mapsto> Uint64 (gg_parameters g))"
proof -
  define a where "a = unat (KV_Uint m ''general.alignment'' 32)"
  obtain ps where ps: "ps = map (\<lambda>k. (k, the (map_of m k))) (sort (map fst m))"
    and hdr: "header w = ''GGUF'' @ put32 3 @ put64 (word_of_nat (length (placed w))) @
      put64 (word_of_nat (length m)) @ concat (map put_kv (map (qualify arch) ps)) @
      concat (map ggufWriteTensorInfo (placed w))"
    and pl: "place_tensors (int a) 0 (sort_key (\<lambda>t. (block (Tensor_Name t), Tensor_Name t)) ts) = Inr (placed w)"
    and pad: "ggufPadding (int (length (header w))) (int a) = Some (dataOffset w - int (length (header w)))"
    using WriteGGUF_parts [OF assms(1,2) a_def] .
  define nt where "nt = (word_of_nat (length (placed w)) :: 64 word)"
  define nk where "nk = (word_of_nat (length m) :: 64 word)"
  define qs where "qs = map (qualify arch) ps"
  note dq = map_of_qualified [OF assms(4) ps, folded qs_def]
  have len: "length qs = length m" using ps by (simp add: qs_def)
  have unk: "unat nk = length qs" using assms(7) len by (simp add: nk_def unat_small)
  have unt: "unat nt = length (placed w)"
    using assms(8) placed_same(1) [OF pl] by (simp add: nt_def unat_small)
  have dm: "distinct (map fst m)"
    using assms(4) by (rule distinct_qualified)
  have okq: "list_all (\<lambda>p. length (fst p) < max_len \<and> writable mx (snd p)) qs"
    using assms(5) sorted_pairs [OF dm] unfolding qs_def list_all_iff ps [symmetric]
    by (auto simp: qualify_def)
  have okt: "list_all (\<lambda>t. length (Tensor_Name t) < max_len \<and> length (Shape t) < 2 ^ 32) (placed w)"
    using assms(6) placed_same(2) [OF pl] unfolding list_all_iff by fastforce
  let ?tb = "concat (map ggufWriteTensorInfo (placed w)) @ data"
  have r1: "read_elems (readKV (v3 nt nk mx)) (unat nk) (concat (map put_kv qs) @ ?tb) = Inr (qs, ?tb)"
    unfolding unk by (rule kv_pair.read_list [OF okq])
  have r2: "read_elems (readTensor (v3 nt nk mx)) (unat nt) ?tb = Inr (placed w, data)"
    unfolding unt by (rule tensor_info.read_list [OF okt])
  define params where "params = fold (\<lambda>t n. n + Elements t) (placed w) (0 :: 64 word)"
  define m' where "m' = addKV (''general.parameter_count'', Uint64 params) (fold addKV qs [])"
  have mm: "map_of m' = (map_of (map (qualify arch) m))(''general.parameter_count'' \<mapsto> Uint64 params)"
    using map_of_fold_addKV [OF dq(2), of "[]"] dq(1) by (simp add: m'_def map_of_addKV)
  have al: "KV_Uint m' ''general.alignment'' 32 = KV_Uint m ''general.alignment'' 32"
    by (rule alignment_same [OF assms(3,4)]) (simp add: mm)
  have off: "int (length file) - int (length data) = int (length (header w))" using assms(9) by simp
  have apos: "0 < int a" using ggufPadding_zero [OF pad] by simp
  obtain p where "ggufPadding (int (length (header w))) (int a) = Some p" "0 \<le> p" "p < int a"
    using ggufPadding_nonneg [OF _ apos, of "int (length (header w))"] by auto
  moreover have "a < 2 ^ 32"
    unfolding a_def by (rule order_less_le_trans [OF unsigned_less]) simp
  ultimately have d: "0 \<le> dataOffset w" "dataOffset w < 2 ^ 63 + 2 ^ 32"
    using pad assms(9,10) by simp_all
  define tOff where "tOff = (word_of_int (dataOffset w) :: 64 word)"
  have ud: "int (unat tOff) = dataOffset w"
    using d by (simp add: tOff_def unsigned_of_int uint_word_of_int take_bit_int_eq_self)
  have fit: "unat tOff + unat (Offset t) + unat (Tensor_Size t) \<le> length file" if "t \<in> set (placed w)" for t
  proof -
    have "int (unat tOff + unat (Offset t) + unat (Tensor_Size t)) \<le> int (length file)"
      unfolding of_nat_add ud using assms(11) that by blast
    then show ?thesis by (simp only: of_nat_le_iff)
  qed
  obtain pos where chk: "check_tensors tOff (int a) (length file) (int (length (header w))) (placed w) = Inr pos"
    using check_tensors_ok [OF apos _ assms(10) fit, of "int (length (header w))"] by auto
  have g: "gguf_Decode (v3 nt nk mx) (length file) (concat (map put_kv qs) @ ?tb) =
      Inr \<lparr>gg_kv = m', gg_tensors = placed w, gg_parameters = params, tensorOffset = tOff, Length = pos\<rparr>"
  proof (rule gguf_Decode_run [OF _ _ params_def m'_def _ _ pad _ chk])
    show "read_elems (readKV (v3 nt nk mx)) (unat (NumKV (v3 nt nk mx))) (concat (map put_kv qs) @ ?tb) =
        Inr (qs, ?tb)" using r1 by (simp add: v3_def)
    show "read_elems (readTensor (v3 nt nk mx)) (unat (NumTensor (v3 nt nk mx))) ?tb = Inr (placed w, data)"
      using r2 by (simp add: v3_def)
    show "int a = int (unat (KV_Uint m' ''general.alignment'' 32))" by (simp only: al a_def)
    show "int (length (header w)) = int (length file) - int (length data)" using off by simp
    show "tOff = word_of_int (int (length (header w)) + (dataOffset w - int (length (header w))))"
      by (simp add: tOff_def)
  qed
  have "ggml_Decode file mx = container_Decode LittleEndian mx (length file)
      (put32 3 @ put64 nt @ put64 nk @ concat (map put_kv qs) @ ?tb)"
    unfolding ggml_Decode_def assms(9) hdr using read_magic
    by (simp add: nt_def nk_def qs_def)
  also have "\<dots> = gguf_Decode (v3 nt nk mx) (length file) (concat (map put_kv qs) @ ?tb)"
    by (simp add: container_Decode_def u32.read_write u64.read_write v3_def)
  finally show ?thesis using g ud mm by simp
qed

section \<open>Properties\<close>

text \<open>C1: a GGUF file that was written is read back: the tensors with the offsets they were placed at,
  the position of the tensor data, and the metadata, each value with its type, under the qualified
  keys and with the parameter count added.\<close>

theorem gguf_roundtrip:
  assumes "WriteGGUF m ts = Inr w"
    and "arch = KV_String m ''general.architecture'' []" and "arch \<noteq> ''general''"
    and "distinct (map (\<lambda>p. qualified_key arch (fst p)) m)"
    and "\<forall>p \<in> set m. length (qualified_key arch (fst p)) < max_len \<and> writable mx (snd p)"
    and "\<forall>t \<in> set ts. length (Tensor_Name t) < max_len \<and> length (Shape t) < 2 ^ 32"
    and "length m < max_len" and "length ts < max_len"
    and "file = header w @ data" and "length file < max_len"
    and "\<forall>t \<in> set (placed w). dataOffset w + int (unat (Offset t)) + int (unat (Tensor_Size t)) \<le>
      int (length file)"
  shows "\<exists>g. ggml_Decode file mx = Inr g \<and> gg_tensors g = placed w \<and>
    int (unat (tensorOffset g)) = dataOffset w \<and>
    map_of (gg_kv g) = (map_of (map (qualify arch) m))
      (''general.parameter_count'' \<mapsto> Uint64 (gg_parameters g))"
  using assms by (rule written_file_decodes)

text \<open>C9: when a GGUF file is written, the tensor data starts at a multiple of the alignment after the
  header, and the tensors follow one another in order, each at a multiple of the alignment and none
  overlapping the next; no tensor is lost or changed but for its offset.\<close>

theorem gguf_layout:
  assumes "WriteGGUF m ts = Inr w" and "a = unat (KV_Uint m ''general.alignment'' 32)"
    and "room a ts < max_len"
  shows "laid_out a 0 (placed w) \<and> int a dvd dataOffset w \<and>
    int (length (header w)) \<le> dataOffset w \<and>
    mset (map (\<lambda>t. t\<lparr>Offset := 0\<rparr>) (placed w)) = mset (map (\<lambda>t. t\<lparr>Offset := 0\<rparr>) ts)"
proof -
  obtain ps where pl: "place_tensors (int a) 0 (sort_key (\<lambda>t. (block (Tensor_Name t), Tensor_Name t)) ts) = Inr (placed w)"
    and pad: "ggufPadding (int (length (header w))) (int a) = Some (dataOffset w - int (length (header w)))"
    using WriteGGUF_parts [OF assms(1) refl assms(2)] .
  have apos: "0 < a" using ggufPadding_zero [OF pad] by simp
  have "room a (sort_key (\<lambda>t. (block (Tensor_Name t), Tensor_Name t)) ts) = room a ts"
    by (simp add: room_mset)
  then have "laid_out a (unat (0 :: 64 word)) (placed w)"
    using assms(3) by (intro place_tensors_layout [OF pl apos]) simp_all
  moreover obtain p where p: "ggufPadding (int (length (header w))) (int a) = Some p" "0 \<le> p"
      "int a dvd int (length (header w)) + p"
    using ggufPadding_nonneg [of "int (length (header w))" "int a"] apos by auto
  moreover have "dataOffset w = int (length (header w)) + p" using pad p(1) by simp
  moreover have "mset (map (\<lambda>t. t\<lparr>Offset := 0\<rparr>) (placed w)) = mset (map (\<lambda>t. t\<lparr>Offset := 0\<rparr>) ts)"
    unfolding place_tensors_same [OF pl] by simp
  ultimately show ?thesis by simp
qed

lemma check_tensors_bounds:
  "check_tensors tOff align fileSize pos ts = Inr p \<Longrightarrow> t \<in> set ts \<Longrightarrow>
   tOff + Offset t + Tensor_Size t \<le> word_of_nat fileSize"
  by (induction ts arbitrary: pos)
    (auto simp: Let_def not_less split: if_splits option.splits)

text \<open>C10: in a file that is decoded, every tensor lies within the file, unless the sum of its offset
  and size exceeds 64 bits.\<close>

theorem decoded_tensor_in_bounds:
  assumes "ggml_Decode file mx = Inr g" and "length file < 2 ^ 64" and "t \<in> set (gg_tensors g)"
    and "unat (tensorOffset g) + unat (Offset t) + unat (Tensor_Size t) < 2 ^ 64"
  shows "unat (tensorOffset g) + unat (Offset t) + unat (Tensor_Size t) \<le> length file"
proof -
  obtain align pos p where "check_tensors (tensorOffset g) align (length file) pos (gg_tensors g) = Inr p"
    using assms(1)
    by (auto simp: ggml_Decode_def container_Decode_def gguf_Decode_def Let_def
        split: sum.splits prod.splits if_splits option.splits)
  from check_tensors_bounds [OF this assms(3)]
  have "unat (tensorOffset g + Offset t + Tensor_Size t) \<le> length file"
    using assms(2) by (simp add: word_le_nat_alt unat_small)
  then show ?thesis using assms(4) by (simp add: unat_word_ariths)
qed

section \<open>Concrete files\<close>

definition sample_meta :: KV where
  "sample_meta = [(''general.architecture'', String ''x'')]"

definition sample_tensor :: Tensor where
  "sample_tensor = \<lparr>Tensor_Name = ''blk.0.w'', Kind = 0, Offset = 0, Shape = [3, 2]\<rparr>"

lemma sample_sizes: "Tensor_Size sample_tensor = 24" "KV_Uint sample_meta k 32 = 32"
  by (simp_all add: sample_tensor_def Tensor_Size_def Elements_def typeSize_def blockSize_def
      TypeSize_def BlockSize_def switch_def sample_meta_def KV_Uint_def keyValue_def typed_def)

lemma sample_written:
  "\<exists>w. WriteGGUF sample_meta [sample_tensor] = Inr w \<and> placed w = [sample_tensor] \<and>
    dataOffset w = 128 \<and> length (header w) = 112"
proof -
  have "place_tensors 32 0 [sample_tensor] = Inr [sample_tensor]"
    using sample_sizes(1)
    by (simp add: Let_def ggufPadding_def int_of_def smod_int_alt_def sample_tensor_def)
  moreover have "KV_String sample_meta ''general.architecture'' [] = ''x''"
    by (simp add: sample_meta_def KV_String_def keyValue_def typed_def)
  moreover have "writeAll (ggufWriteKV ''x'') (map (\<lambda>k. (k, the (map_of sample_meta k))) (sort (map fst sample_meta))) =
      Inr (putString ''general.architecture'' @ writeGGUFString ''x'')"
    by (simp add: sample_meta_def ggufWriteKV_def qualified_key_def)
  ultimately show ?thesis
    by (simp add: WriteGGUF_def Let_def sample_sizes put32_def put64_def putString_def
        writeGGUFString_def ggufWriteTensorInfo_def ggufPadding_def smod_int_alt_def
        sample_tensor_def)
qed

lemma sample_fits:
  assumes "placed w = [sample_tensor]" and "dataOffset w = 128" and "length (header w) = 112"
  shows "''x'' = KV_String sample_meta ''general.architecture'' []"
    and "\<forall>p \<in> set sample_meta. length (qualified_key ''x'' (fst p)) < max_len \<and> writable (-1) (snd p)"
    and "\<forall>t \<in> set [sample_tensor]. length (Tensor_Name t) < max_len \<and> length (Shape t) < 2 ^ 32"
    and "length (header w @ replicate 100 (CHR 0x00)) < max_len"
    and "\<forall>t \<in> set (placed w). dataOffset w + int (unat (Offset t)) + int (unat (Tensor_Size t)) \<le>
      int (length (header w @ replicate 100 (CHR 0x00)))"
proof -
  have o: "Offset sample_tensor = 0" by (simp add: sample_tensor_def)
  show "\<forall>t \<in> set (placed w). dataOffset w + int (unat (Offset t)) + int (unat (Tensor_Size t)) \<le>
      int (length (header w @ replicate 100 (CHR 0x00)))"
    using assms o by (simp add: sample_sizes)
qed (use assms in \<open>simp_all add: sample_meta_def KV_String_def keyValue_def typed_def
    qualified_key_def sample_tensor_def\<close>)

lemma sample_decoded:
  "\<exists>w g. WriteGGUF sample_meta [sample_tensor] = Inr w \<and> length (header w) = 112 \<and>
    ggml_Decode (header w @ replicate 100 (CHR 0x00)) (-1) = Inr g \<and>
    gg_tensors g = [sample_tensor] \<and> int (unat (tensorOffset g)) = 128"
proof -
  obtain w where w: "WriteGGUF sample_meta [sample_tensor] = Inr w" "placed w = [sample_tensor]"
    "dataOffset w = 128" "length (header w) = 112"
    using sample_written by blast
  note f = sample_fits [OF w(2-4)]
  have "distinct (map (\<lambda>p. qualified_key ''x'' (fst p)) sample_meta)" "length sample_meta < max_len"
    "''x'' \<noteq> ''general''" "length [sample_tensor] < max_len"
    by (simp_all add: sample_meta_def)
  from written_file_decodes [OF w(1) f(1) this(3,1) f(2,3) this(2,4) refl f(4,5)] w
  show ?thesis by auto
qed

theorem gguf_roundtrip_witness:
  "\<exists>w g. WriteGGUF sample_meta [sample_tensor] = Inr w \<and>
    ggml_Decode (header w @ replicate 100 (CHR 0x00)) (-1) = Inr g \<and>
    gg_tensors g = [sample_tensor] \<and> int (unat (tensorOffset g)) = 128"
proof -
  obtain w where w: "WriteGGUF sample_meta [sample_tensor] = Inr w" "placed w = [sample_tensor]"
    "dataOffset w = 128" "length (header w) = 112"
    using sample_written by blast
  note f = sample_fits [OF w(2-4)]
  have "distinct (map (\<lambda>p. qualified_key ''x'' (fst p)) sample_meta)" "length sample_meta < max_len"
    "''x'' \<noteq> ''general''" "length [sample_tensor] < max_len"
    by (simp_all add: sample_meta_def)
  from gguf_roundtrip [OF w(1) f(1) this(3,1) f(2,3) this(2,4) refl f(4,5)] w
  show ?thesis by auto
qed

theorem decoded_tensor_in_bounds_witness:
  "\<exists>(w :: written) g. ggml_Decode (header w @ replicate 100 (CHR 0x00)) (-1) = Inr g \<and>
    unat (tensorOffset g) + unat (Offset sample_tensor) + unat (Tensor_Size sample_tensor) \<le>
      length (header w) + 100"
proof -
  obtain w g where w: "WriteGGUF sample_meta [sample_tensor] = Inr w" "length (header w) = 112"
    and g: "ggml_Decode (header w @ replicate 100 (CHR 0x00)) (-1) = Inr g"
      "gg_tensors g = [sample_tensor]" "int (unat (tensorOffset g)) = 128"
    using sample_decoded by blast
  have u: "unat (tensorOffset g) = 128" using g(3) by linarith
  have o: "Offset sample_tensor = 0" by (simp add: sample_tensor_def)
  have "unat (tensorOffset g) + unat (Offset sample_tensor) + unat (Tensor_Size sample_tensor) \<le>
      length (header w @ replicate 100 (CHR 0x00))"
    by (rule decoded_tensor_in_bounds [OF g(1)]) (simp_all add: w g(2) u o sample_sizes)
  then show ?thesis using g(1) by auto
qed

theorem gguf_layout_witness:
  "\<exists>w. WriteGGUF sample_meta [sample_tensor] = Inr w \<and> laid_out 32 0 (placed w) \<and>
    32 dvd dataOffset w"
proof -
  obtain w where w: "WriteGGUF sample_meta [sample_tensor] = Inr w" using sample_written by blast
  have a: "32 = unat (KV_Uint sample_meta ''general.alignment'' 32)" by (simp add: sample_sizes)
  have "room 32 [sample_tensor] < max_len" by (simp add: room_def sample_sizes)
  from gguf_layout [OF w a this] w show ?thesis by auto
qed

text \<open>A tensor whose offset wraps around passes the bounds check of \<open>Decode\<close>.\<close>

lemma wrapped_offset_passes_check:
  "check_tensors 64 32 100 64 [\<lparr>Tensor_Name = ''t'', Kind = 0, Offset = - 64, Shape = [4]\<rparr>] = Inr 80"
  by (simp add: Tensor_Size_def Elements_def typeSize_def blockSize_def TypeSize_def BlockSize_def
      switch_def ggufPadding_def int_of_def smod_int_alt_def)

text \<open>An alignment of 0 in the metadata makes the decoder divide by zero, and a string length with the
  top bit set makes it slice with a negative bound.\<close>

lemma zero_alignment_panics:
  "gguf_Decode \<lparr>byteOrder = LittleEndian, Version = 3, NumTensor = 0, NumKV = 1, maxArraySize = -1\<rparr> n
     (put_kv (''general.alignment'', Uint32 0)) = Inl Panic"
proof -
  let ?c = "v3 0 1 (-1)" and ?p = "(''general.alignment'', Uint32 0)"
  have "readKV ?c (put_kv ?p @ []) = Inr (?p, [])" by (rule kv_pair.read_write) simp
  then have "read_elems (readKV ?c) (Suc 0) (put_kv ?p) = Inr ([?p], [])" by simp
  then show ?thesis
    by (simp add: gguf_Decode_def v3_def Let_def addKV_def KV_Uint_def keyValue_def typed_def
        ggufPadding_def)
qed

lemma huge_string_length_panics:
  "readGGUFString 3 LittleEndian (put64 (2 ^ 63) @ s) = Inl Panic"
  by (simp add: readGGUFString_def u64.read_write int_of_def rfail_def)

text \<open>A string of length 0 panics in a file of version 1.\<close>

lemma empty_v1_string_panics:
  "readGGUFString 1 LittleEndian (put64 0 @ s) = Inl Panic"
  by (simp add: readGGUFString_def readGGUFV1String_def u64.read_write int_of_def rfail_def)

end
