(* ===== verification/Gguf_Lazy.thy ===== *)
theory Gguf_Lazy
  imports Gguf_Codec "HOL-Library.Log_Nat"
begin

text \<open>
  The lazy GGUF reader of \<open>fs/gguf\<close>: \<open>Open\<close> reads the counts, and key values and tensor records are
  read from the stream when a query needs them (\<open>gguf.go\<close>, \<open>lazy.go\<close>, \<open>keyvalue.go\<close>, \<open>tensor.go\<close>). A
  reader here also leaves a position when it fails, because the code goes on reading from it. The
  coroutine of \<open>iter.Pull\<close> is the state of a \<open>lazy\<close> record; the consumer of an iterator is the number of
  items it takes. The main result is that laziness cannot be observed: every query is answered as if the
  header had been read at once. The values are those of the decoder in \<open>Gguf_Codec\<close>; a slice is an array
  that has all its values.
\<close>

section \<open>Readers\<close>

datatype lazy_error = ShortRead | TooLong | Unsupported | TensorNotFound

type_synonym 'a lreader = "string \<Rightarrow> (lazy_error + 'a) \<times> string"

definition lreturn :: "'a \<Rightarrow> 'a lreader" where
  "lreturn x s = (Inr x, s)"

definition lfail :: "lazy_error \<Rightarrow> 'a lreader" where
  "lfail e s = (Inl e, s)"

definition lbind :: "'a lreader \<Rightarrow> ('a \<Rightarrow> 'b lreader) \<Rightarrow> 'b lreader" where
  "lbind p f s = (case p s of (Inl e, s') \<Rightarrow> (Inl e, s') | (Inr x, s') \<Rightarrow> f x s')"

definition lmap :: "('a \<Rightarrow> 'b) \<Rightarrow> 'a lreader \<Rightarrow> 'b lreader" where
  "lmap f p = lbind p (\<lambda>x. lreturn (f x))"

fun lread_elems :: "'a lreader \<Rightarrow> nat \<Rightarrow> 'a list lreader" where
  "lread_elems p 0 = lreturn []"
| "lread_elems p (Suc n) = lbind p (\<lambda>x. lmap ((#) x) (lread_elems p n))"

text \<open>A read that comes up short has taken what there was.\<close>

definition read_bytes :: "nat \<Rightarrow> string lreader" where
  "read_bytes n s = (if length s < n then (Inl ShortRead, []) else (Inr (take n s), drop n s))"

definition lread :: "nat \<Rightarrow> 'w::len word lreader" where
  "lread n = lmap (\<lambda>bs. word_of_nat (le_nat bs)) (read_bytes n)"

definition lread_bool :: "bool lreader" where
  "lread_bool = lmap (\<lambda>bs. bs \<noteq> [CHR 0x00]) (read_bytes 1)"

definition MaxStringLength :: nat where
  "MaxStringLength = 16 * 2 ^ 20"

definition MaxArraySize :: nat where
  "MaxArraySize = 64 * 2 ^ 20"

definition MaxTensorDims :: nat where
  "MaxTensorDims = 4"

definition checkedLength :: "64 word \<Rightarrow> nat \<Rightarrow> lazy_error + nat" where
  "checkedLength n max_n =
     (if unat n > 2 ^ 63 - 1 then Inl TooLong
      else if unat n > max_n then Inl TooLong else Inr (unat n))"

definition readString :: "string lreader" where
  "readString = lbind (lread 8) (\<lambda>n.
     case checkedLength n MaxStringLength of Inl e \<Rightarrow> lfail e | Inr len \<Rightarrow> read_bytes len)"

text \<open>\<open>readArrayData\<close>, and \<open>readArrayString\<close> with strings as elements.\<close>

definition go_slice :: "'a list \<Rightarrow> 'a array" where
  "go_slice xs = Array (int (length xs)) (Some xs)"

definition readArrayData :: "'a lreader \<Rightarrow> ('a array \<Rightarrow> value) \<Rightarrow> 64 word \<Rightarrow> value lreader" where
  "readArrayData el con n =
     (case checkedLength n MaxArraySize of
        Inl e \<Rightarrow> lfail e
      | Inr sz \<Rightarrow> lmap (\<lambda>xs. con (go_slice xs)) (lread_elems el sz))"

definition readArrayString :: "64 word \<Rightarrow> value lreader" where
  "readArrayString = readArrayData readString Strings"

definition readArray :: "value lreader" where
  "readArray = lbind (lread 4) (\<lambda>t. lbind (lread 8) (\<lambda>n.
     if t = ggufTypeUint8 then readArrayData (lread 1) Uint8s n
     else if t = ggufTypeInt8 then readArrayData (lread 1) Int8s n
     else if t = ggufTypeUint16 then readArrayData (lread 2) Uint16s n
     else if t = ggufTypeInt16 then readArrayData (lread 2) Int16s n
     else if t = ggufTypeUint32 then readArrayData (lread 4) Uint32s n
     else if t = ggufTypeInt32 then readArrayData (lread 4) Int32s n
     else if t = ggufTypeUint64 then readArrayData (lread 8) Uint64s n
     else if t = ggufTypeInt64 then readArrayData (lread 8) Int64s n
     else if t = ggufTypeFloat32 then readArrayData (lread 4) Float32s n
     else if t = ggufTypeFloat64 then readArrayData (lread 8) Float64s n
     else if t = ggufTypeBool then readArrayData lread_bool Bools n
     else if t = ggufTypeString then readArrayString n
     else lfail Unsupported))"

section \<open>Key values and tensors\<close>

record KeyValue =
  kv_Key :: string
  kv_Value :: "value option"

abbreviation no_KeyValue :: KeyValue where
  "no_KeyValue \<equiv> \<lparr>kv_Key = [], kv_Value = None\<rparr>"

definition KeyValue_Valid :: "KeyValue \<Rightarrow> bool" where
  "KeyValue_Valid kv \<longleftrightarrow> kv_Key kv \<noteq> [] \<and> kv_Value kv \<noteq> None"

definition lazy_value :: "32 word \<Rightarrow> value lreader" where
  "lazy_value t =
     (if t = ggufTypeUint8 then lmap Uint8 (lread 1)
      else if t = ggufTypeInt8 then lmap Int8 (lread 1)
      else if t = ggufTypeUint16 then lmap Uint16 (lread 2)
      else if t = ggufTypeInt16 then lmap Int16 (lread 2)
      else if t = ggufTypeUint32 then lmap Uint32 (lread 4)
      else if t = ggufTypeInt32 then lmap Int32 (lread 4)
      else if t = ggufTypeUint64 then lmap Uint64 (lread 8)
      else if t = ggufTypeInt64 then lmap Int64 (lread 8)
      else if t = ggufTypeFloat32 then lmap Float32 (lread 4)
      else if t = ggufTypeFloat64 then lmap Float64 (lread 8)
      else if t = ggufTypeBool then lmap Bool lread_bool
      else if t = ggufTypeString then lmap String readString
      else if t = ggufTypeArray then readArray
      else lfail Unsupported)"

definition File_readKeyValue :: "KeyValue lreader" where
  "File_readKeyValue = lbind readString (\<lambda>key. lbind (lread 4) (\<lambda>t.
     lmap (\<lambda>v. \<lparr>kv_Key = key, kv_Value = Some v\<rparr>) (lazy_value t)))"

record TensorInfo =
  ti_Name :: string
  ti_Offset :: "64 word"
  ti_Shape :: "64 word list"
  ti_Type :: TensorType

abbreviation no_TensorInfo :: TensorInfo where
  "no_TensorInfo \<equiv> \<lparr>ti_Name = [], ti_Offset = 0, ti_Shape = [], ti_Type = 0\<rparr>"

definition File_readTensor :: "TensorInfo lreader" where
  "File_readTensor = lbind readString (\<lambda>name. lbind (lread 4) (\<lambda>dims :: 32 word.
     if unat dims > MaxTensorDims then lfail Unsupported
     else lbind (lread_elems (lread 8) (unat dims)) (\<lambda>shape. lbind (lread 4) (\<lambda>t.
       lmap (\<lambda>off. \<lparr>ti_Name = name, ti_Offset = off, ti_Shape = shape, ti_Type = t\<rparr>) (lread 8)))))"

text \<open>Values as integers, booleans and strings; another type gives the zero value.\<close>

fun value_Int :: "value option \<Rightarrow> int" where
  "value_Int (Some (Int8 x)) = sint x"
| "value_Int (Some (Int16 x)) = sint x"
| "value_Int (Some (Int32 x)) = sint x"
| "value_Int (Some (Int64 x)) = sint x"
| "value_Int _ = 0"

fun value_Uint :: "value option \<Rightarrow> 64 word" where
  "value_Uint (Some (Uint8 x)) = ucast x"
| "value_Uint (Some (Uint16 x)) = ucast x"
| "value_Uint (Some (Uint32 x)) = ucast x"
| "value_Uint (Some (Uint64 x)) = x"
| "value_Uint _ = 0"

fun value_Bool :: "value option \<Rightarrow> bool" where
  "value_Bool (Some (Bool b)) = b"
| "value_Bool _ = False"

fun value_String :: "value option \<Rightarrow> string" where
  "value_String (Some (String s)) = s"
| "value_String _ = []"

fun value_Ints :: "value option \<Rightarrow> int list" where
  "value_Ints (Some (Int8s a)) = map sint (values_of a)"
| "value_Ints (Some (Int16s a)) = map sint (values_of a)"
| "value_Ints (Some (Int32s a)) = map sint (values_of a)"
| "value_Ints (Some (Int64s a)) = map sint (values_of a)"
| "value_Ints _ = []"

fun value_Uints :: "value option \<Rightarrow> 64 word list" where
  "value_Uints (Some (Uint8s a)) = map ucast (values_of a)"
| "value_Uints (Some (Uint16s a)) = map ucast (values_of a)"
| "value_Uints (Some (Uint32s a)) = map ucast (values_of a)"
| "value_Uints (Some (Uint64s a)) = values_of a"
| "value_Uints _ = []"

fun value_Strings :: "value option \<Rightarrow> string list" where
  "value_Strings (Some (Strings a)) = values_of a"
| "value_Strings _ = []"

section \<open>Sizes of tensors\<close>

definition lazy_blockSize :: "TensorType \<Rightarrow> int" where
  "lazy_blockSize t =
     (if t \<in> {TensorTypeF32, TensorTypeF16, TensorTypeI8, TensorTypeI16, TensorTypeI32, TensorTypeI64,
         TensorTypeF64, TensorTypeBF16} then 1
      else if t \<in> {TensorTypeQ4_0, TensorTypeQ4_1, TensorTypeQ5_0, TensorTypeQ5_1, TensorTypeQ8_0,
         TensorTypeQ8_1, tensorTypeIQ4_NL} then 32
      else 256)"

definition lazy_typeSize :: "TensorType \<Rightarrow> int" where
  "lazy_typeSize t = (let bs = lazy_blockSize t in switch
     [(TensorTypeF32, 4),
      (TensorTypeF16, 2),
      (TensorTypeQ4_0, 2 + bs div 2),
      (TensorTypeQ4_1, 2 + 2 + bs div 2),
      (TensorTypeQ5_0, 2 + 4 + bs div 2),
      (TensorTypeQ5_1, 2 + 2 + 4 + bs div 2),
      (TensorTypeQ8_0, 2 + bs),
      (TensorTypeQ8_1, 2 + 2 + bs),
      (TensorTypeQ2_K, bs div 16 + bs div 4 + 2 + 2),
      (TensorTypeQ3_K, bs div 8 + bs div 4 + 12 + 2),
      (TensorTypeQ4_K, 2 + 2 + 12 + bs div 2),
      (TensorTypeQ5_K, 2 + 2 + 12 + bs div 8 + bs div 2),
      (TensorTypeQ6_K, bs div 2 + bs div 4 + bs div 16 + 2),
      (TensorTypeQ8_K, 4 + bs + 2 * bs div 16),
      (tensorTypeIQ2_XXS, 2 + 2 * bs div 8),
      (tensorTypeIQ2_XS, 2 + 2 * bs div 8 + bs div 32),
      (tensorTypeIQ3_XXS, 2 + bs div 4 + bs div 8),
      (tensorTypeIQ1_S, 2 + bs div 8 + bs div 16),
      (tensorTypeIQ4_NL, 2 + bs div 2),
      (tensorTypeIQ3_S, 2 + bs div 4 + bs div 8 + bs div 32 + 4),
      (tensorTypeIQ2_S, 2 + bs div 4 + bs div 16),
      (tensorTypeIQ4_XS, 2 + 2 + bs div 2 + bs div 64),
      (TensorTypeI8, 1),
      (TensorTypeI16, 2),
      (TensorTypeI32, 4),
      (TensorTypeI64, 8),
      (TensorTypeF64, 8),
      (tensorTypeIQ1_M, bs div 8 + bs div 16 + bs div 32),
      (TensorTypeBF16, 2)]
     0 t)"

definition lazy_TensorType_String :: "TensorType \<Rightarrow> string" where
  "lazy_TensorType_String = switch
     [(TensorTypeF32, ''f32''),
      (TensorTypeF16, ''f16''),
      (TensorTypeQ4_0, ''q4_0''),
      (TensorTypeQ4_1, ''q4_1''),
      (tensorTypeQ4_2, ''q4_2''),
      (tensorTypeQ4_3, ''q4_3''),
      (TensorTypeQ5_0, ''q5_0''),
      (TensorTypeQ5_1, ''q5_1''),
      (TensorTypeQ8_0, ''q8_0''),
      (TensorTypeQ8_1, ''q8_1''),
      (TensorTypeQ2_K, ''q2_k''),
      (TensorTypeQ3_K, ''q3_k''),
      (TensorTypeQ4_K, ''q4_k''),
      (TensorTypeQ5_K, ''q5_k''),
      (TensorTypeQ6_K, ''q6_k''),
      (TensorTypeQ8_K, ''q8_k''),
      (tensorTypeIQ2_XXS, ''iq2_xxs''),
      (tensorTypeIQ2_XS, ''iq2_xs''),
      (tensorTypeIQ3_XXS, ''iq3_xxs''),
      (tensorTypeIQ1_S, ''iq1_s''),
      (tensorTypeIQ4_NL, ''iq4_nl''),
      (tensorTypeIQ3_S, ''iq3_s''),
      (tensorTypeIQ2_S, ''iq2_s''),
      (tensorTypeIQ4_XS, ''iq4_xs''),
      (TensorTypeI8, ''i8''),
      (TensorTypeI16, ''i16''),
      (TensorTypeI32, ''i32''),
      (TensorTypeI64, ''i64''),
      (TensorTypeF64, ''f64''),
      (tensorTypeIQ1_M, ''iq1_m''),
      (TensorTypeBF16, ''bf16''),
      (tensorTypeQ4_0_4_4, ''q4_0_4_4''),
      (tensorTypeQ4_0_4_8, ''q4_0_4_8''),
      (tensorTypeQ4_0_8_8, ''q4_0_8_8''),
      (tensorTypeTQ1_0, ''tq1_0''),
      (tensorTypeTQ2_0, ''tq2_0''),
      (tensorTypeIQ4_NL_4_4, ''iq4_nl_4_4''),
      (tensorTypeIQ4_NL_4_8, ''iq4_nl_4_8''),
      (tensorTypeIQ4_NL_8_8, ''iq4_nl_8_8'')]
     ''unknown''"

text \<open>\<open>float64\<close> of an integer: rounded to 53 significant bits, a tie to the even neighbour.\<close>

definition round53 :: "nat \<Rightarrow> nat" where
  "round53 n =
     (if n < 2 ^ 53 then n
      else let e = floorlog 2 n - 53; q = n div 2 ^ e; r = n mod 2 ^ e in
        if 2 * r > 2 ^ e \<or> 2 * r = 2 ^ e \<and> odd q then (q + 1) * 2 ^ e else q * 2 ^ e)"

definition float64_of :: "int \<Rightarrow> int" where
  "float64_of n = sgn n * int (round53 (nat \<bar>n\<bar>))"

definition NumValues :: "TensorInfo \<Rightarrow> int" where
  "NumValues ti = int_of (fold (\<lambda>d n. n * d) (ti_Shape ti) 1)"

text \<open>\<open>NumBytes\<close>: the product of two floats. The size of an element is a fraction with a power of two
  below, so the product is rounded like the product with its numerator. The conversion of a float that is
  out of range gives the least 64-bit integer, as on x86-64.\<close>

definition NumBytes :: "TensorInfo \<Rightarrow> int" where
  "NumBytes ti =
     (let x = float64_of (float64_of (NumValues ti) * lazy_typeSize (ti_Type ti)) sdiv lazy_blockSize (ti_Type ti)
      in if - (2 ^ 63) \<le> x \<and> x < 2 ^ 63 then x else - (2 ^ 63))"

definition TensorInfo_Valid :: "TensorInfo \<Rightarrow> bool" where
  "TensorInfo_Valid ti \<longleftrightarrow> ti_Name ti \<noteq> [] \<and> NumBytes ti > 0"

section \<open>Lazy sequences\<close>

text \<open>The coroutine of \<open>newLazy\<close>: it has read \<open>lz_values\<close> and is suspended, or it has ended because a read
  failed or because all values are read.\<close>

datatype lazy_status = Running | Failed | Succeeded

record 'a lazy =
  lz_count :: "64 word"
  lz_values :: "'a list"
  lz_status :: lazy_status

definition newLazy :: "64 word \<Rightarrow> 'a lazy" where
  "newLazy n = \<lparr>lz_count = n, lz_values = [], lz_status = Running\<rparr>"

definition lz_next :: "'a lreader \<Rightarrow> 'a lazy \<Rightarrow> string \<Rightarrow> 'a option \<times> 'a lazy \<times> string" where
  "lz_next rd g s =
     (if lz_status g \<noteq> Running then (None, g, s)
      else if length (lz_values g) < unat (lz_count g) then
        (case rd s of
           (Inl e, s') \<Rightarrow> (None, g\<lparr>lz_status := Failed\<rparr>, s')
         | (Inr x, s') \<Rightarrow> (Some x, g\<lparr>lz_values := lz_values g @ [x]\<rparr>, s'))
      else (None, g\<lparr>lz_status := Succeeded\<rparr>, s))"

definition to_read :: "'a lazy \<Rightarrow> nat" where
  "to_read g = unat (lz_count g) - length (lz_values g)"

lemma lz_next_Some:
  assumes "lz_next rd g s = (Some x, g', s')"
  shows "lz_status g = Running" and "length (lz_values g) < unat (lz_count g)" and "rd s = (Inr x, s')"
    and "g' = g\<lparr>lz_values := lz_values g @ [x]\<rparr>"
  using assms by (auto simp: lz_next_def split: if_splits prod.splits sum.splits)

lemma lz_next_less: "lz_next rd g s = (Some x, g', s') \<Longrightarrow> to_read g' < to_read g"
  using lz_next_Some(2,4) [of rd g s x g' s'] by (simp add: to_read_def)

text \<open>The loop that calls \<open>next\<close> until a value fits.\<close>

function seek :: "'a lreader \<Rightarrow> ('a \<Rightarrow> bool) \<Rightarrow> 'a lazy \<Rightarrow> string \<Rightarrow> 'a option \<times> 'a lazy \<times> string" where
  "seek rd fits g s =
     (case lz_next rd g s of
        (None, g', s') \<Rightarrow> (None, g', s')
      | (Some x, g', s') \<Rightarrow> if fits x then (Some x, g', s') else seek rd fits g' s')"
  by pat_completeness auto

termination
  by (relation "measure (\<lambda>(rd, fits, g, s). to_read g)") (auto dest: sym [THEN lz_next_less])

declare seek.simps [simp del]

definition lz_rest :: "'a lreader \<Rightarrow> 'a lazy \<Rightarrow> string \<Rightarrow> 'a lazy \<times> string" where
  "lz_rest rd g s = snd (seek rd (\<lambda>x. False) g s)"

text \<open>The iterator \<open>All\<close> from index \<open>i\<close>, for a consumer that takes \<open>k\<close> more items.\<close>

fun lz_All :: "'a lreader \<Rightarrow> nat \<Rightarrow> nat \<Rightarrow> 'a lazy \<Rightarrow> string \<Rightarrow> 'a list \<times> 'a lazy \<times> string" where
  "lz_All rd 0 i g s = ([], g, s)"
| "lz_All rd (Suc k) i g s =
     (if int i < int_of (lz_count g) then
        (if i < length (lz_values g) then
           (let (xs, g', s') = lz_All rd k (i + 1) g s in (lz_values g ! i # xs, g', s'))
         else (case lz_next rd g s of
             (None, g', s') \<Rightarrow> ([], g', s')
           | (Some x, g', s') \<Rightarrow> let (xs, g'', s'') = lz_All rd k (i + 1) g' s' in (x # xs, g'', s'')))
      else ([], g, s))"

section \<open>Files\<close>

text \<open>\<open>f_rest\<close> is what the buffered reader has not delivered yet, so that its offset is the size of the file
  less the length of \<open>f_rest\<close>.\<close>

record File =
  f_Magic :: string
  f_Version :: "32 word"
  keyValues :: "KeyValue lazy"
  tensors :: "TensorInfo lazy"
  f_offset :: int
  f_rest :: string
  f_size :: nat

definition Open :: "string \<Rightarrow> lazy_error + File" where
  "Open file =
     fst (lbind (read_bytes 4) (\<lambda>magic.
       if magic = ''gguf'' then lfail Unsupported
       else lbind (lread 4) (\<lambda>version :: 32 word.
         if version < 2 then lfail Unsupported
         else lbind (lread 8) (\<lambda>nt. lbind (lread 8) (\<lambda>nk s.
           (Inr \<lparr>f_Magic = magic, f_Version = version, keyValues = newLazy nk, tensors = newLazy nt,
              f_offset = 0, f_rest = s, f_size = length file\<rparr>, s))))) file)"

definition find_key :: "string \<Rightarrow> File \<Rightarrow> KeyValue \<times> File" where
  "find_key key f =
     (case find (\<lambda>kv. kv_Key kv = key) (lz_values (keyValues f)) of
        Some kv \<Rightarrow> (kv, f)
      | None \<Rightarrow>
          (case seek File_readKeyValue (\<lambda>kv. kv_Key kv = key) (keyValues f) (f_rest f) of
             (r, g, s) \<Rightarrow> (case r of Some kv \<Rightarrow> kv | None \<Rightarrow> no_KeyValue, f\<lparr>keyValues := g, f_rest := s\<rparr>)))"

definition File_KeyValue :: "string \<Rightarrow> File \<Rightarrow> KeyValue \<times> File" where
  "File_KeyValue key f =
     (if \<not> HasPrefix key ''general.'' \<and> \<not> HasPrefix key ''tokenizer.'' then
        (let (arch, f) = find_key ''general.architecture'' f
         in find_key (value_String (kv_Value arch) @ ''.'' @ key) f)
      else find_key key f)"

definition NumKeyValues :: "File \<Rightarrow> int" where
  "NumKeyValues f = int_of (lz_count (keyValues f))"

definition NumTensors :: "File \<Rightarrow> int" where
  "NumTensors f = int_of (lz_count (tensors f))"

definition File_KeyValues :: "nat \<Rightarrow> File \<Rightarrow> KeyValue list \<times> File" where
  "File_KeyValues k f =
     (case lz_All File_readKeyValue k 0 (keyValues f) (f_rest f) of
        (xs, g, s) \<Rightarrow> (xs, f\<lparr>keyValues := g, f_rest := s\<rparr>))"

text \<open>The \<open>successFunc\<close> of the tensors, whose error is dropped; it runs when the last tensor record has been
  read and the iterator is resumed.\<close>

definition align_offset :: "int \<Rightarrow> int \<Rightarrow> int option" where
  "align_offset offset v =
     (let alignment = (if v \<noteq> 0 then v else 32) in
      if alignment \<le> 0 then None
      else Some (offset + (alignment - offset smod alignment) smod alignment))"

definition successFunc :: "File \<Rightarrow> File" where
  "successFunc f =
     (let offset = int (f_size f) - int (length (f_rest f));
          (kv, f) = File_KeyValue ''general.alignment'' f
      in case align_offset offset (value_Int (kv_Value kv)) of
           None \<Rightarrow> f
         | Some off \<Rightarrow> f\<lparr>f_offset := off\<rparr>)"

definition put_tensors :: "TensorInfo lazy \<times> string \<Rightarrow> File \<Rightarrow> File" where
  "put_tensors gs f =
     (let f' = f\<lparr>tensors := fst gs, f_rest := snd gs\<rparr> in
      if lz_status (tensors f) = Running \<and> lz_status (fst gs) = Succeeded then successFunc f' else f')"

definition rest_keyValues :: "File \<Rightarrow> File" where
  "rest_keyValues f =
     (case lz_rest File_readKeyValue (keyValues f) (f_rest f) of (g, s) \<Rightarrow> f\<lparr>keyValues := g, f_rest := s\<rparr>)"

definition rest_tensors :: "File \<Rightarrow> File" where
  "rest_tensors f = put_tensors (lz_rest File_readTensor (tensors f) (f_rest f)) f"

definition File_TensorInfo :: "string \<Rightarrow> File \<Rightarrow> TensorInfo \<times> File" where
  "File_TensorInfo name f =
     (case find (\<lambda>t. ti_Name t = name) (lz_values (tensors f)) of
        Some t \<Rightarrow> (t, f)
      | None \<Rightarrow>
          let f = rest_keyValues f in
          (case seek File_readTensor (\<lambda>t. ti_Name t = name) (tensors f) (f_rest f) of
             (r, gs) \<Rightarrow> (case r of Some t \<Rightarrow> t | None \<Rightarrow> no_TensorInfo, put_tensors gs f)))"

definition File_TensorInfos :: "nat \<Rightarrow> File \<Rightarrow> TensorInfo list \<times> File" where
  "File_TensorInfos k f =
     (let f = rest_keyValues f in
      case lz_All File_readTensor k 0 (tensors f) (f_rest f) of (xs, gs) \<Rightarrow> (xs, put_tensors gs f))"

text \<open>\<open>TensorReader\<close>: the record and the section of the file, or an error; \<open>Err\<close> is always nil.\<close>

definition section_of :: "TensorInfo \<Rightarrow> int \<Rightarrow> nat \<Rightarrow> lazy_error + TensorInfo \<times> int \<times> int" where
  "section_of t base sz =
     (if unat (ti_Offset t) > 2 ^ 63 - 1 then Inl Unsupported
      else let offset = base + int (unat (ti_Offset t)) in
        if offset \<ge> 2 ^ 63 then Inl Unsupported
        else if NumBytes t > int sz - offset then Inl Unsupported
        else Inr (t, offset, NumBytes t))"

definition TensorReader :: "string \<Rightarrow> File \<Rightarrow> (lazy_error + TensorInfo \<times> int \<times> int) \<times> File" where
  "TensorReader name f =
     (let (t, f) = File_TensorInfo name f in
      if ti_Name t = [] then (Inl TensorNotFound, f)
      else if NumBytes t = 0 then (Inl TensorNotFound, f)
      else let f = rest_tensors f in (section_of t (f_offset f) (f_size f), f))"

section \<open>What a lazy sequence will hold\<close>

text \<open>Reading up to \<open>n\<close> values at once: the values, whether all could be read, and the position after them.\<close>

fun read_upto :: "'a lreader \<Rightarrow> nat \<Rightarrow> string \<Rightarrow> 'a list \<times> bool \<times> string" where
  "read_upto rd 0 s = ([], True, s)"
| "read_upto rd (Suc n) s =
     (case rd s of
        (Inl e, s') \<Rightarrow> ([], False, s')
      | (Inr x, s') \<Rightarrow> (case read_upto rd n s' of (xs, ok, r) \<Rightarrow> (x # xs, ok, r)))"

definition outlook :: "'a lreader \<Rightarrow> 'a lazy \<Rightarrow> string \<Rightarrow> 'a list \<times> bool \<times> string" where
  "outlook rd g s =
     (if lz_status g = Running then (case read_upto rd (to_read g) s of (xs, ok, r) \<Rightarrow> (lz_values g @ xs, ok, r))
      else (lz_values g, lz_status g = Succeeded, s))"

definition lz_ok :: "'a lazy \<Rightarrow> bool" where
  "lz_ok g \<longleftrightarrow> length (lz_values g) \<le> unat (lz_count g)"

lemma outlook_stopped: "lz_status g \<noteq> Running \<Longrightarrow> outlook rd g s = (lz_values g, lz_status g = Succeeded, s)"
  by (simp add: outlook_def)

lemma outlook_new: "outlook rd (newLazy n) s = read_upto rd (unat n) s"
  by (simp add: outlook_def newLazy_def to_read_def split: prod.split)

lemma read_upto_length: "length (fst (read_upto rd n s)) \<le> n"
  by (induction n arbitrary: s) (auto split: prod.split sum.split, metis fst_conv)

lemma outlook_length: "lz_ok g \<Longrightarrow> length (fst (outlook rd g s)) \<le> unat (lz_count g)"
  using read_upto_length [of rd "to_read g" s] by (auto simp: outlook_def lz_ok_def to_read_def split: prod.split)

lemma outlook_prefix: "\<exists>xs. fst (outlook rd g s) = lz_values g @ xs"
  by (auto simp: outlook_def split: prod.split)

lemma next_keeps:
  assumes "lz_next rd g s = (r, g', s')"
  shows "outlook rd g' s' = outlook rd g s" and "lz_count g' = lz_count g" and "lz_ok g \<Longrightarrow> lz_ok g'"
    and "lz_status g \<noteq> Running \<Longrightarrow> g' = g \<and> s' = s"
    and "r = None \<Longrightarrow> lz_status g' \<noteq> Running \<and> lz_values g' = lz_values g"
proof -
  have "outlook rd g' s' = outlook rd g s \<and> lz_count g' = lz_count g \<and> (lz_ok g \<longrightarrow> lz_ok g') \<and>
    (lz_status g \<noteq> Running \<longrightarrow> g' = g \<and> s' = s) \<and> (r = None \<longrightarrow> lz_status g' \<noteq> Running \<and> lz_values g' = lz_values g)"
  proof (cases "lz_status g = Running \<and> length (lz_values g) < unat (lz_count g)")
    case True
    then obtain n where n: "to_read g = Suc n" by (cases "to_read g") (auto simp: to_read_def)
    then have "to_read (g\<lparr>lz_values := lz_values g @ [x]\<rparr>) = n" for x by (simp add: to_read_def)
    with True n assms show ?thesis
      by (auto simp: lz_next_def outlook_def lz_ok_def split: prod.splits sum.splits)
  next
    case False
    with assms show ?thesis by (auto simp: lz_next_def outlook_def lz_ok_def to_read_def split: if_splits)
  qed
  then show "outlook rd g' s' = outlook rd g s" "lz_count g' = lz_count g" "lz_ok g \<Longrightarrow> lz_ok g'"
    "lz_status g \<noteq> Running \<Longrightarrow> g' = g \<and> s' = s" "r = None \<Longrightarrow> lz_status g' \<noteq> Running \<and> lz_values g' = lz_values g"
    by blast+
qed

lemma find_append: "find P (xs @ ys) = (case find P xs of None \<Rightarrow> find P ys | Some x \<Rightarrow> Some x)"
  by (induction xs) simp_all

lemma find_SomeD: "find P xs = Some x \<Longrightarrow> P x \<and> x \<in> set xs"
  by (auto simp: find_Some_iff)

lemma seek_keeps:
  assumes "seek rd fits g s = (r, g', s')" and "find fits (lz_values g) = None"
  shows "outlook rd g' s' = outlook rd g s \<and> lz_count g' = lz_count g \<and> (lz_ok g \<longrightarrow> lz_ok g') \<and>
    (lz_status g \<noteq> Running \<longrightarrow> g' = g \<and> s' = s) \<and> (r = None \<longrightarrow> lz_status g' \<noteq> Running) \<and>
    r = find fits (fst (outlook rd g s))"
  using assms
proof (induction rd fits g s rule: seek.induct)
  case (1 rd fits g s)
  obtain r1 g1 s1 where n: "lz_next rd g s = (r1, g1, s1)" by (cases "lz_next rd g s") auto
  note k = next_keeps [OF n]
  show ?case
  proof (cases r1)
    case None
    with 1(2) n have e: "r = None" "g' = g1" "s' = s1" by (simp_all add: seek.simps [of rd fits g s])
    have "fst (outlook rd g1 s1) = lz_values g" using k(5) [OF None] by (simp add: outlook_stopped)
    with e k None 1(3) show ?thesis by auto
  next
    case (Some x)
    note v = lz_next_Some [OF n [unfolded Some]]
    show ?thesis
    proof (cases "fits x")
      case True
      with 1(2) n Some have e: "r = Some x" "g' = g1" "s' = s1" by (simp_all add: seek.simps [of rd fits g s])
      obtain xs where "fst (outlook rd g1 s1) = lz_values g1 @ xs" using outlook_prefix by blast
      then have "find fits (fst (outlook rd g s)) = Some x"
        using k(1) v(4) True 1(3) by (simp add: find_append)
      with e k v(1) show ?thesis by auto
    next
      case False
      with 1(2) n Some have "seek rd fits g1 s1 = (r, g', s')" by (simp add: seek.simps [of rd fits g s])
      moreover have "find fits (lz_values g1) = None" using v(4) False 1(3) by (simp add: find_append)
      ultimately show ?thesis using 1(1) [OF n [symmetric] Some refl False] k v(1) by metis
    qed
  qed
qed

lemma rest_keeps:
  assumes "lz_rest rd g s = (g', s')"
  shows "outlook rd g' s' = outlook rd g s \<and> lz_count g' = lz_count g \<and> (lz_ok g \<longrightarrow> lz_ok g') \<and>
    (lz_status g \<noteq> Running \<longrightarrow> g' = g \<and> s' = s) \<and> lz_status g' \<noteq> Running"
proof -
  obtain r where r: "seek rd (\<lambda>x. False) g s = (r, g', s')"
    using assms by (metis lz_rest_def prod.collapse)
  have "find (\<lambda>x. False) xs = None" for xs :: "'a list" by (induction xs) auto
  then show ?thesis using seek_keeps [OF r] by simp
qed

lemma All_keeps:
  assumes "lz_All rd k i g s = (xs, g', s')" and "lz_ok g" and "i \<le> length (lz_values g)"
  shows "outlook rd g' s' = outlook rd g s \<and> lz_count g' = lz_count g \<and> lz_ok g' \<and>
    (lz_status g \<noteq> Running \<longrightarrow> g' = g \<and> s' = s) \<and>
    xs = (if int_of (lz_count g) < 0 then [] else take k (drop i (fst (outlook rd g s))))"
  using assms
proof (induction rd k i g s arbitrary: xs rule: lz_All.induct)
  case (2 rd k i g s)
  let ?all = "fst (outlook rd g s)"
  show ?case
  proof (cases "int i < int_of (lz_count g)")
    case False
    moreover have "drop i ?all = []" if "\<not> int_of (lz_count g) < 0"
    proof -
      have "int_of (lz_count g) = int (unat (lz_count g))" using that unsigned_less [of "lz_count g"] by (auto simp: int_of_def split: if_splits)
      with False have "unat (lz_count g) \<le> i" by linarith
      then show ?thesis using outlook_length [OF "2.prems"(2), of rd s] by simp
    qed
    ultimately show ?thesis using 2 by auto
  next
    case inside: True
    then have nn: "\<not> int_of (lz_count g) < 0" by simp
    show ?thesis
    proof (cases "i < length (lz_values g)")
      case True
      then obtain ys where ys: "lz_All rd k (i + 1) g s = (ys, g', s')" "xs = lz_values g ! i # ys"
        using "2.prems"(1) inside by (auto split: prod.splits)
      obtain zs where zs: "?all = lz_values g @ zs" using outlook_prefix by blast
      then have "drop i ?all = lz_values g ! i # drop (i + 1) ?all" using True
        by (metis Cons_nth_drop_Suc Suc_eq_plus1 length_append nth_append trans_less_add1)
      then show ?thesis using "2.IH"(1) [OF inside True ys(1)] True "2.prems"(2) ys(2) nn by simp
    next
      case False
      with "2.prems"(3) have i: "i = length (lz_values g)" by simp
      obtain r1 g1 s1 where n: "lz_next rd g s = (r1, g1, s1)" by (cases "lz_next rd g s") auto
      note k = next_keeps [OF n]
      show ?thesis
      proof (cases r1)
        case None
        have "?all = lz_values g" using k(1,5) None by (metis fst_conv outlook_stopped)
        moreover have "xs = [] \<and> g' = g1 \<and> s' = s1" using "2.prems"(1) inside False n None by simp
        ultimately show ?thesis using k "2.prems"(2) i by simp
      next
        case (Some x)
        note v = lz_next_Some [OF n [unfolded Some]]
        obtain ys where ys: "lz_All rd k (i + 1) g1 s1 = (ys, g', s')" "xs = x # ys"
          using "2.prems"(1) inside False n Some by (auto split: prod.splits)
        obtain zs where "fst (outlook rd g1 s1) = lz_values g1 @ zs" using outlook_prefix by blast
        then have "?all = lz_values g @ x # zs" using k(1) v(4) by simp
        then have "drop i ?all = x # drop (i + 1) ?all" using i by simp
        moreover have "i + 1 \<le> length (lz_values g1)" using v(4) i by simp
        ultimately show ?thesis
          using "2.IH"(2) [OF inside False n [symmetric] Some refl, of ys] ys k v(1) "2.prems"(2) nn by simp
      qed
    qed
  qed
qed simp

section \<open>The whole header\<close>

text \<open>What the file holds, read at once: all key values and all tensor records that can be read, and the
  place of the tensor data.\<close>

record view =
  v_kvs :: "KeyValue list"
  v_tensors :: "TensorInfo list"
  v_base :: int
  v_NumKV :: int
  v_NumTensors :: int
  v_size :: nat

definition first_key :: "string \<Rightarrow> KeyValue list \<Rightarrow> KeyValue" where
  "first_key key kvs = (case find (\<lambda>kv. kv_Key kv = key) kvs of Some kv \<Rightarrow> kv | None \<Rightarrow> no_KeyValue)"

definition base_of :: "nat \<Rightarrow> KeyValue list \<Rightarrow> bool \<Rightarrow> string \<Rightarrow> int" where
  "base_of n kvs ok r =
     (if ok then
        (case align_offset (int n - int (length r)) (value_Int (kv_Value (first_key ''general.alignment'' kvs))) of
           None \<Rightarrow> 0 | Some off \<Rightarrow> off)
      else 0)"

definition view_of :: "File \<Rightarrow> view" where
  "view_of f =
     (case outlook File_readKeyValue (keyValues f) (f_rest f) of (kvs, _, r) \<Rightarrow>
        (case outlook File_readTensor (tensors f) r of (ts, ok, r') \<Rightarrow>
           \<lparr>v_kvs = kvs, v_tensors = ts, v_base = base_of (f_size f) kvs ok r', v_NumKV = NumKeyValues f,
              v_NumTensors = NumTensors f, v_size = f_size f\<rparr>))"

text \<open>Key values come before tensors in the stream, so no tensor may be read while key values are left.\<close>

definition file_ok :: "File \<Rightarrow> bool" where
  "file_ok f \<longleftrightarrow> lz_ok (keyValues f) \<and> lz_ok (tensors f) \<and>
     (lz_status (keyValues f) = Running \<longrightarrow> lz_values (tensors f) = [] \<and> lz_status (tensors f) = Running) \<and>
     f_offset f = (if lz_status (tensors f) = Succeeded then v_base (view_of f) else 0)"

text \<open>The questions a client asks, and their answers from the whole header.\<close>

datatype query = AskKeyValue string | AskKeyValues nat | AskTensorInfo string | AskTensorInfos nat
  | AskTensorReader string | AskNumKeyValues | AskNumTensors

datatype answer = AKeyValue KeyValue | AKeyValues "KeyValue list" | ATensorInfo TensorInfo
  | ATensorInfos "TensorInfo list" | ATensorReader "lazy_error + TensorInfo \<times> int \<times> int" | ANumber int

fun ask :: "query \<Rightarrow> File \<Rightarrow> answer \<times> File" where
  "ask (AskKeyValue key) f = map_prod AKeyValue id (File_KeyValue key f)"
| "ask (AskKeyValues k) f = map_prod AKeyValues id (File_KeyValues k f)"
| "ask (AskTensorInfo name) f = map_prod ATensorInfo id (File_TensorInfo name f)"
| "ask (AskTensorInfos k) f = map_prod ATensorInfos id (File_TensorInfos k f)"
| "ask (AskTensorReader name) f = map_prod ATensorReader id (TensorReader name f)"
| "ask AskNumKeyValues f = (ANumber (NumKeyValues f), f)"
| "ask AskNumTensors f = (ANumber (NumTensors f), f)"

definition first_tensor :: "string \<Rightarrow> TensorInfo list \<Rightarrow> TensorInfo" where
  "first_tensor name ts = (case find (\<lambda>t. ti_Name t = name) ts of Some t \<Rightarrow> t | None \<Rightarrow> no_TensorInfo)"

definition full_key :: "view \<Rightarrow> string \<Rightarrow> string" where
  "full_key v key =
     (if \<not> HasPrefix key ''general.'' \<and> \<not> HasPrefix key ''tokenizer.''
      then value_String (kv_Value (first_key ''general.architecture'' (v_kvs v))) @ ''.'' @ key else key)"

fun lookup :: "view \<Rightarrow> query \<Rightarrow> answer" where
  "lookup v (AskKeyValue key) = AKeyValue (first_key (full_key v key) (v_kvs v))"
| "lookup v (AskKeyValues k) = AKeyValues (if v_NumKV v < 0 then [] else take k (v_kvs v))"
| "lookup v (AskTensorInfo name) = ATensorInfo (first_tensor name (v_tensors v))"
| "lookup v (AskTensorInfos k) = ATensorInfos (if v_NumTensors v < 0 then [] else take k (v_tensors v))"
| "lookup v (AskTensorReader name) = ATensorReader
     (let t = first_tensor name (v_tensors v) in
      if ti_Name t = [] \<or> NumBytes t = 0 then Inl TensorNotFound else section_of t (v_base v) (v_size v))"
| "lookup v AskNumKeyValues = ANumber (v_NumKV v)"
| "lookup v AskNumTensors = ANumber (v_NumTensors v)"

text \<open>A component whose operations only reveal what its state already determines: the answers do not depend
  on what was asked before.\<close>

locale transparent =
  fixes inv :: "'s \<Rightarrow> bool"
    and abs :: "'s \<Rightarrow> 'v"
    and op :: "'q \<Rightarrow> 's \<Rightarrow> 'r \<times> 's"
    and spec :: "'v \<Rightarrow> 'q \<Rightarrow> 'r"
  assumes op_ok: "inv s \<Longrightarrow> inv (snd (op q s)) \<and> abs (snd (op q s)) = abs s \<and> fst (op q s) = spec (abs s) q"
begin

lemma history: "inv s \<Longrightarrow> inv (fold (\<lambda>q s. snd (op q s)) qs s) \<and> abs (fold (\<lambda>q s. snd (op q s)) qs s) = abs s"
  by (induction qs arbitrary: s) (auto simp: op_ok)

lemma answer: "inv s \<Longrightarrow> fst (op q (fold (\<lambda>q s. snd (op q s)) qs s)) = spec (abs s) q"
  using history op_ok by metis

end

section \<open>Laziness is invisible\<close>

text \<open>A change of the key values that keeps their outlook.\<close>

lemma put_keyValues:
  assumes "file_ok f" and "f' = f\<lparr>keyValues := g, f_rest := s\<rparr>"
    and "outlook File_readKeyValue g s = outlook File_readKeyValue (keyValues f) (f_rest f)"
    and "lz_count g = lz_count (keyValues f)" and "lz_ok g"
    and "lz_status (keyValues f) \<noteq> Running \<longrightarrow> g = keyValues f \<and> s = f_rest f"
  shows "file_ok f' \<and> view_of f' = view_of f"
proof -
  have v: "view_of f' = view_of f" using assms(2,3,4) by (simp add: view_of_def NumKeyValues_def NumTensors_def)
  then show ?thesis using assms(1,2,5,6) by (auto simp: file_ok_def)
qed

lemma find_key_ok:
  assumes "file_ok f" "find_key key f = (kv, f')"
  shows "file_ok f' \<and> view_of f' = view_of f \<and> kv = first_key key (v_kvs (view_of f)) \<and>
    tensors f' = tensors f \<and> f_offset f' = f_offset f \<and> f_size f' = f_size f \<and>
    (lz_status (keyValues f) \<noteq> Running \<longrightarrow> f' = f)"
proof -
  let ?P = "\<lambda>kv. kv_Key kv = key"
  have kvs: "v_kvs (view_of f) = fst (outlook File_readKeyValue (keyValues f) (f_rest f))"
    by (simp add: view_of_def split: prod.split)
  show ?thesis
  proof (cases "find ?P (lz_values (keyValues f))")
    case (Some x)
    obtain xs where "v_kvs (view_of f) = lz_values (keyValues f) @ xs" unfolding kvs using outlook_prefix by blast
    with Some assms show ?thesis by (simp add: find_key_def first_key_def find_append)
  next
    case None
    obtain r g s where sk: "seek File_readKeyValue ?P (keyValues f) (f_rest f) = (r, g, s)"
      by (cases "seek File_readKeyValue ?P (keyValues f) (f_rest f)") auto
    note k = seek_keeps [OF sk None]
    have f': "f' = f\<lparr>keyValues := g, f_rest := s\<rparr>" and kv: "kv = (case r of Some kv \<Rightarrow> kv | None \<Rightarrow> no_KeyValue)"
      using assms(2) None sk by (simp_all add: find_key_def)
    have "file_ok f' \<and> view_of f' = view_of f"
      by (rule put_keyValues [OF assms(1) f']) (use k assms(1) in \<open>auto simp: file_ok_def\<close>)
    then show ?thesis using f' kv k by (auto simp: first_key_def kvs)
  qed
qed

lemma KeyValue_ok:
  assumes "file_ok f" "File_KeyValue key f = (kv, f')"
  shows "file_ok f' \<and> view_of f' = view_of f \<and> kv = first_key (full_key (view_of f) key) (v_kvs (view_of f)) \<and>
    (lz_status (keyValues f) \<noteq> Running \<longrightarrow> f' = f)"
proof (cases "\<not> HasPrefix key ''general.'' \<and> \<not> HasPrefix key ''tokenizer.''")
  case True
  obtain a f1 where a: "find_key ''general.architecture'' f = (a, f1)" by (cases "find_key ''general.architecture'' f")
  note k = find_key_ok [OF assms(1) a]
  have "find_key (value_String (kv_Value a) @ ''.'' @ key) f1 = (kv, f')"
    using assms(2) True a by (simp add: File_KeyValue_def)
  from find_key_ok [OF _ this] k True show ?thesis by (auto simp: full_key_def)
next
  case False
  with assms(2) have "find_key key f = (kv, f')" by (auto simp: File_KeyValue_def)
  from find_key_ok [OF assms(1) this] False show ?thesis by (auto simp: full_key_def)
qed

lemma KeyValues_ok:
  assumes "file_ok f"
  shows "file_ok (snd (File_KeyValues k f)) \<and> view_of (snd (File_KeyValues k f)) = view_of f \<and>
    fst (File_KeyValues k f) = (if v_NumKV (view_of f) < 0 then [] else take k (v_kvs (view_of f)))"
proof -
  obtain xs g s where a: "lz_All File_readKeyValue k 0 (keyValues f) (f_rest f) = (xs, g, s)"
    by (cases "lz_All File_readKeyValue k 0 (keyValues f) (f_rest f)") auto
  have ok: "lz_ok (keyValues f)" using assms by (simp add: file_ok_def)
  note k = All_keeps [OF a ok le0]
  have e: "File_KeyValues k f = (xs, f\<lparr>keyValues := g, f_rest := s\<rparr>)" by (simp add: File_KeyValues_def a)
  have "file_ok (snd (File_KeyValues k f)) \<and> view_of (snd (File_KeyValues k f)) = view_of f"
    by (rule put_keyValues [OF assms, where g = g and s = s]) (use k e in auto)
  moreover have "v_NumKV (view_of f) = int_of (lz_count (keyValues f))"
    "v_kvs (view_of f) = fst (outlook File_readKeyValue (keyValues f) (f_rest f))"
    by (simp_all add: view_of_def NumKeyValues_def split: prod.split)
  ultimately show ?thesis using k e by simp
qed

lemma rest_keyValues_ok:
  assumes "file_ok f"
  shows "file_ok (rest_keyValues f) \<and> view_of (rest_keyValues f) = view_of f \<and>
    lz_status (keyValues (rest_keyValues f)) \<noteq> Running \<and> tensors (rest_keyValues f) = tensors f"
proof -
  obtain g s where r: "lz_rest File_readKeyValue (keyValues f) (f_rest f) = (g, s)"
    by (cases "lz_rest File_readKeyValue (keyValues f) (f_rest f)") auto
  note k = rest_keeps [OF r]
  have e: "rest_keyValues f = f\<lparr>keyValues := g, f_rest := s\<rparr>" by (simp add: rest_keyValues_def r)
  have "file_ok (rest_keyValues f) \<and> view_of (rest_keyValues f) = view_of f"
    by (rule put_keyValues [OF assms e]) (use k assms in \<open>auto simp: file_ok_def\<close>)
  then show ?thesis using e k by simp
qed

lemma find_key_stopped:
  assumes "lz_status (keyValues f) \<noteq> Running"
  shows "find_key key f = (first_key key (lz_values (keyValues f)), f)"
  using assms
  by (auto simp: find_key_def first_key_def seek.simps [of _ _ "keyValues f"] lz_next_def split: option.split)

lemma view_of_stopped:
  assumes "lz_status (keyValues f) \<noteq> Running"
  shows "view_of f =
    (case outlook File_readTensor (tensors f) (f_rest f) of (ts, ok, r) \<Rightarrow>
       \<lparr>v_kvs = lz_values (keyValues f), v_tensors = ts, v_base = base_of (f_size f) (lz_values (keyValues f)) ok r,
          v_NumKV = NumKeyValues f, v_NumTensors = NumTensors f, v_size = f_size f\<rparr>)"
  using assms by (simp add: view_of_def outlook_stopped)

lemma put_tensors_ok:
  assumes "file_ok f" and "lz_status (keyValues f) \<noteq> Running" and "f' = put_tensors (g, s) f"
    and "outlook File_readTensor g s = outlook File_readTensor (tensors f) (f_rest f)"
    and "lz_count g = lz_count (tensors f)" and "lz_ok g"
    and "lz_status (tensors f) \<noteq> Running \<longrightarrow> g = tensors f \<and> s = f_rest f"
  shows "file_ok f' \<and> view_of f' = view_of f \<and> tensors f' = g \<and> keyValues f' = keyValues f \<and> f_size f' = f_size f"
proof -
  define f1 where "f1 = f\<lparr>tensors := g, f_rest := s\<rparr>"
  have st: "lz_status (keyValues f1) \<noteq> Running" using assms(2) by (simp add: f1_def)
  have v: "view_of f1 = view_of f"
    unfolding view_of_stopped [OF st] view_of_stopped [OF assms(2)]
    using assms(4,5) by (simp add: f1_def NumKeyValues_def NumTensors_def)
  define b where "b = v_base (view_of f)"
  show ?thesis
  proof (cases "lz_status (tensors f) = Running \<and> lz_status g = Succeeded")
    case True
    define off where "off = align_offset (int (f_size f) - int (length s))
      (value_Int (kv_Value (first_key ''general.alignment'' (lz_values (keyValues f)))))"
    have "File_KeyValue ''general.alignment'' f1 = (first_key ''general.alignment'' (lz_values (keyValues f)), f1)"
      using find_key_stopped [OF st] by (simp add: File_KeyValue_def f1_def)
    then have f': "f' = (case off of None \<Rightarrow> f1 | Some x \<Rightarrow> f1\<lparr>f_offset := x\<rparr>)"
      using True unfolding assms(3) put_tensors_def successFunc_def off_def
      by (simp add: f1_def [symmetric]) (simp add: f1_def)
    have "outlook File_readTensor g s = (lz_values g, True, s)" using True by (simp add: outlook_stopped)
    then have b: "b = (case off of None \<Rightarrow> 0 | Some x \<Rightarrow> x)"
      unfolding b_def v [symmetric] view_of_stopped [OF st] by (simp add: f1_def base_of_def off_def)
    have "f_offset f = 0" using assms(1) True by (simp add: file_ok_def)
    then have o: "f_offset f' = b" using f' b by (simp add: f1_def split: option.split)
    have same: "tensors f' = g" "keyValues f' = keyValues f" "f_rest f' = s" "f_size f' = f_size f"
      using f' by (simp_all add: f1_def split: option.split)
    have "view_of f' = view_of f1"
      using same by (simp add: view_of_def f1_def NumKeyValues_def NumTensors_def)
    then have "view_of f' = view_of f" using v by simp
    then show ?thesis using same o assms(1,2,6) True by (simp add: file_ok_def b_def)
  next
    case False
    then have f': "f' = f1" unfolding assms(3) put_tensors_def by (auto simp: f1_def)
    have "lz_status g = Succeeded \<longleftrightarrow> lz_status (tensors f) = Succeeded"
      using False assms(4,7) by (cases "lz_status (tensors f) = Running") auto
    then have "file_ok f1" using assms(1,2,6) v by (simp add: file_ok_def f1_def)
    then show ?thesis using f' v by (simp add: f1_def)
  qed
qed

lemma rest_tensors_ok:
  assumes "file_ok f" "lz_status (keyValues f) \<noteq> Running"
  shows "file_ok (rest_tensors f) \<and> view_of (rest_tensors f) = view_of f \<and>
    lz_status (tensors (rest_tensors f)) \<noteq> Running \<and> f_size (rest_tensors f) = f_size f"
proof -
  obtain g s where r: "lz_rest File_readTensor (tensors f) (f_rest f) = (g, s)"
    by (cases "lz_rest File_readTensor (tensors f) (f_rest f)") auto
  have "rest_tensors f = put_tensors (g, s) f" by (simp add: rest_tensors_def r)
  from put_tensors_ok [OF assms this] rest_keeps [OF r] assms(1) show ?thesis by (auto simp: file_ok_def)
qed

lemma TensorInfo_ok:
  assumes "file_ok f" "File_TensorInfo name f = (t, f')"
  shows "file_ok f' \<and> view_of f' = view_of f \<and> t = first_tensor name (v_tensors (view_of f)) \<and>
    (lz_values (tensors f) \<noteq> [] \<or> find (\<lambda>t. ti_Name t = name) (lz_values (tensors f)) = None \<longrightarrow>
       lz_status (keyValues f') \<noteq> Running)"
proof (cases "find (\<lambda>t. ti_Name t = name) (lz_values (tensors f))")
  case (Some x)
  then have "lz_values (tensors f) \<noteq> []" by auto
  then have st: "lz_status (keyValues f) \<noteq> Running" using assms(1) by (auto simp: file_ok_def)
  have "v_tensors (view_of f) = fst (outlook File_readTensor (tensors f) (f_rest f))"
    unfolding view_of_stopped [OF st] by (simp split: prod.split)
  then obtain xs where "v_tensors (view_of f) = lz_values (tensors f) @ xs" using outlook_prefix by metis
  with Some assms st show ?thesis by (simp add: File_TensorInfo_def first_tensor_def find_append)
next
  case None
  define f1 where "f1 = rest_keyValues f"
  have f1: "file_ok f1" "view_of f1 = view_of f" "lz_status (keyValues f1) \<noteq> Running" "tensors f1 = tensors f"
    using rest_keyValues_ok [OF assms(1)] by (simp_all add: f1_def)
  obtain r g s where sk: "seek File_readTensor (\<lambda>t. ti_Name t = name) (tensors f1) (f_rest f1) = (r, g, s)"
    by (cases "seek File_readTensor (\<lambda>t. ti_Name t = name) (tensors f1) (f_rest f1)") auto
  note k = seek_keeps [OF sk None [folded f1(4)]]
  have f': "f' = put_tensors (g, s) f1" and t: "t = (case r of Some t \<Rightarrow> t | None \<Rightarrow> no_TensorInfo)"
    using assms(2) None sk by (simp_all add: File_TensorInfo_def f1_def [symmetric])
  have ts: "v_tensors (view_of f) = fst (outlook File_readTensor (tensors f1) (f_rest f1))"
    unfolding f1(2) [symmetric] view_of_stopped [OF f1(3)] by (simp split: prod.split)
  from put_tensors_ok [OF f1(1,3) f'] k f1 t show ?thesis by (auto simp: first_tensor_def ts file_ok_def)
qed

lemma TensorInfos_ok:
  assumes "file_ok f"
  shows "file_ok (snd (File_TensorInfos k f)) \<and> view_of (snd (File_TensorInfos k f)) = view_of f \<and>
    fst (File_TensorInfos k f) = (if v_NumTensors (view_of f) < 0 then [] else take k (v_tensors (view_of f)))"
proof -
  define f1 where "f1 = rest_keyValues f"
  have f1: "file_ok f1" "view_of f1 = view_of f" "lz_status (keyValues f1) \<noteq> Running"
    using rest_keyValues_ok [OF assms] by (simp_all add: f1_def)
  obtain xs g s where a: "lz_All File_readTensor k 0 (tensors f1) (f_rest f1) = (xs, g, s)"
    by (cases "lz_All File_readTensor k 0 (tensors f1) (f_rest f1)") auto
  have ok: "lz_ok (tensors f1)" using f1(1) by (simp add: file_ok_def)
  note k = All_keeps [OF a ok le0]
  have e: "File_TensorInfos k f = (xs, put_tensors (g, s) f1)" by (simp add: File_TensorInfos_def a f1_def [symmetric])
  have "v_NumTensors (view_of f) = int_of (lz_count (tensors f1))"
    "v_tensors (view_of f) = fst (outlook File_readTensor (tensors f1) (f_rest f1))"
    unfolding f1(2) [symmetric] view_of_stopped [OF f1(3)] by (simp_all add: NumTensors_def split: prod.split)
  with put_tensors_ok [OF f1(1,3) refl, of g s] k e f1(2) show ?thesis by simp
qed

lemma TensorReader_ok:
  assumes "file_ok f"
  shows "file_ok (snd (TensorReader name f)) \<and> view_of (snd (TensorReader name f)) = view_of f \<and>
    ATensorReader (fst (TensorReader name f)) = lookup (view_of f) (AskTensorReader name)"
proof -
  obtain t f1 where t: "File_TensorInfo name f = (t, f1)" by (cases "File_TensorInfo name f")
  note k = TensorInfo_ok [OF assms t]
  show ?thesis
  proof (cases "ti_Name t = [] \<or> NumBytes t = 0")
    case True
    with k t show ?thesis by (auto simp: TensorReader_def)
  next
    case False
    have st: "lz_status (keyValues f1) \<noteq> Running"
      using k by (cases "lz_values (tensors f) = []") auto
    note r = rest_tensors_ok [OF conjunct1 [OF k] st]
    have sz: "f_size f1 = v_size (view_of f)" "f_size f1 = f_size (rest_tensors f1)"
      using k r by (metis (no_types, lifting) view.select_convs(6) view_of_stopped st case_prod_unfold, simp)
    have base: "f_offset (rest_tensors f1) = v_base (view_of f)"
    proof (cases "lz_status (tensors (rest_tensors f1)) = Succeeded")
      case True
      then show ?thesis using r k by (simp add: file_ok_def)
    next
      case False
      then have "v_base (view_of (rest_tensors f1)) = 0"
        using r by (simp add: view_of_def outlook_stopped base_of_def split: prod.split)
      then show ?thesis using False r k by (simp add: file_ok_def)
    qed
    show ?thesis using False k r t sz base by (simp add: TensorReader_def Let_def)
  qed
qed

interpretation lazy_file: transparent file_ok view_of ask lookup
proof
  fix f q assume f: "file_ok f"
  show "file_ok (snd (ask q f)) \<and> view_of (snd (ask q f)) = view_of f \<and> fst (ask q f) = lookup (view_of f) q"
  proof (cases q)
    case (AskKeyValue key)
    with KeyValue_ok [OF f, of key] show ?thesis by (cases "File_KeyValue key f") simp
  next
    case (AskKeyValues k)
    with KeyValues_ok [OF f, of k] show ?thesis by (cases "File_KeyValues k f") simp
  next
    case (AskTensorInfo name)
    with TensorInfo_ok [OF f, of name] show ?thesis by (cases "File_TensorInfo name f") simp
  next
    case (AskTensorInfos k)
    with TensorInfos_ok [OF f, of k] show ?thesis by (cases "File_TensorInfos k f") simp
  next
    case (AskTensorReader name)
    with TensorReader_ok [OF f, of name] show ?thesis by (cases "TensorReader name f") simp
  qed (use f in \<open>simp_all add: view_of_def split: prod.split\<close>)
qed

text \<open>The whole header of a file that has just been opened.\<close>

definition whole_header :: "File \<Rightarrow> view" where
  "whole_header f =
     (case read_upto File_readKeyValue (unat (lz_count (keyValues f))) (f_rest f) of (kvs, _, r) \<Rightarrow>
        (case read_upto File_readTensor (unat (lz_count (tensors f))) r of (ts, ok, r') \<Rightarrow>
           \<lparr>v_kvs = kvs, v_tensors = ts, v_base = base_of (f_size f) kvs ok r', v_NumKV = NumKeyValues f,
              v_NumTensors = NumTensors f, v_size = f_size f\<rparr>))"

lemma lbind_Inr: "fst (lbind p f s) = Inr y \<Longrightarrow> \<exists>x s'. p s = (Inr x, s') \<and> fst (f x s') = Inr y"
  by (auto simp: lbind_def split: prod.splits sum.splits)

lemma Open_fresh:
  assumes "Open file = Inr f"
  obtains nk nt where "keyValues f = newLazy nk" "tensors f = newLazy nt" "f_offset f = 0" "f_size f = length file"
    "\<exists>magic version s1 s2 s3. read_bytes 4 file = (Inr magic, s1) \<and> lread 4 s1 = (Inr (version :: 32 word), s2) \<and>
       lread 8 s2 = (Inr nt, s3) \<and> lread 8 s3 = (Inr nk, f_rest f) \<and> f_Magic f = magic \<and> f_Version f = version \<and>
       2 \<le> version"
  using assms unfolding Open_def
  by (auto dest!: lbind_Inr simp: lfail_def not_less split: if_splits)

lemma fresh_ok:
  assumes "Open file = Inr f"
  shows "file_ok f" and "view_of f = whole_header f"
proof -
  obtain nk nt where "keyValues f = newLazy nk" "tensors f = newLazy nt" "f_offset f = 0"
    using Open_fresh [OF assms] by metis
  then show "file_ok f" by (simp add: file_ok_def newLazy_def lz_ok_def)
  from \<open>keyValues f = newLazy nk\<close> \<open>tensors f = newLazy nt\<close> show "view_of f = whole_header f"
    unfolding view_of_def whole_header_def by (simp add: outlook_new) (simp add: newLazy_def)
qed

section \<open>Readers do not go back\<close>

definition shrinks :: "'a lreader \<Rightarrow> bool" where
  "shrinks p \<longleftrightarrow> (\<forall>s. length (snd (p s)) \<le> length s)"

lemma shrinksD: "shrinks p \<Longrightarrow> p s = (r, s') \<Longrightarrow> length s' \<le> length s"
  unfolding shrinks_def by (metis snd_conv)

named_theorems shrinking

lemma shrinks_lreturn [shrinking]: "shrinks (lreturn x)"
  by (simp add: shrinks_def lreturn_def)

lemma shrinks_lfail [shrinking]: "shrinks (lfail e)"
  by (simp add: shrinks_def lfail_def)

lemma shrinks_read_bytes [shrinking]: "shrinks (read_bytes n)"
  by (simp add: shrinks_def read_bytes_def)

lemma shrinks_lbind [shrinking]: "shrinks p \<Longrightarrow> (\<And>x. shrinks (f x)) \<Longrightarrow> shrinks (lbind p f)"
  by (auto simp: shrinks_def lbind_def split: prod.split sum.split) (metis le_trans snd_conv)+

lemma shrinks_lmap [shrinking]: "shrinks p \<Longrightarrow> shrinks (lmap f p)"
  by (auto simp: lmap_def intro: shrinking)

lemma shrinks_lread_elems [shrinking]: "shrinks p \<Longrightarrow> shrinks (lread_elems p n)"
  by (induction n) (auto intro!: shrinking)

lemma shrinks_if [shrinking]: "shrinks p \<Longrightarrow> shrinks q \<Longrightarrow> shrinks (if b then p else q)"
  by simp

lemma shrinks_checked [shrinking]:
  "(\<And>n. shrinks (f n)) \<Longrightarrow> shrinks (case checkedLength n k of Inl e \<Rightarrow> lfail e | Inr len \<Rightarrow> f len)"
  by (auto simp: checkedLength_def intro!: shrinking)

lemma shrinks_lread [shrinking]: "shrinks (lread n)" "shrinks lread_bool"
  by (auto simp: lread_def lread_bool_def intro!: shrinking)

lemma shrinks_readString [shrinking]: "shrinks readString"
  unfolding readString_def by (intro shrinking)

lemma shrinks_readArrayData [shrinking]: "shrinks el \<Longrightarrow> shrinks (readArrayData el con n)"
  unfolding readArrayData_def by (intro shrinking)

lemma shrinks_readArray [shrinking]: "shrinks readArray"
  unfolding readArray_def readArrayString_def by (intro shrinking)

lemma shrinks_records [shrinking]: "shrinks File_readKeyValue" "shrinks File_readTensor"
  unfolding File_readKeyValue_def File_readTensor_def lazy_value_def by (intro shrinking)+

lemma shrinks_read_upto: "shrinks rd \<Longrightarrow> read_upto rd n s = (xs, ok, r) \<Longrightarrow> length r \<le> length s"
proof (induction n arbitrary: s xs)
  case (Suc n)
  then show ?case
    by (auto split: prod.splits sum.splits dest!: shrinksD) (metis le_trans shrinksD)+
qed simp

lemma Open_rest: "Open file = Inr f \<Longrightarrow> length (f_rest f) \<le> length file"
  by (erule Open_fresh) (metis le_trans shrinksD shrinks_lread(1) shrinks_read_bytes)

lemma align_offset_nonneg: "align_offset off v = Some x \<Longrightarrow> 0 \<le> off \<Longrightarrow> 0 \<le> x"
  by (auto simp: align_offset_def Let_def smod_nonneg split: if_splits) (simp_all add: smod_int_alt_def)

lemma base_nonneg:
  assumes "Open file = Inr f"
  shows "0 \<le> v_base (whole_header f)" and "v_size (whole_header f) = length file"
proof -
  obtain kvs okv r where r: "read_upto File_readKeyValue (unat (lz_count (keyValues f))) (f_rest f) = (kvs, okv, r)"
    by (cases "read_upto File_readKeyValue (unat (lz_count (keyValues f))) (f_rest f)") auto
  obtain ts ok r' where r': "read_upto File_readTensor (unat (lz_count (tensors f))) r = (ts, ok, r')"
    by (cases "read_upto File_readTensor (unat (lz_count (tensors f))) r") auto
  have sz: "f_size f = length file" using assms by (rule Open_fresh)
  then show "v_size (whole_header f) = length file" by (simp add: whole_header_def r r')
  have "length r' \<le> length file"
    using shrinks_read_upto [OF shrinks_records(1) r] shrinks_read_upto [OF shrinks_records(2) r'] Open_rest [OF assms]
    by linarith
  then show "0 \<le> v_base (whole_header f)"
    by (auto simp: whole_header_def r r' base_of_def sz split: option.split dest: align_offset_nonneg)
qed

section \<open>Agreement with the decoder\<close>

text \<open>A lazy reader follows a reader of the decoder if it returns the same value and goes on at the same place
  wherever that one succeeds with a value within the limits.\<close>

definition follows :: "('a \<Rightarrow> bool) \<Rightarrow> ('a \<Rightarrow> 'b) \<Rightarrow> 'a reader \<Rightarrow> 'b lreader \<Rightarrow> bool" where
  "follows bd h p q \<longleftrightarrow> (\<forall>s x s'. p s = Inr (x, s') \<longrightarrow> bd x \<longrightarrow> q s = (Inr (h x), s'))"

lemma followsI: "(\<And>s x s'. p s = Inr (x, s') \<Longrightarrow> bd x \<Longrightarrow> q s = (Inr (h x), s')) \<Longrightarrow> follows bd h p q"
  by (simp add: follows_def)

lemma followsD: "follows bd h p q \<Longrightarrow> p s = Inr (x, s') \<Longrightarrow> bd x \<Longrightarrow> q s = (Inr (h x), s')"
  by (simp add: follows_def)

lemma rbind_InrE:
  assumes "rbind p f s = Inr (y, s')"
  obtains x s1 where "p s = Inr (x, s1)" "f x s1 = Inr (y, s')"
  using assms by (auto simp: rbind_def split: sum.splits)

lemma rmap_InrE:
  assumes "rmap h p s = Inr (y, s')"
  obtains x where "p s = Inr (x, s')" "y = h x"
  using assms unfolding rmap_def by (auto elim!: rbind_InrE)

lemma lbind_step: "p s = (Inr x, s') \<Longrightarrow> lbind p f s = f x s'"
  by (simp add: lbind_def)

lemma lmap_step: "p s = (Inr x, s') \<Longrightarrow> lmap h p s = (Inr (h x), s')"
  by (simp add: lmap_def lbind_def lreturn_def)

lemma ReadFull_InrD: "ReadFull n s = Inr (x, s') \<Longrightarrow> read_bytes n s = (Inr x, s') \<and> length x = n"
  by (auto simp: ReadFull_def read_bytes_def split: if_splits)

lemma list_all_True [simp]: "list_all (\<lambda>_. True) xs"
  by (simp add: list_all_iff)

lemma follows_number: "follows (\<lambda>_. True) id (readGGUF n LittleEndian) (lread n)"
  by (rule followsI) (auto simp: readGGUF_def lread_def order_nat_def lmap_step elim!: rmap_InrE dest!: ReadFull_InrD)

lemma follows_bool: "follows (\<lambda>_. True) id (readBool LittleEndian) lread_bool"
  by (rule followsI) (auto simp: readBool_def lread_bool_def lmap_step elim!: rmap_InrE dest!: ReadFull_InrD)

lemmas number_step = followsD [OF follows_number _ TrueI, unfolded id_apply]

lemma int_of_nonneg: "\<not> int_of n < 0 \<Longrightarrow> nat (int_of n) = unat n \<and> unat n \<le> 2 ^ 63 - 1"
  using unsigned_less [of n] by (auto simp: int_of_def split: if_splits)

lemma follows_string:
  assumes "v \<noteq> 1"
  shows "follows (\<lambda>x. length x \<le> MaxStringLength) id (readGGUFString v LittleEndian) readString"
proof (rule followsI)
  fix s x s' assume p: "readGGUFString v LittleEndian s = Inr (x, s')" and bd: "length x \<le> MaxStringLength"
  obtain n :: "64 word" and s1 where n: "readGGUF 8 LittleEndian s = Inr (n, s1)"
    and r: "(if int_of n < 0 then rfail Panic else ReadFull (nat (int_of n))) s1 = Inr (x, s')"
    using p assms unfolding readGGUFString_def by (auto elim!: rbind_InrE)
  have nn: "\<not> int_of n < 0" using r by (auto simp: rfail_def split: if_splits)
  note u = int_of_nonneg [OF nn]
  have b: "read_bytes (unat n) s1 = (Inr x, s')" "length x = unat n" using r nn ReadFull_InrD u by auto
  have "checkedLength n MaxStringLength = Inr (unat n)" using u b(2) bd by (simp add: checkedLength_def)
  then show "readString s = (Inr (id x), s')"
    unfolding readString_def using number_step [OF n] b(1) by (simp add: lbind_step)
qed

lemma follows_elems:
  assumes "follows bd h p q"
  shows "follows (list_all bd) (map h) (read_elems p n) (lread_elems q n)"
proof (induction n)
  case 0
  then show ?case by (auto simp: follows_def lreturn_def)
next
  case (Suc n)
  show ?case
  proof (rule followsI)
    fix s xs s' assume "read_elems p (Suc n) s = Inr (xs, s')" and bd: "list_all bd xs"
    then obtain x s1 ys where x: "p s = Inr (x, s1)" and ys: "read_elems p n s1 = Inr (ys, s')" "xs = x # ys"
      by (auto elim!: rbind_InrE rmap_InrE)
    show "lread_elems q (Suc n) s = (Inr (map h xs), s')"
      using bd followsD [OF assms x] followsD [OF Suc.IH ys(1)] ys(2) by (simp add: lbind_step lmap_step)
  qed
qed

lemma read_elems_length: "read_elems p n s = Inr (xs, s') \<Longrightarrow> length xs = n"
  by (induction n arbitrary: s xs) (auto elim!: rbind_InrE rmap_InrE)

lemma array_step:
  assumes "readGGUFArrayData p con (int_of n) True s = Inr (v, s')" and "follows bd id p q" and "\<not> int_of n < 0"
    and "\<And>xs. v = con (go_slice xs) \<Longrightarrow> list_all bd xs \<and> length xs \<le> MaxArraySize"
  shows "readArrayData q con n s = (Inr v, s')"
proof -
  obtain xs where xs: "read_elems p (nat (int_of n)) s = Inr (xs, s')" "v = con (Array (int_of n) (Some xs))"
    using assms(1) by (auto simp: readGGUFArrayData_def elim!: rmap_InrE)
  note u = int_of_nonneg [OF assms(3)]
  have len: "length xs = unat n" using read_elems_length [OF xs(1)] u by simp
  then have "int (length xs) = int_of n" using assms(3) u by linarith
  then have v: "v = con (go_slice xs)" using xs(2) by (simp add: go_slice_def)
  note bd = assms(4) [OF v]
  have "lread_elems q (unat n) s = (Inr xs, s')"
    using followsD [OF follows_elems [OF assms(2)] xs(1)] bd u by simp
  moreover have "checkedLength n MaxArraySize = Inr (unat n)" using u bd len by (simp add: checkedLength_def)
  ultimately show ?thesis by (simp add: readArrayData_def lmap_step v)
qed

fun within_limits :: "value \<Rightarrow> bool" where
  "within_limits (String s) \<longleftrightarrow> length s \<le> MaxStringLength"
| "within_limits (Strings a) \<longleftrightarrow> length (values_of a) \<le> MaxArraySize \<and>
     list_all (\<lambda>s. length s \<le> MaxStringLength) (values_of a)"
| "within_limits (Uint8s a) \<longleftrightarrow> length (values_of a) \<le> MaxArraySize"
| "within_limits (Int8s a) \<longleftrightarrow> length (values_of a) \<le> MaxArraySize"
| "within_limits (Uint16s a) \<longleftrightarrow> length (values_of a) \<le> MaxArraySize"
| "within_limits (Int16s a) \<longleftrightarrow> length (values_of a) \<le> MaxArraySize"
| "within_limits (Uint32s a) \<longleftrightarrow> length (values_of a) \<le> MaxArraySize"
| "within_limits (Int32s a) \<longleftrightarrow> length (values_of a) \<le> MaxArraySize"
| "within_limits (Uint64s a) \<longleftrightarrow> length (values_of a) \<le> MaxArraySize"
| "within_limits (Int64s a) \<longleftrightarrow> length (values_of a) \<le> MaxArraySize"
| "within_limits (Float32s a) \<longleftrightarrow> length (values_of a) \<le> MaxArraySize"
| "within_limits (Float64s a) \<longleftrightarrow> length (values_of a) \<le> MaxArraySize"
| "within_limits (Bools a) \<longleftrightarrow> length (values_of a) \<le> MaxArraySize"
| "within_limits _ \<longleftrightarrow> True"

lemma values_of_go_slice [simp]: "values_of (go_slice xs) = xs"
  by (simp add: values_of_def go_slice_def)

text \<open>Little-endian files of version 2 or later, whose arrays the decoder keeps.\<close>

definition plain :: "containerGGUF \<Rightarrow> bool" where
  "plain c \<longleftrightarrow> byteOrder c = LittleEndian \<and> Version c \<noteq> 1 \<and> maxArraySize c = -1"

lemmas number_array_step = array_step [OF _ follows_number]
lemmas bool_array_step = array_step [OF _ follows_bool]

lemma array_value_step:
  assumes "readGGUFArray c s = Inr (v, s')" and "plain c" and "within_limits v"
  shows "readArray s = (Inr v, s')"
proof -
  have bo: "byteOrder c = LittleEndian" "Version c \<noteq> 1" "maxArraySize c = -1" using assms(2) by (simp_all add: plain_def)
  from assms(1) [unfolded readGGUFArray_def bo] show ?thesis
  proof (elim rbind_InrE, goal_cases)
    case (1 t s1 n s2)
    then have nn: "\<not> int_of n < 0" by (auto simp: Let_def rfail_def newArray_def split: if_splits)
    have "readArrayData readString Strings n s2 = (Inr v, s')"
      if "readGGUFStringsData c (int_of n) True s2 = Inr (v, s')"
      using that assms(3) unfolding readGGUFStringsData_def bo(1)
      by (intro array_step [OF _ follows_string [OF bo(2)] nn]) auto
    with 1(3) nn assms(3) number_step [OF 1(1)] number_step [OF 1(2)] show ?case
      unfolding readArray_def readArrayString_def
      by (auto simp: lbind_step Let_def rfail_def newArray_def split: if_splits
          intro!: number_array_step [OF _ nn] bool_array_step [OF _ nn])
  qed
qed

lemma number_map_step:
  "rmap con (readGGUF k LittleEndian) s = Inr (v, s') \<Longrightarrow> lmap con (lread k) s = (Inr v, s')"
  by (auto elim!: rmap_InrE dest!: number_step simp: lmap_step)

lemma value_step:
  assumes "readValue c t s = Inr (v, s')" and "plain c" and "within_limits v"
  shows "lazy_value t s = (Inr v, s')"
proof -
  have bo: "byteOrder c = LittleEndian" "Version c \<noteq> 1" using assms(2) by (simp_all add: plain_def)
  have b: "lmap Bool lread_bool s = (Inr v, s')" if "rmap Bool (readBool LittleEndian) s = Inr (v, s')"
    using that by (auto elim!: rmap_InrE dest!: followsD [OF follows_bool _ TrueI] simp: lmap_step)
  have st: "lmap String readString s = (Inr v, s')" if "rmap String (readGGUFString (Version c) LittleEndian) s = Inr (v, s')"
    using that assms(3) by (auto elim!: rmap_InrE dest!: followsD [OF follows_string [OF bo(2)]] simp: lmap_step)
  have a: "readArray s = (Inr v, s')" if "readGGUFArray c s = Inr (v, s')"
    using array_value_step [OF that assms(2,3)] .
  from assms(1) b st a show ?thesis
    unfolding readValue_def lazy_value_def bo Let_def
    by (auto simp: rfail_def intro!: number_map_step split: if_splits)
qed

abbreviation entry :: "string \<times> value \<Rightarrow> KeyValue" where
  "entry p \<equiv> \<lparr>kv_Key = fst p, kv_Value = Some (snd p)\<rparr>"

abbreviation info :: "Tensor \<Rightarrow> TensorInfo" where
  "info t \<equiv> \<lparr>ti_Name = Tensor_Name t, ti_Offset = Offset t, ti_Shape = Shape t, ti_Type = Kind t\<rparr>"

lemma follows_kv:
  assumes "plain c"
  shows "follows (\<lambda>p. length (fst p) \<le> MaxStringLength \<and> within_limits (snd p)) entry (readKV c) File_readKeyValue"
proof (rule followsI)
  fix s p s' assume r: "readKV c s = Inr (p, s')" and bd: "length (fst p) \<le> MaxStringLength \<and> within_limits (snd p)"
  have bo: "byteOrder c = LittleEndian" "Version c \<noteq> 1" using assms by (simp_all add: plain_def)
  from r bd show "File_readKeyValue s = (Inr (entry p), s')"
    unfolding readKV_def File_readKeyValue_def bo
    by (auto elim!: rbind_InrE rmap_InrE
        dest!: followsD [OF follows_string [OF bo(2)]] number_step value_step [OF _ assms]
        simp: lbind_step lmap_step)
qed

lemma follows_tensor:
  assumes "plain c"
  shows "follows (\<lambda>t. length (Tensor_Name t) \<le> MaxStringLength \<and> length (Shape t) \<le> MaxTensorDims) info
    (readTensor c) File_readTensor"
proof (rule followsI)
  fix s t s' assume r: "readTensor c s = Inr (t, s')"
    and bd: "length (Tensor_Name t) \<le> MaxStringLength \<and> length (Shape t) \<le> MaxTensorDims"
  have bo: "byteOrder c = LittleEndian" "Version c \<noteq> 1" using assms by (simp_all add: plain_def)
  from r [unfolded readTensor_def bo] show "File_readTensor s = (Inr (info t), s')"
  proof (elim rbind_InrE rmap_InrE, goal_cases)
    case (1 name s1 dims s2 shape s3 kind s4 offset)
    have "readString s = (Inr name, s1)"
      using followsD [OF follows_string [OF bo(2)] 1(1)] bd 1(6) by simp
    moreover have "lread_elems (lread 8) (unat dims) s2 = (Inr shape, s3)"
      using followsD [OF follows_elems [OF follows_number] 1(3)] by (simp add: list_all_iff)
    moreover have "unat dims \<le> MaxTensorDims" using bd 1(6) read_elems_length [OF 1(3)] by simp
    ultimately show ?case
      using number_step [OF 1(2)] number_step [OF 1(4)] number_step [OF 1(5)] 1(6)
      by (simp add: File_readTensor_def lbind_step lmap_step)
  qed
qed

lemma follows_upto:
  assumes "follows bd h p q" "read_elems p n s = Inr (xs, s')" "list_all bd xs"
  shows "read_upto q n s = (map h xs, True, s')"
  using assms(2,3)
proof (induction n arbitrary: s xs)
  case (Suc n)
  then obtain x s1 ys where x: "p s = Inr (x, s1)" and ys: "read_elems p n s1 = Inr (ys, s')" "xs = x # ys"
    by (auto elim!: rbind_InrE rmap_InrE)
  show ?case using Suc.IH [OF ys(1)] Suc.prems(2) ys(2) followsD [OF assms(1) x] by simp
qed simp

lemma first_key_entries: "kv_Value (first_key k (map entry kvs)) = map_of kvs k"
  by (induction kvs) (auto simp: first_key_def split: option.splits)

text \<open>A file that both readers accept: the decoder goes on where the lazy reader has opened the file.\<close>

lemma decode_opened:
  assumes "Open file = Inr f" "f_Magic f = ''GGUF''" "ggml_Decode file mx = Inr g"
  shows "gguf_Decode \<lparr>byteOrder = LittleEndian, Version = f_Version f, NumTensor = lz_count (tensors f),
      NumKV = lz_count (keyValues f), maxArraySize = mx\<rparr> (length file) (f_rest f) = Inr g"
    and "f_Version f \<noteq> 1"
proof -
  obtain nk nt s1 s2 s3 where o: "keyValues f = newLazy nk" "tensors f = newLazy nt"
    "read_bytes 4 file = (Inr ''GGUF'', s1)" "lread 4 s1 = (Inr (f_Version f), s2)" "lread 8 s2 = (Inr nt, s3)"
    "lread 8 s3 = (Inr nk, f_rest f)" "2 \<le> f_Version f"
    using Open_fresh [OF assms(1)] assms(2) by metis
  show v: "f_Version f \<noteq> 1" using o(7) by (auto simp: word_le_nat_alt)
  have fl: "file = ''GGUF'' @ s1" 
  proof -
    have "take 4 file = ''GGUF''" "drop 4 file = s1" using o(3) by (simp_all add: read_bytes_def split: if_splits)
    then show ?thesis by (metis append_take_drop_id)
  qed
  have "container_Decode LittleEndian mx (length file) s1 = Inr g"
    using assms(3) read_magic [of s1] by (simp add: ggml_Decode_def fl)
  then show "gguf_Decode \<lparr>byteOrder = LittleEndian, Version = f_Version f, NumTensor = lz_count (tensors f),
      NumKV = lz_count (keyValues f), maxArraySize = mx\<rparr> (length file) (f_rest f) = Inr g"
    unfolding container_Decode_def using v o
    by (auto split: sum.splits prod.splits if_splits elim!: rbind_InrE rmap_InrE dest!: number_step simp: newLazy_def)
qed

lemma length_fold_addKV: "length (addKV p (fold addKV kvs [])) = card (insert (fst p) (fst ` set kvs))"
proof -
  have d: "distinct (map fst (fold addKV kvs m))" if "distinct (map fst m)" for m
    using that by (induction kvs arbitrary: m) (simp_all add: addKV_def distinct_update)
  have s: "fst ` set (fold addKV kvs m) = fst ` set m \<union> fst ` set kvs" for m
    by (induction kvs arbitrary: m) (auto simp: addKV_def dom_update)
  have "distinct (map fst (addKV p (fold addKV kvs [])))" using d [of "[]"] by (simp add: addKV_def distinct_update)
  then have "length (addKV p (fold addKV kvs [])) = card (fst ` set (addKV p (fold addKV kvs [])))"
    by (metis distinct_card length_map list.set_map)
  also have "fst ` set (addKV p (fold addKV kvs [])) = insert (fst p) (fst ` set kvs)"
    using s [of "[]"] by (simp add: addKV_def dom_update)
  finally show ?thesis .
qed

lemma distinct_of_length:
  assumes "length kvs < length (addKV p (fold addKV kvs []))"
  shows "distinct (map fst kvs)" and "fst p \<notin> fst ` set kvs"
proof -
  have c: "length kvs < card (insert (fst p) (fst ` set kvs))" using assms by (simp add: length_fold_addKV)
  have l: "card (fst ` set kvs) \<le> length kvs" by (metis card_length length_map list.set_map)
  show n: "fst p \<notin> fst ` set kvs" using c l by (metis insert_absorb not_le)
  then have "card (set (map fst kvs)) = length (map fst kvs)" using c l by simp
  then show "distinct (map fst kvs)" by (rule card_distinct)
qed

text \<open>What both readers make of a file, when the decoder accepts it and it stays within the limits.\<close>

lemma agreed_header:
  assumes "ggml_Decode file (-1) = Inr g" and "Open file = Inr f" and "f_Magic f = ''GGUF''"
    and "unat (lz_count (keyValues f)) < length (gg_kv g)"
    and "\<forall>k v. map_of (gg_kv g) k = Some v \<longrightarrow> length k \<le> MaxStringLength \<and> within_limits v"
    and "list_all (\<lambda>t. length (Tensor_Name t) \<le> MaxStringLength \<and> length (Shape t) \<le> MaxTensorDims) (gg_tensors g)"
    and "length file < max_len"
  obtains kvs where "v_kvs (whole_header f) = map entry kvs" "v_tensors (whole_header f) = map info (gg_tensors g)"
    "\<forall>k. k \<noteq> ''general.parameter_count'' \<longrightarrow> map_of (gg_kv g) k = map_of kvs k"
    "map_of (gg_kv g) ''general.alignment'' = None \<longrightarrow> v_base (whole_header f) = int (unat (tensorOffset g))"
    "length (gg_tensors g) = unat (lz_count (tensors f))"
proof -
  define c where "c = \<lparr>byteOrder = LittleEndian, Version = f_Version f, NumTensor = lz_count (tensors f),
    NumKV = lz_count (keyValues f), maxArraySize = -1\<rparr>"
  have dec: "gguf_Decode c (length file) (f_rest f) = Inr g" and "plain c"
    using decode_opened [OF assms(2,3,1)] by (simp_all add: c_def plain_def)
  let ?par = "''general.parameter_count''"
  from dec obtain kvs r1 r2 pad where kvs: "read_elems (readKV c) (unat (NumKV c)) (f_rest f) = Inr (kvs, r1)"
    and ts: "read_elems (readTensor c) (unat (NumTensor c)) r1 = Inr (gg_tensors g, r2)"
    and kv: "gg_kv g = addKV (?par, Uint64 (gg_parameters g)) (fold addKV kvs [])"
    and pad: "ggufPadding (int (length file) - int (length r2)) (int (unat (KV_Uint (gg_kv g) ''general.alignment'' 32))) = Some pad"
    and off: "tensorOffset g = word_of_int (int (length file) - int (length r2) + pad)"
    unfolding gguf_Decode_def Let_def by (auto split: sum.splits prod.splits option.splits)
  have len: "length kvs = unat (lz_count (keyValues f))" "length (gg_tensors g) = unat (lz_count (tensors f))"
    using read_elems_length [OF kvs] read_elems_length [OF ts] by (simp_all add: c_def)
  have dk: "distinct (map fst kvs)" and par: "?par \<notin> fst ` set kvs"
    using distinct_of_length [of kvs "(?par, Uint64 (gg_parameters g))"] assms(4) len(1) by (simp_all add: kv)
  have mp: "map_of (gg_kv g) = (map_of kvs)(?par \<mapsto> Uint64 (gg_parameters g))"
    using map_of_fold_addKV [OF dk, of "[]"] by (simp add: kv map_of_addKV)
  have lk: "list_all (\<lambda>p. length (fst p) \<le> MaxStringLength \<and> within_limits (snd p)) kvs"
    unfolding list_all_iff
  proof
    fix q assume q: "q \<in> set kvs"
    then have "map_of kvs (fst q) = Some (snd q)" "fst q \<noteq> ?par"
      using dk par by (simp_all add: map_of_is_SomeI, metis image_eqI)
    then have "map_of (gg_kv g) (fst q) = Some (snd q)" using mp by simp
    then show "length (fst q) \<le> MaxStringLength \<and> within_limits (snd q)" using assms(5) by blast
  qed
  have sz: "f_size f = length file" using assms(2) by (rule Open_fresh)
  note u = follows_upto [OF follows_kv [OF \<open>plain c\<close>] kvs lk] follows_upto [OF follows_tensor [OF \<open>plain c\<close>] ts assms(6)]
  have w: "whole_header f = \<lparr>v_kvs = map entry kvs, v_tensors = map info (gg_tensors g),
      v_base = base_of (length file) (map entry kvs) True r2, v_NumKV = NumKeyValues f, v_NumTensors = NumTensors f,
      v_size = length file\<rparr>"
    using u sz by (simp add: whole_header_def c_def)
  show thesis
  proof (rule that; (intro impI)?)
    show "\<forall>k. k \<noteq> ?par \<longrightarrow> map_of (gg_kv g) k = map_of kvs k" using mp by simp
    assume a: "map_of (gg_kv g) ''general.alignment'' = None"
    then have none: "map_of kvs ''general.alignment'' = None" using mp by (simp split: if_splits)
    have al: "KV_Uint (gg_kv g) ''general.alignment'' 32 = 32" using a by (simp add: KV_Uint_def keyValue_def typed_def)
    then have b: "v_base (whole_header f) = int (length file) - int (length r2) + pad"
      using pad none by (simp add: w base_of_def align_offset_def first_key_entries ggufPadding_def)
    have r: "length r2 \<le> length file"
      using shrinks_read_upto [OF shrinks_records(1) u(1)] shrinks_read_upto [OF shrinks_records(2) u(2)]
        Open_rest [OF assms(2)] by linarith
    then have "0 \<le> pad \<and> pad < 32"
      using pad al ggufPadding_nonneg [of "int (length file) - int (length r2)" 32] by auto
    then have "0 \<le> v_base (whole_header f)" "v_base (whole_header f) < 2 ^ 64" using b r assms(7) by auto
    then show "v_base (whole_header f) = int (unat (tensorOffset g))"
      unfolding off b [symmetric] by (simp add: unsigned_of_int uint_word_of_int take_bit_int_eq_self)
  qed (use w len in simp_all)
qed

section \<open>Properties of the lazy reader\<close>

abbreviation after :: "query list \<Rightarrow> File \<Rightarrow> File" where
  "after \<equiv> fold (\<lambda>q f. snd (ask q f))"

text \<open>C19: laziness is invisible: after any sequence of queries on an opened file, a query is answered as if
  all key values and tensor records had been read, in order, when the file was opened.\<close>

theorem lazy_reading_invisible:
  assumes "Open file = Inr f"
  shows "fst (ask q (after qs f)) = lookup (whole_header f) q"
  using lazy_file.answer [OF fresh_ok(1) [OF assms], of q qs] fresh_ok(2) [OF assms] by simp

lemma section_of_Inr:
  assumes "section_of t base sz = Inr (t', off, n)"
  shows "t' = t" "off = base + int (unat (ti_Offset t))" "n = NumBytes t" "n \<le> int sz - off"
  using assms unfolding section_of_def Let_def by (simp_all split: if_splits) auto

lemma TensorReader_answer:
  assumes "Open file = Inr f" and "fst (TensorReader name (after qs f)) = Inr (t, off, n)"
  shows "ti_Name t \<noteq> []" "t = first_tensor name (v_tensors (whole_header f))"
    "section_of t (v_base (whole_header f)) (length file) = Inr (t, off, n)"
proof -
  define u where "u = first_tensor name (v_tensors (whole_header f))"
  have "fst (ask (AskTensorReader name) (after qs f)) = lookup (view_of f) (AskTensorReader name)"
    by (rule lazy_file.answer [OF fresh_ok(1) [OF assms(1)]])
  then have "(if ti_Name u = [] \<or> NumBytes u = 0 then Inl TensorNotFound
      else section_of u (v_base (whole_header f)) (length file)) = Inr (t, off, n)"
    using assms(2) by (simp add: fresh_ok(2) [OF assms(1)] base_nonneg(2) [OF assms(1)] u_def Let_def)
  then have "ti_Name u \<noteq> []" "section_of u (v_base (whole_header f)) (length file) = Inr (t, off, n)"
    by (simp_all split: if_splits)
  moreover from this(2) have "t = u" by (rule section_of_Inr)
  ultimately show "ti_Name t \<noteq> []" "t = first_tensor name (v_tensors (whole_header f))"
    "section_of t (v_base (whole_header f)) (length file) = Inr (t, off, n)"
    by (simp_all add: u_def)
qed



abbreviation common_types :: "TensorType list" where
  "common_types \<equiv> [0, 1, 2, 3, 4, 5, 6, 7, 8, 9, 10, 11, 12, 13, 14, 15, 16, 17, 18, 19, 20, 21, 22, 23, 24, 25, 26, 27, 28, 29, 30]"

lemma known_types:
  "list_all (\<lambda>k. lazy_typeSize k = int (unat (TypeSize k)) \<and> lazy_blockSize k = int (unat (BlockSize k)))
     common_types"
  by (simp add: lazy_typeSize_def TypeSize_def switch_def lazy_blockSize_def BlockSize_def)

lemma unknown_types:
  assumes "k \<notin> set common_types" "k \<notin> {TensorTypeMXFP4, TensorTypeNVFP4, TensorTypeQ1_0}"
  shows "lazy_typeSize k = 0" "TypeSize k = 0" "lazy_blockSize k = int (unat (BlockSize k))"
  using assms
  by (simp_all add: lazy_typeSize_def TypeSize_def switch_def Let_def lazy_blockSize_def BlockSize_def)

lemma sdiv_of_nat: "int a sdiv int b = int (a div b)"
  by (cases "a = 0"; cases "b = 0") (simp_all add: signed_divide_int_def zdiv_int)

text \<open>Both packages compute the same size in bytes for a tensor of a type they both know, when the number
  of its elements times the size of a block is below 2 to the 53, where floating point is exact.\<close>

theorem tensor_sizes_agree:
  assumes "Kind t \<notin> {TensorTypeMXFP4, TensorTypeNVFP4, TensorTypeQ1_0}"
    and "prod_list (map unat (Shape t)) * unat (typeSize t) < 2 ^ 53"
    and "prod_list (map unat (Shape t)) < 2 ^ 53"
  shows "NumBytes (info t) = int (unat (Tensor_Size t))"
proof -
  have "lazy_typeSize (Kind t) = int (unat (TypeSize (Kind t))) \<and> lazy_blockSize (Kind t) = int (unat (BlockSize (Kind t)))"
  proof (cases "Kind t \<in> set common_types")
    case True
    then show ?thesis using known_types unfolding list_all_iff by blast
  next
    case False
    then show ?thesis using unknown_types assms(1) by simp
  qed
  then have bs: "lazy_blockSize (Kind t) = int (unat (blockSize t))" and ts: "lazy_typeSize (Kind t) = int (unat (typeSize t))"
    by (simp_all add: blockSize_def typeSize_def)
  have e: "unat (Elements t) = prod_list (map unat (Shape t))"
    using assms(3) by (simp add: Elements_prod)
  have nv: "NumValues (info t) = int (unat (Elements t))"
    using e assms(3) by (simp add: NumValues_def Elements_def int_of_def)
  have exact: "float64_of (int k) = int k" if "k < 2 ^ 53" for k
    using that by (cases "k = 0") (simp_all add: float64_of_def round53_def)
  define p where "p = unat (Elements t) * unat (typeSize t)"
  have p: "p < 2 ^ 53" using assms(2) e by (simp add: p_def)
  have "float64_of (float64_of (NumValues (info t)) * lazy_typeSize (Kind t)) = int p"
    using exact [of "unat (Elements t)"] exact [OF p] assms(3) e nv ts by (simp add: p_def)
  moreover have "int p sdiv int (unat (blockSize t)) = int (p div unat (blockSize t))"
    by (rule sdiv_of_nat)
  moreover have "unat (Tensor_Size t) = p div unat (blockSize t)"
    using p unat_mult_lem [of "Elements t" "typeSize t"] by (simp add: Tensor_Size_def unat_div_word p_def)
  moreover have "p div b < 2 ^ 63" for b by (rule le_less_trans [OF div_le_dividend]) (use p in simp)
  moreover have "lazy_blockSize (ti_Type (info t)) = int (unat (blockSize t))" using bs by simp
  ultimately show ?thesis unfolding NumBytes_def Let_def by (simp only: TensorInfo.simps) simp
qed

section \<open>A concrete file\<close>

lemma Open_GGUF:
  "Open (''GGUF'' @ put32 3 @ put64 nt @ put64 nk @ s) =
     Inr \<lparr>f_Magic = ''GGUF'', f_Version = 3, keyValues = newLazy nk, tensors = newLazy nt, f_offset = 0, f_rest = s,
       f_size = 24 + length s\<rparr>"
proof -
  have l: "lread 4 (put32 x @ r) = (Inr x, r)" "lread 8 (put64 y @ r) = (Inr y, r)" for x y r
    using number_step [OF u32.read_write] number_step [OF u64.read_write] by simp_all
  have "read_bytes 4 (''GGUF'' @ r) = (Inr ''GGUF'', r)" for r by (simp add: read_bytes_def)
  moreover have "length (put32 x) = 4" "length (put64 y) = 8" for x y by (simp_all add: put32_def put64_def)
  ultimately show ?thesis unfolding Open_def by (simp add: lbind_step l word_less_nat_alt)
qed

abbreviation sample_file :: "written \<Rightarrow> string" where
  "sample_file w \<equiv> header w @ replicate 100 (CHR 0x00)"

lemma sample_opened:
  obtains w g f where "WriteGGUF sample_meta [sample_tensor] = Inr w" "ggml_Decode (sample_file w) (-1) = Inr g"
    "gg_tensors g = [sample_tensor]" "int (unat (tensorOffset g)) = 128" "length (header w) = 112"
    "Open (sample_file w) = Inr f" "f_Magic f = ''GGUF''" "unat (lz_count (keyValues f)) < length (gg_kv g)"
    "map_of (gg_kv g) = [''general.architecture'' \<mapsto> String ''x'', ''general.parameter_count'' \<mapsto> Uint64 (gg_parameters g)]"
proof -
  obtain w where w: "WriteGGUF sample_meta [sample_tensor] = Inr w" "placed w = [sample_tensor]"
    "dataOffset w = 128" "length (header w) = 112"
    using sample_written by blast
  note fits = sample_fits [OF w(2-4)]
  have "distinct (map (\<lambda>p. qualified_key ''x'' (fst p)) sample_meta)" "length sample_meta < max_len"
    "''x'' \<noteq> ''general''" "length [sample_tensor] < max_len"
    by (simp_all add: sample_meta_def)
  from written_file_decodes [OF w(1) fits(1) this(3,1) fits(2,3) this(2,4) refl fits(4,5)]
  obtain g where g: "ggml_Decode (sample_file w) (-1) = Inr g" "gg_tensors g = [sample_tensor]"
    "int (unat (tensorOffset g)) = 128"
    and kv: "map_of (gg_kv g) = (map_of (map (qualify ''x'') sample_meta))(''general.parameter_count'' \<mapsto> Uint64 (gg_parameters g))"
    using w by auto
  obtain ps where "header w = ''GGUF'' @ put32 3 @ put64 (word_of_nat (length (placed w))) @
      put64 (word_of_nat (length sample_meta)) @ concat (map put_kv (map (qualify ''x'') ps)) @
      concat (map ggufWriteTensorInfo (placed w))"
    using WriteGGUF_parts [OF w(1) fits(1) refl] .
  then have "\<exists>s. sample_file w = ''GGUF'' @ put32 3 @ put64 (word_of_nat (length (placed w))) @ put64 (word_of_nat (length sample_meta)) @ s"
    by simp
  then obtain s where "sample_file w = ''GGUF'' @ put32 3 @ put64 (word_of_nat (length (placed w))) @
    put64 (word_of_nat (length sample_meta)) @ s" ..
  note Open_GGUF [of "word_of_nat (length (placed w))" "word_of_nat (length sample_meta)" s, folded this]
  then obtain f where f: "Open (sample_file w) = Inr f" "f_Magic f = ''GGUF''" "lz_count (keyValues f) = 1"
    by (simp add: newLazy_def sample_meta_def)
  have m: "map_of (gg_kv g) = [''general.architecture'' \<mapsto> String ''x'', ''general.parameter_count'' \<mapsto> Uint64 (gg_parameters g)]"
    by (simp add: kv sample_meta_def qualify_def qualified_key_def)
  then have "card (dom (map_of (gg_kv g))) = 2" by simp
  moreover have "card (dom (map_of (gg_kv g))) \<le> length (gg_kv g)"
    by (metis card_length dom_map_of_conv_image_fst length_map list.set_map)
  ultimately show thesis using that w(1,4) g f m by simp
qed

lemma sample_limits:
  assumes "map_of (gg_kv g) = [''general.architecture'' \<mapsto> String ''x'', ''general.parameter_count'' \<mapsto> Uint64 n]"
  shows "\<forall>k v. map_of (gg_kv g) k = Some v \<longrightarrow> length k \<le> MaxStringLength \<and> within_limits v"
  by (simp add: assms MaxStringLength_def)

lemma sample_info: "NumBytes (info sample_tensor) = 24"
proof -
  have "NumValues (info sample_tensor) = 6" "lazy_typeSize 0 = 4" "lazy_blockSize 0 = 1"
    by (simp_all add: NumValues_def sample_tensor_def int_of_def lazy_typeSize_def lazy_blockSize_def switch_def)
  moreover have "float64_of 6 = 6" "float64_of 24 = 24" by (simp_all add: float64_of_def round53_def)
  ultimately show ?thesis by (simp add: NumBytes_def sample_tensor_def signed_divide_int_def)
qed

lemma sample_section:
  assumes "int (unat (tensorOffset g)) = 128" "length (header w) = 112"
  shows "section_of (info sample_tensor) (int (unat (tensorOffset g))) (length (sample_file w)) =
    Inr (info sample_tensor, 128, 24)"
  unfolding section_of_def Let_def assms(1) sample_info by (simp add: assms(2) sample_tensor_def)

lemma sample_answer:
  obtains w f where "WriteGGUF sample_meta [sample_tensor] = Inr w" "Open (sample_file w) = Inr f"
    "length (header w) = 112" "lookup (whole_header f) (AskTensorReader ''blk.0.w'') = ATensorReader (Inr (info sample_tensor, 128, 24))"
proof -
  obtain w g f where o: "WriteGGUF sample_meta [sample_tensor] = Inr w" "ggml_Decode (sample_file w) (-1) = Inr g"
    "gg_tensors g = [sample_tensor]" "int (unat (tensorOffset g)) = 128" "length (header w) = 112"
    "Open (sample_file w) = Inr f" "f_Magic f = ''GGUF''" "unat (lz_count (keyValues f)) < length (gg_kv g)"
    "map_of (gg_kv g) = [''general.architecture'' \<mapsto> String ''x'', ''general.parameter_count'' \<mapsto> Uint64 (gg_parameters g)]"
    by (rule sample_opened)
  have "list_all (\<lambda>t. length (Tensor_Name t) \<le> MaxStringLength \<and> length (Shape t) \<le> MaxTensorDims) (gg_tensors g)"
    by (simp add: o(3) sample_tensor_def MaxStringLength_def MaxTensorDims_def)
  moreover have "length (sample_file w) < max_len" by (simp add: o(5))
  ultimately obtain kvs where "v_tensors (whole_header f) = map info (gg_tensors g)"
    "map_of (gg_kv g) ''general.alignment'' = None \<longrightarrow> v_base (whole_header f) = int (unat (tensorOffset g))"
    using agreed_header [OF o(2,6,7,8) sample_limits [OF o(9)]] by blast
  then have "v_tensors (whole_header f) = [info sample_tensor]" "v_base (whole_header f) = int (unat (tensorOffset g))"
    using o(3,9) by simp_all
  moreover have "ti_Name (info sample_tensor) = ''blk.0.w''" by (simp add: sample_tensor_def)
  ultimately have "lookup (whole_header f) (AskTensorReader ''blk.0.w'') = ATensorReader (Inr (info sample_tensor, 128, 24))"
    using sample_section [OF o(4,5)] base_nonneg(2) [OF o(6)] sample_info by (simp add: first_tensor_def Let_def)
  then show thesis using that o by blast
qed

theorem lazy_reading_invisible_witness:
  "\<exists>w f. WriteGGUF sample_meta [sample_tensor] = Inr w \<and> Open (sample_file w) = Inr f \<and>
    fst (ask (AskTensorReader ''blk.0.w'') (after [AskKeyValues 1, AskTensorInfo ''none''] f)) =
      ATensorReader (Inr (info sample_tensor, 128, 24))"
proof -
  obtain w f where o: "WriteGGUF sample_meta [sample_tensor] = Inr w" "Open (sample_file w) = Inr f"
    "lookup (whole_header f) (AskTensorReader ''blk.0.w'') = ATensorReader (Inr (info sample_tensor, 128, 24))"
    using sample_answer by blast
  show ?thesis
    using o lazy_reading_invisible [OF o(2), of "AskTensorReader ''blk.0.w''" "[AskKeyValues 1, AskTensorInfo ''none'']"]
    by (intro exI conjI) simp_all
qed



theorem tensor_sizes_agree_witness: "NumBytes (info sample_tensor) = int (unat (Tensor_Size sample_tensor))"
  by (rule tensor_sizes_agree)
    (simp_all add: sample_tensor_def typeSize_def TypeSize_def BlockSize_def switch_def)

section \<open>Where the two readers differ\<close>

text \<open>The alignment is only looked up as a signed integer, while it is written as an unsigned one: the lazy
  reader then takes the default.\<close>

lemma unsigned_alignment_ignored:
  "value_Int (Some (Uint32 a)) = 0" "align_offset off (value_Int (Some (Uint32 a))) = align_offset off 32"
  by (simp_all add: align_offset_def)

text \<open>A tensor of one of the newer types has no size here.\<close>

lemma new_types_have_no_size:
  assumes "ti_Type t \<in> {TensorTypeMXFP4, TensorTypeNVFP4, TensorTypeQ1_0}"
  shows "NumBytes t = 0"
proof -
  have "lazy_typeSize (ti_Type t) = 0" using assms by (auto simp: lazy_typeSize_def switch_def)
  then show ?thesis by (simp add: NumBytes_def float64_of_def round53_def)
qed

text \<open>When the tensor records are cut short, the place of the tensor data stays 0 and no error is reported: a
  tensor before the cut is read from the start of the file.\<close>

lemma cut_header_reads_from_start: "base_of n kvs False r = 0"
  by (simp add: base_of_def)

text \<open>Any file that does not start with the lower-case magic is taken for a GGUF file.\<close>

lemma other_magic_accepted:
  "\<exists>f. Open (''ZZZZ'' @ put32 3 @ put64 0 @ put64 0) = Inr f"
proof -
  have l: "lread 4 (put32 x @ r) = (Inr x, r)" "lread 8 (put64 y @ r) = (Inr y, r)" "lread 8 (put64 y) = (Inr y, [])" for x y r
    using number_step [OF u32.read_write] number_step [OF u64.read_write] number_step [OF u64.read_write, of _ "[]"]
    by simp_all
  have "read_bytes 4 (''ZZZZ'' @ r) = (Inr ''ZZZZ'', r)" for r by (simp add: read_bytes_def)
  then show ?thesis unfolding Open_def by (simp add: lbind_step l word_less_nat_alt)
qed

end
