(* ===== verification/Devices.thy ===== *)
theory Devices
  imports Go_Strconv "HOL-Library.AList" "HOL-Library.Char_ord" "HOL-Library.List_Lexorder"
begin

text \<open>
  GPU devices, after \<open>ml/device.go\<close>: memory sums, grouping, comparison across back ends, and the
  environment that restricts a runner to its devices. The operating system enters as parameters:
  whether it is Linux, and its environment variables.
\<close>

section \<open>Data\<close>

record DeviceID =
  ID :: string
  Library :: string

record GPULayers = DeviceID +
  Layers :: "int list"

record DeviceMemory = DeviceID +
  memName :: string
  Weights :: "64 word list"
  Cache :: "64 word list"
  Graph :: "64 word"

record DeviceInfo = DeviceID +
  devName :: string
  Description :: string
  FilterID :: string
  Integrated :: bool
  PCIID :: string
  TotalMemory :: "64 word"
  FreeMemory :: "64 word"
  ComputeMajor :: int
  ComputeMinor :: int
  DriverMajor :: int
  DriverMinor :: int
  LibraryPath :: "string list"
  RunnerEnvOverrides :: "(string \<times> string) list"

type_synonym env = "(string \<times> string) list"

section \<open>Layers and memory\<close>

definition FirstLayer :: "GPULayers \<Rightarrow> int" where
  "FirstLayer g = (case Layers g of [] \<Rightarrow> max_int
    | l # ls \<Rightarrow> fold (\<lambda>x first. if x < first then x else first) ls l)"

definition GPULayersList_Sum :: "GPULayers list \<Rightarrow> nat" where
  "GPULayersList_Sum l = fold (\<lambda>g sum. sum + length (Layers g)) l 0"

definition sumMemory :: "64 word list \<Rightarrow> 64 word" where
  "sumMemory mem = fold (\<lambda>m sum. sum + m) mem 0"

definition DeviceMemory_Size :: "DeviceMemory \<Rightarrow> 64 word" where
  "DeviceMemory_Size d = sumMemory (Weights d) + sumMemory (Cache d) + Graph d"

definition memoryPresent :: "64 word list \<Rightarrow> bool" where
  "memoryPresent mem \<longleftrightarrow> list_ex (\<lambda>m. m \<noteq> 0) mem"

definition MebiByte :: "64 word" where
  "MebiByte = 1024 * 1024"

definition MinimumMemory :: "DeviceInfo \<Rightarrow> 64 word" where
  "MinimumMemory d = (if Library d = ''Metal'' then 512 * MebiByte else 457 * MebiByte)"

definition Driver :: "DeviceInfo \<Rightarrow> string" where
  "Driver d = Itoa (DriverMajor d) @ ''.'' @ Itoa (DriverMinor d)"

text \<open>\<open>ByFreeMemory.Less\<close>.\<close>

definition less_free :: "DeviceInfo \<Rightarrow> DeviceInfo \<Rightarrow> bool" where
  "less_free a b =
     (if Integrated a \<and> \<not> Integrated b then True
      else if \<not> Integrated a \<and> Integrated b then False
      else FreeMemory a < FreeMemory b)"

section \<open>Grouping\<close>

text \<open>The inner loop of both grouping functions: the keys and the groups side by side.\<close>

fun place :: "'k \<Rightarrow> 'd \<Rightarrow> ('k \<times> 'd list) list \<Rightarrow> ('k \<times> 'd list) list" where
  "place k d [] = [(k, [d])]"
| "place k d ((k', g) # gs) = (if k' = k then (k', g @ [d]) # gs else (k', g) # place k d gs)"

definition ByPerformance :: "DeviceInfo list \<Rightarrow> DeviceInfo list list" where
  "ByPerformance l = map snd (fold (\<lambda>info. place (Integrated info) info) l [])"

definition ByLibrary :: "DeviceInfo list \<Rightarrow> DeviceInfo list list" where
  "ByLibrary l = map snd (fold (\<lambda>info. place (Library info) info) l [])"

definition LibraryPaths :: "string \<Rightarrow> DeviceInfo list \<Rightarrow> string list" where
  "LibraryPaths libYollama l =
     fold (\<lambda>gpu libs. fold (\<lambda>dir libs. if list_ex ((=) dir) libs then libs else libs @ [dir])
       (LibraryPath gpu) libs) l [libYollama]"

section \<open>Comparison\<close>

datatype DeviceComparison = UniqueDevice | SameBackendDevice | DuplicateDevice

fun normalize_scan :: "nat \<Rightarrow> string \<Rightarrow> string" where
  "normalize_scan depth [] = []"
| "normalize_scan depth (c # cs) =
     (if c = CHR ''('' then normalize_scan (depth + 1) cs
      else if c = CHR '')'' then normalize_scan (depth - 1) cs
      else if depth > 0 then normalize_scan depth cs
      else if in_range 97 122 (byte c) \<or> in_range 48 57 (byte c) then c # normalize_scan depth cs
      else CHR '' '' # normalize_scan depth cs)"

definition normalizeDeviceDescription :: "string \<Rightarrow> string" where
  "normalizeDeviceDescription s = Join (Fields (normalize_scan 0 (ToLower (TrimSpace s)))) '' ''"

definition SimilarDeviceDescription :: "string \<Rightarrow> string \<Rightarrow> bool" where
  "SimilarDeviceDescription a b \<longleftrightarrow> normalizeDeviceDescription a \<noteq> [] \<and>
     normalizeDeviceDescription a = normalizeDeviceDescription b"

definition SimilarDeviceMemory :: "64 word \<Rightarrow> 64 word \<Rightarrow> bool" where
  "SimilarDeviceMemory a b \<longleftrightarrow>
     (if a = 0 \<or> b = 0 then False
      else (let maxMemory = max a b;
                tolerance = maxMemory div 20;
                tolerance = (if tolerance < 512 * 1024 * 1024 then 512 * 1024 * 1024 else tolerance)
            in maxMemory - min a b \<le> tolerance))"

definition likelyVulkanDuplicate :: "DeviceInfo \<Rightarrow> DeviceInfo \<Rightarrow> bool" where
  "likelyVulkanDuplicate a b \<longleftrightarrow>
     (if Library a = Library b then False
      else (let (vulkan, other) = (if Library b = ''Vulkan'' then (b, a) else (a, b)) in
        if Library vulkan \<noteq> ''Vulkan'' then False
        else if Library other \<noteq> ''CUDA'' \<and> Library other \<noteq> ''ROCm'' then False
        else if normalizeDeviceDescription (Description vulkan) = [] then False
        else if \<not> SimilarDeviceDescription (Description vulkan) (Description other) then False
        else SimilarDeviceMemory (TotalMemory vulkan) (TotalMemory other)))"

definition DeviceInfo_Compare :: "DeviceInfo \<Rightarrow> DeviceInfo \<Rightarrow> DeviceComparison" where
  "DeviceInfo_Compare a b =
     (if PCIID a \<noteq> [] \<and> PCIID b \<noteq> [] then
        (if \<not> EqualFold (PCIID a) (PCIID b) then UniqueDevice
         else if Library a = Library b then SameBackendDevice
         else DuplicateDevice)
      else if likelyVulkanDuplicate a b then DuplicateDevice
      else if PCIID a \<noteq> PCIID b then UniqueDevice
      else if PCIID a = [] \<and> (ID a, Library a) \<noteq> (ID b, Library b) then UniqueDevice
      else if Library a = Library b then SameBackendDevice
      else DuplicateDevice)"

text \<open>\<open>strings.SplitN(s, "_", 2)\<close>; a device without library paths panics.\<close>

definition SplitN2 :: "string \<Rightarrow> string \<Rightarrow> string list" where
  "SplitN2 s sep = (let (x, y, found) = Cut s sep in if found then [x, y] else [s])"

definition IsBetter :: "DeviceInfo \<Rightarrow> DeviceInfo \<Rightarrow> bool option" where
  "IsBetter a b =
     (if LibraryPath a = [] \<or> LibraryPath b = [] then None
      else (let aLib = last (LibraryPath a); bLib = last (LibraryPath b);
                as = SplitN2 aLib ''_''; bs = SplitN2 bLib ''_'' in
        if aLib = bLib then Some False
        else if length as < 2 \<or> length bs < 2 then Some False
        else if as ! 0 \<noteq> bs ! 0 then Some False
        else if as ! 1 = bs ! 1 then Some False
        else Some (last (sort [as ! 1, bs ! 1]) = bs ! 1)))"

definition cudaFlashAttentionSupported :: "DeviceInfo \<Rightarrow> bool" where
  "cudaFlashAttentionSupported gpu \<longleftrightarrow>
     (if Library gpu \<noteq> ''CUDA'' \<or> ComputeMajor gpu < 7 \<or>
        (ComputeMajor gpu = 7 \<and> ComputeMinor gpu = 2) then False
      else if DriverMajor gpu = 0 then True
      else DriverMajor gpu \<ge> 7)"

definition FlashAttentionSupported :: "DeviceInfo list \<Rightarrow> bool" where
  "FlashAttentionSupported l \<longleftrightarrow> list_all (\<lambda>gpu. Library gpu = ''cpu'' \<or> devName gpu = ''Metal'' \<or>
     Library gpu = ''Metal'' \<or> cudaFlashAttentionSupported gpu \<or> Library gpu = ''ROCm'' \<or>
     Library gpu = ''Vulkan'') l"

datatype FlashAttentionType = FlashAttentionAuto | FlashAttentionDisabled | FlashAttentionEnabled

fun FlashAttentionType_String :: "FlashAttentionType \<Rightarrow> string" where
  "FlashAttentionType_String FlashAttentionAuto = ''Auto''"
| "FlashAttentionType_String FlashAttentionDisabled = ''Disabled''"
| "FlashAttentionType_String FlashAttentionEnabled = ''Enabled''"

definition NeedsInitValidation :: "DeviceInfo \<Rightarrow> bool" where
  "NeedsInitValidation d \<longleftrightarrow> Library d = ''ROCm'' \<or> Library d = ''CUDA''"

definition AddInitValidation :: "env \<Rightarrow> env" where
  "AddInitValidation e = AList.update ''GGML_CUDA_INIT'' ''1'' e"

definition PreferredLibrary :: "DeviceInfo \<Rightarrow> bool" where
  "PreferredLibrary d \<longleftrightarrow> Library d = ''CUDA'' \<or> Library d = ''ROCm''"

section \<open>Visible devices\<close>

definition allDevicesUseLibrary :: "DeviceInfo list \<Rightarrow> string \<Rightarrow> bool" where
  "allDevicesUseLibrary l library \<longleftrightarrow> list_all (\<lambda>d. Library d = library) l"

definition visibleDeviceCount :: "string \<Rightarrow> nat" where
  "visibleDeviceCount v =
     fold (\<lambda>field count. if TrimSpace field \<noteq> [] then count + 1 else count) (Split v '','') 0"

fun numeric_fields :: "bool \<Rightarrow> string list \<Rightarrow> bool" where
  "numeric_fields found [] \<longleftrightarrow> found"
| "numeric_fields found (field # rest) \<longleftrightarrow>
     (if TrimSpace field = [] then numeric_fields found rest
      else (case Atoi (TrimSpace field) of
          None \<Rightarrow> False
        | Some index \<Rightarrow> if index < 0 then False else numeric_fields True rest))"

definition numericVisibleDeviceList :: "string \<Rightarrow> bool" where
  "numericVisibleDeviceList v = numeric_fields False (Split v '','')"

abbreviation rocm_names :: "string list" where
  "rocm_names \<equiv> [''HIP_VISIBLE_DEVICES'', ''GPU_DEVICE_ORDINAL'', ''CUDA_VISIBLE_DEVICES'']"

definition rocmLinuxOrdinalVisibleDevicesEnv :: "bool \<Rightarrow> (string \<Rightarrow> string) \<Rightarrow> string" where
  "rocmLinuxOrdinalVisibleDevicesEnv linux getenv =
     (if \<not> linux \<or> getenv ''ROCR_VISIBLE_DEVICES'' \<noteq> [] then []
      else (case find (\<lambda>name. numericVisibleDeviceList (getenv name)) rocm_names of
          Some name \<Rightarrow> name | None \<Rightarrow> []))"

definition rocmNonLinuxVisibleDevicesEnv :: "(string \<Rightarrow> string) \<Rightarrow> string" where
  "rocmNonLinuxVisibleDevicesEnv getenv =
     (case find (\<lambda>name. numericVisibleDeviceList (getenv name)) rocm_names of
        Some name \<Rightarrow> name | None \<Rightarrow> ''HIP_VISIBLE_DEVICES'')"

definition append_env :: "string \<Rightarrow> string \<Rightarrow> env \<Rightarrow> env" where
  "append_env var v e = AList.update var
     (case map_of e var of Some old \<Rightarrow> old @ '','' @ v | None \<Rightarrow> v) e"

definition device_label :: "DeviceInfo \<Rightarrow> string" where
  "device_label d = (if FilterID d \<noteq> [] then FilterID d else ID d)"

definition updateVisibleDevicesEnv ::
  "bool \<Rightarrow> (string \<Rightarrow> string) \<Rightarrow> DeviceInfo \<Rightarrow> env \<Rightarrow> bool \<Rightarrow> env" where
  "updateVisibleDevicesEnv linux getenv d e mustFilter =
     (let (envVar, rocmOrdinalEnv) =
        (if Library d = ''ROCm'' then
           (if \<not> linux then (rocmNonLinuxVisibleDevicesEnv getenv, [])
            else (''ROCR_VISIBLE_DEVICES'', rocmLinuxOrdinalVisibleDevicesEnv linux getenv))
         else if Library d = ''CUDA'' \<and> mustFilter then (''CUDA_VISIBLE_DEVICES'', [])
         else if Library d = ''Vulkan'' \<and> mustFilter then (''GGML_VK_VISIBLE_DEVICES'', [])
         else ([], []))
      in if envVar = [] then e
         else (let v = (case map_of e envVar of Some v \<Rightarrow> v | None \<Rightarrow> []);
                   childOrdinal = visibleDeviceCount v;
                   e = append_env envVar (device_label d) e
               in if rocmOrdinalEnv \<noteq> [] then append_env rocmOrdinalEnv (Itoa (int childOrdinal)) e
                  else e))"

definition GetDevicesEnv :: "bool \<Rightarrow> (string \<Rightarrow> string) \<Rightarrow> DeviceInfo list \<Rightarrow> env" where
  "GetDevicesEnv linux getenv l =
     (let mustFilter = (length l = 1 \<or> allDevicesUseLibrary l ''CUDA'') in
      fold (\<lambda>d e. fold (\<lambda>(k, v) e. AList.update k v e) (RunnerEnvOverrides d)
        (updateVisibleDevicesEnv linux getenv d e mustFilter)) l [])"

section \<open>Facts about grouping\<close>

text \<open>The keys in the order of their first occurrence.\<close>

definition first_keys :: "'k list \<Rightarrow> 'k list" where
  "first_keys ks = rev (remdups (rev ks))"

lemma first_keys_snoc:
  "first_keys (ks @ [k]) = (if k \<in> set ks then first_keys ks else first_keys ks @ [k])"
  by (simp add: first_keys_def)

lemma first_keys_props [simp]: "distinct (first_keys ks)" "set (first_keys ks) = set ks"
  by (simp_all add: first_keys_def)

lemma place_present:
  "distinct ks \<Longrightarrow> k \<in> set ks \<Longrightarrow>
   place k d (map (\<lambda>k. (k, f k)) ks) = map (\<lambda>k'. (k', if k' = k then f k' @ [d] else f k')) ks"
proof (induction ks)
  case (Cons a ks)
  then show ?case by (cases "a = k") (auto intro!: map_cong)
qed simp

lemma place_absent:
  "k \<notin> set ks \<Longrightarrow> place k d (map (\<lambda>k. (k, f k)) ks) = map (\<lambda>k. (k, f k)) ks @ [(k, [d])]"
  by (induction ks) auto

text \<open>The contract of a function that groups devices by a key, one device after the other.\<close>

locale device_groups =
  fixes key :: "'d \<Rightarrow> 'k" and groups :: "'d list \<Rightarrow> 'd list list"
  assumes groups_fold: "groups l = map snd (fold (\<lambda>d. place (key d) d) l [])"
begin

lemma fold_place:
  "fold (\<lambda>d. place (key d) d) l [] =
    map (\<lambda>k. (k, filter (\<lambda>d. key d = k) l)) (first_keys (map key l))"
proof (induction l rule: rev_induct)
  case Nil
  then show ?case by (simp add: first_keys_def)
next
  case (snoc d l)
  show ?case
  proof (cases "key d \<in> set (map key l)")
    case True
    then show ?thesis using snoc by (auto simp: place_present first_keys_snoc intro!: map_cong)
  next
    case False
    then have n: "filter (\<lambda>e. key e = key d) l = []" by (simp add: filter_empty_conv) (metis imageI)
    have "map (\<lambda>k. (k, filter (\<lambda>e. key e = k) (l @ [d]))) (first_keys (map key l)) =
        map (\<lambda>k. (k, filter (\<lambda>e. key e = k) l)) (first_keys (map key l))"
      using False by (auto intro!: map_cong)
    then show ?thesis using snoc False n by (simp add: place_absent first_keys_snoc)
  qed
qed

lemma groups_filter:
  "groups l = map (\<lambda>k. filter (\<lambda>d. key d = k) l) (first_keys (map key l))"
  by (simp add: groups_fold fold_place comp_def)

lemma groups_same_key: "g \<in> set (groups l) \<Longrightarrow> \<exists>k. g \<noteq> [] \<and> (\<forall>d \<in> set g. key d = k)"
  by (auto simp: groups_filter filter_empty_conv)

lemma groups_members: "set (concat (groups l)) = set l"
  by (auto simp: groups_filter)

end

interpretation by_library: device_groups Library ByLibrary
  by unfold_locales (simp add: ByLibrary_def)

interpretation by_performance: device_groups Integrated ByPerformance
  by unfold_locales (simp add: ByPerformance_def)

section \<open>Properties\<close>

text \<open>Grouping devices by library or by speed keeps every device in exactly the group of its key,
  in the original order, with the groups in the order in which their keys first occur; there are at
  most two speed groups.\<close>

theorem device_grouping:
  "ByLibrary l = map (\<lambda>k. filter (\<lambda>d. Library d = k) l) (first_keys (map Library l)) \<and>
   ByPerformance l = map (\<lambda>k. filter (\<lambda>d. Integrated d = k) l) (first_keys (map Integrated l)) \<and>
   length (ByPerformance l) \<le> 2"
proof (intro conjI)
  show "ByLibrary l = map (\<lambda>k. filter (\<lambda>d. Library d = k) l) (first_keys (map Library l))"
    by (rule by_library.groups_filter)
  show p: "ByPerformance l = map (\<lambda>k. filter (\<lambda>d. Integrated d = k) l) (first_keys (map Integrated l))"
    by (rule by_performance.groups_filter)
  have "length (first_keys (map Integrated l)) = card (set (map Integrated l))"
    by (metis distinct_card first_keys_props)
  also have "\<dots> \<le> card {True, False}" by (rule card_mono) auto
  finally show "length (ByPerformance l) \<le> 2" using p by simp
qed

lemma SimilarDeviceMemory_sym: "SimilarDeviceMemory a b = SimilarDeviceMemory b a"
  by (simp add: SimilarDeviceMemory_def max.commute min.commute Let_def disj_commute)

lemma SimilarDeviceDescription_sym: "SimilarDeviceDescription a b = SimilarDeviceDescription b a"
  by (auto simp: SimilarDeviceDescription_def)

lemma likelyVulkanDuplicate_sym: "likelyVulkanDuplicate a b = likelyVulkanDuplicate b a"
  using SimilarDeviceMemory_sym SimilarDeviceDescription_sym
  by (cases "Library a = ''Vulkan''"; cases "Library b = ''Vulkan''")
    (auto simp: likelyVulkanDuplicate_def SimilarDeviceDescription_def)

text \<open>Whether two devices are unique, the same, or the same hardware seen by two back ends does
  not depend on the order in which they are compared, and a device compared with itself is the same
  device.\<close>

theorem device_compare_symmetric:
  "DeviceInfo_Compare a b = DeviceInfo_Compare b a \<and> DeviceInfo_Compare a a = SameBackendDevice"
proof
  have f: "EqualFold (PCIID a) (PCIID b) = EqualFold (PCIID b) (PCIID a)"
    using EqualFold_sym by blast
  have v: "likelyVulkanDuplicate a b = likelyVulkanDuplicate b a" by (rule likelyVulkanDuplicate_sym)
  show "DeviceInfo_Compare a b = DeviceInfo_Compare b a"
    by (auto simp: DeviceInfo_Compare_def f v)
  show "DeviceInfo_Compare a a = SameBackendDevice"
    by (simp add: DeviceInfo_Compare_def likelyVulkanDuplicate_def)
qed

lemma append_env_join:
  assumes "map_of e var = (if xs = [] then None else Some (Join xs '',''))"
  shows "map_of (append_env var v e) var = Some (Join (xs @ [v]) '','')"
proof -
  have "Join (xs @ [v]) '','' = Join xs '','' @ '','' @ v" if "xs \<noteq> []"
    using that
  proof (induction xs rule: induct_list012)
    case (3 x y zs)
    then show ?case by simp
  qed simp_all
  with assms show ?thesis by (auto simp: append_env_def update_conv')
qed

text \<open>A group of CUDA devices without overrides is restricted to exactly its devices: the variable
  CUDA\_VISIBLE\_DEVICES lists their filter identifiers, or identifiers, in order, separated by
  commas.\<close>

theorem cuda_devices_visible:
  assumes "l \<noteq> []" and "\<forall>d \<in> set l. Library d = ''CUDA'' \<and> RunnerEnvOverrides d = []"
  shows "map_of (GetDevicesEnv linux getenv l) ''CUDA_VISIBLE_DEVICES'' =
    Some (Join (map device_label l) '','')"
proof -
  let ?step = "\<lambda>d e. fold (\<lambda>(k, v) e. AList.update k v e) (RunnerEnvOverrides d)
      (updateVisibleDevicesEnv linux getenv d e True)"
  have all: "allDevicesUseLibrary l ''CUDA''"
    using assms(2) by (simp add: allDevicesUseLibrary_def list_all_iff)
  have "map_of (fold ?step ds []) ''CUDA_VISIBLE_DEVICES'' =
      (if ds = [] then None else Some (Join (map device_label ds) '',''))" if "set ds \<subseteq> set l" for ds
    using that
  proof (induction ds rule: rev_induct)
    case (snoc d ds)
    then have d: "Library d = ''CUDA''" "RunnerEnvOverrides d = []" using assms(2) by auto
    have "fold ?step (ds @ [d]) [] = append_env ''CUDA_VISIBLE_DEVICES'' (device_label d) (fold ?step ds [])"
      using d by (simp add: updateVisibleDevicesEnv_def)
    with snoc show ?case
      using append_env_join [of "fold ?step ds []" "''CUDA_VISIBLE_DEVICES''" "map device_label ds" "device_label d"]
      by simp
  qed simp
  from this [of l] show ?thesis using assms(1) all by (simp add: GetDevicesEnv_def)
qed

definition sample_cuda :: "string \<Rightarrow> DeviceInfo" where
  "sample_cuda i = \<lparr>ID = i, Library = ''CUDA'', devName = [], Description = [], FilterID = [],
     Integrated = False, PCIID = [], TotalMemory = 0, FreeMemory = 0, ComputeMajor = 8,
     ComputeMinor = 0, DriverMajor = 12, DriverMinor = 0, LibraryPath = [], RunnerEnvOverrides = []\<rparr>"

theorem cuda_devices_visible_witness:
  "map_of (GetDevicesEnv True (\<lambda>_. []) [sample_cuda ''0'', sample_cuda ''2'']) ''CUDA_VISIBLE_DEVICES'' =
    Some ''0,2''"
  using cuda_devices_visible [of "[sample_cuda ''0'', sample_cuda ''2'']" True "\<lambda>_. []"]
  by (simp add: sample_cuda_def device_label_def)

end
