(* ===== verification/Scheduler.thy ===== *)
theory Scheduler
  imports Devices "HOL-Library.Product_Lexorder"
begin

text \<open>
  The scheduler of model runners, after \<open>server/sched.go\<close>. Channels are queues; runner references
  live in a heap; every goroutine that is between two critical sections is part of the state: the
  clients in \<open>getRunner\<close> that found a runner (\<open>examining\<close>) or were told it is usable (\<open>admitted\<close>), the
  goroutines that wait for the end of a request (\<open>waiting\<close>), the ones that wait for a runner to
  start and hold its lock (\<open>starting\<close>), and the loop of \<open>processPending\<close> (\<open>current\<close>). Every critical
  section is a function on this state; an \<open>event\<close> names which one runs next, with what the environment
  answers there (a ping, the GPUs, the result of a load, a process id), and \<open>exec\<close> runs it. \<open>Blocked\<close>
  is a section that cannot run now: its lock is held, or its goroutine is elsewhere; \<open>Crash\<close> aborts the
  Go program. A message of a channel can be taken in any order, which covers the order in which the
  senders run. Left out are the capacities of the channels other than the request queue, the
  shutdown of the server, the wait for the VRAM to recover after an unload, and the overflow of a
  reference count by \<open>2 ^ 64\<close> requests; a decrement of 0 wraps around as it does in Go.
\<close>

section \<open>Data\<close>

record Runner =
  NumCtx :: int
  NumBatch :: int
  NumGPU :: int
  NumThread :: int

record SModel =
  ModelPath :: string
  Digest :: string
  model_Name :: string
  ShortName :: string
  ProjectorPaths :: "string list"

record LlmRequest =
  req_model :: SModel
  req_opts :: Runner
  req_sessionDuration :: "int option"
  schedAttempts :: nat
  numCtxAuto :: bool
  numBatchAuto :: bool
  oomRetryAttempted :: bool

record runnerRef =
  refCount :: nat
  pid :: int
  loading :: bool
  gpus :: "DeviceID list"
  discreteGPUs :: bool
  vramSize :: "64 word"
  totalSize :: "64 word"
  sessionDuration :: int
  expireTimer :: bool
  run_model :: "SModel option"
  modelPath :: string
  modelKey :: string
  run_Options :: "Runner option"
  closed :: bool

datatype sched_error = ErrMaxQueue | LoadError | StartError

datatype reply = Ready nat | Failed sched_error

text \<open>The loop of \<open>processPending\<close>: idle; at the top of the inner loop; about to check or to use a
  loaded runner; about to choose a runner to unload; about to load, with \<open>loadedCount\<close>; waiting for the
  load on these GPUs, fully or not; about to expire a runner; waiting for that many unload events.\<close>

datatype pending_loop =
    Idle
  | Trying LlmRequest
  | Checking LlmRequest nat
  | Using LlmRequest nat
  | Choosing LlmRequest
  | Placing LlmRequest nat
  | Loading LlmRequest "DeviceInfo list" bool
  | Expiring LlmRequest nat
  | AwaitUnload LlmRequest nat

record Scheduler =
  pendingReqCh :: "LlmRequest list"
  finishedReqCh :: "LlmRequest list"
  expiredCh :: "nat list"
  unloadedCh :: nat
  activeLoading :: "string option"
  loaded :: "(string \<times> nat) list"
  refs :: "nat \<Rightarrow> runnerRef"
  next_ref :: nat
  examining :: "(nat \<times> LlmRequest) list"
  admitted :: "(nat \<times> LlmRequest) list"
  waiting :: "LlmRequest list"
  starting :: "(nat \<times> LlmRequest) list"
  current :: pending_loop
  replies :: "(LlmRequest \<times> reply) list"
  mu_held :: bool

datatype outcome = Blocked | Crash | Next Scheduler

section \<open>Keys, references\<close>

definition schedulerModelKey :: "SModel option \<Rightarrow> string" where
  "schedulerModelKey mo = (case mo of None \<Rightarrow> []
    | Some mdl \<Rightarrow>
        if ModelPath mdl \<noteq> [] then ModelPath mdl
        else if Digest mdl \<noteq> [] then ''digest:'' @ Digest mdl
        else if model_Name mdl \<noteq> [] then ''name:'' @ model_Name mdl
        else if ShortName mdl \<noteq> [] then ''short:'' @ ShortName mdl
        else [])"

abbreviation req_key :: "LlmRequest \<Rightarrow> string" where
  "req_key req \<equiv> schedulerModelKey (Some (req_model req))"

definition set_ref :: "nat \<Rightarrow> (runnerRef \<Rightarrow> runnerRef) \<Rightarrow> Scheduler \<Rightarrow> Scheduler" where
  "set_ref a f s = s\<lparr>refs := (refs s)(a := f (refs s a))\<rparr>"

definition locked :: "Scheduler \<Rightarrow> nat \<Rightarrow> bool" where
  "locked s a \<longleftrightarrow> a \<in> fst ` set (starting s)"

definition unload :: "runnerRef \<Rightarrow> runnerRef" where
  "unload r = r\<lparr>expireTimer := False, closed := True, run_model := None, run_Options := None,
     gpus := []\<rparr>"

text \<open>\<open>needsReload\<close>; \<open>alive\<close> is whether the runner answers the ping.\<close>

definition needsReload :: "bool \<Rightarrow> runnerRef \<Rightarrow> LlmRequest \<Rightarrow> bool" where
  "needsReload alive r req = (case (run_Options r, run_model r) of
      (Some old, Some mdl) \<Rightarrow>
        (let new = req_opts req in
         if ProjectorPaths mdl \<noteq> ProjectorPaths (req_model req) then True
         else if \<not> numCtxAuto req \<and> NumCtx new \<noteq> NumCtx old then True
         else if \<not> numBatchAuto req \<and> NumBatch new \<noteq> NumBatch old then True
         else if NumGPU new \<ge> 0 \<and> NumGPU new \<noteq> NumGPU old then True
         else if NumThread new > 0 \<and> NumThread new \<noteq> NumThread old then True
         else \<not> alive)
    | _ \<Rightarrow> True)"

definition useLoadedRunner :: "nat \<Rightarrow> LlmRequest \<Rightarrow> Scheduler \<Rightarrow> Scheduler" where
  "useLoadedRunner a req s =
     (set_ref a (\<lambda>r. r\<lparr>refCount := refCount r + 1, expireTimer := False,
        sessionDuration := (case req_sessionDuration req of Some d \<Rightarrow> d | None \<Rightarrow> sessionDuration r)\<rparr>) s)
     \<lparr>replies := replies s @ [(req, Ready a)], waiting := waiting s @ [req]\<rparr>"

section \<open>Requests of clients\<close>

text \<open>The parts of \<open>getRunner\<close>: the lookup, the check of the runner that was found, its use.\<close>

definition enqueue :: "nat \<Rightarrow> LlmRequest \<Rightarrow> Scheduler \<Rightarrow> Scheduler" where
  "enqueue maxQueue req s =
     (if length (pendingReqCh s) < maxQueue then s\<lparr>pendingReqCh := pendingReqCh s @ [req]\<rparr>
      else s\<lparr>replies := replies s @ [(req, Failed ErrMaxQueue)]\<rparr>)"

definition getRunner :: "nat \<Rightarrow> LlmRequest \<Rightarrow> Scheduler \<Rightarrow> outcome" where
  "getRunner maxQueue req s =
     (let req = req\<lparr>schedAttempts := 0, oomRetryAttempted := False\<rparr> in
      if mu_held s then Blocked
      else (case map_of (loaded s) (req_key req) of
          None \<Rightarrow> Next (enqueue maxQueue req s)
        | Some a \<Rightarrow> Next (s\<lparr>examining := examining s @ [(a, req)]\<rparr>)))"

definition client_check :: "nat \<Rightarrow> bool \<Rightarrow> nat \<Rightarrow> LlmRequest \<Rightarrow> Scheduler \<Rightarrow> outcome" where
  "client_check maxQueue alive a req s =
     (if (a, req) \<notin> set (examining s) \<or> locked s a then Blocked
      else (let s' = s\<lparr>examining := remove1 (a, req) (examining s)\<rparr> in
        if \<not> needsReload alive (refs s a) req then Next (s'\<lparr>admitted := admitted s @ [(a, req)]\<rparr>)
        else Next (enqueue maxQueue req s')))"

definition client_use :: "nat \<Rightarrow> LlmRequest \<Rightarrow> Scheduler \<Rightarrow> outcome" where
  "client_use a req s =
     (if (a, req) \<notin> set (admitted s) \<or> locked s a then Blocked
      else Next (useLoadedRunner a req (s\<lparr>admitted := remove1 (a, req) (admitted s)\<rparr>)))"

text \<open>The context of a request that is being served ends.\<close>

definition context_done :: "LlmRequest \<Rightarrow> Scheduler \<Rightarrow> outcome" where
  "context_done req s =
     (if req \<notin> set (waiting s) then Blocked
      else Next (s\<lparr>waiting := remove1 req (waiting s), finishedReqCh := finishedReqCh s @ [req]\<rparr>))"

section \<open>Completed requests and expiry\<close>

definition dec :: "nat \<Rightarrow> nat" where
  "dec n = (if n = 0 then 2 ^ 64 - 1 else n - 1)"

text \<open>The case \<open>finished\<close> of \<open>processCompleted\<close>; a timer that is armed is set again.\<close>

definition go_idle :: "nat \<Rightarrow> Scheduler \<Rightarrow> Scheduler" where
  "go_idle a s =
     (if sessionDuration (refs s a) \<le> 0
      then (set_ref a (\<lambda>r. r\<lparr>expireTimer := False\<rparr>) s)\<lparr>expiredCh := expiredCh s @ [a]\<rparr>
      else set_ref a (\<lambda>r. r\<lparr>expireTimer := True\<rparr>) s)"

definition finished_event :: "LlmRequest \<Rightarrow> Scheduler \<Rightarrow> outcome" where
  "finished_event req s =
     (if req \<notin> set (finishedReqCh s) \<or> mu_held s then Blocked
      else (let s = s\<lparr>finishedReqCh := remove1 req (finishedReqCh s)\<rparr> in
        case map_of (loaded s) (req_key req) of
          None \<Rightarrow> Next s
        | Some a \<Rightarrow>
            if locked s a then Blocked
            else (let s = set_ref a (\<lambda>r. r\<lparr>refCount := dec (refCount r)\<rparr>) s in
              Next (if refCount (refs s a) = 0 then go_idle a s else s))))"

text \<open>The case \<open>expired\<close>: a runner in use is tried again later, an unloaded one is ignored, an orphan is
  shut down, and otherwise the runner is unloaded and removed and an unload event is sent.\<close>

definition expired_event :: "nat \<Rightarrow> Scheduler \<Rightarrow> outcome" where
  "expired_event a s =
     (if a \<notin> set (expiredCh s) \<or> locked s a then Blocked
      else if refCount (refs s a) > 0 then Next (s\<lparr>expiredCh := remove1 a (expiredCh s) @ [a]\<rparr>)
      else if mu_held s then Blocked
      else (let s = s\<lparr>expiredCh := remove1 a (expiredCh s)\<rparr> in
        case map_of (loaded s) (modelKey (refs s a)) of
          None \<Rightarrow> Next s
        | Some c \<Rightarrow>
            if pid (refs s a) \<noteq> pid (refs s c) then Next (set_ref a unload s)
            else Next ((set_ref a unload s)
              \<lparr>loaded := AList.delete (modelKey (refs s a)) (loaded s),
               unloadedCh := unloadedCh s + 1\<rparr>)))"

text \<open>The timer of a runner fires; it may have been stopped after it fired, before it got the lock.\<close>

definition timer_event :: "nat \<Rightarrow> Scheduler \<Rightarrow> outcome" where
  "timer_event a s =
     (if a \<ge> next_ref s \<or> locked s a then Blocked
      else Next ((set_ref a (\<lambda>r. r\<lparr>expireTimer := False\<rparr>) s)\<lparr>expiredCh := expiredCh s @ [a]\<rparr>))"

text \<open>Expire a runner as soon as it is idle: the block that \<open>processPending\<close>, \<open>evictAllAndWait\<close>,
  \<open>expireRunnersForRuntimeOOM\<close> and \<open>expireRunner\<close> share.\<close>

definition expire_now :: "nat \<Rightarrow> Scheduler \<Rightarrow> Scheduler" where
  "expire_now a s =
     (let s' = set_ref a (\<lambda>r. r\<lparr>expireTimer := False, sessionDuration := 0\<rparr>) s in
      if refCount (refs s a) = 0 then s'\<lparr>expiredCh := expiredCh s @ [a]\<rparr> else s')"

definition expireRunner :: "SModel \<Rightarrow> Scheduler \<Rightarrow> outcome" where
  "expireRunner mdl s =
     (if mu_held s then Blocked
      else (case map_of (loaded s) (schedulerModelKey (Some mdl)) of
          None \<Rightarrow> Next s
        | Some a \<Rightarrow> if locked s a then Blocked else Next (expire_now a s)))"

definition expire_all :: "(string \<times> nat) list \<Rightarrow> Scheduler \<Rightarrow> Scheduler" where
  "expire_all rs s = fold (\<lambda>(k, a). expire_now a) rs s"

definition expireRunnersForRuntimeOOM :: "bool \<Rightarrow> Scheduler \<Rightarrow> outcome" where
  "expireRunnersForRuntimeOOM isOOM s =
     (if \<not> isOOM then Next s
      else if mu_held s \<or> list_ex (\<lambda>(k, a). locked s a) (loaded s) then Blocked
      else Next (expire_all (loaded s) s))"

section \<open>Choosing a runner to unload\<close>

text \<open>\<open>ByDurationAndName\<close>: the duration as an unsigned number, then the path or key.\<close>

definition unload_rank :: "runnerRef \<Rightarrow> nat \<times> string" where
  "unload_rank r =
     (unat (word_of_int (sessionDuration r) :: 64 word),
      if modelPath r \<noteq> [] then modelPath r else modelKey r)"

definition findRunnerToUnload :: "Scheduler \<Rightarrow> nat option" where
  "findRunnerToUnload s =
     (let runnerList = sort_key (\<lambda>a. unload_rank (refs s a)) (map snd (loaded s)) in
      if runnerList = [] then None
      else (case find (\<lambda>a. refCount (refs s a) = 0) runnerList of
          Some a \<Rightarrow> Some a
        | None \<Rightarrow> Some (hd runnerList)))"

section \<open>Free memory\<close>

abbreviation dev_key :: "DeviceInfo \<Rightarrow> string \<times> string" where
  "dev_key d \<equiv> (ID d, Library d)"

text \<open>\<open>updateFreeSpace\<close>; \<open>VRAMByGPU a d\<close> is the memory that runner \<open>a\<close> uses of the device \<open>d\<close>.\<close>

definition predict :: "(nat \<Rightarrow> string \<times> string \<Rightarrow> 64 word) \<Rightarrow> nat list \<Rightarrow> DeviceInfo list \<Rightarrow>
    (string \<times> string \<rightharpoonup> 64 word)" where
  "predict VRAMByGPU runners allGpus =
     fold (\<lambda>a. fold (\<lambda>gpu predMap. predMap(dev_key gpu \<mapsto>
       (case predMap (dev_key gpu) of None \<Rightarrow> 0 | Some x \<Rightarrow> x) + VRAMByGPU a (dev_key gpu))) allGpus)
     runners Map.empty"

definition updateFreeSpace :: "(nat \<Rightarrow> string \<times> string \<Rightarrow> 64 word) \<Rightarrow> nat list \<Rightarrow> DeviceInfo list \<Rightarrow>
    DeviceInfo list" where
  "updateFreeSpace VRAMByGPU runners allGpus =
     map (\<lambda>gpu. case predict VRAMByGPU runners allGpus (dev_key gpu) of
         None \<Rightarrow> gpu
       | Some p \<Rightarrow>
           if p > TotalMemory gpu then gpu\<lparr>FreeMemory := 0\<rparr>
           else if TotalMemory gpu - p < FreeMemory gpu then gpu\<lparr>FreeMemory := TotalMemory gpu - p\<rparr>
           else gpu) allGpus"

section \<open>Loading\<close>

text \<open>What the environment answers before a server is created (the configuration of the batch size
  or the metadata of the model cannot be read, the server cannot be created, or it is created), and to
  the load: it needs more memory, it fails, or it succeeds with a process id, the GPUs, the sizes and
  the effective context length.\<close>

datatype create_answer = BadConfig | BadMetadata | CreateFailed | Created

datatype load_answer = RequiresFull | LoadFailed | LoadOK int "DeviceID list" "64 word" "64 word" int

definition wantPath :: "LlmRequest \<Rightarrow> string" where
  "wantPath req =
     (if ModelPath (req_model req) = [] then ShortName (req_model req) else ModelPath (req_model req))"

definition refuse :: "LlmRequest \<Rightarrow> Scheduler \<Rightarrow> Scheduler" where
  "refuse req s = s\<lparr>current := Idle, replies := replies s @ [(req, Failed LoadError)]\<rparr>"

text \<open>\<open>load\<close> up to the call that loads the model; \<open>count\<close> is \<open>loadedCount\<close>. A first load that asks for
  an eviction is tried again; a later one chooses a runner, or evicts all other ones.\<close>

definition need_evict :: "nat \<Rightarrow> LlmRequest \<Rightarrow> Scheduler \<Rightarrow> Scheduler" where
  "need_evict count req s =
     (if count = 0 then s\<lparr>current := Trying req\<rparr>
      else if oomRetryAttempted req then
        (let rs = filter (\<lambda>(k, a). k \<noteq> req_key req) (loaded s)
         in (expire_all rs s)
           \<lparr>current := (if rs = [] then Trying req else AwaitUnload req (length rs))\<rparr>)
      else s\<lparr>current := Choosing req\<rparr>)"

definition load_begin :: "DeviceInfo list \<Rightarrow> nat \<Rightarrow> create_answer \<Rightarrow> LlmRequest \<Rightarrow> Scheduler \<Rightarrow> outcome" where
  "load_begin devs count ans req s = (case activeLoading s of
      None \<Rightarrow>
        if NumBatch (req_opts req) = 0 \<and> ans = BadConfig then Next (s\<lparr>current := Idle, mu_held := True\<rparr>)
        else if ans = BadMetadata then Next (refuse req s)
        else if loaded s \<noteq> [] \<and> devs \<noteq> [] then Next (need_evict count req s)
        else if ans = CreateFailed then Next (refuse req s)
        else Next (s\<lparr>activeLoading := Some (wantPath req), current := Loading req devs (count > 0)\<rparr>)
    | Some path \<Rightarrow>
        if path \<noteq> wantPath req then Crash
        else Next (s\<lparr>current := Loading req devs (count > 0)\<rparr>))"

definition new_runner :: "int \<Rightarrow> DeviceInfo list \<Rightarrow> LlmRequest \<Rightarrow> int \<Rightarrow> DeviceID list \<Rightarrow> 64 word \<Rightarrow>
    64 word \<Rightarrow> int \<Rightarrow> runnerRef" where
  "new_runner keepAlive devs req p ids sz vram ctx =
     \<lparr>refCount = 0, pid = p, loading = True, gpus = ids,
      discreteGPUs = list_ex (\<lambda>devid. list_ex (\<lambda>d. ID d = ID devid \<and> Library d = Library devid \<and>
        \<not> Integrated d) devs) ids,
      vramSize = vram, totalSize = sz,
      sessionDuration = (case req_sessionDuration req of Some d \<Rightarrow> d | None \<Rightarrow> keepAlive),
      expireTimer = False, run_model = Some (req_model req), modelPath = ModelPath (req_model req),
      modelKey = req_key req,
      run_Options = Some (if numCtxAuto req \<and> ctx > 0 then (req_opts req)\<lparr>NumCtx := ctx\<rparr> else req_opts req),
      closed = False\<rparr>"

text \<open>The last part of \<open>load\<close>: the new reference replaces an old one of the same key and a goroutine
  that holds its lock waits for the runner.\<close>

definition install :: "runnerRef \<Rightarrow> LlmRequest \<Rightarrow> Scheduler \<Rightarrow> Scheduler" where
  "install r req s =
     (let a = next_ref s;
          s1 = (case map_of (loaded s) (modelKey r) of Some old \<Rightarrow> set_ref old unload s | None \<Rightarrow> s)
      in s1\<lparr>refs := (refs s1)(a := r), next_ref := a + 1, activeLoading := None, current := Idle,
           loaded := AList.update (modelKey r) a (loaded s1), starting := starting s1 @ [(a, req)]\<rparr>)"

definition load_end :: "int \<Rightarrow> load_answer \<Rightarrow> Scheduler \<Rightarrow> outcome" where
  "load_end keepAlive ans s = (case current s of
      Loading req devs requireFull \<Rightarrow>
        (case ans of
           RequiresFull \<Rightarrow>
             if \<not> requireFull then Next (refuse req (s\<lparr>activeLoading := None\<rparr>))
             else Next (need_evict 1 req s)
         | LoadFailed \<Rightarrow> if mu_held s then Blocked else Next (refuse req (s\<lparr>activeLoading := None\<rparr>))
         | LoadOK p ids sz vram ctx \<Rightarrow>
             if mu_held s \<or> (case map_of (loaded s) (req_key req) of None \<Rightarrow> False | Some a \<Rightarrow> locked s a) then Blocked
             else Next (install (new_runner keepAlive devs req p ids sz vram ctx) req s))
    | _ \<Rightarrow> Blocked)"

text \<open>The goroutine of \<open>load\<close> ends: the runner is up, with the process id it then has, or it failed.\<close>

definition start_ok :: "int \<Rightarrow> nat \<Rightarrow> LlmRequest \<Rightarrow> Scheduler \<Rightarrow> outcome" where
  "start_ok p a req s =
     (if (a, req) \<notin> set (starting s) then Blocked
      else Next ((set_ref a (\<lambda>r. r\<lparr>pid := (if pid r < 0 then p else pid r), refCount := refCount r + 1,
          loading := False\<rparr>) s)
        \<lparr>starting := remove1 (a, req) (starting s), waiting := waiting s @ [req],
         replies := replies s @ [(req, Ready a)]\<rparr>))"

definition start_failed :: "nat \<Rightarrow> LlmRequest \<Rightarrow> Scheduler \<Rightarrow> outcome" where
  "start_failed a req s =
     (if (a, req) \<notin> set (starting s) then Blocked
      else Next (s\<lparr>starting := remove1 (a, req) (starting s),
        replies := replies s @ [(req, Failed StartError)], expiredCh := expiredCh s @ [a]\<rparr>))"

section \<open>The pending loop\<close>

definition maxRunners :: nat where
  "maxRunners = 2"

text \<open>A request is taken from the queue.\<close>

definition pop_pending :: "Scheduler \<Rightarrow> outcome" where
  "pop_pending s = (case (current s, pendingReqCh s) of
      (Idle, req # reqs) \<Rightarrow>
        Next (s\<lparr>pendingReqCh := reqs, current := Trying (req\<lparr>schedAttempts := schedAttempts req + 1\<rparr>)\<rparr>)
    | _ \<Rightarrow> Blocked)"

text \<open>The top of the inner loop: what is loaded decides what is done. The branch for a request that was
  scheduled before unlocks a mutex that is not locked, which aborts the program.\<close>

definition look :: "Scheduler \<Rightarrow> outcome" where
  "look s = (case current s of
      Trying req \<Rightarrow>
        if mu_held s then Blocked
        else (case map_of (loaded s) (req_key req) of
            Some a \<Rightarrow> Next (s\<lparr>current := Checking req a\<rparr>)
          | None \<Rightarrow>
              if length (loaded s) \<ge> maxRunners then Next (s\<lparr>current := Choosing req\<rparr>)
              else if schedAttempts req > 1 then
                (case findRunnerToUnload s of Some _ \<Rightarrow> Crash | None \<Rightarrow> Next s)
              else Next (s\<lparr>current := Placing req (length (loaded s))\<rparr>))
    | _ \<Rightarrow> Blocked)"

definition check_pending :: "bool \<Rightarrow> Scheduler \<Rightarrow> outcome" where
  "check_pending alive s = (case current s of
      Checking req a \<Rightarrow>
        if locked s a then Blocked
        else if needsReload alive (refs s a) req then Next (s\<lparr>current := Expiring req a\<rparr>)
        else Next (s\<lparr>current := Using req a\<rparr>)
    | _ \<Rightarrow> Blocked)"

definition use_pending :: "Scheduler \<Rightarrow> outcome" where
  "use_pending s = (case current s of
      Using req a \<Rightarrow>
        if locked s a then Blocked else Next ((useLoadedRunner a req s)\<lparr>current := Idle\<rparr>)
    | _ \<Rightarrow> Blocked)"

text \<open>A runner that is starting has no users: the scan stops at its lock exactly when it is chosen.\<close>

definition choose_runner :: "Scheduler \<Rightarrow> outcome" where
  "choose_runner s = (case current s of
      Choosing req \<Rightarrow>
        if mu_held s then Blocked
        else (case findRunnerToUnload s of
            None \<Rightarrow> Next (s\<lparr>current := Trying req\<rparr>)
          | Some a \<Rightarrow> if locked s a then Blocked else Next (s\<lparr>current := Expiring req a\<rparr>))
    | _ \<Rightarrow> Blocked)"

definition expire_chosen :: "Scheduler \<Rightarrow> outcome" where
  "expire_chosen s = (case current s of
      Expiring req a \<Rightarrow>
        if locked s a then Blocked else Next ((expire_now a s)\<lparr>current := AwaitUnload req 1\<rparr>)
    | _ \<Rightarrow> Blocked)"

text \<open>The GPUs are listed, unless the request asks for none, their free memory is corrected for the
  loaded runners, and the load begins.\<close>

definition place_pending :: "DeviceInfo list \<Rightarrow> (nat \<Rightarrow> string \<times> string \<Rightarrow> 64 word) \<Rightarrow> create_answer \<Rightarrow>
    Scheduler \<Rightarrow> outcome" where
  "place_pending allDevs vram ans s = (case current s of
      Placing req count \<Rightarrow>
        (let devs = (if NumGPU (req_opts req) = 0 then [] else allDevs) in
         if mu_held s \<or> devs \<noteq> [] \<and> list_ex (\<lambda>(k, a). locked s a) (loaded s) then Blocked
         else load_begin (updateFreeSpace vram (map snd (loaded s)) devs) count ans req s)
    | _ \<Rightarrow> Blocked)"

text \<open>An unload event ends a wait, or is ignored by the idle loop.\<close>

definition receive_unloaded :: "Scheduler \<Rightarrow> outcome" where
  "receive_unloaded s =
     (if unloadedCh s = 0 then Blocked
      else (let s' = s\<lparr>unloadedCh := unloadedCh s - 1\<rparr> in
        case current s of
          Idle \<Rightarrow> Next s'
        | AwaitUnload req n \<Rightarrow>
            Next (s'\<lparr>current := (if n \<le> 1 then Trying req else AwaitUnload req (n - 1))\<rparr>)
        | _ \<Rightarrow> Blocked))"

section \<open>Schedules\<close>

datatype event =
    GetRunner LlmRequest | ClientCheck bool nat LlmRequest | ClientUse nat LlmRequest
  | ContextDone LlmRequest | Finished LlmRequest | Expired nat | Timer nat
  | ExpireModel SModel | RuntimeOOM bool
  | Pop | Look | CheckPending bool | UsePending | Choose | ExpireChosen
  | Place "DeviceInfo list" "nat \<Rightarrow> string \<times> string \<Rightarrow> 64 word" create_answer
  | LoadEnd load_answer | StartOK int nat LlmRequest | StartFailed nat LlmRequest | Unloaded

fun exec :: "nat \<Rightarrow> int \<Rightarrow> event \<Rightarrow> Scheduler \<Rightarrow> outcome" where
  "exec maxQueue keepAlive (GetRunner req) s = getRunner maxQueue req s"
| "exec maxQueue keepAlive (ClientCheck alive a req) s = client_check maxQueue alive a req s"
| "exec maxQueue keepAlive (ClientUse a req) s = client_use a req s"
| "exec maxQueue keepAlive (ContextDone req) s = context_done req s"
| "exec maxQueue keepAlive (Finished req) s = finished_event req s"
| "exec maxQueue keepAlive (Expired a) s = expired_event a s"
| "exec maxQueue keepAlive (Timer a) s = timer_event a s"
| "exec maxQueue keepAlive (ExpireModel mdl) s = expireRunner mdl s"
| "exec maxQueue keepAlive (RuntimeOOM isOOM) s = expireRunnersForRuntimeOOM isOOM s"
| "exec maxQueue keepAlive Pop s = pop_pending s"
| "exec maxQueue keepAlive Look s = look s"
| "exec maxQueue keepAlive (CheckPending alive) s = check_pending alive s"
| "exec maxQueue keepAlive UsePending s = use_pending s"
| "exec maxQueue keepAlive Choose s = choose_runner s"
| "exec maxQueue keepAlive ExpireChosen s = expire_chosen s"
| "exec maxQueue keepAlive (Place devs vram ans) s = place_pending devs vram ans s"
| "exec maxQueue keepAlive (LoadEnd ans) s = load_end keepAlive ans s"
| "exec maxQueue keepAlive (StartOK p a req) s = start_ok p a req s"
| "exec maxQueue keepAlive (StartFailed a req) s = start_failed a req s"
| "exec maxQueue keepAlive Unloaded s = receive_unloaded s"

definition InitScheduler :: Scheduler where
  "InitScheduler = \<lparr>pendingReqCh = [], finishedReqCh = [], expiredCh = [], unloadedCh = 0,
     activeLoading = None, loaded = [],
     refs = (\<lambda>_. \<lparr>refCount = 0, pid = 0, loading = False, gpus = [], discreteGPUs = False, vramSize = 0,
       totalSize = 0, sessionDuration = 0, expireTimer = False, run_model = None, modelPath = [],
       modelKey = [], run_Options = None, closed = True\<rparr>),
     next_ref = 0, examining = [], admitted = [], waiting = [], starting = [], current = Idle,
     replies = [], mu_held = False\<rparr>"

text \<open>The states that the schedules reach in which every event is allowed.\<close>

inductive runs :: "nat \<Rightarrow> int \<Rightarrow> (event \<Rightarrow> Scheduler \<Rightarrow> bool) \<Rightarrow> Scheduler \<Rightarrow> bool"
  for maxQueue :: nat and keepAlive :: int and allowed :: "event \<Rightarrow> Scheduler \<Rightarrow> bool" where
  start: "runs maxQueue keepAlive allowed InitScheduler"
| step: "runs maxQueue keepAlive allowed s \<Longrightarrow> allowed e s \<Longrightarrow>
    exec maxQueue keepAlive e s = Next s' \<Longrightarrow> runs maxQueue keepAlive allowed s'"

end
