(* ===== verification/Scheduler_Safety.thy ===== *)
theory Scheduler_Safety
  imports Scheduler
begin

text \<open>
  Invariants of the scheduler. \<open>structural\<close> holds in every schedule: at most \<open>maxRunners\<close> runners are
  loaded, under distinct keys, and the loop of \<open>processPending\<close> never aborts the program. \<open>accounted\<close> says that a reference
  count is the number of requests that use the runner; it holds in the schedules that are \<open>calm\<close>: no
  runner is unloaded between the check and the use of it by a goroutine, and no process id is used twice.
\<close>

section \<open>Invariants of schedules\<close>

locale schedule_invariant =
  fixes maxQueue :: nat and keepAlive :: int and allowed :: "event \<Rightarrow> Scheduler \<Rightarrow> bool"
    and inv :: "Scheduler \<Rightarrow> bool"
  assumes initial: "inv InitScheduler"
    and preserved: "inv s \<Longrightarrow> allowed e s \<Longrightarrow> exec maxQueue keepAlive e s = Next s' \<Longrightarrow> inv s'"
begin

lemma always: "runs maxQueue keepAlive allowed s \<Longrightarrow> inv s"
  by (induction rule: runs.induct) (auto intro: initial preserved)

end

section \<open>Frames\<close>

lemma enqueue_eq:
  "enqueue q req s = s\<lparr>pendingReqCh := pendingReqCh (enqueue q req s), replies := replies (enqueue q req s)\<rparr>"
  by (simp add: enqueue_def)

lemma enqueue_pending: "set (pendingReqCh (enqueue q req s)) \<subseteq> insert req (set (pendingReqCh s))"
  by (auto simp: enqueue_def)

lemma expire_now_eq:
  "expire_now a s = s\<lparr>refs := (refs s)(a := (refs s a)\<lparr>expireTimer := False, sessionDuration := 0\<rparr>),
     expiredCh := (if refCount (refs s a) = 0 then expiredCh s @ [a] else expiredCh s)\<rparr>"
  by (simp add: expire_now_def set_ref_def)

text \<open>A reference that changed only in its timer and its duration.\<close>

definition same_use :: "runnerRef \<Rightarrow> runnerRef \<Rightarrow> bool" where
  "same_use r r' \<longleftrightarrow> r' = r\<lparr>expireTimer := expireTimer r', sessionDuration := sessionDuration r'\<rparr>"

lemma same_use_iff:
  "same_use r r' \<longleftrightarrow> refCount r' = refCount r \<and> pid r' = pid r \<and> loading r' = loading r \<and> gpus r' = gpus r \<and>
     discreteGPUs r' = discreteGPUs r \<and> vramSize r' = vramSize r \<and> totalSize r' = totalSize r \<and>
     run_model r' = run_model r \<and> modelPath r' = modelPath r \<and> modelKey r' = modelKey r \<and>
     run_Options r' = run_Options r \<and> closed r' = closed r"
  by (cases r; cases r') (auto simp: same_use_def)

lemma same_use_refl [simp]: "same_use r r"
  by (simp add: same_use_iff)

lemma same_use_trans: "same_use r r' \<Longrightarrow> same_use r' r'' \<Longrightarrow> same_use r r''"
  by (simp add: same_use_iff)

lemma expire_all_frame:
  "\<exists>R E. expire_all rs s = s\<lparr>refs := R, expiredCh := expiredCh s @ E\<rparr> \<and> (\<forall>a. same_use (refs s a) (R a)) \<and>
     set E \<subseteq> snd ` set rs"
proof (induction rs arbitrary: s)
  case Nil
  show ?case
    unfolding expire_all_def by (rule exI [of _ "refs s"], rule exI [of _ "[]"]) simp
next
  case (Cons x rs)
  obtain k a where x: "x = (k, a)" by (cases x)
  from Cons.IH [of "expire_now a s"] obtain R E where
    e: "expire_all rs (expire_now a s) = (expire_now a s)\<lparr>refs := R, expiredCh := expiredCh (expire_now a s) @ E\<rparr>"
    and R: "\<forall>b. same_use (refs (expire_now a s) b) (R b)" and E: "set E \<subseteq> snd ` set rs"
    by blast
  have "same_use (refs s b) (refs (expire_now a s) b)" for b
    by (simp add: expire_now_eq same_use_iff)
  with R have "\<forall>b. same_use (refs s b) (R b)" by (blast intro: same_use_trans)
  moreover have "expire_all (x # rs) s = expire_all rs (expire_now a s)"
    by (simp add: expire_all_def x)
  ultimately show ?case
    using e E by (intro exI [of _ R] exI [of _ "(if refCount (refs s a) = 0 then [a] else []) @ E"])
      (auto simp: expire_now_eq x)
qed

lemmas handler_defs = getRunner_def client_check_def client_use_def context_done_def finished_event_def
  expired_event_def timer_event_def expireRunner_def expireRunnersForRuntimeOOM_def pop_pending_def
  look_def check_pending_def use_pending_def choose_runner_def expire_chosen_def place_pending_def
  load_begin_def load_end_def start_ok_def start_failed_def receive_unloaded_def

lemmas effect_defs = set_ref_def useLoadedRunner_def go_idle_def expire_now_eq refuse_def need_evict_def Let_def

section \<open>Structure\<close>

fun loop_req :: "pending_loop \<Rightarrow> LlmRequest option" where
  "loop_req Idle = None"
| "loop_req (Trying req) = Some req"
| "loop_req (Checking req _) = Some req"
| "loop_req (Using req _) = Some req"
| "loop_req (Choosing req) = Some req"
| "loop_req (Placing req _) = Some req"
| "loop_req (Loading req _ _) = Some req"
| "loop_req (Expiring req _) = Some req"
| "loop_req (AwaitUnload req _) = Some req"

fun about_to_load :: "pending_loop \<Rightarrow> bool" where
  "about_to_load (Placing _ _) = True"
| "about_to_load (Loading _ _ _) = True"
| "about_to_load _ = False"

fun about_to_use :: "pending_loop \<Rightarrow> bool" where
  "about_to_use (Checking _ _) = True"
| "about_to_use (Using _ _) = True"
| "about_to_use _ = False"

definition fresh :: "LlmRequest \<Rightarrow> bool" where
  "fresh req \<longleftrightarrow> schedAttempts req = 0 \<and> \<not> oomRetryAttempted req"

definition loop_ok :: "Scheduler \<Rightarrow> bool" where
  "loop_ok s \<longleftrightarrow> (case loop_req (current s) of
      None \<Rightarrow> activeLoading s = None
    | Some req \<Rightarrow> schedAttempts req = 1 \<and> \<not> oomRetryAttempted req \<and>
        (about_to_load (current s) \<longrightarrow> map_of (loaded s) (req_key req) = None \<and> length (loaded s) < maxRunners) \<and>
        (activeLoading s \<noteq> None \<longrightarrow> activeLoading s = Some (wantPath req) \<and>
           map_of (loaded s) (req_key req) = None \<and> \<not> about_to_use (current s)))"

definition structural :: "Scheduler \<Rightarrow> bool" where
  "structural s \<longleftrightarrow> distinct (map fst (loaded s)) \<and> length (loaded s) \<le> maxRunners \<and>
     (\<forall>req \<in> set (pendingReqCh s). fresh req) \<and> (\<forall>p \<in> set (examining s). fresh (snd p)) \<and> loop_ok s"

lemma update_new: "map_of m k = None \<Longrightarrow> AList.update k v m = m @ [(k, v)]"
  by (induction m) (auto split: if_splits)

lemma delete_keeps_None: "map_of m k = None \<Longrightarrow> map_of (AList.delete k' m) k = None"
  by (simp add: delete_conv')

lemma structural_frame:
  assumes "structural s" "loaded s' = loaded s" "pendingReqCh s' = pendingReqCh s"
    "set (examining s') \<subseteq> set (examining s)" "current s' = current s" "activeLoading s' = activeLoading s"
  shows "structural s'"
  using assms by (auto simp: structural_def loop_ok_def split: option.splits)

lemma structural_enqueue:
  assumes "structural s" "fresh req"
  shows "structural (enqueue q req s)"
  using assms by (auto simp: structural_def loop_ok_def enqueue_def split: option.splits)

lemma structural_expire_all:
  assumes "structural s"
  shows "structural (expire_all rs s)"
proof -
  obtain R E where "expire_all rs s = s\<lparr>refs := R, expiredCh := expiredCh s @ E\<rparr>"
    using expire_all_frame [of rs s] by blast
  then show ?thesis using structural_frame [OF assms] by simp
qed

text \<open>The handlers that leave the table, the queue and the loop alone.\<close>

lemma structural_client:
  assumes "structural s"
  shows "getRunner q req s = Next s' \<Longrightarrow> structural s'"
    and "client_check q alive a req s = Next s' \<Longrightarrow> structural s'"
    and "client_use a req s = Next s' \<Longrightarrow> structural s'"
    and "context_done req s = Next s' \<Longrightarrow> structural s'"
proof -
  let ?req = "req\<lparr>schedAttempts := 0, oomRetryAttempted := False\<rparr>"
  have f: "fresh ?req" by (simp add: fresh_def)
  have "structural (s\<lparr>examining := examining s @ [(a, ?req)]\<rparr>)" for a
    using assms f by (auto simp: structural_def loop_ok_def split: option.splits)
  with structural_enqueue [OF assms f] show "getRunner q req s = Next s' \<Longrightarrow> structural s'"
    by (auto simp: getRunner_def Let_def split: if_splits option.splits)
next
  assume r: "client_check q alive a req s = Next s'"
  let ?s = "s\<lparr>examining := remove1 (a, req) (examining s)\<rparr>"
  have "structural ?s"
    by (rule structural_frame [OF assms]) (auto simp: set_remove1_subset)
  moreover have "structural (?s\<lparr>admitted := admitted s @ [(a, req)]\<rparr>)"
    by (rule structural_frame [OF calculation]) auto
  moreover have "fresh req" if "(a, req) \<in> set (examining s)"
    using that assms by (fastforce simp: structural_def)
  ultimately show "structural s'"
    using r structural_enqueue [of ?s req q] by (auto simp: client_check_def Let_def split: if_splits)
next
  show "client_use a req s = Next s' \<Longrightarrow> structural s'"
    by (rule structural_frame [OF assms]) (auto simp: client_use_def effect_defs split: if_splits)
  show "context_done req s = Next s' \<Longrightarrow> structural s'"
    by (rule structural_frame [OF assms]) (auto simp: context_done_def split: if_splits)
qed

lemma loop_ok_delete:
  assumes "loop_ok s"
  shows "loop_ok (s\<lparr>loaded := AList.delete k (loaded s)\<rparr>)"
  using assms length_delete_le [of k "loaded s"]
  by (auto simp: loop_ok_def delete_keeps_None split: option.splits)

lemma structural_completed:
  assumes "structural s"
  shows "finished_event req s = Next s' \<Longrightarrow> structural s'"
    and "expired_event a s = Next s' \<Longrightarrow> structural s'"
    and "timer_event a s = Next s' \<Longrightarrow> structural s'"
    and "expireRunner mdl s = Next s' \<Longrightarrow> structural s'"
    and "expireRunnersForRuntimeOOM oom s = Next s' \<Longrightarrow> structural s'"
    and "start_ok p a req s = Next s' \<Longrightarrow> structural s'"
    and "start_failed a req s = Next s' \<Longrightarrow> structural s'"
proof -
  show "expired_event a s = Next s' \<Longrightarrow> structural s'"
  proof -
    assume r: "expired_event a s = Next s'"
    have "structural (s\<lparr>loaded := AList.delete k (loaded s)\<rparr>)" for k
      using assms length_delete_le [of k "loaded s"]
      by (auto simp: structural_def loop_ok_delete intro: distinct_delete)
    from structural_frame [OF this] structural_frame [OF assms] show ?thesis
      using r by (auto simp: expired_event_def effect_defs split: if_splits option.splits)
  qed
  show "expireRunnersForRuntimeOOM oom s = Next s' \<Longrightarrow> structural s'"
    using assms structural_expire_all by (auto simp: expireRunnersForRuntimeOOM_def split: if_splits)
  show "finished_event req s = Next s' \<Longrightarrow> structural s'"
    by (rule structural_frame [OF assms])
      (auto simp: finished_event_def effect_defs split: if_splits option.splits)
  show "timer_event a s = Next s' \<Longrightarrow> structural s'"
    by (rule structural_frame [OF assms]) (auto simp: timer_event_def effect_defs split: if_splits)
  show "expireRunner mdl s = Next s' \<Longrightarrow> structural s'"
    by (rule structural_frame [OF assms])
      (auto simp: expireRunner_def effect_defs split: if_splits option.splits)
  show "start_ok p a req s = Next s' \<Longrightarrow> structural s'"
    by (rule structural_frame [OF assms]) (auto simp: start_ok_def effect_defs split: if_splits)
  show "start_failed a req s = Next s' \<Longrightarrow> structural s'"
    by (rule structural_frame [OF assms]) (auto simp: start_failed_def split: if_splits)
qed

lemma structural_goto:
  assumes "structural s" "loop_req c = loop_req (current s)" "loop_req c \<noteq> None"
    and "about_to_load c \<longrightarrow>
      map_of (loaded s) (req_key (the (loop_req c))) = None \<and> length (loaded s) < maxRunners"
    and "about_to_use c \<longrightarrow>
      about_to_use (current s) \<or> map_of (loaded s) (req_key (the (loop_req c))) \<noteq> None"
  shows "structural (s\<lparr>current := c\<rparr>)"
  using assms by (auto simp: structural_def loop_ok_def)

lemma structural_done:
  assumes "structural s"
  shows "structural (s\<lparr>activeLoading := None, current := Idle\<rparr>)"
  using assms by (simp add: structural_def loop_ok_def)

lemma structural_refuse: "structural s \<Longrightarrow> structural (refuse req (s\<lparr>activeLoading := None\<rparr>))"
  by (drule structural_done) (simp add: refuse_def structural_def loop_ok_def)

lemma structural_need_evict:
  assumes "structural s" "loop_req (current s) = Some req"
  shows "structural (need_evict n req s)"
proof -
  have "\<not> oomRetryAttempted req" using assms by (simp add: structural_def loop_ok_def)
  then show ?thesis using assms by (simp add: need_evict_def structural_goto)
qed

lemma structural_loop_req:
  assumes "structural s" "loop_req (current s) = Some req"
  shows "schedAttempts req = 1"
    and "about_to_load (current s) \<Longrightarrow> map_of (loaded s) (req_key req) = None \<and> length (loaded s) < maxRunners"
    and "about_to_use (current s) \<Longrightarrow> activeLoading s = None"
    and "activeLoading s = Some path \<Longrightarrow> path = wantPath req"
  using assms by (auto simp: structural_def loop_ok_def)

text \<open>The steps of \<open>processPending\<close>.\<close>

lemma structural_pop:
  assumes "structural s" "pop_pending s = Next s'"
  shows "structural s'"
  using assms by (auto simp: pop_pending_def structural_def loop_ok_def fresh_def split: pending_loop.splits list.splits)

lemma structural_look:
  assumes "structural s"
  shows "look s \<noteq> Crash" and "look s = Next s' \<Longrightarrow> structural s'"
proof -
  have a: "schedAttempts req = 1" if "current s = Trying req" for req
    using structural_loop_req(1) [OF assms] that by simp
  then show "look s \<noteq> Crash"
    by (cases "current s") (auto simp: look_def split: option.split)
  show "look s = Next s' \<Longrightarrow> structural s'"
    using assms a
    by (cases "current s") (auto simp: look_def structural_goto split: option.splits if_splits)
qed

lemma structural_check_pending:
  assumes "structural s" "check_pending alive s = Next s'"
  shows "structural s'"
  using assms by (cases "current s") (auto simp: check_pending_def structural_goto split: if_splits)

lemma structural_use_pending:
  assumes "structural s" "use_pending s = Next s'"
  shows "structural s'"
proof -
  from assms(2) obtain req a where c: "current s = Using req a"
    and s': "s' = (useLoadedRunner a req s)\<lparr>current := Idle\<rparr>"
    by (cases "current s") (auto simp: use_pending_def split: if_splits)
  have "activeLoading s = None" using structural_loop_req(3) [OF assms(1)] c by simp
  then show ?thesis
    by (intro structural_frame [OF structural_done [OF assms(1)]]) (auto simp: s' effect_defs)
qed

lemma structural_choose_runner:
  assumes "structural s" "choose_runner s = Next s'"
  shows "structural s'"
  using assms
  by (cases "current s") (auto simp: choose_runner_def structural_goto split: if_splits option.splits)

lemma structural_expire_chosen:
  assumes "structural s" "expire_chosen s = Next s'"
  shows "structural s'"
proof -
  from assms(2) obtain req a where c: "current s = Expiring req a"
    and s': "s' = (expire_now a s)\<lparr>current := AwaitUnload req 1\<rparr>"
    by (cases "current s") (auto simp: expire_chosen_def split: if_splits)
  have "structural (s\<lparr>current := AwaitUnload req 1\<rparr>)"
    using assms(1) c by (simp add: structural_goto)
  then show ?thesis by (rule structural_frame) (auto simp: s' effect_defs)
qed

lemma structural_receive_unloaded:
  assumes "structural s" "receive_unloaded s = Next s'"
  shows "structural s'"
proof -
  have s: "structural (s\<lparr>unloadedCh := n\<rparr>)" for n
    by (rule structural_frame [OF assms(1)]) auto
  show ?thesis
    using assms(2) s
    by (cases "current s") (auto simp: receive_unloaded_def structural_goto Let_def split: if_splits)
qed

lemma structural_place:
  assumes "structural s"
  shows "place_pending devs vram ans s \<noteq> Crash"
    and "place_pending devs vram ans s = Next s' \<Longrightarrow> structural s'"
proof -
  have p: "path = wantPath req" if "current s = Placing req n" "activeLoading s = Some path" for req n path
    using structural_loop_req(4) [OF assms] that by simp
  then show "place_pending devs vram ans s \<noteq> Crash"
    by (cases "current s") (auto simp: place_pending_def load_begin_def Let_def split: option.splits)
  assume r: "place_pending devs vram ans s = Next s'"
  then obtain req n ds where c: "current s = Placing req n" and l: "load_begin ds n ans req s = Next s'"
    by (cases "current s") (auto simp: place_pending_def Let_def split: if_splits)
  note l_req = structural_loop_req(2) [OF assms, of req]
  have load: "structural (s\<lparr>current := Loading req ds b\<rparr>)" for b
    using assms c l_req by (simp add: structural_goto)
  have start: "structural (s\<lparr>activeLoading := Some (wantPath req), current := Loading req ds b\<rparr>)" for b
    using load [of b] by (auto simp: structural_def loop_ok_def)
  have "structural (refuse req s)" if "activeLoading s = None"
    by (rule structural_frame [OF structural_refuse [OF assms, of req]]) (use that in \<open>auto simp: refuse_def\<close>)
  moreover have "structural (s\<lparr>current := Idle, mu_held := True\<rparr>)" if "activeLoading s = None"
    by (rule structural_frame [OF structural_done [OF assms]]) (use that in auto)
  ultimately show "structural s'"
    using l load start structural_need_evict [OF assms] c
    by (auto simp: load_begin_def split: option.splits if_splits)
qed

lemma structural_install:
  assumes "structural s" "current s = Loading req ds b"
  shows "structural (install (new_runner ka ds req p ids sz vram ctx) req s)"
proof -
  have l: "map_of (loaded s) (req_key req) = None" "length (loaded s) < maxRunners"
    using structural_loop_req(2) [OF assms(1)] assms(2) by auto
  then have u: "AList.update (req_key req) a (loaded s) = loaded s @ [(req_key req, a)]" for a
    by (simp add: update_new)
  have "req_key req \<notin> fst ` set (loaded s)" using l(1) by (simp add: map_of_eq_None_iff)
  then show ?thesis
    using assms(1) l by (auto simp: structural_def loop_ok_def install_def new_runner_def u Let_def)
qed

lemma structural_load_end:
  assumes "structural s" "load_end ka ans s = Next s'"
  shows "structural s'"
proof -
  from assms(2) obtain req ds b where c: "current s = Loading req ds b"
    by (cases "current s") (auto simp: load_end_def)
  show ?thesis
    using assms(2) structural_refuse [OF assms(1)] structural_need_evict [OF assms(1)]
      structural_install [OF assms(1) c] c
    by (cases ans) (auto simp: load_end_def split: if_splits)
qed

text \<open>No handler but the ones of the loop can abort the program.\<close>

lemmas crash_defs = getRunner_def client_check_def client_use_def context_done_def finished_event_def
  expired_event_def timer_event_def expireRunner_def expireRunnersForRuntimeOOM_def pop_pending_def
  check_pending_def use_pending_def choose_runner_def expire_chosen_def load_end_def start_ok_def
  start_failed_def receive_unloaded_def

lemma other_handlers_return:
  "getRunner q req s \<noteq> Crash" "client_check q alive a req s \<noteq> Crash" "client_use a req s \<noteq> Crash"
  "context_done req s \<noteq> Crash" "finished_event req s \<noteq> Crash" "expired_event a s \<noteq> Crash"
  "timer_event a s \<noteq> Crash" "expireRunner mdl s \<noteq> Crash" "expireRunnersForRuntimeOOM oom s \<noteq> Crash"
  "pop_pending s \<noteq> Crash" "check_pending alive s \<noteq> Crash" "use_pending s \<noteq> Crash"
  "choose_runner s \<noteq> Crash" "expire_chosen s \<noteq> Crash" "load_end ka ans s \<noteq> Crash"
  "start_ok p a req s \<noteq> Crash" "start_failed a req s \<noteq> Crash" "receive_unloaded s \<noteq> Crash"
  by (simp_all add: crash_defs Let_def split: option.split pending_loop.split list.split load_answer.split)

lemma structural_exec:
  assumes "structural s"
  shows "exec q ka e s \<noteq> Crash" and "exec q ka e s = Next s' \<Longrightarrow> structural s'"
proof -
  show "exec q ka e s \<noteq> Crash"
    using structural_look(1) [OF assms] structural_place(1) [OF assms] other_handlers_return
    by (cases e) simp_all
  assume "exec q ka e s = Next s'"
  then show "structural s'"
    by (cases e)
      (auto dest: structural_client [OF assms] structural_completed [OF assms] structural_pop [OF assms]
        structural_look(2) [OF assms] structural_check_pending [OF assms] structural_use_pending [OF assms]
        structural_choose_runner [OF assms] structural_expire_chosen [OF assms]
        structural_place(2) [OF assms] structural_load_end [OF assms] structural_receive_unloaded [OF assms])
qed

lemma structural_init: "structural InitScheduler"
  by (simp add: structural_def loop_ok_def InitScheduler_def)

interpretation structured: schedule_invariant q ka "\<lambda>_ _. True" structural for q ka
  by unfold_locales (auto intro: structural_init structural_exec(2))

section \<open>Accounting\<close>

text \<open>The requests that use the runner of a key: their contexts have not ended, or their end has not been
  processed.\<close>

definition users :: "string \<Rightarrow> Scheduler \<Rightarrow> nat" where
  "users k s = length (filter (\<lambda>req. req_key req = k) (waiting s @ finishedReqCh s))"

text \<open>The goroutines that have found a runner, that were told it is usable, and the runners about to
  expire.\<close>

definition seen :: "Scheduler \<Rightarrow> (nat \<times> LlmRequest) set" where
  "seen s = set (examining s) \<union> (case current s of Checking req a \<Rightarrow> {(a, req)} | _ \<Rightarrow> {})"

definition entitled :: "Scheduler \<Rightarrow> (nat \<times> LlmRequest) set" where
  "entitled s = set (admitted s) \<union> (case current s of Using req a \<Rightarrow> {(a, req)} | _ \<Rightarrow> {})"

definition dying :: "Scheduler \<Rightarrow> nat set" where
  "dying s = set (expiredCh s) \<union> (case current s of Expiring req a \<Rightarrow> {a} | _ \<Rightarrow> {})"

fun calm :: "event \<Rightarrow> Scheduler \<Rightarrow> bool" where
  "calm (Expired a) s \<longleftrightarrow> refCount (refs s a) = 0 \<longrightarrow> a \<notin> fst ` entitled s"
| "calm (LoadEnd (LoadOK p _ _ _ _)) s \<longleftrightarrow> p \<notin> (\<lambda>b. pid (refs s b)) ` {..<next_ref s}"
| "calm (StartOK p a _) s \<longleftrightarrow> pid (refs s a) < 0 \<longrightarrow> p \<notin> (\<lambda>b. pid (refs s b)) ` {..<next_ref s}"
| "calm _ s \<longleftrightarrow> True"

abbreviation holds :: "Scheduler \<Rightarrow> nat \<Rightarrow> bool" where
  "holds s a \<equiv> map_of (loaded s) (modelKey (refs s a)) = Some a"

definition counted :: "Scheduler \<Rightarrow> bool" where
  "counted s \<longleftrightarrow>
     (\<forall>k a. map_of (loaded s) k = Some a \<longrightarrow> a < next_ref s \<and> modelKey (refs s a) = k \<and>
        refCount (refs s a) = users k s) \<and>
     (\<forall>k. map_of (loaded s) k = None \<longrightarrow> users k s = 0)"

definition lifecycle :: "Scheduler \<Rightarrow> bool" where
  "lifecycle s \<longleftrightarrow> inj_on (\<lambda>a. pid (refs s a)) {..<next_ref s} \<and>
     (\<forall>a < next_ref s. if holds s a then \<not> closed (refs s a)
        else closed (refs s a) \<and> run_Options (refs s a) = None \<and> refCount (refs s a) = 0)"

definition known :: "Scheduler \<Rightarrow> (nat \<times> LlmRequest) set" where
  "known s = {(a, req). a < next_ref s \<and> modelKey (refs s a) = req_key req}"

definition serving :: "Scheduler \<Rightarrow> (nat \<times> LlmRequest) set" where
  "serving s = {(a, req). map_of (loaded s) (req_key req) = Some a}"

definition traced :: "Scheduler \<Rightarrow> bool" where
  "traced s \<longleftrightarrow> seen s \<subseteq> known s \<and> entitled s \<union> set (starting s) \<subseteq> serving s \<and> dying s \<subseteq> {..<next_ref s}"

definition accounted :: "Scheduler \<Rightarrow> bool" where
  "accounted s \<longleftrightarrow> distinct (map fst (loaded s)) \<and> counted s \<and> lifecycle s \<and> traced s"

lemma filter_remove1:
  "x \<in> set xs \<Longrightarrow> length (filter P xs) = length (filter P (remove1 x xs)) + (if P x then 1 else 0)"
  by (induction xs) auto

lemma accounted_init: "accounted InitScheduler"
  by (simp add: accounted_def counted_def lifecycle_def traced_def InitScheduler_def users_def seen_def
      entitled_def dying_def)

text \<open>The frame rule: the table, the counts and the process ids are unchanged.\<close>

lemma accounted_frame:
  assumes "accounted s" "loaded s' = loaded s" "next_ref s' = next_ref s"
    and use: "\<And>a. same_use (refs s a) (refs s' a)"
    and users: "\<And>k. users k s' = users k s"
    and "seen s' \<subseteq> known s" "entitled s' \<union> set (starting s') \<subseteq> serving s" "dying s' \<subseteq> {..<next_ref s}"
  shows "accounted s'"
proof -
  have [simp]: "pid (refs s' a) = pid (refs s a)" "modelKey (refs s' a) = modelKey (refs s a)"
    "refCount (refs s' a) = refCount (refs s a)" "closed (refs s' a) = closed (refs s a)"
    "run_Options (refs s' a) = run_Options (refs s a)" for a
    using use [of a] by (simp_all add: same_use_iff)
  have "counted s'" using assms(1) by (simp add: accounted_def counted_def assms(2,3) users)
  moreover have "lifecycle s'" using assms(1) by (simp add: accounted_def lifecycle_def assms(2,3))
  moreover have "traced s'" using assms(6-8) by (simp add: traced_def known_def serving_def assms(2,3))
  ultimately show ?thesis using assms(1,2) by (simp add: accounted_def)
qed

lemma accountedD:
  assumes "accounted s"
  shows "seen s \<subseteq> known s" and "entitled s \<union> set (starting s) \<subseteq> serving s" and "dying s \<subseteq> {..<next_ref s}"
    and "map_of (loaded s) k = Some a \<Longrightarrow> a < next_ref s \<and> modelKey (refs s a) = k \<and> refCount (refs s a) = users k s"
    and "map_of (loaded s) k = None \<Longrightarrow> users k s = 0"
    and "a < next_ref s \<Longrightarrow> run_Options (refs s a) \<noteq> None \<Longrightarrow> holds s a"
    and "a < next_ref s \<Longrightarrow> closed (refs s a) \<longleftrightarrow> \<not> holds s a"
    and "a < next_ref s \<Longrightarrow> b < next_ref s \<Longrightarrow> pid (refs s a) = pid (refs s b) \<Longrightarrow> a = b"
proof -
  have c: "counted s" and l: "lifecycle s" and t: "traced s" using assms by (simp_all add: accounted_def)
  show "seen s \<subseteq> known s" "entitled s \<union> set (starting s) \<subseteq> serving s" "dying s \<subseteq> {..<next_ref s}"
    using t by (simp_all add: traced_def)
  show "map_of (loaded s) k = Some a \<Longrightarrow> a < next_ref s \<and> modelKey (refs s a) = k \<and> refCount (refs s a) = users k s"
    using c by (simp add: counted_def)
  show "map_of (loaded s) k = None \<Longrightarrow> users k s = 0" using c by (simp add: counted_def)
  show "a < next_ref s \<Longrightarrow> run_Options (refs s a) \<noteq> None \<Longrightarrow> holds s a"
    "a < next_ref s \<Longrightarrow> closed (refs s a) \<longleftrightarrow> \<not> holds s a"
    using l by (metis lifecycle_def)+
  show "a < next_ref s \<Longrightarrow> b < next_ref s \<Longrightarrow> pid (refs s a) = pid (refs s b) \<Longrightarrow> a = b"
    using l by (simp add: lifecycle_def inj_on_def)
qed

lemma inj_on_point:
  assumes "inj_on f A" "v = f a \<or> v \<notin> f ` A"
  shows "inj_on (\<lambda>b. if b = a then v else f b) A"
  using assms by (auto simp: inj_on_def image_iff)

text \<open>A runner gets one more user, or one less; its process id may become known.\<close>

lemma accounted_recount:
  assumes acc: "accounted s" and h: "map_of (loaded s) k = Some a"
    and same: "loaded s' = loaded s" "next_ref s' = next_ref s" "refs s' = (refs s)(a := r)"
    and r: "modelKey r = k" "closed r = closed (refs s a)" "run_Options r = run_Options (refs s a)"
    and p: "pid r = pid (refs s a) \<or> pid r \<notin> (\<lambda>b. pid (refs s b)) ` {..<next_ref s}"
    and n: "refCount r = users k s'" "\<And>k'. k' \<noteq> k \<Longrightarrow> users k' s' = users k' s"
    and g: "seen s' \<subseteq> seen s" "entitled s' \<union> set (starting s') \<subseteq> entitled s \<union> set (starting s)"
      "dying s' \<subseteq> insert a (dying s)"
  shows "accounted s'"
proof -
  note D = accountedD [OF acc]
  have a: "a < next_ref s" "modelKey (refs s a) = k" using D(4) [OF h] by auto
  have key [simp]: "modelKey (refs s' b) = modelKey (refs s b)" for b using same(3) a(2) r(1) by simp
  have "counted s'"
    unfolding counted_def same
  proof (intro conjI allI impI)
    fix k' b assume b: "map_of (loaded s) k' = Some b"
    note Db = D(4) [OF b]
    show "b < next_ref s" using Db by simp
    show "modelKey (((refs s)(a := r)) b) = k'" using Db a r(1) by auto
    show "refCount (((refs s)(a := r)) b) = users k' s'"
      using Db a n h b by (cases "b = a"; cases "k' = k") auto
  next
    fix k' assume "map_of (loaded s) k' = None"
    then show "users k' s' = 0" using D(5) n(2) h by (metis option.distinct(1))
  qed
  moreover have "lifecycle s'"
  proof -
    have "inj_on (\<lambda>b. pid (refs s b)) {..<next_ref s}" using acc by (simp add: accounted_def lifecycle_def)
    then have "inj_on (\<lambda>b. pid (refs s' b)) {..<next_ref s}"
      using inj_on_point [OF _ p] by (simp add: same(3) fun_upd_def if_distrib [of pid])
    moreover have "if holds s' b then \<not> closed (refs s' b)
        else closed (refs s' b) \<and> run_Options (refs s' b) = None \<and> refCount (refs s' b) = 0"
      if "b < next_ref s" for b
    proof (cases "b = a")
      case True
      then show ?thesis using D(7) [OF a(1)] h a(2) r(1,2) by (simp add: same)
    next
      case False
      then show ?thesis using acc that by (simp add: accounted_def lifecycle_def same)
    qed
    ultimately show ?thesis by (simp add: lifecycle_def same(2))
  qed
  moreover have "traced s'"
  proof -
    have "known s' = known s" "serving s' = serving s"
      using key by (simp_all add: known_def serving_def same(1,2))
    with D(1,2) g(1,2) have "seen s' \<subseteq> known s'" "entitled s' \<union> set (starting s') \<subseteq> serving s'"
      by auto
    moreover have "dying s' \<subseteq> {..<next_ref s'}"
      using D(3) g(3) a(1) by (auto simp: same(2))
    ultimately show ?thesis by (simp add: traced_def)
  qed
  ultimately show ?thesis using acc by (simp add: accounted_def same(1))
qed

lemma in_remove1D: "x \<in> set (remove1 y xs) \<Longrightarrow> x \<in> set xs"
  by (meson notin_set_remove1)

lemma accounted_loaded:
  assumes "accounted s" "(k, a) \<in> set (loaded s)"
  shows "map_of (loaded s) k = Some a" "a < next_ref s"
proof -
  show "map_of (loaded s) k = Some a" using assms by (simp add: accounted_def)
  then show "a < next_ref s" using accountedD(4) [OF assms(1)] by blast
qed

text \<open>A state that differs only in the queues, the replies, the timers, and the loop outside the three
  phases in which it holds a runner.\<close>

fun holds_runner :: "pending_loop \<Rightarrow> bool" where
  "holds_runner (Checking _ _) = True"
| "holds_runner (Using _ _) = True"
| "holds_runner (Expiring _ _) = True"
| "holds_runner _ = False"

lemma idle_sets:
  assumes "\<not> holds_runner c"
  shows "seen (s\<lparr>current := c\<rparr>) = set (examining s)" "entitled (s\<lparr>current := c\<rparr>) = set (admitted s)"
    "dying (s\<lparr>current := c\<rparr>) = set (expiredCh s)"
  using assms by (cases c; simp add: seen_def entitled_def dying_def)+

lemma accounted_goto:
  assumes "accounted s" "\<not> holds_runner c"
  shows "accounted (s\<lparr>current := c\<rparr>)"
  using accountedD(1-3) [OF assms(1)]
  by (intro accounted_frame [OF assms(1)])
    (auto simp: users_def idle_sets [OF assms(2)] seen_def [of s] entitled_def [of s] dying_def [of s])

lemma accounted_ignores:
  assumes "accounted s"
  shows "accounted (s\<lparr>pendingReqCh := q\<rparr>)" "accounted (s\<lparr>replies := r\<rparr>)" "accounted (s\<lparr>unloadedCh := n\<rparr>)"
    "accounted (s\<lparr>activeLoading := l\<rparr>)" "accounted (s\<lparr>mu_held := b\<rparr>)"
proof -
  have same: "accounted s'" if "loaded s' = loaded s" "next_ref s' = next_ref s" "refs s' = refs s"
    "waiting s' = waiting s" "finishedReqCh s' = finishedReqCh s" "examining s' = examining s"
    "admitted s' = admitted s" "starting s' = starting s" "expiredCh s' = expiredCh s"
    "current s' = current s" for s'
  proof -
    have "users k s' = users k s" "seen s' = seen s" "entitled s' = entitled s" "dying s' = dying s" for k
      by (simp_all add: users_def seen_def entitled_def dying_def that)
    then show ?thesis using accountedD(1-3) [OF assms] that by (intro accounted_frame [OF assms]) auto
  qed
  show "accounted (s\<lparr>pendingReqCh := q\<rparr>)" "accounted (s\<lparr>replies := r\<rparr>)" "accounted (s\<lparr>unloadedCh := n\<rparr>)"
    "accounted (s\<lparr>activeLoading := l\<rparr>)" "accounted (s\<lparr>mu_held := b\<rparr>)"
    by (rule same; simp)+
qed

lemma accounted_enqueue: "accounted s \<Longrightarrow> accounted (enqueue q req s)"
  by (simp add: enqueue_def accounted_ignores)

lemma accounted_retime:
  assumes "accounted s" "\<And>a. same_use (refs s a) (R a)" "set E \<subseteq> {..<next_ref s}"
  shows "accounted (s\<lparr>refs := R, expiredCh := expiredCh s @ E\<rparr>)"
  using accountedD(1-3) [OF assms(1)] assms(2,3)
  by (intro accounted_frame [OF assms(1)]) (auto simp: users_def seen_def entitled_def dying_def)

lemma accounted_expire_now:
  assumes "accounted s" "a < next_ref s"
  shows "accounted (expire_now a s)"
proof -
  have e: "expire_now a s = s\<lparr>refs := (refs s)(a := (refs s a)\<lparr>expireTimer := False, sessionDuration := 0\<rparr>),
      expiredCh := expiredCh s @ (if refCount (refs s a) = 0 then [a] else [])\<rparr>"
    by (simp add: expire_now_eq)
  show ?thesis unfolding e by (rule accounted_retime) (use assms in \<open>auto simp: same_use_iff\<close>)
qed

lemma accounted_expire_all:
  assumes "accounted s" "set rs \<subseteq> set (loaded s)"
  shows "accounted (expire_all rs s)"
proof -
  obtain R E where e: "expire_all rs s = s\<lparr>refs := R, expiredCh := expiredCh s @ E\<rparr>"
    "\<forall>a. same_use (refs s a) (R a)" "set E \<subseteq> snd ` set rs"
    using expire_all_frame [of rs s] by blast
  have "set E \<subseteq> {..<next_ref s}"
    using e(3) assms(2) accounted_loaded(2) [OF assms(1)] by fastforce
  then show ?thesis using e accounted_retime [OF assms(1)] by simp
qed

text \<open>Clients.\<close>

lemma usable_holds:
  assumes "accounted s" "a < next_ref s" "\<not> needsReload alive (refs s a) req"
  shows "holds s a"
proof -
  have "run_Options (refs s a) \<noteq> None" using assms(3) by (auto simp: needsReload_def split: option.splits)
  then show ?thesis by (rule accountedD(6) [OF assms(1,2)])
qed

lemma accounted_getRunner:
  assumes "accounted s" "getRunner q req s = Next s'"
  shows "accounted s'"
proof -
  let ?req = "req\<lparr>schedAttempts := 0, oomRetryAttempted := False\<rparr>"
  have "(a, ?req) \<in> known s" if "map_of (loaded s) (req_key ?req) = Some a" for a
    using accountedD(4) [OF assms(1) that] by (simp add: known_def)
  then have "accounted (s\<lparr>examining := examining s @ [(a, ?req)]\<rparr>)" if "map_of (loaded s) (req_key ?req) = Some a" for a
    using accountedD(1-3) [OF assms(1)] that
    by (intro accounted_frame [OF assms(1)]) (auto simp: users_def seen_def entitled_def dying_def)
  then show ?thesis
    using assms accounted_enqueue by (auto simp: getRunner_def Let_def split: if_splits option.splits)
qed

lemma accounted_client_check:
  assumes "accounted s" "client_check q alive a req s = Next s'"
  shows "accounted s'"
proof -
  let ?s = "s\<lparr>examining := remove1 (a, req) (examining s)\<rparr>"
  note D = accountedD [OF assms(1)]
  have 1: "accounted ?s"
    using D(1-3) by (intro accounted_frame [OF assms(1)])
      (auto simp: users_def seen_def entitled_def dying_def dest: in_remove1D)
  have in_s: "(a, req) \<in> seen s" using assms(2) by (auto simp: client_check_def seen_def split: if_splits)
  have "accounted (?s\<lparr>admitted := admitted s @ [(a, req)]\<rparr>)" if u: "\<not> needsReload alive (refs s a) req"
  proof -
    have "a < next_ref s" "modelKey (refs s a) = req_key req"
      using subsetD [OF D(1) in_s] by (simp_all add: known_def)
    with usable_holds [OF assms(1) _ u] have "(a, req) \<in> serving ?s" by (simp add: serving_def)
    then show ?thesis using accountedD(1-3) [OF 1]
      by (intro accounted_frame [OF 1]) (auto simp: users_def seen_def entitled_def dying_def)
  qed
  with 1 show ?thesis
    using assms(2) accounted_enqueue [OF 1] by (auto simp: client_check_def Let_def split: if_splits)
qed

lemma accounted_context_done:
  assumes "accounted s" "context_done req s = Next s'"
  shows "accounted s'"
proof -
  have s': "req \<in> set (waiting s)"
    "s' = s\<lparr>waiting := remove1 req (waiting s), finishedReqCh := finishedReqCh s @ [req]\<rparr>"
    using assms(2) by (auto simp: context_done_def split: if_splits)
  show ?thesis
    using accountedD(1-3) [OF assms(1)] filter_remove1 [OF s'(1)]
    by (intro accounted_frame [OF assms(1)])
      (auto simp: s'(2) users_def seen_def entitled_def dying_def)
qed

lemma useLoadedRunner_sets [simp]:
  "seen (useLoadedRunner a req s) = seen s" "entitled (useLoadedRunner a req s) = entitled s"
  "dying (useLoadedRunner a req s) = dying s" "starting (useLoadedRunner a req s) = starting s"
  by (simp_all add: useLoadedRunner_def set_ref_def seen_def entitled_def dying_def)

lemma users_useLoadedRunner:
  "users k (useLoadedRunner a req s) = users k s + (if req_key req = k then 1 else 0)"
  by (simp add: useLoadedRunner_def set_ref_def users_def)

lemma accounted_use:
  assumes "accounted s" "(a, req) \<in> entitled s"
    and same: "loaded s' = loaded s" "next_ref s' = next_ref s" "refs s' = refs s" "starting s' = starting s"
      "\<And>k. users k s' = users k s"
    and "seen s' \<subseteq> seen s" "entitled s' \<subseteq> entitled s" "dying s' \<subseteq> dying s"
  shows "accounted (useLoadedRunner a req s')"
proof -
  have h: "map_of (loaded s) (req_key req) = Some a"
    using accountedD(2) [OF assms(1)] assms(2) by (auto simp: serving_def)
  let ?r = "refs (useLoadedRunner a req s') a"
  have r: "refs (useLoadedRunner a req s') = (refs s)(a := ?r)" "modelKey ?r = req_key req"
    "closed ?r = closed (refs s a)" "run_Options ?r = run_Options (refs s a)" "pid ?r = pid (refs s a)"
    "refCount ?r = refCount (refs s a) + 1"
    "loaded (useLoadedRunner a req s') = loaded s" "next_ref (useLoadedRunner a req s') = next_ref s"
    using accountedD(4) [OF assms(1) h] by (simp_all add: useLoadedRunner_def set_ref_def same)
  show ?thesis
    by (rule accounted_recount [OF assms(1) h r(7,8,1-4)])
      (use r(5,6) accountedD(4) [OF assms(1) h] assms(8-) in
        \<open>auto simp: users_useLoadedRunner same simp del: fun_upd_apply\<close>)
qed

lemma accounted_client_use:
  assumes "accounted s" "client_use a req s = Next s'"
  shows "accounted s'"
proof -
  let ?s = "s\<lparr>admitted := remove1 (a, req) (admitted s)\<rparr>"
  have e: "(a, req) \<in> entitled s" and s': "s' = useLoadedRunner a req ?s"
    using assms(2) by (auto simp: client_use_def entitled_def split: if_splits)
  show ?thesis
    unfolding s'
    by (rule accounted_use [OF assms(1) e])
      (auto simp: users_def seen_def entitled_def dying_def dest: in_remove1D)
qed

text \<open>Completed requests and expiry.\<close>

lemma go_idle_sets [simp]:
  "seen (go_idle a s) = seen s" "entitled (go_idle a s) = entitled s" "starting (go_idle a s) = starting s"
  "dying (go_idle a s) \<subseteq> insert a (dying s)" "loaded (go_idle a s) = loaded s"
  "next_ref (go_idle a s) = next_ref s" "users k (go_idle a s) = users k s"
  by (auto simp: go_idle_def set_ref_def seen_def entitled_def dying_def users_def)

lemma go_idle_refs:
  "refs (go_idle a s) = (refs s)(a := (refs s a)\<lparr>expireTimer := sessionDuration (refs s a) > 0\<rparr>)"
  by (simp add: go_idle_def set_ref_def)

lemma accounted_finished:
  assumes "accounted s" "finished_event req s = Next s'"
  shows "accounted s'"
proof -
  let ?s = "s\<lparr>finishedReqCh := remove1 req (finishedReqCh s)\<rparr>"
  have m: "req \<in> set (finishedReqCh s)" using assms(2) by (auto simp: finished_event_def split: if_splits)
  have u: "users k s = users k ?s + (if req_key req = k then 1 else 0)" for k
    using filter_remove1 [OF m] by (simp add: users_def)
  show ?thesis
  proof (cases "map_of (loaded s) (req_key req)")
    case None
    with u [of "req_key req"] accountedD(5) [OF assms(1)] show ?thesis by simp
  next
    case (Some a)
    let ?d = "set_ref a (\<lambda>r. r\<lparr>refCount := dec (refCount r)\<rparr>) ?s"
    note D = accountedD(4) [OF assms(1) Some]
    have c: "refCount (refs s a) = Suc (users (req_key req) ?s)" using D u [of "req_key req"] by simp
    have s': "s' = (if refCount (refs ?d a) = 0 then go_idle a ?d else ?d)"
      using assms(2) Some by (auto simp: finished_event_def Let_def split: if_splits)
    have k: "users k ?d = users k ?s" for k by (simp add: set_ref_def users_def)
    have sets: "seen ?d = seen s" "entitled ?d = entitled s" "dying ?d = dying s" "starting ?d = starting s"
      "loaded ?d = loaded s" "next_ref ?d = next_ref s"
      by (simp_all add: set_ref_def seen_def entitled_def dying_def)
    have r: "refs s' = (refs s)(a := refs s' a)" "modelKey (refs s' a) = req_key req"
      "closed (refs s' a) = closed (refs s a)" "run_Options (refs s' a) = run_Options (refs s a)"
      "pid (refs s' a) = pid (refs s a)" "refCount (refs s' a) = dec (refCount (refs s a))"
      using D by (simp_all add: s' go_idle_refs set_ref_def)
    show ?thesis
      by (rule accounted_recount [OF assms(1) Some _ _ r(1-4)])
        (use r(5,6) c u sets k in \<open>auto simp: s' dec_def dest: subsetD [OF go_idle_sets(4)]\<close>)
  qed
qed

lemma accounted_orphan:
  assumes acc: "accounted s" and a: "a < next_ref s" "\<not> holds s a" and s': "s' = set_ref a unload s"
  shows "accounted s'"
proof -
  have r: "modelKey (refs s' b) = modelKey (refs s b)" "pid (refs s' b) = pid (refs s b)"
    "refCount (refs s' b) = refCount (refs s b)" "users k s' = users k s" "seen s' = seen s"
    "entitled s' = entitled s" "dying s' = dying s" "starting s' = starting s" "next_ref s' = next_ref s"
    "loaded s' = loaded s" for b k
    by (simp_all add: s' set_ref_def unload_def users_def seen_def entitled_def dying_def)
  have c: "closed (refs s' b) \<longleftrightarrow> b = a \<or> closed (refs s b)"
    "run_Options (refs s' b) = (if b = a then None else run_Options (refs s b))" for b
    by (simp_all add: s' set_ref_def unload_def)
  have "counted s'" using acc by (simp add: accounted_def counted_def r)
  moreover have "lifecycle s'" using acc a by (auto simp: accounted_def lifecycle_def r c)
  moreover have "traced s'" using accountedD(1-3) [OF acc] by (simp add: traced_def known_def serving_def r)
  ultimately show ?thesis using acc by (simp add: accounted_def r)
qed

lemma accounted_unload:
  assumes acc: "accounted s" and a: "a < next_ref s" "holds s a" "refCount (refs s a) = 0"
    "a \<notin> fst ` entitled s" "a \<notin> fst ` set (starting s)"
    and s': "s' = (set_ref a unload s)\<lparr>loaded := AList.delete (modelKey (refs s a)) (loaded s), unloadedCh := n\<rparr>"
  shows "accounted s'"
proof -
  note D = accountedD [OF acc]
  have r: "modelKey (refs s' b) = modelKey (refs s b)" "pid (refs s' b) = pid (refs s b)"
    "refCount (refs s' b) = refCount (refs s b)" "users k s' = users k s" "seen s' = seen s"
    "entitled s' = entitled s" "dying s' = dying s" "starting s' = starting s" "next_ref s' = next_ref s" for b k
    by (simp_all add: s' set_ref_def unload_def users_def seen_def entitled_def dying_def)
  have c: "closed (refs s' b) \<longleftrightarrow> b = a \<or> closed (refs s b)"
    "run_Options (refs s' b) = (if b = a then None else run_Options (refs s b))" for b
    by (simp_all add: s' set_ref_def unload_def)
  have l: "map_of (loaded s') k = (if k = modelKey (refs s a) then None else map_of (loaded s) k)" for k
    by (simp add: s' delete_conv')
  have u: "users (modelKey (refs s a)) s = 0" using D(4) [OF a(2)] a(3) by simp
  have "counted s'" using D(4,5) u by (auto simp: counted_def r l)
  moreover have "lifecycle s'"
  proof -
    have "if holds s' b then \<not> closed (refs s' b)
        else closed (refs s' b) \<and> run_Options (refs s' b) = None \<and> refCount (refs s' b) = 0"
      if b: "b < next_ref s" for b
    proof (cases "b = a")
      case True
      then show ?thesis using a(3) by (simp add: l r c)
    next
      case False
      then have "holds s' b \<longleftrightarrow> holds s b" using a(2) by (auto simp: l r)
      then show ?thesis using acc b False by (simp add: accounted_def lifecycle_def r c)
    qed
    moreover have "inj_on (\<lambda>b. pid (refs s' b)) {..<next_ref s'}"
      using acc by (simp add: accounted_def lifecycle_def r)
    ultimately show ?thesis unfolding lifecycle_def r(9) by blast
  qed
  moreover have "traced s'"
  proof -
    have "known s' = known s" by (simp add: known_def r)
    moreover have "entitled s \<union> set (starting s) \<subseteq> serving s'"
    proof
      fix x assume x: "x \<in> entitled s \<union> set (starting s)"
      then have "x \<in> serving s" "fst x \<noteq> a" using D(2) a(4,5) by auto
      then show "x \<in> serving s'" using a(2) by (cases x) (auto simp: serving_def l)
    qed
    ultimately show ?thesis using D(1,3) by (simp add: traced_def r)
  qed
  ultimately show ?thesis using acc by (simp add: accounted_def s' distinct_delete)
qed

lemma accounted_expired:
  assumes acc: "accounted s" and "calm (Expired a) s" "expired_event a s = Next s'"
  shows "accounted s'"
proof -
  note D = accountedD [OF acc]
  let ?s = "s\<lparr>expiredCh := remove1 a (expiredCh s)\<rparr>"
  have m: "a \<in> set (expiredCh s)" "\<not> locked s a"
    using assms(3) by (auto simp: expired_event_def split: if_splits)
  then have a: "a < next_ref s" using D(3) by (auto simp: dying_def)
  have again: "accounted (s\<lparr>expiredCh := remove1 a (expiredCh s) @ E\<rparr>)" if "set E \<subseteq> {a}" for E
    using D(1-3) a that
    by (intro accounted_frame [OF acc]) (auto simp: users_def seen_def entitled_def dying_def dest: in_remove1D)
  from again [of "[]"] have acc': "accounted ?s" by simp
  show ?thesis
  proof (cases "refCount (refs s a) > 0 \<or> map_of (loaded s) (modelKey (refs s a)) = None")
    case True
    then show ?thesis
      using assms(3) m again [of "[a]"] acc'
      by (auto simp: expired_event_def Let_def split: if_splits)
  next
    case False
    then obtain c where z: "refCount (refs s a) = 0" and c: "map_of (loaded s) (modelKey (refs s a)) = Some c"
      by auto
    have s': "s' = (if pid (refs s a) \<noteq> pid (refs s c) then set_ref a unload ?s
        else (set_ref a unload ?s)\<lparr>loaded := AList.delete (modelKey (refs s a)) (loaded s),
          unloadedCh := unloadedCh s + 1\<rparr>)"
      using assms(3) z c by (auto simp: expired_event_def Let_def split: if_splits)
    show ?thesis
    proof (cases "a = c")
      case True
      have "a \<notin> fst ` entitled s" using assms(2) z by simp
      then show ?thesis
        using z c True m(2) a
        by (intro accounted_unload [OF acc', of a]) (auto simp: s' locked_def entitled_def)
    next
      case False
      then have "pid (refs s a) \<noteq> pid (refs s c)" using D(4) [OF c] D(8) a by blast
      then show ?thesis
        using c False by (intro accounted_orphan [OF acc', of a]) (auto simp: a s')
    qed
  qed
qed

lemma accounted_timers:
  assumes acc: "accounted s"
  shows "timer_event a s = Next s' \<Longrightarrow> accounted s'"
    and "expireRunner mdl s = Next s' \<Longrightarrow> accounted s'"
    and "expireRunnersForRuntimeOOM oom s = Next s' \<Longrightarrow> accounted s'"
    and "start_failed a req s = Next s' \<Longrightarrow> accounted s'"
proof -
  assume "timer_event a s = Next s'"
  then have "a < next_ref s"
    "s' = s\<lparr>refs := (refs s)(a := (refs s a)\<lparr>expireTimer := False\<rparr>), expiredCh := expiredCh s @ [a]\<rparr>"
    by (auto simp: timer_event_def set_ref_def split: if_splits)
  then show "accounted s'" using accounted_retime [OF acc] by (simp add: same_use_iff)
next
  show "expireRunner mdl s = Next s' \<Longrightarrow> accounted s'"
    using acc accountedD(4) [OF acc] accounted_expire_now [OF acc]
    by (auto simp: expireRunner_def split: if_splits option.splits)
next
  show "expireRunnersForRuntimeOOM oom s = Next s' \<Longrightarrow> accounted s'"
    using acc accounted_expire_all [OF acc order_refl]
    by (auto simp: expireRunnersForRuntimeOOM_def split: if_splits)
next
  assume "start_failed a req s = Next s'"
  then have m: "(a, req) \<in> set (starting s)" and s': "s' = s\<lparr>starting := remove1 (a, req) (starting s),
      replies := replies s @ [(req, Failed StartError)], expiredCh := expiredCh s @ [a]\<rparr>"
    by (auto simp: start_failed_def split: if_splits)
  have "a < next_ref s"
    using accountedD(2) [OF acc] m accountedD(4) [OF acc] by (auto simp: serving_def)
  then show "accounted s'"
    using accountedD(1-3) [OF acc]
    by (intro accounted_frame [OF acc])
      (auto simp: s' users_def seen_def entitled_def dying_def dest: in_remove1D)
qed

lemma accounted_start_ok:
  assumes acc: "accounted s" and "calm (StartOK p a req) s" "start_ok p a req s = Next s'"
  shows "accounted s'"
proof -
  have m: "(a, req) \<in> set (starting s)" using assms(3) by (auto simp: start_ok_def split: if_splits)
  have s': "s' = (set_ref a (\<lambda>r. r\<lparr>pid := (if pid r < 0 then p else pid r), refCount := refCount r + 1,
        loading := False\<rparr>) s)\<lparr>starting := remove1 (a, req) (starting s), waiting := waiting s @ [req],
         replies := replies s @ [(req, Ready a)]\<rparr>"
    using assms(3) m by (simp add: start_ok_def)
  have h: "map_of (loaded s) (req_key req) = Some a"
    using accountedD(2) [OF acc] m by (auto simp: serving_def)
  note D = accountedD(4) [OF acc h]
  have r: "loaded s' = loaded s" "next_ref s' = next_ref s" "refs s' = (refs s)(a := refs s' a)"
    "modelKey (refs s' a) = req_key req" "closed (refs s' a) = closed (refs s a)"
    "run_Options (refs s' a) = run_Options (refs s a)"
    "pid (refs s' a) = (if pid (refs s a) < 0 then p else pid (refs s a))"
    "refCount (refs s' a) = refCount (refs s a) + 1"
    using D by (simp_all add: s' set_ref_def)
  have u: "users k s' = users k s + (if req_key req = k then 1 else 0)" for k
    by (simp add: s' set_ref_def users_def)
  have g: "seen s' \<subseteq> seen s" "entitled s' \<union> set (starting s') \<subseteq> entitled s \<union> set (starting s)"
    "dying s' \<subseteq> insert a (dying s)"
    by (auto simp: s' set_ref_def seen_def entitled_def dying_def dest: in_remove1D)
  show ?thesis
    by (rule accounted_recount [OF acc h r(1-6) _ _ _ g]) (use r(7,8) D u assms(2) in auto)
qed

text \<open>The loop.\<close>

lemma find_sorted_least:
  assumes "sorted (map f xs)" "find P xs = Some a"
  shows "a \<in> set xs \<and> P a \<and> (\<forall>b \<in> set xs. P b \<longrightarrow> f a \<le> f b)"
  using assms by (induction xs) (auto split: if_splits)

lemma hd_sorted_least:
  assumes "sorted (map f xs)" "xs \<noteq> []"
  shows "hd xs \<in> set xs \<and> (\<forall>b \<in> set xs. f (hd xs) \<le> f b)"
  using assms by (cases xs) auto

lemma pick_least:
  assumes "sorted (map f xs)" "xs \<noteq> []" "(case find P xs of Some c \<Rightarrow> Some c | None \<Rightarrow> Some (hd xs)) = Some a"
  shows "a \<in> set xs" "b \<in> set xs \<Longrightarrow> P b \<Longrightarrow> P a \<and> f a \<le> f b" "b \<in> set xs \<Longrightarrow> \<not> P a \<Longrightarrow> f a \<le> f b"
  using assms find_sorted_least [OF assms(1), of P a] hd_sorted_least [OF assms(1,2)]
  by (auto simp: find_None_iff split: option.splits)

lemma findRunnerToUnload_least:
  assumes "findRunnerToUnload s = Some a"
  shows "a \<in> snd ` set (loaded s)"
    and "b \<in> snd ` set (loaded s) \<Longrightarrow> refCount (refs s b) = 0 \<Longrightarrow>
      refCount (refs s a) = 0 \<and> unload_rank (refs s a) \<le> unload_rank (refs s b)"
    and "b \<in> snd ` set (loaded s) \<Longrightarrow> refCount (refs s a) > 0 \<Longrightarrow>
      unload_rank (refs s a) \<le> unload_rank (refs s b)"
proof -
  let ?f = "\<lambda>a. unload_rank (refs s a)" and ?P = "\<lambda>a. refCount (refs s a) = 0"
  let ?l = "sort_key ?f (map snd (loaded s))"
  have s: "sorted (map ?f ?l)" by simp
  have n: "?l \<noteq> []" and c: "(case find ?P ?l of Some c \<Rightarrow> Some c | None \<Rightarrow> Some (hd ?l)) = Some a"
    using assms by (auto simp: findRunnerToUnload_def Let_def split: if_splits option.splits)
  note * = pick_least [OF s n c]
  have "set ?l = snd ` set (loaded s)" by simp
  with * show "a \<in> snd ` set (loaded s)"
    "b \<in> snd ` set (loaded s) \<Longrightarrow> refCount (refs s b) = 0 \<Longrightarrow>
      refCount (refs s a) = 0 \<and> unload_rank (refs s a) \<le> unload_rank (refs s b)"
    "b \<in> snd ` set (loaded s) \<Longrightarrow> refCount (refs s a) > 0 \<Longrightarrow>
      unload_rank (refs s a) \<le> unload_rank (refs s b)"
    by simp_all
qed

lemma accounted_phase:
  assumes "accounted s"
  shows "(a, req) \<in> known s \<Longrightarrow> accounted (s\<lparr>current := Checking req a\<rparr>)"
    and "(a, req) \<in> serving s \<Longrightarrow> accounted (s\<lparr>current := Using req a\<rparr>)"
    and "a < next_ref s \<Longrightarrow> accounted (s\<lparr>current := Expiring req a\<rparr>)"
  using accountedD(1-3) [OF assms]
  by (intro accounted_frame [OF assms]; simp add: users_def seen_def entitled_def dying_def)+

lemma accounted_pop: "accounted s \<Longrightarrow> pop_pending s = Next s' \<Longrightarrow> accounted s'"
  by (auto simp: pop_pending_def accounted_ignores accounted_goto split: pending_loop.splits list.splits)

lemma accounted_look:
  assumes "accounted s" "look s = Next s'"
  shows "accounted s'"
proof -
  have "accounted (s\<lparr>current := Checking req a\<rparr>)" if "map_of (loaded s) (req_key req) = Some a" for req a
    using accounted_phase(1) [OF assms(1)] accountedD(4) [OF assms(1) that] by (simp add: known_def)
  then show ?thesis
    using assms by (cases "current s") (auto simp: look_def accounted_goto split: option.splits if_splits)
qed

lemma accounted_check_pending:
  assumes "accounted s" "check_pending alive s = Next s'"
  shows "accounted s'"
proof -
  from assms(2) obtain req a where c: "current s = Checking req a"
    by (cases "current s") (auto simp: check_pending_def)
  have k: "a < next_ref s" "modelKey (refs s a) = req_key req"
    using accountedD(1) [OF assms(1)] c by (auto simp: seen_def known_def)
  have "(a, req) \<in> serving s" if "\<not> needsReload alive (refs s a) req"
    using usable_holds [OF assms(1) k(1) that] k(2) by (simp add: serving_def)
  then show ?thesis
    using assms(2) c k accounted_phase(2,3) [OF assms(1)]
    by (auto simp: check_pending_def split: if_splits)
qed

lemma accounted_use_pending:
  assumes "accounted s" "use_pending s = Next s'"
  shows "accounted s'"
proof -
  from assms(2) obtain req a where c: "current s = Using req a"
    and s': "s' = (useLoadedRunner a req s)\<lparr>current := Idle\<rparr>"
    by (cases "current s") (auto simp: use_pending_def split: if_splits)
  have "accounted (useLoadedRunner a req s)"
    by (rule accounted_use [OF assms(1)]) (auto simp: entitled_def c)
  then show ?thesis by (simp add: s' accounted_goto)
qed

lemma accounted_choose_runner:
  assumes "accounted s" "choose_runner s = Next s'"
  shows "accounted s'"
proof -
  have "a < next_ref s" if "findRunnerToUnload s = Some a" for a
    using findRunnerToUnload_least(1) [OF that] accounted_loaded(2) [OF assms(1)] by auto
  then show ?thesis
    using assms(2) accounted_phase(3) [OF assms(1)] accounted_goto [OF assms(1)]
    by (cases "current s") (auto simp: choose_runner_def split: if_splits option.splits)
qed

lemma accounted_expire_chosen:
  assumes "accounted s" "expire_chosen s = Next s'"
  shows "accounted s'"
proof -
  from assms(2) obtain req a where c: "current s = Expiring req a"
    and s': "s' = (expire_now a s)\<lparr>current := AwaitUnload req 1\<rparr>"
    by (cases "current s") (auto simp: expire_chosen_def split: if_splits)
  have "a < next_ref s" using accountedD(3) [OF assms(1)] c by (simp add: dying_def)
  then show ?thesis by (simp add: s' accounted_goto accounted_expire_now assms(1))
qed

lemma accounted_need_evict:
  assumes "accounted s"
  shows "accounted (need_evict n req s)"
proof -
  have "accounted ((expire_all rs s)\<lparr>current := c\<rparr>)" if "set rs \<subseteq> set (loaded s)" "\<not> holds_runner c" for rs c
    using that assms accounted_expire_all accounted_goto by blast
  moreover have "set (filter (\<lambda>(k, a). k \<noteq> req_key req) (loaded s)) \<subseteq> set (loaded s)" by auto
  ultimately show ?thesis using assms by (simp add: need_evict_def Let_def accounted_goto)
qed

lemma accounted_refuse: "accounted s \<Longrightarrow> accounted (refuse req s)"
  by (simp add: refuse_def accounted_ignores accounted_goto)

lemma accounted_place:
  assumes "accounted s" "place_pending devs vram ans s = Next s'"
  shows "accounted s'"
proof -
  from assms(2) obtain req n ds where "load_begin ds n ans req s = Next s'"
    by (cases "current s") (auto simp: place_pending_def Let_def split: if_splits)
  then show ?thesis
    using assms(1)
    by (auto simp: load_begin_def accounted_goto accounted_ignores accounted_need_evict accounted_refuse
        split: option.splits if_splits)
qed

lemma accounted_receive_unloaded:
  assumes "accounted s" "receive_unloaded s = Next s'"
  shows "accounted s'"
  using assms
  by (cases "current s") (auto simp: receive_unloaded_def Let_def accounted_goto accounted_ignores split: if_splits)

text \<open>A new runner.\<close>

lemma accounted_install:
  assumes acc: "accounted s" and new: "map_of (loaded s) (modelKey r) = None"
    and p: "pid r \<notin> (\<lambda>b. pid (refs s b)) ` {..<next_ref s}"
    and r: "refCount r = 0" "\<not> closed r" "modelKey r = req_key req"
    and s': "s' = s\<lparr>refs := (refs s)(next_ref s := r), next_ref := next_ref s + 1,
      loaded := loaded s @ [(modelKey r, next_ref s)], starting := starting s @ [(next_ref s, req)]\<rparr>"
  shows "accounted s'"
proof -
  note D = accountedD [OF acc]
  have f: "refs s' b = (if b = next_ref s then r else refs s b)" "next_ref s' = Suc (next_ref s)"
    "users k s' = users k s" "seen s' = seen s" "entitled s' = entitled s" "dying s' = dying s"
    "starting s' = starting s @ [(next_ref s, req)]" for b k
    by (simp_all add: s' users_def seen_def entitled_def dying_def)
  have l: "map_of (loaded s') k = (if k = modelKey r then Some (next_ref s) else map_of (loaded s) k)" for k
    using new by (auto simp: s' map_add_def split: option.split)
  have u: "users (modelKey r) s = 0" using D(5) new by blast
  have "counted s'"
    unfolding counted_def
  proof (intro conjI allI impI)
    fix k a assume "map_of (loaded s') k = Some a"
    then show "a < next_ref s'" "modelKey (refs s' a) = k" "refCount (refs s' a) = users k s'"
      using D(4) [of k a] u r(1) by (auto simp: l f split: if_splits)
  next
    fix k assume "map_of (loaded s') k = None"
    then show "users k s' = 0" using D(5) by (auto simp: l f split: if_splits)
  qed
  moreover have "lifecycle s'"
  proof -
    have "inj_on (\<lambda>b. pid (refs s b)) {..<next_ref s}" using acc by (simp add: accounted_def lifecycle_def)
    then have "inj_on (\<lambda>b. pid (refs s' b)) {..<next_ref s'}"
      using p by (auto simp: f lessThan_Suc inj_on_def image_iff) (metis lessThan_iff)
    moreover have "if holds s' b then \<not> closed (refs s' b)
        else closed (refs s' b) \<and> run_Options (refs s' b) = None \<and> refCount (refs s' b) = 0"
      if b: "b < next_ref s'" for b
    proof (cases "b = next_ref s")
      case True
      then show ?thesis using r(2) by (simp add: l f)
    next
      case False
      then have b': "b < next_ref s" using b f(2) by simp
      have "holds s' b \<longleftrightarrow> holds s b" using False new D(4) by (auto simp: l f)
      then show ?thesis using acc b' False by (simp add: accounted_def lifecycle_def f)
    qed
    ultimately show ?thesis unfolding lifecycle_def by blast
  qed
  moreover have "traced s'"
  proof -
    have "known s \<subseteq> known s'" by (auto simp: known_def f)
    moreover have "serving s \<subseteq> serving s'" using new by (auto simp: serving_def l)
    moreover have "(next_ref s, req) \<in> serving s'" using r(3) by (simp add: serving_def l)
    ultimately show ?thesis using D(1-3) by (auto simp: traced_def f)
  qed
  moreover have "distinct (map fst (loaded s'))"
    using acc new by (auto simp: accounted_def s' map_of_eq_None_iff)
  ultimately show ?thesis by (simp add: accounted_def)
qed

lemma accounted_load_end:
  assumes "structural s" "accounted s" "calm (LoadEnd ans) s" "load_end ka ans s = Next s'"
  shows "accounted s'"
proof -
  from assms(4) obtain req ds b where c: "current s = Loading req ds b"
    by (cases "current s") (auto simp: load_end_def)
  have new: "map_of (loaded s) (req_key req) = None"
    using structural_loop_req(2) [OF assms(1)] c by simp
  show ?thesis
  proof (cases ans)
    case (LoadOK p ids sz vram ctx)
    let ?r = "new_runner ka ds req p ids sz vram ctx"
    let ?s = "s\<lparr>refs := (refs s)(next_ref s := ?r), next_ref := next_ref s + 1,
      loaded := loaded s @ [(modelKey ?r, next_ref s)], starting := starting s @ [(next_ref s, req)]\<rparr>"
    have r: "modelKey ?r = req_key req" "pid ?r = p" "refCount ?r = 0" "\<not> closed ?r"
      by (simp_all add: new_runner_def)
    have s': "s' = ?s\<lparr>activeLoading := None, current := Idle\<rparr>"
      using assms(4) c LoadOK new by (auto simp: load_end_def install_def r update_new Let_def split: if_splits)
    have "accounted ?s"
      by (rule accounted_install [OF assms(2), of ?r]) (use assms(3) new r LoadOK in auto)
    then have "accounted (?s\<lparr>activeLoading := None, current := Idle\<rparr>)"
      by (intro accounted_goto accounted_ignores) auto
    then show ?thesis by (simp only: s')
  qed (use assms(2,4) c in \<open>auto simp: load_end_def accounted_need_evict accounted_refuse accounted_ignores split: if_splits\<close>)
qed

lemma accounted_exec:
  assumes "structural s" "accounted s" "calm e s" "exec q ka e s = Next s'"
  shows "accounted s'"
proof -
  note lemmas1 = accounted_getRunner [OF assms(2)] accounted_client_check [OF assms(2)]
    accounted_client_use [OF assms(2)] accounted_context_done [OF assms(2)] accounted_finished [OF assms(2)]
    accounted_timers [OF assms(2)] accounted_pop [OF assms(2)] accounted_look [OF assms(2)]
    accounted_check_pending [OF assms(2)] accounted_use_pending [OF assms(2)]
    accounted_choose_runner [OF assms(2)] accounted_expire_chosen [OF assms(2)]
    accounted_place [OF assms(2)] accounted_receive_unloaded [OF assms(2)]
  show ?thesis
    using assms(3,4) accounted_expired [OF assms(2)] accounted_start_ok [OF assms(2)]
      accounted_load_end [OF assms(1,2)]
    by (cases e) (auto dest: lemmas1 simp del: calm.simps)
qed

interpretation calm_runs: schedule_invariant q ka calm "\<lambda>s. structural s \<and> accounted s" for q ka
  by unfold_locales (auto intro: structural_init accounted_init structural_exec(2) accounted_exec)

end
