(* ===== verification/Scheduler_Properties.thy ===== *)
theory Scheduler_Properties
  imports Scheduler_Safety
begin

text \<open>
  What the invariants of the scheduler say: it does not abort and keeps to its capacity, reference counts
  are exact, a runner is not taken from a request that uses it, the choice of a runner to unload, the
  prediction of free memory, and that an eviction makes room. Sample schedules show that the hypotheses can
  hold, and the ones that are not calm show how a runner is lost to a race.
\<close>

section \<open>Schedules as lists of events\<close>

fun schedule :: "nat \<Rightarrow> int \<Rightarrow> (event \<Rightarrow> Scheduler \<Rightarrow> bool) \<Rightarrow> event list \<Rightarrow> Scheduler \<Rightarrow> Scheduler option" where
  "schedule q ka allowed [] s = Some s"
| "schedule q ka allowed (e # es) s =
     (if allowed e s then (case exec q ka e s of Next s' \<Rightarrow> schedule q ka allowed es s' | _ \<Rightarrow> None) else None)"

lemma schedule_runs:
  assumes "runs q ka allowed s" "schedule q ka allowed es s = Some s'"
  shows "runs q ka allowed s'"
  using assms
proof (induction es arbitrary: s)
  case (Cons e es)
  then show ?case by (auto split: if_splits outcome.splits intro: runs.step)
qed simp

definition sample_model :: "string \<Rightarrow> SModel" where
  "sample_model p = \<lparr>ModelPath = p, Digest = [], model_Name = [], ShortName = [], ProjectorPaths = []\<rparr>"

definition sample_request :: "string \<Rightarrow> int \<Rightarrow> nat \<Rightarrow> LlmRequest" where
  "sample_request p batch n = \<lparr>req_model = sample_model p,
     req_opts = \<lparr>NumCtx = 4096, NumBatch = batch, NumGPU = 0, NumThread = 0\<rparr>, req_sessionDuration = Some 0,
     schedAttempts = n, numCtxAuto = True, numBatchAuto = True, oomRetryAttempted = False\<rparr>"

text \<open>A model is loaded for a first request; a second request finds it and is about to use it.\<close>

definition load_events :: "event list" where
  "load_events = [GetRunner (sample_request ''a'' 1 0), Pop, Look, Place [] (\<lambda>_ _. 0) Created,
     LoadEnd (LoadOK 7 [] 0 0 4096), StartOK 7 0 (sample_request ''a'' 1 1)]"

definition share_events :: "event list" where
  "share_events = load_events @ [GetRunner (sample_request ''a'' 1 0), ClientCheck True 0 (sample_request ''a'' 1 0)]"

text \<open>The first request ends and the runner expires before the second one uses it.\<close>

definition race_events :: "event list" where
  "race_events = share_events @ [ContextDone (sample_request ''a'' 1 1), Finished (sample_request ''a'' 1 1),
     Expired 0, ClientUse 0 (sample_request ''a'' 1 0)]"

definition state_after :: "(event \<Rightarrow> Scheduler \<Rightarrow> bool) \<Rightarrow> event list \<Rightarrow> Scheduler" where
  "state_after allowed es = the (schedule 4 300 allowed es InitScheduler)"

lemma state_after_runs:
  assumes "schedule 4 300 allowed es InitScheduler \<noteq> None"
  shows "runs 4 300 allowed (state_after allowed es)"
  using assms schedule_runs [OF runs.start] by (auto simp: state_after_def)

abbreviation any_event :: "event \<Rightarrow> Scheduler \<Rightarrow> bool" where
  "any_event \<equiv> \<lambda>_ _. True"

lemma share_runs: "runs 4 300 any_event (state_after any_event share_events)" "runs 4 300 calm (state_after calm share_events)"
  by (rule state_after_runs, code_simp)+

text \<open>A client is handed a runner that has been shut down: \<open>getRunner\<close> checks the runner and takes it in
  two critical sections, and it may be unloaded in between.\<close>

lemma race_closes_runner:
  "\<exists>s. runs 4 300 any_event s \<and> sample_request ''a'' 1 0 \<in> set (waiting s) \<and>
     (sample_request ''a'' 1 0, Ready 0) \<in> set (replies s) \<and> closed (refs s 0)"
proof -
  let ?s = "state_after any_event race_events"
  have "runs 4 300 any_event ?s" by (rule state_after_runs) code_simp
  moreover have "sample_request ''a'' 1 0 \<in> set (waiting ?s)" by code_simp
  moreover have "(sample_request ''a'' 1 0, Ready 0) \<in> set (replies ?s)" by code_simp
  moreover have "closed (refs ?s 0)" by code_simp
  ultimately show ?thesis by blast
qed

section \<open>Safety\<close>

text \<open>C5: whatever the order in which the critical sections of the scheduler run and whatever its
  environment answers, no step of it aborts the program, at most two runners are loaded, and they have
  different keys. In particular the branch for requests that were scheduled before, which unlocks a mutex
  that is not locked, and the panic of load are never reached.\<close>

theorem scheduler_never_aborts:
  assumes "runs q ka any_event s"
  shows "exec q ka e s \<noteq> Crash \<and> length (loaded s) \<le> 2 \<and> distinct (map fst (loaded s))"
proof -
  have "structural s" using assms by (rule structured.always)
  then show ?thesis using structural_exec(1) by (simp add: structural_def maxRunners_def)
qed

theorem scheduler_never_aborts_witness:
  "\<exists>s. runs 4 300 any_event s \<and> loaded s = [(''a'', 0)] \<and> exec 4 300 Look s \<noteq> Crash"
proof (intro exI conjI)
  show "runs 4 300 any_event (state_after any_event share_events)" by (rule share_runs)
  show "loaded (state_after any_event share_events) = [(''a'', 0)]" by code_simp
  show "exec 4 300 Look (state_after any_event share_events) \<noteq> Crash"
    using scheduler_never_aborts [OF share_runs(1), of Look] by blast
qed

lemma loaded_changes:
  assumes "structural s" "exec q ka e s = Next s'" "map_of (loaded s) k = Some a"
  shows "map_of (loaded s') k = Some a \<or> map_of (loaded s') k = None"
proof -
  have enq: "loaded (enqueue n req s) = loaded s" for n req s by (simp add: enqueue_def)
  have all: "loaded (expire_all rs s) = loaded s" for rs s
    using expire_all_frame [of rs s] by auto
  have evict: "loaded (need_evict n req s) = loaded s" for n req by (simp add: need_evict_def Let_def all)
  show ?thesis
  proof (cases e)
    case (Expired b)
    then show ?thesis
      using assms(2,3)
      by (auto simp: expired_event_def set_ref_def Let_def delete_conv' split: if_splits option.splits)
  next
    case (LoadEnd ans)
    from assms(2) LoadEnd obtain req ds b where c: "current s = Loading req ds b"
      by (cases "current s") (auto simp: load_end_def)
    have "map_of (loaded s) (req_key req) = None" using structural_loop_req(2) [OF assms(1)] c by simp
    then show ?thesis
      using assms(2,3) LoadEnd c
      by (cases ans) (auto simp: load_end_def install_def new_runner_def update_new refuse_def evict Let_def
          map_add_def split: if_splits)
  next
    case (Place devs vram ans)
    then show ?thesis
      using assms(2,3)
      by (cases "current s")
        (auto simp: place_pending_def load_begin_def refuse_def evict Let_def split: if_splits option.splits)
  next
    case Pop
    then show ?thesis
      using assms(2,3) by (auto simp: pop_pending_def split: pending_loop.splits list.splits)
  qed (use assms(2,3) in \<open>cases "current s"; force simp: handler_defs effect_defs enq all
        split: if_splits option.splits\<close>)+
qed

text \<open>C3: as long as no runner is unloaded between the check and the use of it, and process ids are
  distinct, the reference count of a loaded runner is exactly the number of requests that were given it and
  whose end has not been processed, a loaded runner has not been shut down, and no request uses a key under
  which nothing is loaded.\<close>

theorem reference_counts_exact:
  assumes "runs q ka calm s"
  shows "case map_of (loaded s) k of
      Some a \<Rightarrow> modelKey (refs s a) = k \<and> refCount (refs s a) = users k s \<and> \<not> closed (refs s a)
    | None \<Rightarrow> users k s = 0"
proof -
  have "accounted s" using calm_runs.always [OF assms] by simp
  note D = accountedD [OF this]
  show ?thesis
  proof (cases "map_of (loaded s) k")
    case None
    then show ?thesis using D(5) by simp
  next
    case (Some a)
    with D(4) [OF Some] show ?thesis using D(7) [of a] by simp
  qed
qed

theorem reference_counts_exact_witness:
  "\<exists>s. runs 4 300 calm s \<and> map_of (loaded s) ''a'' = Some 0 \<and> refCount (refs s 0) = users ''a'' s \<and>
     users ''a'' s = 1 \<and> \<not> closed (refs s 0)"
proof (intro exI conjI)
  let ?s = "state_after calm share_events"
  show r: "runs 4 300 calm ?s" by (rule share_runs)
  show l: "map_of (loaded ?s) ''a'' = Some 0" by code_simp
  show "users ''a'' ?s = 1" by code_simp
  show "refCount (refs ?s 0) = users ''a'' ?s" "\<not> closed (refs ?s 0)"
    using reference_counts_exact [OF r, of "''a''"] l by simp_all
qed

text \<open>C4: while a request uses a runner, the runner stays loaded under the key of the request and is not
  shut down, in every calm step.\<close>

theorem used_runner_stays_loaded:
  assumes "runs q ka calm s" "req \<in> set (waiting s)"
  shows "\<exists>a. map_of (loaded s) (req_key req) = Some a \<and> \<not> closed (refs s a) \<and>
    (\<forall>e s'. calm e s \<longrightarrow> exec q ka e s = Next s' \<longrightarrow> req \<in> set (waiting s') \<longrightarrow>
      map_of (loaded s') (req_key req) = Some a \<and> \<not> closed (refs s' a))"
proof -
  have used: "\<exists>a. map_of (loaded t) (req_key req) = Some a \<and> \<not> closed (refs t a)"
    if "runs q ka calm t" "req \<in> set (waiting t)" for t
  proof -
    have D: "accounted t" using calm_runs.always [OF that(1)] by simp
    have "users (req_key req) t \<noteq> 0"
      using that(2) by (auto simp: users_def filter_empty_conv)
    then obtain a where h: "map_of (loaded t) (req_key req) = Some a"
      using accountedD(5) [OF D] by (cases "map_of (loaded t) (req_key req)") auto
    then have "\<not> closed (refs t a)" using accountedD(4) [OF D h] accountedD(7) [OF D, of a] by simp
    with h show ?thesis by simp
  qed
  from used [OF assms] obtain a where a: "map_of (loaded s) (req_key req) = Some a" "\<not> closed (refs s a)"
    by blast
  have "map_of (loaded s') (req_key req) = Some a \<and> \<not> closed (refs s' a)"
    if e: "calm e s" "exec q ka e s = Next s'" and w: "req \<in> set (waiting s')" for e s'
  proof -
    have "structural s" using calm_runs.always [OF assms(1)] by simp
    then show ?thesis
      using loaded_changes [OF _ e(2) a(1)] used [OF runs.step [OF assms(1) e] w] by fastforce
  qed
  with a show ?thesis by blast
qed

theorem used_runner_stays_loaded_witness:
  "\<exists>s. runs 4 300 calm s \<and> sample_request ''a'' 1 1 \<in> set (waiting s) \<and>
     map_of (loaded s) (req_key (sample_request ''a'' 1 1)) = Some 0 \<and> \<not> closed (refs s 0)"
proof (intro exI conjI)
  let ?s = "state_after calm share_events" and ?r = "sample_request ''a'' 1 1"
  show r: "runs 4 300 calm ?s" by (rule share_runs)
  show w: "?r \<in> set (waiting ?s)" by code_simp
  have "map_of (loaded ?s) (req_key ?r) = Some 0" by code_simp
  with used_runner_stays_loaded [OF r w]
  show "map_of (loaded ?s) (req_key ?r) = Some 0" "\<not> closed (refs ?s 0)" by auto
qed

section \<open>Making room\<close>

text \<open>The runner to unload is one of the loaded ones; it is idle if any loaded runner is idle, and no
  other candidate has a shorter session duration, read as an unsigned number, or the same duration and a
  smaller name. None is found exactly when nothing is loaded.\<close>

theorem runner_to_unload_choice:
  "(findRunnerToUnload s = None \<longleftrightarrow> loaded s = []) \<and>
   (findRunnerToUnload s = Some a \<longrightarrow> a \<in> snd ` set (loaded s) \<and>
     (\<forall>b \<in> snd ` set (loaded s).
       (refCount (refs s b) = 0 \<longrightarrow> refCount (refs s a) = 0) \<and>
       (refCount (refs s b) = 0 \<or> refCount (refs s a) > 0 \<longrightarrow> unload_rank (refs s a) \<le> unload_rank (refs s b))))"
proof (intro conjI impI)
  have "sort_key f xs = [] \<longleftrightarrow> xs = []" for f :: "nat \<Rightarrow> nat \<times> string" and xs
    by (metis length_0_conv length_sort)
  then show "findRunnerToUnload s = None \<longleftrightarrow> loaded s = []"
    by (auto simp: findRunnerToUnload_def Let_def split: option.split)
  assume a: "findRunnerToUnload s = Some a"
  show "a \<in> snd ` set (loaded s)" by (rule findRunnerToUnload_least(1) [OF a])
  show "\<forall>b \<in> snd ` set (loaded s). (refCount (refs s b) = 0 \<longrightarrow> refCount (refs s a) = 0) \<and>
      (refCount (refs s b) = 0 \<or> refCount (refs s a) > 0 \<longrightarrow> unload_rank (refs s a) \<le> unload_rank (refs s b))"
    using findRunnerToUnload_least(2,3) [OF a] by blast
qed

theorem runner_to_unload_choice_witness:
  "findRunnerToUnload (state_after calm share_events) = Some 0 \<and>
   0 \<in> snd ` set (loaded (state_after calm share_events))"
proof -
  have "findRunnerToUnload (state_after calm share_events) = Some 0" by code_simp
  then show ?thesis using runner_to_unload_choice [of "state_after calm share_events" 0] by blast
qed

text \<open>C11: a chosen runner that nobody uses or is about to use is unloaded by the next expiry event, its
  shutdown is announced, and the loop of processPending takes up its request again with one runner less
  loaded.\<close>

theorem eviction_makes_room:
  assumes "runs q ka calm s" "current s = Expiring req a" "\<not> locked s a" "\<not> mu_held s"
    and "map_of (loaded s) (modelKey (refs s a)) = Some a" "refCount (refs s a) = 0" "a \<notin> fst ` entitled s"
  shows "\<exists>s'. schedule q ka calm [ExpireChosen, Expired a, Unloaded] s = Some s' \<and> current s' = Trying req \<and>
    map_of (loaded s') (modelKey (refs s a)) = None \<and> length (loaded s') < length (loaded s) \<and>
    closed (refs s' a)"
proof -
  let ?k = "modelKey (refs s a)"
  have "(?k, a) \<in> set (loaded s)" using assms(5) by (rule map_of_SomeD)
  then have "length (AList.delete ?k (loaded s)) < length (loaded s)"
    unfolding AList.delete_eq by (intro length_filter_less) auto
  then show ?thesis
    using assms(2-)
    by (simp add: expire_chosen_def expired_event_def receive_unloaded_def expire_now_eq set_ref_def
        unload_def locked_def entitled_def Let_def delete_conv')
qed

definition evict_events :: "event list" where
  "evict_events = load_events @ [ContextDone (sample_request ''a'' 1 1), Finished (sample_request ''a'' 1 1),
     GetRunner (sample_request ''a'' 1 0), ClientCheck False 0 (sample_request ''a'' 1 0), Pop, Look,
     CheckPending False]"

theorem eviction_makes_room_witness:
  "\<exists>s s'. runs 4 300 calm s \<and> length (loaded s) = 1 \<and>
     schedule 4 300 calm [ExpireChosen, Expired 0, Unloaded] s = Some s' \<and> loaded s' = [] \<and>
     current s' = Trying (sample_request ''a'' 1 1)"
proof -
  let ?s = "state_after calm evict_events"
  have r: "runs 4 300 calm ?s" by (rule state_after_runs) code_simp
  have c: "current ?s = Expiring (sample_request ''a'' 1 1) 0" by code_simp
  have f: "\<not> locked ?s 0" "\<not> mu_held ?s" "map_of (loaded ?s) (modelKey (refs ?s 0)) = Some 0"
    "refCount (refs ?s 0) = 0" "0 \<notin> fst ` entitled ?s" "length (loaded ?s) = 1"
    by code_simp+
  from eviction_makes_room [OF r c f(1-5)] f(6) r show ?thesis by (auto simp: less_Suc_eq)
qed

section \<open>Free memory\<close>

lemma fold_predict:
  assumes "distinct (map dev_key gs)"
  shows "fold (\<lambda>g m. m(dev_key g \<mapsto> (case m (dev_key g) of None \<Rightarrow> 0 | Some x \<Rightarrow> x) + v (dev_key g))) gs m k =
    (if k \<in> dev_key ` set gs then Some ((case m k of None \<Rightarrow> 0 | Some x \<Rightarrow> x) + v k) else m k)"
  using assms by (induction gs arbitrary: m) auto

lemma predict_sum:
  assumes "distinct (map dev_key gs)" "g \<in> set gs"
  shows "predict VRAM rs gs (dev_key g) =
    (if rs = [] then None else Some (sum_list (map (\<lambda>a. VRAM a (dev_key g)) rs)))"
proof (induction rs rule: rev_induct)
  case Nil
  show ?case by (simp add: predict_def)
next
  case (snoc a rs)
  have "predict VRAM (rs @ [a]) gs (dev_key g) =
      Some ((case predict VRAM rs gs (dev_key g) of None \<Rightarrow> 0 | Some x \<Rightarrow> x) + VRAM a (dev_key g))"
    using fold_predict [OF assms(1), of "VRAM a" "predict VRAM rs gs"] assms(2) by (simp add: predict_def)
  then show ?case using snoc by simp
qed

text \<open>The free memory of a device is never raised by the correction for the loaded runners. With no
  runner loaded it is what the device reports; else it is the smaller of what the device reports and what the
  runners leave of its total, and nothing when they are expected to use more than the total. Nothing else
  of a device changes.\<close>

theorem free_memory_prediction:
  assumes "distinct (map dev_key gs)" "i < length gs"
  shows "let u = sum_list (map (\<lambda>a. VRAM a (dev_key (gs ! i))) rs) in
    updateFreeSpace VRAM rs gs ! i = (gs ! i)\<lparr>FreeMemory :=
      if rs = [] then FreeMemory (gs ! i)
      else if u > TotalMemory (gs ! i) then 0
      else min (FreeMemory (gs ! i)) (TotalMemory (gs ! i) - u)\<rparr> \<and>
    FreeMemory (updateFreeSpace VRAM rs gs ! i) \<le> FreeMemory (gs ! i)"
  using predict_sum [OF assms(1) nth_mem [OF assms(2)], of VRAM rs] assms(2)
  by (auto simp: updateFreeSpace_def Let_def min_def not_less)

theorem free_memory_prediction_witness:
  "FreeMemory (updateFreeSpace (\<lambda>_ _. 5) [0, 1]
     [(sample_cuda ''0'')\<lparr>TotalMemory := 16, FreeMemory := 9\<rparr>] ! 0) = 6"
  using free_memory_prediction [of "[(sample_cuda ''0'')\<lparr>TotalMemory := 16, FreeMemory := 9\<rparr>]" 0 "\<lambda>_ _. 5" "[0, 1]"]
  by (simp add: sample_cuda_def)

section \<open>Errors\<close>

text \<open>A load that cannot read the configured batch size returns with the table locked and without an
  answer: the request and all later ones wait forever.\<close>

lemma mu_held_forever:
  assumes "mu_held s" "exec q ka e s = Next s'"
  shows "mu_held s'"
proof -
  have all: "mu_held (expire_all rs s) = mu_held s" for rs s
    using expire_all_frame [of rs s] by auto
  have evict: "mu_held (need_evict n req s) = mu_held s" for n req
    by (simp add: need_evict_def Let_def all)
  have enq: "mu_held (enqueue n req s) = mu_held s" for n req s by (simp add: enqueue_def)
  show ?thesis
  proof (cases e)
    case Pop
    then show ?thesis
      using assms by (auto simp: pop_pending_def split: pending_loop.splits list.splits)
  next
    case (LoadEnd ans)
    then show ?thesis
      using assms by (cases "current s"; cases ans) (auto simp: load_end_def refuse_def evict split: if_splits)
  qed (use assms in \<open>cases "current s"; force simp: handler_defs set_ref_def useLoadedRunner_def go_idle_def
        expire_now_eq Let_def enq all split: if_splits option.splits\<close>)+
qed

lemma bad_config_deadlock:
  assumes "current s = Placing req n" "NumGPU (req_opts req) = 0" "NumBatch (req_opts req) = 0"
    "activeLoading s = None" "\<not> mu_held s"
  shows "\<exists>s'. place_pending devs vram BadConfig s = Next s' \<and> current s' = Idle \<and> replies s' = replies s \<and>
    (\<forall>es s'' r. schedule q ka any_event es s' = Some s'' \<longrightarrow> getRunner q r s'' = Blocked)"
proof -
  let ?s' = "s\<lparr>current := Idle, mu_held := True\<rparr>"
  have held: "mu_held t" if "mu_held s" "schedule q ka any_event es s = Some t" for es s t
    using that by (induction es arbitrary: s) (auto split: outcome.splits dest: mu_held_forever)
  have "\<forall>es s'' r. schedule q ka any_event es ?s' = Some s'' \<longrightarrow> getRunner q r s'' = Blocked"
  proof (intro allI impI)
    fix es s'' r assume "schedule q ka any_event es ?s' = Some s''"
    then have "mu_held s''" using held [of ?s'] by simp
    then show "getRunner q r s'' = Blocked" by (simp add: getRunner_def)
  qed
  moreover have "place_pending devs vram BadConfig s = Next ?s'"
    using assms by (simp add: place_pending_def load_begin_def)
  ultimately show ?thesis by auto
qed

end
