(* ===== verification/Blob_Digest.thy ===== *)
theory Blob_Digest
  imports Go_Prelude "HOL-Library.Word"
begin

text \<open>
  Digests of blobs, after \<open>server/internal/cache/blob/digest.go\<close>: 32 bytes, printed as \<open>sha256:\<close> and
  hexadecimal digits. The hash function SHA-256 is a parameter where it is used.
\<close>

type_synonym bytes = "8 word list"

datatype digest = Digest32 (sum32: bytes)

definition zero_digest :: digest where
  "zero_digest = Digest32 (replicate 32 0)"

section \<open>Hexadecimal digits\<close>

definition hex_digit :: "nat \<Rightarrow> char" where
  "hex_digit n = ''0123456789abcdef'' ! n"

definition hex_value :: "char \<Rightarrow> nat option" where
  "hex_value c =
     (if in_range 48 57 (byte c) then Some (byte c - 48)
      else if in_range 97 102 (byte c) then Some (byte c - 87)
      else if in_range 65 70 (byte c) then Some (byte c - 55)
      else None)"

fun hex_encode :: "bytes \<Rightarrow> string" where
  "hex_encode [] = []"
| "hex_encode (b # bs) = hex_digit (unat b div 16) # hex_digit (unat b mod 16) # hex_encode bs"

text \<open>\<open>hex.Decode\<close> fails on other characters and on an odd number of digits.\<close>

fun hex_decode :: "string \<Rightarrow> bytes option" where
  "hex_decode [] = Some []"
| "hex_decode [c] = None"
| "hex_decode (c # d # s) = (case (hex_value c, hex_value d, hex_decode s) of
      (Some h, Some l, Some bs) \<Rightarrow> Some (word_of_nat (16 * h + l) # bs)
    | _ \<Rightarrow> None)"

section \<open>Digests\<close>

fun IndexAny :: "string \<Rightarrow> string \<Rightarrow> nat option" where
  "IndexAny [] chars = None"
| "IndexAny (c # s) chars = (if c \<in> set chars then Some 0 else map_option Suc (IndexAny s chars))"

definition ParseDigest :: "string \<Rightarrow> digest option" where
  "ParseDigest s = (case IndexAny s '':-'' of
      None \<Rightarrow> None
    | Some i \<Rightarrow>
        if take i s \<noteq> ''sha256'' \<or> length (drop (i + 1) s) \<noteq> 64 then None
        else map_option Digest32 (hex_decode (drop (i + 1) s)))"

definition DigestFromBytes :: "(bytes \<Rightarrow> bytes) \<Rightarrow> bytes \<Rightarrow> digest" where
  "DigestFromBytes sha v = Digest32 (sha v)"

definition Digest_String :: "digest \<Rightarrow> string" where
  "Digest_String d = ''sha256:'' @ hex_encode (sum32 d)"

definition Digest_Short :: "digest \<Rightarrow> string" where
  "Digest_Short d = hex_encode (take 4 (sum32 d))"

fun slices_Compare :: "bytes \<Rightarrow> bytes \<Rightarrow> int" where
  "slices_Compare [] [] = 0"
| "slices_Compare [] (_ # _) = -1"
| "slices_Compare (_ # _) [] = 1"
| "slices_Compare (x # xs) (y # ys) = (if x < y then -1 else if x > y then 1 else slices_Compare xs ys)"

definition Digest_Compare :: "digest \<Rightarrow> digest \<Rightarrow> int" where
  "Digest_Compare d other = slices_Compare (sum32 d) (sum32 other)"

definition Digest_IsValid :: "digest \<Rightarrow> bool" where
  "Digest_IsValid d \<longleftrightarrow> d \<noteq> zero_digest"

definition MarshalText :: "digest \<Rightarrow> string option" where
  "MarshalText d = Some (Digest_String d)"

definition UnmarshalText :: "string \<Rightarrow> digest \<Rightarrow> digest option" where
  "UnmarshalText txt d = (if d \<noteq> zero_digest then None else ParseDigest txt)"

section \<open>Facts\<close>

lemma below_16: "(\<forall>n < 16. P n) \<longleftrightarrow> list_all P [0..<16::nat]"
  by (auto simp: list_all_iff)

lemma hex_value_digit: "n < 16 \<Longrightarrow> hex_value (hex_digit n) = Some n"
proof -
  have "\<forall>n < 16. hex_value (hex_digit n) = Some n" unfolding below_16 by code_simp
  then show "n < 16 \<Longrightarrow> hex_value (hex_digit n) = Some n" by blast
qed

lemma hex_digit_value:
  assumes "hex_value c = Some n"
  shows "n < 16" "hex_digit n = lower_byte c"
proof -
  have "\<forall>c. case hex_value c of None \<Rightarrow> True | Some n \<Rightarrow> n < 16 \<and> hex_digit n = lower_byte c"
    by code_simp
  from spec [OF this, of c] show "n < 16" "hex_digit n = lower_byte c" using assms by simp_all
qed

lemma length_hex_encode [simp]: "length (hex_encode bs) = 2 * length bs"
  by (induction bs) simp_all

lemma hex_decode_encode [simp]: "hex_decode (hex_encode bs) = Some bs"
proof (induction bs)
  case (Cons b bs)
  have "unat b < 256" using unsigned_less [of b] by simp
  then have "unat b div 16 < 16" by simp
  then show ?case using Cons by (simp add: hex_value_digit)
qed simp

lemma hex_decode_Some:
  "hex_decode s = Some bs \<Longrightarrow> length s = 2 * length bs \<and> hex_encode bs = ToLower s"
proof (induction s arbitrary: bs rule: hex_decode.induct)
  case (3 c d s)
  then obtain h l bs' where v: "hex_value c = Some h" "hex_value d = Some l" "hex_decode s = Some bs'"
    "bs = word_of_nat (16 * h + l) # bs'"
    by (auto split: option.splits)
  note V = hex_digit_value [OF v(1)] hex_digit_value [OF v(2)]
  have "16 * h + l < 2 ^ 8" using V(1,3) by simp
  then have "unat (word_of_nat (16 * h + l) :: 8 word) = 16 * h + l"
    by (simp only: unsigned_of_nat take_bit_nat_eq_self_iff len_of_numeral_defs) (simp add: take_bit_nat_eq_self)
  moreover have "(16 * h + l) div 16 = h" "(16 * h + l) mod 16 = l" using V(3) by simp_all
  ultimately show ?case using V 3 v by (simp add: ToLower_def)
qed (simp_all add: ToLower_def)

lemma IndexAny_append: "set u \<inter> set chars = {} \<Longrightarrow> c \<in> set chars \<Longrightarrow> IndexAny (u @ c # v) chars = Some (length u)"
  by (induction u) auto

lemma IndexAny_SomeD:
  "IndexAny s chars = Some i \<Longrightarrow> i < length s \<and> s = take i s @ s ! i # drop (i + 1) s \<and> s ! i \<in> set chars"
  by (induction s arbitrary: i) (auto split: if_splits)

lemma hex_encode_inj: "hex_encode x = hex_encode y \<Longrightarrow> x = y"
  by (metis hex_decode_encode option.inject)

lemma ParseDigest_form:
  assumes "c = CHR '':'' \<or> c = CHR ''-''"
  shows "ParseDigest (''sha256'' @ c # x) = (if length x = 64 then map_option Digest32 (hex_decode x) else None)"
proof -
  have "IndexAny (''sha256'' @ c # x) '':-'' = Some (length ''sha256'')"
    by (rule IndexAny_append) (use assms in auto)
  then show ?thesis by (simp add: ParseDigest_def)
qed

section \<open>Properties\<close>

text \<open>A digest of 32 bytes parses back from its printed form, also with a dash for the colon; and
  what parses has 32 bytes and prints as the text that was parsed, with a colon and in lower case.\<close>

theorem digest_roundtrip:
  "(length (sum32 d) = 32 \<longrightarrow> ParseDigest (Digest_String d) = Some d \<and>
      ParseDigest (''sha256-'' @ hex_encode (sum32 d)) = Some d) \<and>
   (ParseDigest s = Some d \<longrightarrow> length (sum32 d) = 32 \<and> Digest_String d = ''sha256:'' @ ToLower (drop 7 s) \<and>
      s \<in> {''sha256:'' @ drop 7 s, ''sha256-'' @ drop 7 s})"
proof (intro conjI impI)
  assume l: "length (sum32 d) = 32"
  show "ParseDigest (Digest_String d) = Some d"
    using ParseDigest_form [of "CHR '':''" "hex_encode (sum32 d)"] l by (simp add: Digest_String_def)
  show "ParseDigest (''sha256-'' @ hex_encode (sum32 d)) = Some d"
    using ParseDigest_form [of "CHR ''-''" "hex_encode (sum32 d)"] l by simp
next
  assume "ParseDigest s = Some d"
  then obtain i where i: "IndexAny s '':-'' = Some i" "take i s = ''sha256''" "length (drop (i + 1) s) = 64"
    "hex_decode (drop (i + 1) s) = Some (sum32 d)"
    by (auto simp: ParseDigest_def split: option.splits if_splits)
  note I = IndexAny_SomeD [OF i(1)]
  have "i = length (take i s)" using I by simp
  then have i6: "i = 6" by (simp add: i(2))
  have s: "s = ''sha256'' @ s ! 6 # drop 7 s" using I i(2) unfolding i6 by simp
  have H: "length (drop 7 s) = 2 * length (sum32 d)" "hex_encode (sum32 d) = ToLower (drop 7 s)"
    using hex_decode_Some [OF i(4)] i6 by simp_all
  show "length (sum32 d) = 32" using H(1) i(3) i6 by simp
  show "Digest_String d = ''sha256:'' @ ToLower (drop 7 s)" using H(2) by (simp add: Digest_String_def)
  have "s ! 6 = CHR '':'' \<or> s ! 6 = CHR ''-''" using I i6 by auto
  then show "s \<in> {''sha256:'' @ drop 7 s, ''sha256-'' @ drop 7 s}" using s by auto
qed

theorem digest_roundtrip_witness:
  "ParseDigest (Digest_String (Digest32 (replicate 32 171))) = Some (Digest32 (replicate 32 171)) \<and>
   Digest_Short (Digest32 (replicate 32 171)) = ''abababab''"
proof
  show "ParseDigest (Digest_String (Digest32 (replicate 32 171))) = Some (Digest32 (replicate 32 171))"
    using digest_roundtrip [of "Digest32 (replicate 32 171)" "[]"] by simp
  show "Digest_Short (Digest32 (replicate 32 171)) = ''abababab''" by code_simp
qed

text \<open>\<open>MarshalText\<close> prints the zero digest too, which \<open>IsValid\<close> calls invalid.\<close>

lemma zero_digest_marshals: "\<not> Digest_IsValid zero_digest \<and> MarshalText zero_digest \<noteq> None"
  by (simp add: Digest_IsValid_def MarshalText_def)

end
