(* ===== verification/Blob_Cache.thy ===== *)
theory Blob_Cache
  imports Blob_Digest Registry_Names Go_Filepath "HOL-Library.AList" "HOL-Library.List_Lexorder"
    "HOL-Library.Char_ord"
begin

text \<open>
  The content-addressed disk cache, after \<open>server/internal/cache/blob/cache.go\<close> and \<open>chunked.go\<close>. The
  cache is the table of its files, by their path below the cache directory, with their contents. SHA-256
  is the parameter \<open>sha\<close>. A reader is the list of the pieces that it returns. What the operating system
  answers to the writes, and to opening, truncating and closing a file, is an \<open>io\<close> record. Directories,
  times and the absolute name of the cache directory are left out.
\<close>

record DiskCache =
  files :: "(string \<times> bytes) list"

text \<open>\<open>faults\<close>: for each write, whether it fails and after how many bytes; the ones not listed succeed.\<close>

record io =
  faults :: "nat option list"
  read_error :: bool
  opens :: bool
  truncates :: bool
  closes :: bool

definition io_ok :: io where
  "io_ok = \<lparr>faults = [], read_error = False, opens = True, truncates = True, closes = True\<rparr>"

datatype cache_error =
    ErrChanged | ErrTooLong | ErrWrite | ErrRead | ErrUnexpectedEOF | ErrOpen | ErrClose | ErrNotExist
  | ErrInvalidName | ErrInvalidDigest | ErrSize

section \<open>Checked writes\<close>

record checkWriter =
  cw_size :: int
  cw_d :: digest
  cw_h :: bytes
  cw_n :: nat
  cw_err :: "cache_error option"
  cw_f :: bytes
  cw_off :: nat

text \<open>A write at an offset of a file; a gap is filled with zeros.\<close>

definition write_at :: "bytes \<Rightarrow> nat \<Rightarrow> bytes \<Rightarrow> bytes" where
  "write_at f off p = (if p = [] then f
     else take off (f @ replicate (off - length f) 0) @ p @ drop (off + length p) f)"

definition seterr :: "cache_error \<Rightarrow> checkWriter \<Rightarrow> checkWriter" where
  "seterr e w = (if cw_err w = None then w\<lparr>cw_err := Some e\<rparr> else w)"

definition cw_Write :: "(bytes \<Rightarrow> bytes) \<Rightarrow> nat option \<Rightarrow> bytes \<Rightarrow> checkWriter \<Rightarrow>
    checkWriter \<times> nat \<times> cache_error option" where
  "cw_Write sha fault p w = (case cw_err w of
      Some e \<Rightarrow> (w, 0, Some e)
    | None \<Rightarrow>
        (let w = w\<lparr>cw_h := cw_h w @ p\<rparr>; nextSize = int (cw_n w + length p) in
         if nextSize = cw_size w \<and> sha (cw_h w) \<noteq> sum32 (cw_d w) then (seterr ErrChanged w, 0, Some ErrChanged)
         else if nextSize > cw_size w then (seterr ErrTooLong w, 0, Some ErrTooLong)
         else (let n = (case fault of None \<Rightarrow> length p | Some k \<Rightarrow> min k (length p));
                   w' = w\<lparr>cw_f := write_at (cw_f w) (cw_off w + cw_n w) (take n p), cw_n := cw_n w + n\<rparr> in
           case fault of None \<Rightarrow> (w', n, None) | Some _ \<Rightarrow> (seterr ErrWrite w', n, Some ErrWrite))))"

text \<open>\<open>io.Copy\<close> into a checked writer: the writer afterwards, the bytes written and the error.\<close>

fun io_Copy :: "(bytes \<Rightarrow> bytes) \<Rightarrow> nat option list \<Rightarrow> bool \<Rightarrow> bytes list \<Rightarrow> checkWriter \<Rightarrow>
    checkWriter \<times> nat \<times> cache_error option" where
  "io_Copy sha fs rerr [] w = (w, 0, if rerr then Some ErrRead else None)"
| "io_Copy sha fs rerr (p # ps) w =
     (case cw_Write sha (if fs = [] then None else hd fs) p w of
        (w', n, Some e) \<Rightarrow> (w', n, Some e)
      | (w', n, None) \<Rightarrow>
          (case io_Copy sha (tl fs) rerr ps w' of (w'', k, e) \<Rightarrow> (w'', n + k, e)))"

section \<open>The cache\<close>

definition Stat :: "string \<Rightarrow> DiskCache \<Rightarrow> bytes option" where
  "Stat name c = map_of (files c) name"

definition store :: "string \<Rightarrow> bytes \<Rightarrow> DiskCache \<Rightarrow> DiskCache" where
  "store name f c = c\<lparr>files := AList.update name f (files c)\<rparr>"

definition remove :: "string \<Rightarrow> DiskCache \<Rightarrow> DiskCache" where
  "remove name c = c\<lparr>files := AList.delete name (files c)\<rparr>"

definition writer :: "digest \<Rightarrow> int \<Rightarrow> bytes \<Rightarrow> nat \<Rightarrow> checkWriter" where
  "writer d sz f off = \<lparr>cw_size = sz, cw_d = d, cw_h = [], cw_n = 0, cw_err = None, cw_f = f, cw_off = off\<rparr>"

definition copyNamedFile :: "(bytes \<Rightarrow> bytes) \<Rightarrow> io \<Rightarrow> string \<Rightarrow> bytes list \<Rightarrow> digest \<Rightarrow> int \<Rightarrow> DiskCache \<Rightarrow>
    cache_error option \<times> DiskCache" where
  "copyNamedFile sha io name rd out sz c =
     (let old = (case Stat name c of None \<Rightarrow> [] | Some f \<Rightarrow> f) in
      if Stat name c \<noteq> None \<and> int (length old) = sz then (None, c)
      else if \<not> opens io then (Some ErrOpen, c)
      else (let f = (if int (length old) > sz then [] else old) in
        if sz = 0 then (None, store name f c)
        else (case io_Copy sha (faults io) (read_error io) rd (writer out sz f 0) of (w, n, err) \<Rightarrow>
          let failed = store name (if truncates io then [] else cw_f w) c in
          case err of
            Some e \<Rightarrow> (Some e, failed)
          | None \<Rightarrow>
              if int n < sz then (Some ErrUnexpectedEOF, failed)
              else if \<not> closes io then (Some ErrClose, remove name c)
              else (None, store name (cw_f w) c))))"

definition GetFile :: "digest \<Rightarrow> string" where
  "GetFile d = ''blobs/sha256-'' @ hex_encode (sum32 d)"

definition Put :: "(bytes \<Rightarrow> bytes) \<Rightarrow> io \<Rightarrow> digest \<Rightarrow> bytes list \<Rightarrow> int \<Rightarrow> DiskCache \<Rightarrow>
    cache_error option \<times> DiskCache" where
  "Put sha io d rd sz c = copyNamedFile sha io (GetFile d) rd d sz c"

text \<open>A \<open>bytes.Reader\<close> hands its data over in one piece.\<close>

definition PutBytes :: "(bytes \<Rightarrow> bytes) \<Rightarrow> io \<Rightarrow> digest \<Rightarrow> bytes \<Rightarrow> DiskCache \<Rightarrow> cache_error option \<times> DiskCache" where
  "PutBytes sha io d data c = Put sha io d (if data = [] then [] else [data]) (int (length data)) c"

text \<open>\<open>Import\<close>: the data goes to a temporary file that is renamed to the name of its digest.\<close>

definition Import :: "(bytes \<Rightarrow> bytes) \<Rightarrow> io \<Rightarrow> bytes list \<Rightarrow> int \<Rightarrow> DiskCache \<Rightarrow> (cache_error + digest) \<times> DiskCache" where
  "Import sha io rd sz c =
     (let data = concat rd; d = Digest32 (sha data) in
      if read_error io then (Inl ErrRead, c)
      else if list_ex (\<lambda>f. f \<noteq> None) (faults io) then (Inl ErrWrite, c)
      else if int (length data) \<noteq> sz then (Inl ErrSize, c)
      else if \<not> closes io then (Inl ErrClose, c)
      else (Inr d, store (GetFile d) data c))"

text \<open>\<open>Get\<close> gives the size of the entry.\<close>

definition Get :: "digest \<Rightarrow> DiskCache \<Rightarrow> nat option" where
  "Get d c = (case Stat (GetFile d) c of
      None \<Rightarrow> None
    | Some f \<Rightarrow> if f = [] then None else Some (length f))"

section \<open>Links\<close>

definition is_link :: "string \<Rightarrow> bool" where
  "is_link p = (case Split_at p [Sep] of [m, _, _, _, _] \<Rightarrow> m = ''manifests'' | _ \<Rightarrow> False)"

text \<open>\<open>fs.Glob\<close> walks the directories in order: the paths are sorted element by element.\<close>

definition links :: "DiskCache \<Rightarrow> string list" where
  "links c = sort_key (\<lambda>p. Split_at p [Sep]) (filter is_link (map fst (files c)))"

definition pathToName :: "string \<Rightarrow> string" where
  "pathToName s =
     (let s = (if prefix ''manifests/'' s then drop 10 s else s); i = LastIndex s ''/''
      in if i > 0 then s[nat i := CHR '':''] else s)"

definition Links :: "DiskCache \<Rightarrow> string list" where
  "Links c = map pathToName (links c)"

definition nameToPath :: "string \<Rightarrow> string option" where
  "nameToPath name =
     (let n = names_Parse name in
      if \<not> names_IsFullyQualified n then None
      else Some (filepath_Join [rhost n, rns n, rmodel n, rtag n]))"

definition manifestPath :: "string \<Rightarrow> DiskCache \<Rightarrow> string option" where
  "manifestPath name c = (case nameToPath name of
      None \<Rightarrow> None
    | Some np \<Rightarrow>
        (let maybe = filepath_Join [''manifests'', np] in
         case find (EqualFold maybe) (links c) of Some l \<Rightarrow> Some l | None \<Rightarrow> Some maybe))"

definition splitNameDigest :: "string \<Rightarrow> string \<times> string" where
  "splitNameDigest s =
     (let i = LastIndex s ''@'' in if i < 0 then (s, []) else (take (nat i) s, drop (nat i + 1) s))"

definition readAndSum :: "(bytes \<Rightarrow> bytes) \<Rightarrow> string \<Rightarrow> nat \<Rightarrow> DiskCache \<Rightarrow> (bytes \<times> digest) option" where
  "readAndSum sha filename limit c =
     map_option (\<lambda>f. (take limit f, Digest32 (sha (take limit f)))) (Stat filename c)"

definition Resolve :: "(bytes \<Rightarrow> bytes) \<Rightarrow> io \<Rightarrow> string \<Rightarrow> DiskCache \<Rightarrow> (cache_error + digest) \<times> DiskCache" where
  "Resolve sha io name c = (case splitNameDigest name of (name, dg) \<Rightarrow>
     if dg \<noteq> [] then ((case ParseDigest dg of None \<Rightarrow> Inl ErrInvalidDigest | Some d \<Rightarrow> Inr d), c)
     else (case manifestPath name c of
         None \<Rightarrow> (Inl ErrInvalidName, c)
       | Some file \<Rightarrow>
           (case readAndSum sha file (2 ^ 20) c of
              None \<Rightarrow> (Inl ErrNotExist, c)
            | Some (data, d) \<Rightarrow>
                (case PutBytes sha io d data c of
                   (Some e, c') \<Rightarrow> (Inl e, c')
                 | (None, c') \<Rightarrow> (Inr d, c')))))"

text \<open>A file is read in pieces of the size of the buffer of \<open>io.Copy\<close>.\<close>

fun pieces :: "nat \<Rightarrow> 'a list \<Rightarrow> 'a list list" where
  "pieces n [] = []"
| "pieces n xs = (if n = 0 then [xs] else take n xs # pieces n (drop n xs))"

definition Link :: "(bytes \<Rightarrow> bytes) \<Rightarrow> io \<Rightarrow> string \<Rightarrow> digest \<Rightarrow> DiskCache \<Rightarrow> cache_error option \<times> DiskCache" where
  "Link sha io name d c = (case manifestPath name c of
      None \<Rightarrow> (Some ErrInvalidName, c)
    | Some file \<Rightarrow>
        (case Stat (GetFile d) c of
           None \<Rightarrow> (Some ErrNotExist, c)
         | Some f \<Rightarrow> copyNamedFile sha io file (pieces (32 * 1024) f) d (int (length f)) c))"

definition Unlink :: "string \<Rightarrow> DiskCache \<Rightarrow> (cache_error + bool) \<times> DiskCache" where
  "Unlink name c = (case manifestPath name c of
      None \<Rightarrow> (Inl ErrInvalidName, c)
    | Some file \<Rightarrow> if Stat file c = None then (Inr False, c) else (Inr True, remove file c))"

section \<open>Chunks\<close>

record Chunk =
  Start :: nat
  End :: nat

definition Chunk_Size :: "Chunk \<Rightarrow> int" where
  "Chunk_Size ch = int (End ch) - int (Start ch) + 1"

text \<open>\<open>None\<close> is a chunker without a file: the blob is taken to be there.\<close>

record Chunker =
  chunker_digest :: digest
  chunker_size :: int

definition Chunked :: "digest \<Rightarrow> int \<Rightarrow> DiskCache \<Rightarrow> Chunker option \<times> DiskCache" where
  "Chunked d sz c = (case Stat (GetFile d) c of
      Some f \<Rightarrow> if int (length f) = sz then (None, c) else (Some \<lparr>chunker_digest = d, chunker_size = sz\<rparr>, c)
    | None \<Rightarrow> (Some \<lparr>chunker_digest = d, chunker_size = sz\<rparr>, store (GetFile d) [] c))"

text \<open>\<open>io.CopyN\<close>: at most that many bytes of the pieces.\<close>

fun limit_pieces :: "int \<Rightarrow> 'a list list \<Rightarrow> 'a list list" where
  "limit_pieces n [] = []"
| "limit_pieces n (p # ps) =
     (if n \<le> 0 then [] else take (nat n) p # limit_pieces (n - int (length p)) ps)"

definition Chunker_Put :: "(bytes \<Rightarrow> bytes) \<Rightarrow> io \<Rightarrow> Chunker option \<Rightarrow> Chunk \<Rightarrow> digest \<Rightarrow> bytes list \<Rightarrow> DiskCache \<Rightarrow>
    cache_error option \<times> DiskCache" where
  "Chunker_Put sha io ck ch d rd c = (case ck of
      None \<Rightarrow> (None, c)
    | Some k \<Rightarrow>
        (let name = GetFile (chunker_digest k);
             f = (case Stat name c of None \<Rightarrow> [] | Some f \<Rightarrow> f) in
         case io_Copy sha (faults io) (read_error io \<and> int (length (concat rd)) < Chunk_Size ch)
             (limit_pieces (Chunk_Size ch) rd) (writer d (Chunk_Size ch) f (Start ch)) of
           (w, n, err) \<Rightarrow>
             ((case err of
                 Some e \<Rightarrow> Some e
               | None \<Rightarrow> if int n < Chunk_Size ch then Some ErrUnexpectedEOF else None),
              store name (cw_f w) c)))"

section \<open>Checked writes are safe\<close>

text \<open>What is in the file of a writer at offset 0: the bytes written so far in front, never more than the
  expected size, and the expected size only after the hash was checked.\<close>

definition safe :: "(bytes \<Rightarrow> bytes) \<Rightarrow> nat \<Rightarrow> checkWriter \<Rightarrow> bool" where
  "safe sha m w \<longleftrightarrow> cw_off w = 0 \<and> int (cw_n w) \<le> cw_size w \<and> cw_n w \<le> length (cw_f w) \<and>
     length (cw_f w) = max m (cw_n w) \<and>
     (cw_err w = None \<longrightarrow> cw_h w = take (cw_n w) (cw_f w)) \<and>
     (int (cw_n w) = cw_size w \<longrightarrow> cw_n w = 0 \<or> sha (take (cw_n w) (cw_f w)) = sum32 (cw_d w))"

lemma write_at_front:
  assumes "n \<le> length f"
  shows "take (n + length p) (write_at f n p) = take n f @ p"
    and "length (write_at f n p) = max (length f) (n + length p)"
  using assms by (auto simp: write_at_def)

lemma cw_Write_config:
  "cw_Write sha fault p w = (w', n, e) \<Longrightarrow> cw_size w' = cw_size w \<and> cw_d w' = cw_d w \<and> cw_off w' = cw_off w"
  by (auto simp: cw_Write_def seterr_def Let_def split: option.splits if_splits)

lemma cw_Write_safe:
  assumes "safe sha m w" "cw_Write sha fault p w = (w', n, e)"
  shows "safe sha m w'"
proof (cases "cw_err w")
  case (Some e')
  then show ?thesis using assms by (simp add: cw_Write_def)
next
  case None
  let ?w = "w\<lparr>cw_h := cw_h w @ p\<rparr>" and ?next = "int (cw_n w + length p)"
  have s: "cw_off w = 0" "int (cw_n w) \<le> cw_size w" "cw_n w \<le> length (cw_f w)"
    "length (cw_f w) = max m (cw_n w)" "cw_h w = take (cw_n w) (cw_f w)"
    "int (cw_n w) = cw_size w \<longrightarrow> cw_n w = 0 \<or> sha (take (cw_n w) (cw_f w)) = sum32 (cw_d w)"
    using assms(1) None by (simp_all add: safe_def)
  show ?thesis
  proof (cases "?next = cw_size w \<and> sha (cw_h w @ p) \<noteq> sum32 (cw_d w) \<or> ?next > cw_size w")
    case True
    then have "w' = seterr ErrChanged ?w \<or> w' = seterr ErrTooLong ?w"
      using assms(2) None by (auto simp: cw_Write_def Let_def split: if_splits)
    then show ?thesis using s None by (auto simp: safe_def seterr_def)
  next
    case False
    define k where "k = (case fault of None \<Rightarrow> length p | Some k \<Rightarrow> min k (length p))"
    have k: "k \<le> length p" by (simp add: k_def split: option.split)
    define f where "f = write_at (cw_f w) (cw_n w) (take k p)"
    have f: "take (cw_n w + k) f = take (cw_n w) (cw_f w) @ take k p" "length f = max (length (cw_f w)) (cw_n w + k)"
      using write_at_front [OF s(3), of "take k p"] k by (simp_all add: f_def)
    have w': "cw_f w' = f" "cw_n w' = cw_n w + k" "cw_size w' = cw_size w" "cw_d w' = cw_d w" "cw_off w' = 0"
      "cw_h w' = cw_h w @ p" "cw_err w' = None \<longrightarrow> k = length p"
      using assms(2) None False s(1)
      by (auto simp: cw_Write_def Let_def seterr_def k_def f_def split: if_splits option.splits)
    have "sha (take (cw_n w + k) f) = sum32 (cw_d w)" if "int (cw_n w + k) = cw_size w"
    proof -
      have "k = length p" using that False k by auto
      then show ?thesis using False that f(1) s(5) by auto
    qed
    moreover have "cw_h w' = take (cw_n w + k) f" if "cw_err w' = None"
      using that w'(6,7) f(1) s(5) by simp
    moreover have "cw_n w + k \<le> length f" "length f = max m (cw_n w + k)" using f(2) s(4) by auto
    moreover have "int (cw_n w + k) \<le> cw_size w" using False k by auto
    ultimately show ?thesis using w' by (simp add: safe_def)
  qed
qed

lemma io_Copy_safe:
  assumes "safe sha m w" "io_Copy sha fs rerr ps w = (w', n, e)"
  shows "safe sha m w'"
  using assms
proof (induction ps arbitrary: fs w n)
  case (Cons p ps)
  then show ?case by (fastforce split: prod.splits option.splits dest: cw_Write_safe)
qed simp

lemma cw_Write_counts:
  assumes "cw_Write sha fault p w = (w', n, e)"
  shows "cw_size w' = cw_size w" "cw_d w' = cw_d w" "cw_n w' = cw_n w + n" "e = None \<longleftrightarrow> cw_err w' = None"
    "e = None \<Longrightarrow> n = length p \<and> cw_h w' = cw_h w @ p"
  using assms by (auto simp: cw_Write_def seterr_def Let_def split: option.splits if_splits)

lemma io_Copy_counts:
  assumes "io_Copy sha fs rerr ps w = (w', n, e)"
  shows "cw_size w' = cw_size w \<and> cw_d w' = cw_d w \<and> cw_n w' = cw_n w + n \<and>
    (e = None \<longrightarrow> n = length (concat ps) \<and> cw_h w' = cw_h w @ concat ps \<and> (cw_err w = None \<longrightarrow> cw_err w' = None))"
  using assms
proof (induction ps arbitrary: fs w w' n e)
  case (Cons p ps)
  obtain w1 n1 e1 where w1: "cw_Write sha (if fs = [] then None else hd fs) p w = (w1, n1, e1)"
    by (metis prod_cases3)
  note W = cw_Write_counts [OF w1]
  show ?case
  proof (cases e1)
    case (Some x)
    then show ?thesis using Cons.prems w1 W by auto
  next
    case None
    obtain w2 n2 e2 where w2: "io_Copy sha (tl fs) rerr ps w1 = (w2, n2, e2)" by (metis prod_cases3)
    show ?thesis using Cons.IH [OF w2] Cons.prems w1 w2 W None by auto
  qed
qed auto

lemma writer_simps [simp]:
  "cw_size (writer d sz f off) = sz" "cw_d (writer d sz f off) = d" "cw_h (writer d sz f off) = []"
  "cw_n (writer d sz f off) = 0" "cw_err (writer d sz f off) = None" "cw_f (writer d sz f off) = f"
  "cw_off (writer d sz f off) = off"
  by (simp_all add: writer_def)

lemma writer_safe: "sz > 0 \<Longrightarrow> safe sha (length f) (writer d sz f 0)"
  by (simp add: safe_def)

lemma io_Copy_full:
  assumes "io_Copy sha fs rerr ps (writer d sz f 0) = (w, n, e)" "int (length f) < sz"
    and "int (length (cw_f w)) = sz"
  shows "sha (cw_f w) = sum32 d"
proof -
  have "safe sha (length f) w"
    using io_Copy_safe [OF writer_safe assms(1)] assms(2) by simp
  then show ?thesis using io_Copy_counts [OF assms(1)] assms(2,3) by (auto simp: safe_def max_def split: if_splits)
qed

lemma io_Copy_done:
  assumes "io_Copy sha fs rerr ps (writer d sz f 0) = (w, n, None)" "int (length f) < sz" "\<not> int n < sz"
  shows "cw_f w = concat ps" "int (length (concat ps)) = sz" "sha (concat ps) = sum32 d"
proof -
  have s: "safe sha (length f) w"
    using io_Copy_safe [OF writer_safe assms(1)] assms(2) by simp
  note C = io_Copy_counts [OF assms(1)]
  have n: "cw_n w = n" "cw_h w = concat ps" "n = length (concat ps)" "cw_err w = None" using C by simp_all
  have sz: "int n = sz" using s C assms(3) by (simp add: safe_def)
  have "length (cw_f w) = max (length f) n" using s n(1) by (simp add: safe_def)
  moreover have "length f < n" using sz assms(2) by linarith
  ultimately have l: "length (cw_f w) = n" by simp
  have "cw_h w = take n (cw_f w)" using s n(1,4) by (simp add: safe_def)
  then show f: "cw_f w = concat ps" using l n(2) by simp
  show "int (length (concat ps)) = sz" using sz n(3) by simp
  have "int (length (cw_f w)) = sz" using l sz by simp
  from io_Copy_full [OF assms(1,2) this] show "sha (concat ps) = sum32 d" unfolding f .
qed

lemma io_Copy_negative:
  "sz < 0 \<Longrightarrow> io_Copy sha fs rerr ps (writer d sz f 0) = (w, n, None) \<Longrightarrow> cw_f w = f"
  by (cases ps) (auto simp: cw_Write_def Let_def split: if_splits)

section \<open>Updates of one file\<close>

lemma Stat_store [simp]: "Stat n (store m f c) = (if n = m then Some f else Stat n c)"
  by (simp add: Stat_def store_def update_conv')

lemma Stat_remove [simp]: "Stat n (remove m c) = (if n = m then None else Stat n c)"
  by (simp add: Stat_def remove_def delete_conv')

lemma GetFile_inj: "GetFile d = GetFile d' \<Longrightarrow> d = d'"
  by (cases d; cases d') (auto simp: GetFile_def dest: hex_encode_inj)

text \<open>Every blob that is not empty has the content of its digest.\<close>

definition integrity :: "(bytes \<Rightarrow> bytes) \<Rightarrow> DiskCache \<Rightarrow> bool" where
  "integrity sha c \<longleftrightarrow> (\<forall>d f. Stat (GetFile d) c = Some f \<longrightarrow> f = [] \<or> sha f = sum32 d)"

locale file_update =
  fixes sha :: "bytes \<Rightarrow> bytes" and name :: string and d :: digest
    and op :: "DiskCache \<Rightarrow> 'r \<times> DiskCache"
  assumes frame: "n \<noteq> name \<Longrightarrow> Stat n (snd (op c)) = Stat n c"
    and content: "Stat name (snd (op c)) = Stat name c \<or>
      (\<forall>f. Stat name (snd (op c)) = Some f \<longrightarrow> f = [] \<or> sha f = sum32 d)"
begin

lemma keeps_integrity:
  assumes "integrity sha c" "name = GetFile d \<or> (\<forall>d'. name \<noteq> GetFile d')"
  shows "integrity sha (snd (op c))"
  unfolding integrity_def
proof (intro allI impI)
  fix d' f assume f: "Stat (GetFile d') (snd (op c)) = Some f"
  show "f = [] \<or> sha f = sum32 d'"
  proof (cases "GetFile d' = name")
    case False
    then show ?thesis using frame f assms(1) by (simp add: integrity_def)
  next
    case True
    then have "d' = d" using assms(2) GetFile_inj by metis
    then show ?thesis using content [of c] f assms(1) True unfolding integrity_def by metis
  qed
qed

end

lemma copyNamedFile_cases:
  assumes "copyNamedFile sha io name rd out sz c = (r, c')" "truncates io"
  obtains "c' = c" | "c' = store name [] c" | "c' = remove name c"
  | f where "c' = store name f c" "r = None" "sha f = sum32 out" "f = concat rd" "int (length f) = sz"
proof -
  define old where "old = (case Stat name c of None \<Rightarrow> [] | Some f \<Rightarrow> f)"
  define f where "f = (if int (length old) > sz then [] else old)"
  obtain w n err where io: "io_Copy sha (faults io) (read_error io) rd (writer out sz f 0) = (w, n, err)"
    by (metis prod_cases3)
  consider (same) "c' = c" | (zero) "sz = 0" "c' = store name f c" "int (length old) \<noteq> sz \<or> Stat name c = None"
    | (copied) "sz \<noteq> 0" "int (length old) \<noteq> sz \<or> Stat name c = None"
      "c' = store name [] c \<or> c' = remove name c \<or> r = None \<and> c' = store name (cw_f w) c \<and> err = None \<and> \<not> int n < sz"
    using assms io
    unfolding copyNamedFile_def old_def [symmetric] Let_def f_def [symmetric]
    by (auto split: if_splits option.splits)
  then show thesis
  proof cases
    case same
    then show ?thesis by (rule that(1))
  next
    case zero
    then have "f = []" by (cases "Stat name c") (auto simp: f_def old_def)
    with zero show ?thesis using that(2) by simp
  next
    case copied
    show ?thesis
    proof (cases "int (length f) < sz")
      case True
      then show ?thesis using copied(3) io_Copy_done [of sha _ _ rd out sz f w n] io that by metis
    next
      case False
      then have "sz < 0" "f = []"
        using copied(1,2) by (cases "Stat name c"; auto simp: f_def old_def split: if_splits)+
      then show ?thesis using copied(3) io_Copy_negative [of sz sha _ _ rd out f w n] io that(2,3) by metis
    qed
  qed
qed

interpretation copy: file_update sha name d "copyNamedFile sha (io\<lparr>truncates := True\<rparr>) name rd d sz"
  for sha name d io rd sz
proof unfold_locales
  fix n c
  obtain r c' where op: "copyNamedFile sha (io\<lparr>truncates := True\<rparr>) name rd d sz c = (r, c')" by fastforce
  have t: "truncates (io\<lparr>truncates := True\<rparr>)" by simp
  from copyNamedFile_cases [OF op t]
  show "n \<noteq> name \<Longrightarrow> Stat n (snd (copyNamedFile sha (io\<lparr>truncates := True\<rparr>) name rd d sz c)) = Stat n c"
    unfolding op by cases auto
  from copyNamedFile_cases [OF op t]
  show "Stat name (snd (copyNamedFile sha (io\<lparr>truncates := True\<rparr>) name rd d sz c)) = Stat name c \<or>
    (\<forall>f. Stat name (snd (copyNamedFile sha (io\<lparr>truncates := True\<rparr>) name rd d sz c)) = Some f \<longrightarrow> f = [] \<or> sha f = sum32 d)"
    unfolding op by cases auto
qed

lemma copy_keeps_integrity:
  assumes "integrity sha c" "truncates io" "name = GetFile d \<or> (\<forall>d'. name \<noteq> GetFile d')"
  shows "integrity sha (snd (copyNamedFile sha io name rd d sz c))"
proof -
  have "io = io\<lparr>truncates := True\<rparr>" using assms(2) by (cases io) simp
  then show ?thesis using copy.keeps_integrity [OF assms(1,3)] by metis
qed

section \<open>Manifest paths\<close>

lemma registry_part_plain: "names_isValidPart kind s \<Longrightarrow> s \<noteq> [] \<Longrightarrow> plain_elem s"
  using valid_part_chars(1) [of kind s]
  by (cases s) (auto simp: plain_elem_def Sep_def names_isValidPart_def part_char0_def in_range_def)

lemma nameToPath_form:
  assumes "nameToPath name = Some np"
  shows "\<exists>h n m t. np = Join [h, n, m, t] [Sep] \<and> list_all plain_elem [h, n, m, t]"
proof -
  let ?n = "names_Parse name"
  have v: "names_IsFullyQualified ?n" and np: "np = filepath_Join [rhost ?n, rns ?n, rmodel ?n, rtag ?n]"
    using assms by (auto simp: nameToPath_def Let_def split: if_splits)
  have "list_all plain_elem [rhost ?n, rns ?n, rmodel ?n, rtag ?n]"
    using v by (auto simp: names_IsFullyQualified_def names_IsValid_def intro: registry_part_plain)
  then show ?thesis using filepath_Join_plain [of "[rhost ?n, rns ?n, rmodel ?n, rtag ?n]"] np by blast
qed

lemma manifest_default:
  assumes "nameToPath name = Some np"
  shows "is_link (filepath_Join [''manifests'', np])"
proof -
  obtain h n m t where np: "np = Join [h, n, m, t] [Sep]" and pl: "list_all plain_elem [h, n, m, t]"
    using nameToPath_form [OF assms] by blast
  have man: "plain_elem ''manifests''" by (simp add: plain_elem_def Sep_def)
  have j: "Join [''manifests'', np] [Sep] = Join [''manifests'', h, n, m, t] [Sep]" by (simp add: np)
  have all: "list_all plain_elem [''manifests'', h, n, m, t]" using pl man by simp
  have "filepath_Join [''manifests'', np] = Clean (Join [''manifests'', np] [Sep])"
    by (simp add: filepath_Join_def)
  also have "\<dots> = Join [''manifests'', h, n, m, t] [Sep]"
    unfolding j by (rule Clean_Join_plain) (use all in auto)
  finally have e: "filepath_Join [''manifests'', np] = Join [''manifests'', h, n, m, t] [Sep]" .
  have "Split_at (Join [''manifests'', h, n, m, t] [Sep]) [Sep] = [''manifests'', h, n, m, t]"
    by (rule Split_at_Join) (simp, rule list.pred_mono_strong [OF all], rule plain_elemD(2))
  then show ?thesis unfolding is_link_def e by (simp only:) simp
qed

lemma set_links [simp]: "set (links c) = {p \<in> fst ` set (files c). is_link p}"
  by (auto simp: links_def)

lemma manifestPath_link:
  assumes "manifestPath name c = Some p"
  shows "is_link p"
  using assms manifest_default
  by (auto simp: manifestPath_def Let_def split: option.splits dest!: find_Some_iff [THEN iffD1] nth_mem)

lemma link_not_blob:
  assumes "is_link p"
  shows "p \<noteq> GetFile d"
proof -
  obtain h n m t where s: "Split_at p [Sep] = [''manifests'', h, n, m, t]"
    using assms by (auto simp: is_link_def split: list.splits)
  have "p = Join [''manifests'', h, n, m, t] [Sep]" using Join_Split_at [of p "[Sep]"] s by simp
  then show ?thesis by (simp add: GetFile_def)
qed

section \<open>Properties\<close>

text \<open>The operations on a cache, in any sequence.\<close>

datatype cache_op =
    OpPut io digest "bytes list" int
  | OpImport io "bytes list" int
  | OpResolve io string
  | OpLink io string digest
  | OpUnlink string

fun op_truncates :: "cache_op \<Rightarrow> bool" where
  "op_truncates (OpPut io _ _ _) = truncates io"
| "op_truncates (OpImport _ _ _) = True"
| "op_truncates (OpResolve io _) = truncates io"
| "op_truncates (OpLink io _ _) = truncates io"
| "op_truncates (OpUnlink _) = True"

fun cache_step :: "(bytes \<Rightarrow> bytes) \<Rightarrow> cache_op \<Rightarrow> DiskCache \<Rightarrow> DiskCache" where
  "cache_step sha (OpPut io d rd sz) c = snd (Put sha io d rd sz c)"
| "cache_step sha (OpImport io rd sz) c = snd (Import sha io rd sz c)"
| "cache_step sha (OpResolve io name) c = snd (Resolve sha io name c)"
| "cache_step sha (OpLink io name d) c = snd (Link sha io name d c)"
| "cache_step sha (OpUnlink name) c = snd (Unlink name c)"

lemma Put_keeps_integrity:
  assumes "integrity sha c" "truncates io"
  shows "integrity sha (snd (Put sha io d rd sz c))"
  unfolding Put_def by (rule copy_keeps_integrity [OF assms]) simp

lemma manifest_keeps_integrity:
  assumes "integrity sha c" "is_link p"
  shows "integrity sha (remove p c)" "truncates io \<Longrightarrow> integrity sha (snd (copyNamedFile sha io p rd d sz c))"
proof -
  have p: "p \<noteq> GetFile d'" for d' using link_not_blob [OF assms(2)] .
  then have "GetFile d' \<noteq> p" for d' by metis
  then show "integrity sha (remove p c)" using assms(1) by (simp add: integrity_def)
  show "truncates io \<Longrightarrow> integrity sha (snd (copyNamedFile sha io p rd d sz c))"
    using copy_keeps_integrity [OF assms(1)] p by blast
qed

lemma cache_step_keeps_integrity:
  assumes "integrity sha c" "op_truncates op"
  shows "integrity sha (cache_step sha op c)"
proof (cases op)
  case (OpPut io d rd sz)
  then show ?thesis using Put_keeps_integrity assms by simp
next
  case (OpImport io rd sz)
  have "integrity sha (store (GetFile (Digest32 (sha x))) x c)" for x
    using assms(1) by (auto simp: integrity_def dest: GetFile_inj)
  then show ?thesis using OpImport assms(1) by (simp add: Import_def Let_def)
next
  case (OpResolve io name)
  have "integrity sha (snd (PutBytes sha io d data c))" for d data
    using Put_keeps_integrity assms OpResolve by (simp add: PutBytes_def)
  then show ?thesis
    using OpResolve assms(1)
    by (auto simp: Resolve_def split: prod.splits option.splits) (metis snd_conv)+
next
  case (OpLink io name d)
  then show ?thesis
    using assms manifest_keeps_integrity(2) [OF assms(1)] manifestPath_link [of name c]
    by (auto simp: Link_def split: option.splits)
next
  case (OpUnlink name)
  then show ?thesis
    using assms manifest_keeps_integrity(1) [OF assms(1)] manifestPath_link [of name c]
    by (auto simp: Unlink_def split: option.splits)
qed


text \<open>C8: a blob file that grows to its full size has the right content at every moment. At whatever
  write the copy of a blob stops, and whatever shorter file it began with, a file of the expected size has
  been checked against the digest, so the size alone tells a complete blob.\<close>

theorem full_size_only_when_verified:
  assumes "io_Copy sha fs rerr ps (writer d sz old 0) = (w, n, e)" "int (length old) < sz"
  shows "int (length (cw_f w)) \<le> sz \<and> (int (length (cw_f w)) = sz \<longrightarrow> sha (cw_f w) = sum32 d)"
proof -
  have "safe sha (length old) w"
    using io_Copy_safe [OF writer_safe assms(1)] assms(2) by simp
  then have "int (length (cw_f w)) \<le> sz"
    using io_Copy_counts [OF assms(1)] assms(2) by (simp add: safe_def max_def)
  then show ?thesis using io_Copy_full [OF assms] by blast
qed

lemma cw_Write_ok:
  assumes "cw_err w = None" "int (cw_n w + length p) \<le> cw_size w"
    "int (cw_n w + length p) = cw_size w \<longrightarrow> sha (cw_h w @ p) = sum32 (cw_d w)"
  obtains w' where "cw_Write sha None p w = (w', length p, None)" "cw_err w' = None" "cw_n w' = cw_n w + length p"
    "cw_size w' = cw_size w" "cw_d w' = cw_d w" "cw_h w' = cw_h w @ p"
  using assms by (auto simp: cw_Write_def Let_def)

lemma io_Copy_ok:
  assumes "cw_err w = None" "cw_n w = length (cw_h w)" "int (length (cw_h w @ concat ps)) = cw_size w"
    "sha (cw_h w @ concat ps) = sum32 (cw_d w)"
  shows "\<exists>w'. io_Copy sha [] False ps w = (w', length (concat ps), None)"
  using assms
proof (induction ps arbitrary: w)
  case (Cons p ps)
  have "sha (cw_h w @ p) = sum32 (cw_d w)" if "int (cw_n w + length p) = cw_size w"
  proof -
    have "length (concat ps) = 0"
      using that Cons.prems(2,3) by (simp only: length_append concat.simps of_nat_add)
    then have "concat ps = []" by (simp only: length_0_conv)
    with Cons.prems(4) show ?thesis by (simp only: concat.simps append_Nil2)
  qed
  then obtain w1 where w1: "cw_Write sha None p w = (w1, length p, None)" "cw_err w1 = None"
    "cw_n w1 = cw_n w + length p" "cw_size w1 = cw_size w" "cw_d w1 = cw_d w" "cw_h w1 = cw_h w @ p"
    using cw_Write_ok [of w p sha] Cons.prems by auto
  from Cons.IH [of w1] Cons.prems w1 obtain w2 where "io_Copy sha [] False ps w1 = (w2, length (concat ps), None)"
    by auto
  then show ?case using w1(1) by simp
qed simp

lemma copyNamedFile_ok:
  assumes "case Stat name c of None \<Rightarrow> True | Some g \<Rightarrow> length g \<noteq> length data"
    and rd: "concat rd = data" and "sha data = sum32 d"
  shows "copyNamedFile sha io_ok name rd d (int (length data)) c = (None, store name data c)"
proof -
  define old where "old = (case Stat name c of None \<Rightarrow> [] | Some f \<Rightarrow> f)"
  define f where "f = (if int (length old) > int (length data) then [] else old)"
  have f: "length f < length data \<or> data = [] \<and> f = []"
    using assms(1) by (cases "Stat name c") (auto simp: f_def old_def)
  have new: "\<not> (Stat name c \<noteq> None \<and> int (length old) = int (length data))"
    using assms(1) by (cases "Stat name c") (auto simp: old_def)
  show ?thesis
  proof (cases "data = []")
    case True
    then show ?thesis
      using f new unfolding copyNamedFile_def old_def [symmetric] Let_def f_def [symmetric]
      by (auto simp: io_ok_def)
  next
    case False
    let ?w = "writer d (int (length data)) f 0"
    obtain w where w: "io_Copy sha [] False rd ?w = (w, length data, None)"
      using io_Copy_ok [of ?w rd sha] assms(3) rd by auto
    have "cw_f w = data"
      using io_Copy_done(1) [OF w] f False rd by auto
    then show ?thesis
      using new False w unfolding copyNamedFile_def old_def [symmetric] Let_def f_def [symmetric]
      by (auto simp: io_ok_def)
  qed
qed

text \<open>A blob that is put with the size and the digest of its data, over nothing or over a file of
  another size, is then in the cache with that data, in whatever pieces it was read, and no other file
  changes.\<close>

theorem put_then_get:
  assumes "case Stat (GetFile d) c of None \<Rightarrow> True | Some g \<Rightarrow> length g \<noteq> length data"
    and "concat rd = data" "sha data = sum32 d" "data \<noteq> []"
  shows "\<exists>c'. Put sha io_ok d rd (int (length data)) c = (None, c') \<and>
    Stat (GetFile d) c' = Some data \<and> Get d c' = Some (length data) \<and>
    (\<forall>n. n \<noteq> GetFile d \<longrightarrow> Stat n c' = Stat n c)"
proof -
  have "Put sha io_ok d rd (int (length data)) c = (None, store (GetFile d) data c)"
    unfolding Put_def by (rule copyNamedFile_ok) (use assms in auto)
  then show ?thesis using assms(4) by (simp add: Get_def)
qed

lemma concat_pieces [simp]: "concat (pieces n xs) = xs"
proof (induction n xs rule: pieces.induct)
  case (2 n v va)
  show ?case
  proof (cases "n = 0")
    case True
    then show ?thesis by simp
  next
    case False
    from 2 [OF this] False show ?thesis by (simp only: pieces.simps if_False concat.simps append_take_drop_id)
  qed
qed simp

lemma find_unique:
  assumes "x \<in> set xs" "P x" "\<forall>y \<in> set xs. P y \<longrightarrow> y = x"
  shows "find P xs = Some x"
proof (cases "find P xs")
  case None
  then show ?thesis using assms(1,2) by (auto simp: find_None_iff)
next
  case (Some y)
  then have "y \<in> set xs" "P y" by (auto simp: find_Some_iff)
  then show ?thesis using Some assms(3) by blast
qed

lemma manifestPath_store:
  assumes "manifestPath name c = Some p"
  shows "manifestPath name (store p f c) = Some p"
proof -
  obtain np where np: "nameToPath name = Some np" using assms by (auto simp: manifestPath_def split: option.splits)
  let ?m = "filepath_Join [''manifests'', np]"
  show ?thesis
  proof (cases "find (EqualFold ?m) (links c)")
    case (Some l)
    then have p: "p = l" using assms np by (simp add: manifestPath_def)
    have "l \<in> fst ` set (files c)" using Some by (auto simp: find_Some_iff dest!: nth_mem)
    then have "map fst (AList.update l f (files c)) = map fst (files c)"
      by (simp add: update_keys)
    then have "links (store p f c) = links c" by (simp add: links_def store_def p)
    then show ?thesis using Some np by (simp add: manifestPath_def p)
  next
    case None
    then have p: "p = ?m" using assms np by (simp add: manifestPath_def)
    have new: "\<not> EqualFold ?m y" if "y \<in> fst ` set (files c)" "is_link y" for y
      using None that by (auto simp: find_None_iff)
    have l: "is_link ?m" by (rule manifest_default [OF np])
    have keys: "fst ` set (AList.update ?m f (files c)) = insert ?m (fst ` set (files c))"
      by (simp add: update_keys insert_absorb flip: set_map)
    have "set (links (store p f c)) = insert ?m (set (links c))"
      using l keys by (auto simp: store_def p)
    then have "find (EqualFold ?m) (links (store p f c)) = Some ?m"
      by (intro find_unique) (use new in auto)
    then show ?thesis using np by (simp add: manifestPath_def p)
  qed
qed

text \<open>After a name has been linked to a blob, it resolves to the digest of the blob, in any letter
  case, unless a manifest of the very size of the blob was there before.\<close>

theorem link_then_resolve:
  assumes "manifestPath name c = Some p" "CHR ''@'' \<notin> set name"
    and blob: "Stat (GetFile d) c = Some f" "sha f = sum32 d" "length f \<le> 2 ^ 20"
    and fresh: "case Stat p c of None \<Rightarrow> True | Some g \<Rightarrow> length g \<noteq> length f"
  shows "\<exists>c'. Link sha io_ok name d c = (None, c') \<and> Resolve sha io_ok name c' = (Inr d, c')"
proof -
  let ?c = "store p f c"
  have "copyNamedFile sha io_ok p (pieces (32 * 1024) f) d (int (length f)) c = (None, ?c)"
    by (rule copyNamedFile_ok) (use fresh blob in auto)
  then have l: "Link sha io_ok name d c = (None, ?c)" using assms(1) blob(1) by (simp add: Link_def)
  have "p \<noteq> GetFile d" using manifestPath_link [OF assms(1)] link_not_blob by blast
  then have b: "Stat (GetFile d) ?c = Some f" using blob(1) by simp
  have "splitNameDigest name = (name, [])"
    using LastIndex_no_hd [OF assms(2), of "[]"] by (simp add: splitNameDigest_def)
  moreover have "readAndSum sha p (2 ^ 20) ?c = Some (f, d)"
    using blob(2,3) by (cases d) (simp add: readAndSum_def)
  moreover have "PutBytes sha io_ok d f ?c = (None, ?c)"
    using b by (simp add: PutBytes_def Put_def copyNamedFile_def)
  ultimately have "Resolve sha io_ok name ?c = (Inr d, ?c)"
    using manifestPath_store [OF assms(1), of f] by (simp add: Resolve_def)
  with l show ?thesis by blast
qed

section \<open>Examples\<close>

text \<open>A stand-in for the hash: the first 32 bytes, filled up with zeros.\<close>

definition first32 :: "bytes \<Rightarrow> bytes" where
  "first32 b = take 32 (b @ replicate 32 0)"

definition sample_digest :: "8 word \<Rightarrow> digest" where
  "sample_digest b = Digest32 (b # replicate 31 0)"

definition sample_cache :: DiskCache where
  "sample_cache = \<lparr>files = [(GetFile (sample_digest 1), [1]), (GetFile (sample_digest 2), [2])]\<rparr>"


theorem full_size_only_when_verified_witness:
  "first32 (cw_f (fst (io_Copy first32 [] False [[1], [0]] (writer (sample_digest 1) 2 [] 0)))) = sum32 (sample_digest 1)"
proof -
  let ?r = "io_Copy first32 [] False [[1], [0]] (writer (sample_digest 1) 2 [] 0)"
  have "int (length (cw_f (fst ?r))) = 2" by code_simp
  then show ?thesis
    using full_size_only_when_verified [of first32 "[]" False "[[1], [0]]" "sample_digest 1" 2 "[]" "fst ?r"
        "fst (snd ?r)" "snd (snd ?r)"] by simp
qed

theorem put_then_get_witness:
  "\<exists>c'. Put first32 io_ok (sample_digest 1) [[1], [0]] 2 \<lparr>files = []\<rparr> = (None, c') \<and> Get (sample_digest 1) c' = Some 2"
proof -
  have "first32 [1, 0] = sum32 (sample_digest 1)" by code_simp
  then show ?thesis
    using put_then_get [where d = "sample_digest 1" and c = "\<lparr>files = []\<rparr>" and data = "[1, 0]" and
        rd = "[[1], [0]]" and sha = first32] by (auto simp: Stat_def)
qed

theorem link_then_resolve_witness:
  "\<exists>c'. Link first32 io_ok ''h/n/M:t'' (sample_digest 1) sample_cache = (None, c') \<and>
     Resolve first32 io_ok ''h/n/M:t'' c' = (Inr (sample_digest 1), c')"
proof (rule link_then_resolve [where p = "''manifests/h/n/M/t''" and f = "[1]"])
  have "names_Parse ''h/n/M:t'' = \<lparr>rhost = ''h'', rns = ''n'', rmodel = ''M'', rtag = ''t''\<rparr>"
    by (simp add: names_Parse_def MaxNameLength_def Parse_loop.simps cutLastAny_def emptyRName_def)
  then have n: "nameToPath ''h/n/M:t'' = Some ''h/n/M/t''"
    by (simp add: nameToPath_def names_IsFullyQualified_def names_IsValid_def names_isValidPart_def part_char0_def
        in_range_def filepath_Join_def) code_simp
  have "links sample_cache = []" by code_simp
  then show "manifestPath ''h/n/M:t'' sample_cache = Some ''manifests/h/n/M/t''"
    by (simp add: manifestPath_def n) code_simp
  show "CHR ''@'' \<notin> set ''h/n/M:t''" by simp
  show "Stat (GetFile (sample_digest 1)) sample_cache = Some [1]" by code_simp
  show "first32 [1] = sum32 (sample_digest 1)" by code_simp
  show "length [1 :: 8 word] \<le> 2 ^ 20" by simp
  have "Stat ''manifests/h/n/M/t'' sample_cache = None" by code_simp
  then show "case Stat ''manifests/h/n/M/t'' sample_cache of None \<Rightarrow> True | Some g \<Rightarrow> length g \<noteq> length [1 :: 8 word]"
    by simp
qed

text \<open>Linking a name to another blob of the same size as its manifest does nothing and reports success: the
  name still resolves to the old digest.\<close>

lemma relink_same_size_ignored:
  "Stat ''manifests/h/n/m/t'' c = Some g \<Longrightarrow> Stat (GetFile d) c = Some f \<Longrightarrow> length g = length f \<Longrightarrow>
   manifestPath name c = Some ''manifests/h/n/m/t'' \<Longrightarrow> Link sha io name d c = (None, c)"
  by (simp add: Link_def copyNamedFile_def)

text \<open>A chunk at the end of a blob gives the file its full size before the other chunks are there: the
  blob then passes for complete.\<close>

lemma last_chunk_first_passes:
  "case Chunked (sample_digest 9) 4 \<lparr>files = []\<rparr> of (ck, c) \<Rightarrow>
     case Chunker_Put first32 io_ok ck \<lparr>Start = 2, End = 3\<rparr> (sample_digest 1) [[1, 0]] c of (e, c') \<Rightarrow>
       e = None \<and> Get (sample_digest 9) c' = Some 4 \<and> fst (Chunked (sample_digest 9) 4 c') = None \<and>
       Stat (GetFile (sample_digest 9)) c' = Some [0, 0, 1, 0]"
  by code_simp

end
