(* ===== verification/Blob_Download.thy ===== *)
theory Blob_Download
  imports Blob_Cache Go_Strconv "HOL-Library.Signed_Division" "HOL-Library.Multiset"
begin

text \<open>
  The download of a blob in parts that can be resumed, after \<open>server/download.go\<close>. A download is the
  partial file, the parts with their progress, and the part files that survive a restart (the JSON of a
  part is read back as it was written). An attempt to fetch a part is one step, with what the registry
  sends and how the transfer ends; attempts of different parts may run in any order. The sizes stay far
  below \<open>2 ^ 63\<close>, so they are unbounded integers here.
\<close>

record blobDownloadPart =
  part_N :: nat
  part_Offset :: int
  part_Size :: int
  part_Completed :: int

record blobDownload =
  Total :: int
  b_Completed :: int
  Parts :: "blobDownloadPart list"
  partial :: bytes
  part_files :: "blobDownloadPart list"

definition StartsAt :: "blobDownloadPart \<Rightarrow> int" where
  "StartsAt p = part_Offset p + part_Completed p"

definition StopsAt :: "blobDownloadPart \<Rightarrow> int" where
  "StopsAt p = part_Offset p + part_Size p"

section \<open>Parts\<close>

definition numDownloadParts :: int where
  "numDownloadParts = 16"

definition minDownloadPartSize :: int where
  "minDownloadPartSize = 100 * 1000 * 1000"

definition maxDownloadPartSize :: int where
  "maxDownloadPartSize = 1000 * 1000 * 1000"

definition partSize :: "int \<Rightarrow> int" where
  "partSize total_size =
     (let sz = total_size sdiv numDownloadParts in
      if sz < minDownloadPartSize then minDownloadPartSize
      else if sz > maxDownloadPartSize then maxDownloadPartSize else sz)"

definition newPart :: "nat \<Rightarrow> int \<Rightarrow> int \<Rightarrow> blobDownloadPart" where
  "newPart n offset sz = \<lparr>part_N = n, part_Offset = offset, part_Size = sz, part_Completed = 0\<rparr>"

text \<open>The loop of \<open>Prepare\<close> that cuts a blob into parts; \<open>None\<close> if it does not end.\<close>

partial_function (option) part_loop :: "int \<Rightarrow> int \<Rightarrow> int \<Rightarrow> nat \<Rightarrow> blobDownloadPart list option" where
  "part_loop total_size sz offset n =
     (if offset < total_size then
        (let sz = (if offset + sz > total_size then total_size - offset else sz) in
         Option.bind (part_loop total_size sz (offset + sz) (n + 1)) (\<lambda>ps. Some (newPart n offset sz # ps)))
      else Some [])"

declare part_loop.simps [code]

text \<open>\<open>Prepare\<close>: resume the parts on disk, in the order in which \<open>filepath.Glob\<close> lists their names, or
  cut a blob of the size that the registry reports.\<close>

definition glob_order :: "blobDownloadPart list \<Rightarrow> blobDownloadPart list" where
  "glob_order pfiles = sort_key (\<lambda>p. utoa (part_N p)) pfiles"

definition Prepare :: "int \<Rightarrow> bytes \<Rightarrow> blobDownloadPart list \<Rightarrow> blobDownload option" where
  "Prepare contentLength part_data pfiles =
     (if pfiles \<noteq> [] then
        let pfiles = glob_order pfiles in Some \<lparr>Total = sum_list (map part_Size pfiles), b_Completed = sum_list (map part_Completed pfiles),
          Parts = pfiles, partial = part_data, part_files = pfiles\<rparr>
      else map_option (\<lambda>ps. \<lparr>Total = contentLength, b_Completed = 0, Parts = ps, partial = part_data,
          part_files = ps\<rparr>) (part_loop contentLength (partSize contentLength) 0 0))"

section \<open>Transfers\<close>

text \<open>How a transfer ends before all bytes of the part have come: canceled, the connection broken in a way
  that can be resumed, or another error.\<close>

datatype ending = Canceled | UnexpectedEOF | OtherError

text \<open>\<open>writePart\<close> replaces the part file of that number.\<close>

definition writePart :: "blobDownloadPart \<Rightarrow> blobDownloadPart list \<Rightarrow> blobDownloadPart list" where
  "writePart p pfiles = map (\<lambda>q. if part_N q = part_N p then p else q) pfiles"

text \<open>\<open>downloadChunk\<close> for the part at index \<open>i\<close>: what came of the body is written at the place where the
  part goes on; the progress is kept, and saved, unless another error ended the transfer.\<close>

definition downloadChunk :: "nat \<Rightarrow> bytes \<Rightarrow> ending \<Rightarrow> blobDownload \<Rightarrow> ending option \<times> blobDownload" where
  "downloadChunk i body e b =
     (let p = Parts b ! i;
          want = nat (part_Size p - part_Completed p);
          got = take want body;
          b = b\<lparr>partial := write_at (partial b) (nat (StartsAt p)) got, b_Completed := b_Completed b + int (length got)\<rparr>;
          err = (if length got = want then None else Some e)
      in if err = Some OtherError then (err, b\<lparr>b_Completed := b_Completed b - int (length got)\<rparr>)
         else (let p' = p\<lparr>part_Completed := part_Completed p + int (length got)\<rparr> in
           (err, b\<lparr>Parts := (Parts b)[i := p'], part_files := writePart p' (part_files b)\<rparr>)))"

text \<open>\<open>file.Truncate(b.Total)\<close> when a run begins.\<close>

definition resize :: "nat \<Rightarrow> bytes \<Rightarrow> bytes" where
  "resize n f = take n (f @ replicate (n - length f) 0)"

definition begin_run :: "blobDownload \<Rightarrow> blobDownload" where
  "begin_run b = b\<lparr>partial := resize (nat (Total b)) (partial b)\<rparr>"

definition part_done :: "blobDownloadPart \<Rightarrow> bool" where
  "part_done p \<longleftrightarrow> part_Completed p = part_Size p"

text \<open>The end of \<open>run\<close>, once every part has been fetched: the part files of the numbers below the number
  of parts are removed, which fails if one does not exist, and the file becomes the blob.\<close>

definition finish_run :: "blobDownload \<Rightarrow> bytes option" where
  "finish_run b =
     (if list_all (\<lambda>i. i \<in> set (map part_N (part_files b))) [0..<length (Parts b)] then Some (partial b) else None)"

text \<open>The retry loop of a part, on the outcomes of its attempts; \<open>None\<close> while it is still waiting.\<close>

datatype attempt = AttemptOk | AttemptCanceled | AttemptNoSpace | AttemptStalled | AttemptFailed

datatype part_result = PartDone | PartAborted | MaxRetriesExceeded

definition maxRetries :: nat where
  "maxRetries = 6"

fun retry_loop :: "nat \<Rightarrow> attempt list \<Rightarrow> part_result option" where
  "retry_loop tries as =
     (if tries \<ge> maxRetries then Some MaxRetriesExceeded
      else (case as of
          [] \<Rightarrow> None
        | a # as' \<Rightarrow>
            (case a of
               AttemptOk \<Rightarrow> Some PartDone
             | AttemptCanceled \<Rightarrow> Some PartAborted
             | AttemptNoSpace \<Rightarrow> Some PartAborted
             | AttemptStalled \<Rightarrow> retry_loop tries as'
             | AttemptFailed \<Rightarrow> retry_loop (tries + 1) as')))"

declare retry_loop.simps [simp del]

section \<open>Facts\<close>

lemma partSize_bounds: "minDownloadPartSize \<le> partSize t" "partSize t \<le> maxDownloadPartSize" "0 < partSize t"
  by (auto simp: partSize_def Let_def minDownloadPartSize_def maxDownloadPartSize_def)

text \<open>Parts that follow each other from an offset, numbered and not empty.\<close>

fun laid_out :: "int \<Rightarrow> nat \<Rightarrow> blobDownloadPart list \<Rightarrow> bool" where
  "laid_out offset n [] \<longleftrightarrow> True"
| "laid_out offset n (p # ps) \<longleftrightarrow> part_N p = n \<and> part_Offset p = offset \<and> 0 < part_Size p \<and>
     part_Size p \<le> maxDownloadPartSize \<and> laid_out (offset + part_Size p) (n + 1) ps"

lemma part_loop_spec:
  assumes "0 < sz" "sz \<le> maxDownloadPartSize" "offset \<le> total_size"
  shows "\<exists>ps. part_loop total_size sz offset n = Some ps \<and> laid_out offset n ps \<and>
    sum_list (map part_Size ps) = total_size - offset \<and> list_all (\<lambda>p. part_Completed p = 0) ps"
  using assms
proof (induction "nat (total_size - offset)" arbitrary: sz offset n rule: less_induct)
  case less
  show ?case
  proof (cases "offset < total_size")
    case False
    then show ?thesis using less.prems by (subst part_loop.simps) simp
  next
    case True
    let ?sz = "if offset + sz > total_size then total_size - offset else sz"
    have s: "0 < ?sz" "?sz \<le> maxDownloadPartSize" "offset + ?sz \<le> total_size" using True less.prems by auto
    moreover have "nat (total_size - (offset + ?sz)) < nat (total_size - offset)" using s(1) True by simp
    ultimately obtain ps where "part_loop total_size ?sz (offset + ?sz) (n + 1) = Some ps"
      "laid_out (offset + ?sz) (n + 1) ps" "sum_list (map part_Size ps) = total_size - (offset + ?sz)"
      "list_all (\<lambda>p. part_Completed p = 0) ps"
      using less.hyps by blast
    with True s show ?thesis
      by (subst part_loop.simps) (auto simp: newPart_def Let_def)
  qed
qed

section \<open>Tilings\<close>

type_synonym tile = "nat \<times> int \<times> int"

definition layout :: "blobDownloadPart \<Rightarrow> tile" where
  "layout p = (part_N p, part_Offset p, part_Size p)"

lemma layout_simp [simp]: "layout (p\<lparr>part_Completed := c\<rparr>) = layout p"
  by (simp add: layout_def)

text \<open>Numbered ranges that cover the bytes below \<open>m\<close> without overlap.\<close>

definition tiles :: "int \<Rightarrow> tile list \<Rightarrow> bool" where
  "tiles m L \<longleftrightarrow> set (map fst L) = {0..<length L} \<and> distinct (map fst L) \<and> sum_list (map (\<lambda>(n, off, sz). sz) L) = m \<and>
     (\<forall>(n, off, sz) \<in> set L. 0 \<le> off \<and> 0 < sz \<and> sz \<le> maxDownloadPartSize \<and> off + sz \<le> m) \<and>
     (\<forall>x. 0 \<le> x \<and> x < m \<longrightarrow> (\<exists>(n, off, sz) \<in> set L. off \<le> x \<and> x < off + sz)) \<and>
     (\<forall>(n, off, sz) \<in> set L. \<forall>(n', off', sz') \<in> set L. n \<noteq> n' \<longrightarrow> off + sz \<le> off' \<or> off' + sz' \<le> off)"

lemma tiles_perm: "mset L = mset L' \<Longrightarrow> tiles m L = tiles m L'"
proof -
  assume p: "mset L = mset L'"
  then have "set L = set L'" by (rule mset_eq_setD)
  moreover have "length L = length L'" using p by (metis size_mset)
  moreover have "mset (map fst L) = mset (map fst L')" using p by (simp add: mset_map)
  then have "distinct (map fst L) = distinct (map fst L')" by (rule mset_eq_imp_distinct_iff)
  moreover have "sum_list (map (\<lambda>(n, off, sz). sz) L) = sum_list (map (\<lambda>(n, off, sz). sz) L')"
    using p by (metis mset_map sum_mset_sum_list)
  ultimately show ?thesis by (simp add: tiles_def)
qed

lemma laid_out_bounds:
  assumes "laid_out offset n ps" "p \<in> set ps"
  shows "offset \<le> part_Offset p \<and> n \<le> part_N p \<and> 0 < part_Size p \<and> part_Size p \<le> maxDownloadPartSize \<and>
    StopsAt p \<le> offset + sum_list (map part_Size ps)"
  using assms
proof (induction ps arbitrary: offset n)
  case (Cons q ps)
  have nonneg: "laid_out o' n' qs \<Longrightarrow> 0 \<le> sum_list (map part_Size qs)" for o' n' qs
    by (induction qs arbitrary: o' n') (auto intro: add_nonneg_nonneg)
  show ?case
    using Cons.prems Cons.IH [of "offset + part_Size q" "n + 1"] nonneg [of "offset + part_Size q" "n + 1" ps]
    by (auto simp: StopsAt_def)
qed simp

lemma laid_out_tiles:
  assumes "laid_out offset n ps"
  shows "distinct (map part_N ps)"
    and "offset \<le> x \<Longrightarrow> x < offset + sum_list (map part_Size ps) \<Longrightarrow> \<exists>p \<in> set ps. part_Offset p \<le> x \<and> x < StopsAt p"
    and "p \<in> set ps \<Longrightarrow> q \<in> set ps \<Longrightarrow> part_N p \<noteq> part_N q \<Longrightarrow>
      StopsAt p \<le> part_Offset q \<or> StopsAt q \<le> part_Offset p"
  using assms
proof (induction ps arbitrary: offset n)
  case (Cons r ps)
  {
    case 1
    with Cons.IH(1) show ?case using laid_out_bounds [of "offset + part_Size r" "n + 1" ps] by fastforce
  next
    case 2
    then show ?case
      using Cons.IH(2) [of "offset + part_Size r" "n + 1"]
      by (cases "x < offset + part_Size r") (auto simp: StopsAt_def)
  next
    case 3
    then show ?case
      using Cons.IH(3) [of "offset + part_Size r" "n + 1"] laid_out_bounds [of "offset + part_Size r" "n + 1" ps]
      by (auto simp: StopsAt_def)
  }
qed simp_all

lemma laid_out_numbers: "laid_out offset n ps \<Longrightarrow> part_N ` set ps = {n..<n + length ps}"
proof (induction ps arbitrary: offset n)
  case (Cons p ps)
  have "part_N ` set ps = {Suc n..<Suc n + length ps}" "part_N p = n"
    using Cons.prems Cons.IH [of "offset + part_Size p" "n + 1"] by simp_all
  then show ?case by auto
qed simp

lemma tiles_parts:
  "tiles m (map layout ps) \<longleftrightarrow> part_N ` set ps = {0..<length ps} \<and> distinct (map part_N ps) \<and> sum_list (map part_Size ps) = m \<and>
     (\<forall>p \<in> set ps. 0 \<le> part_Offset p \<and> 0 < part_Size p \<and> part_Size p \<le> maxDownloadPartSize \<and> StopsAt p \<le> m) \<and>
     (\<forall>x. 0 \<le> x \<and> x < m \<longrightarrow> (\<exists>p \<in> set ps. part_Offset p \<le> x \<and> x < StopsAt p)) \<and>
     (\<forall>p \<in> set ps. \<forall>q \<in> set ps. part_N p \<noteq> part_N q \<longrightarrow> StopsAt p \<le> part_Offset q \<or> StopsAt q \<le> part_Offset p)"
  by (simp add: tiles_def layout_def StopsAt_def comp_def)

lemma tiles_laid_out:
  assumes "laid_out 0 0 ps" "sum_list (map part_Size ps) = m"
  shows "tiles m (map layout ps)"
  unfolding tiles_parts
proof (intro conjI allI ballI impI)
  show "part_N ` set ps = {0..<length ps}" using laid_out_numbers [OF assms(1)] by simp
  show "distinct (map part_N ps)" by (rule laid_out_tiles(1) [OF assms(1)])
  show "\<exists>p \<in> set ps. part_Offset p \<le> x \<and> x < StopsAt p" if "0 \<le> x \<and> x < m" for x
    using laid_out_tiles(2) [OF assms(1)] assms(2) that by simp
  show "StopsAt p \<le> part_Offset q \<or> StopsAt q \<le> part_Offset p"
    if "p \<in> set ps" "q \<in> set ps" "part_N p \<noteq> part_N q" for p q
    using laid_out_tiles(3) [OF assms(1) that] .
qed (use laid_out_bounds [OF assms(1)] assms(2) in auto)

section \<open>What has been fetched\<close>

text \<open>A part holds what its progress says: the bytes of the source from its offset on.\<close>

definition part_ok :: "bytes \<Rightarrow> bytes \<Rightarrow> blobDownloadPart \<Rightarrow> bool" where
  "part_ok src f p \<longleftrightarrow> 0 \<le> part_Completed p \<and> part_Completed p \<le> part_Size p \<and>
     (\<forall>x. part_Offset p \<le> int x \<and> int x < StartsAt p \<longrightarrow> f ! x = src ! x)"

definition faithful :: "bytes \<Rightarrow> blobDownload \<Rightarrow> bool" where
  "faithful src b \<longleftrightarrow> tiles (int (length src)) (map layout (Parts b)) \<and> Total b = int (length src) \<and>
     mset (part_files b) = mset (Parts b) \<and> length (partial b) = length src \<and>
     (\<forall>p \<in> set (Parts b). part_ok src (partial b) p)"

text \<open>The registry answers with bytes of the requested range.\<close>

definition honest :: "bytes \<Rightarrow> blobDownloadPart \<Rightarrow> bytes \<Rightarrow> bool" where
  "honest src p body \<longleftrightarrow>
     prefix (take (nat (part_Size p - part_Completed p)) body) (drop (nat (StartsAt p)) src)"

inductive downloading :: "bytes \<Rightarrow> blobDownload \<Rightarrow> bool" for src :: bytes where
  first: "Prepare (int (length src)) f [] = Some b \<Longrightarrow> downloading src (begin_run b)"
| fetch: "downloading src b \<Longrightarrow> i < length (Parts b) \<Longrightarrow> honest src (Parts b ! i) body \<Longrightarrow>
    downloading src (snd (downloadChunk i body e b))"
| restart: "downloading src b \<Longrightarrow> Prepare (int (length src)) (partial b) (part_files b) = Some b' \<Longrightarrow>
    downloading src (begin_run b')"

lemma resize_length [simp]: "length (resize n f) = n"
  by (simp add: resize_def)

lemma resize_same: "length f = n \<Longrightarrow> resize n f = f"
  by (simp add: resize_def)

lemma first_faithful:
  assumes "Prepare (int (length src)) f [] = Some b"
  shows "faithful src (begin_run b)"
proof -
  obtain ps where ps: "part_loop (int (length src)) (partSize (int (length src))) 0 0 = Some ps" "laid_out 0 0 ps"
    "sum_list (map part_Size ps) = int (length src)" "list_all (\<lambda>p. part_Completed p = 0) ps"
    using part_loop_spec [of "partSize (int (length src))" 0 "int (length src)" 0] partSize_bounds(2,3) by auto
  have b: "b = \<lparr>Total = int (length src), b_Completed = 0, Parts = ps, partial = f, part_files = ps\<rparr>"
    using assms ps(1) by (simp add: Prepare_def)
  have "part_ok src g p" if "p \<in> set ps" for g p
    using that ps(4) laid_out_bounds [OF ps(2)] by (force simp: part_ok_def list_all_iff StartsAt_def)
  then show ?thesis using tiles_laid_out [OF ps(2,3)] by (simp add: faithful_def begin_run_def b)
qed

lemma restart_faithful:
  assumes "faithful src b" "Prepare (int (length src)) (partial b) (part_files b) = Some b'"
  shows "faithful src (begin_run b')"
proof (cases "part_files b = []")
  case True
  then show ?thesis using first_faithful assms(2) by simp
next
  case False
  let ?ps = "glob_order (part_files b)"
  have m: "mset ?ps = mset (Parts b)" using assms(1) by (simp add: faithful_def glob_order_def)
  then have set: "set ?ps = set (Parts b)" by (rule mset_eq_setD)
  have "mset (map layout ?ps) = mset (map layout (Parts b))" using m by (simp add: mset_map)
  then have t: "tiles (int (length src)) (map layout ?ps)"
    using tiles_perm assms(1) unfolding faithful_def by blast
  then have "sum_list (map part_Size ?ps) = int (length src)" by (simp add: tiles_parts)
  then have b': "b' = \<lparr>Total = int (length src), b_Completed = sum_list (map part_Completed ?ps), Parts = ?ps,
      partial = partial b, part_files = ?ps\<rparr>"
    using assms(2) False by (simp add: Prepare_def Let_def)
  show ?thesis
    using assms(1) t set by (simp add: faithful_def begin_run_def b' resize_same)
qed

lemma write_at_nth:
  assumes "off + length g \<le> length f" "x < length f"
  shows "write_at f off g ! x = (if off \<le> x \<and> x < off + length g then g ! (x - off) else f ! x)"
  using assms by (auto simp: write_at_def nth_append min_def)

lemma write_at_within: "off + length g \<le> length f \<Longrightarrow> length (write_at f off g) = length f"
  by (auto simp: write_at_def)

lemma writePart_update:
  assumes "distinct (map part_N ps)" "i < length ps" "part_N p = part_N (ps ! i)"
  shows "writePart p ps = ps[i := p]"
proof (rule nth_equalityI)
  fix j assume "j < length (writePart p ps)"
  then have j: "j < length ps" by (simp add: writePart_def)
  have "part_N (ps ! j) = part_N (ps ! i) \<longleftrightarrow> j = i"
    using assms(1,2) j by (metis length_map nth_eq_iff_index_eq nth_map)
  then show "writePart p ps ! j = ps[i := p] ! j" using j assms(2,3) by (auto simp: writePart_def)
qed (simp add: writePart_def)

text \<open>What an honest answer adds to the file: bytes of the source, and nothing is lost.\<close>

definition answer :: "blobDownloadPart \<Rightarrow> bytes \<Rightarrow> bytes" where
  "answer p body = take (nat (part_Size p - part_Completed p)) body"

lemma honest_nth:
  assumes "honest src p body" "k < length (answer p body)" "nat (StartsAt p) \<le> length src"
  shows "answer p body ! k = src ! (nat (StartsAt p) + k)"
proof -
  obtain zs where "drop (nat (StartsAt p)) src = answer p body @ zs"
    using assms(1) by (auto simp: honest_def answer_def prefix_def)
  then have "answer p body ! k = drop (nat (StartsAt p)) src ! k" using assms(2) by (simp add: nth_append)
  then show ?thesis using assms(3) by simp
qed

lemma fetched_bytes:
  assumes "honest src p body" "length f = length src" "0 \<le> part_Offset p" "StopsAt p \<le> int (length src)"
    "0 \<le> part_Completed p" "part_Completed p \<le> part_Size p"
  shows "length (write_at f (nat (StartsAt p)) (answer p body)) = length src"
    and "x < length src \<Longrightarrow> f ! x = src ! x \<or> StartsAt p \<le> int x \<and> int x < StartsAt p + int (length (answer p body)) \<Longrightarrow>
      write_at f (nat (StartsAt p)) (answer p body) ! x = src ! x"
proof -
  have "int (length (answer p body)) \<le> part_Size p - part_Completed p" using assms(6) by (simp add: answer_def)
  then have w: "nat (StartsAt p) + length (answer p body) \<le> length f"
    using assms by (simp add: StartsAt_def StopsAt_def)
  show "length (write_at f (nat (StartsAt p)) (answer p body)) = length src"
    using write_at_within [OF w] assms(2) by simp
  assume x: "x < length src" "f ! x = src ! x \<or> StartsAt p \<le> int x \<and> int x < StartsAt p + int (length (answer p body))"
  have "write_at f (nat (StartsAt p)) (answer p body) ! x =
      (if nat (StartsAt p) \<le> x \<and> x < nat (StartsAt p) + length (answer p body)
       then answer p body ! (x - nat (StartsAt p)) else f ! x)"
    using write_at_nth [OF w] x(1) assms(2) by simp
  moreover have "answer p body ! (x - nat (StartsAt p)) = src ! x"
    if "nat (StartsAt p) \<le> x \<and> x < nat (StartsAt p) + length (answer p body)"
  proof -
    have "x - nat (StartsAt p) < length (answer p body)" using that by linarith
    then show ?thesis using honest_nth [OF assms(1), of "x - nat (StartsAt p)"] that x(1) by simp
  qed
  moreover have "0 \<le> StartsAt p" using assms(3,5) by (simp add: StartsAt_def)
  ultimately show "write_at f (nat (StartsAt p)) (answer p body) ! x = src ! x" using x(2) by auto
qed

lemma part_ok_grow:
  assumes "part_ok src f q" "StopsAt q \<le> int (length src)"
    and "\<And>x. x < length src \<Longrightarrow> f ! x = src ! x \<Longrightarrow> g ! x = src ! x"
  shows "part_ok src g q"
  using assms by (auto simp: part_ok_def StartsAt_def StopsAt_def)

lemma downloadChunk_eq:
  "snd (downloadChunk i body e b) =
     (let p = Parts b ! i; got = answer p body;
          f = write_at (partial b) (nat (StartsAt p)) got;
          p' = p\<lparr>part_Completed := part_Completed p + int (length got)\<rparr>
      in if length got \<noteq> nat (part_Size p - part_Completed p) \<and> e = OtherError
         then b\<lparr>partial := f, b_Completed := b_Completed b\<rparr>
         else b\<lparr>partial := f, b_Completed := b_Completed b + int (length got), Parts := (Parts b)[i := p'],
           part_files := writePart p' (part_files b)\<rparr>)"
  by (simp add: downloadChunk_def answer_def Let_def)

lemma fetch_faithful:
  assumes "faithful src b" "i < length (Parts b)" "honest src (Parts b ! i) body"
  shows "faithful src (snd (downloadChunk i body e b))"
proof -
  define p where "p = Parts b ! i"
  define f where "f = write_at (partial b) (nat (StartsAt p)) (answer p body)"
  define p' where "p' = p\<lparr>part_Completed := part_Completed p + int (length (answer p body))\<rparr>"
  have t: "tiles (int (length src)) (map layout (Parts b))" and len: "length (partial b) = length src"
    and pok: "\<And>q. q \<in> set (Parts b) \<Longrightarrow> part_ok src (partial b) q"
    and ms: "mset (part_files b) = mset (Parts b)" and tot: "Total b = int (length src)"
    using assms(1) by (auto simp: faithful_def)
  have stop: "0 \<le> part_Offset q \<and> StopsAt q \<le> int (length src)" if "q \<in> set (Parts b)" for q
    using t that by (auto simp: tiles_parts)
  have p: "p \<in> set (Parts b)" using assms(2) by (simp add: p_def)
  have c: "0 \<le> part_Completed p" "part_Completed p \<le> part_Size p" using pok [OF p] by (simp_all add: part_ok_def)
  have h: "honest src p body" using assms(3) by (simp add: p_def)
  note F = fetched_bytes [OF h len _ _ c, folded f_def]
  have flen: "length f = length src" using F(1) stop [OF p] by simp
  have ok: "part_ok src f q" if "q \<in> set (Parts b)" for q
    using part_ok_grow [OF pok [OF that]] stop [OF that] F(2) stop [OF p] by blast
  have ok': "part_ok src f p'"
    unfolding part_ok_def
  proof (intro conjI allI impI)
    have g: "int (length (answer p body)) \<le> part_Size p - part_Completed p" using c(2) by (simp add: answer_def)
    then show "0 \<le> part_Completed p'" "part_Completed p' \<le> part_Size p'" using c by (simp_all add: p'_def)
    fix x assume x: "part_Offset p' \<le> int x \<and> int x < StartsAt p'"
    then have "x < length src" using g stop [OF p] by (simp add: p'_def StartsAt_def StopsAt_def)
    moreover have "partial b ! x = src ! x \<or> StartsAt p \<le> int x \<and> int x < StartsAt p + int (length (answer p body))"
      using x pok [OF p] by (auto simp: part_ok_def p'_def StartsAt_def)
    ultimately show "f ! x = src ! x" using F(2) stop [OF p] by blast
  qed
  have upd: "writePart p' (Parts b) = (Parts b)[i := p']"
    using t assms(2) by (intro writePart_update) (simp_all add: tiles_parts p'_def p_def)
  have "mset (writePart p' (part_files b)) = mset (writePart p' (Parts b))"
    using ms by (simp add: writePart_def mset_map)
  moreover have "map layout ((Parts b)[i := p']) = map layout (Parts b)"
    unfolding map_update using assms(2) by (metis layout_simp length_map list_update_id nth_map p'_def p_def)
  moreover have "\<forall>q \<in> set ((Parts b)[i := p']). part_ok src f q"
    using ok ok' set_update_subset_insert [of "Parts b" i p'] by blast
  ultimately show ?thesis
    unfolding downloadChunk_eq Let_def p_def [symmetric] f_def [symmetric] p'_def [symmetric]
    using t tot ms flen ok upd by (simp add: faithful_def)
qed

lemma downloading_faithful: "downloading src b \<Longrightarrow> faithful src b"
  by (induction rule: downloading.induct) (auto intro: first_faithful restart_faithful fetch_faithful)

section \<open>Properties\<close>




lemma three_byte_parts: "part_loop 3 100000000 0 0 = Some [newPart 0 0 3]"
  by (simp add: part_loop.simps Let_def)


text \<open>The retry loop of a part ends: with success at the first attempt that succeeds, at once when the
  download is canceled or the disk is full, and with an error after six failed attempts; attempts that
  stall are repeated without being counted.\<close>

theorem retries_bounded:
  "retry_loop 0 as =
     (let tried = filter (\<lambda>a. a \<noteq> AttemptStalled) as; failed = takeWhile (\<lambda>a. a = AttemptFailed) tried in
      if length failed \<ge> 6 then Some MaxRetriesExceeded
      else if length failed = length tried then None
      else if tried ! length failed = AttemptOk then Some PartDone else Some PartAborted)"
proof -
  have "retry_loop k as =
     (let tried = filter (\<lambda>a. a \<noteq> AttemptStalled) as; failed = takeWhile (\<lambda>a. a = AttemptFailed) tried in
      if k + length failed \<ge> 6 then Some MaxRetriesExceeded
      else if length failed = length tried then None
      else if tried ! length failed = AttemptOk then Some PartDone else Some PartAborted)" for k
  proof (induction as arbitrary: k)
    case Nil
    then show ?case by (subst retry_loop.simps) (simp add: maxRetries_def)
  next
    case (Cons a as)
    show ?case
    proof (cases "k \<ge> 6")
      case True
      then show ?thesis by (subst retry_loop.simps) (simp add: maxRetries_def Let_def)
    next
      case False
      then show ?thesis
        using Cons.IH [of k] Cons.IH [of "k + 1"]
        by (subst retry_loop.simps; cases a) (simp_all add: maxRetries_def Let_def)
    qed
  qed
  from this [of 0] show ?thesis by simp
qed

text \<open>An attempt that reports success has completed its part.\<close>

lemma downloadChunk_success:
  assumes "i < length (Parts b)" "part_Completed (Parts b ! i) \<le> part_Size (Parts b ! i)"
    "fst (downloadChunk i body e b) = None"
  shows "part_done (Parts (snd (downloadChunk i body e b)) ! i)"
  using assms by (auto simp: downloadChunk_def Let_def part_done_def split: if_splits)

text \<open>The part files are written one by one: when \<open>Prepare\<close> is interrupted after some of them, the next
  one takes the parts that it finds for the whole blob.\<close>

lemma interrupted_prepare_truncates:
  assumes "0 \<le> n" "Prepare n f [] = Some b" "0 < k" "k < length (Parts b)"
  shows "\<exists>b'. Prepare n f (take k (Parts b)) = Some b' \<and> Total b' < n"
proof -
  have tot: "sum_list (map part_Size (take k (Parts b))) < sum_list (map part_Size (Parts b))"
    if "laid_out 0 0 (Parts b)"
  proof -
    have "sum_list (map part_Size (Parts b)) =
        sum_list (map part_Size (take k (Parts b))) + sum_list (map part_Size (drop k (Parts b)))"
      by (metis append_take_drop_id map_append sum_list_append)
    moreover have "0 < sum_list (map part_Size (drop k (Parts b)))"
    proof -
      obtain p ps where d: "drop k (Parts b) = p # ps" using assms(4) by (metis Cons_nth_drop_Suc)
      have pos: "0 < part_Size q" if "q \<in> set (Parts b)" for q
        using \<open>laid_out 0 0 (Parts b)\<close> that laid_out_bounds by blast
      have "\<forall>q \<in> set (p # ps). 0 < part_Size q" using pos d by (metis in_set_dropD)
      then show ?thesis unfolding d using sum_list_nonneg [of "map part_Size ps"] by force
    qed
    ultimately show ?thesis by simp
  qed
  obtain ps where "part_loop n (partSize n) 0 0 = Some ps" "laid_out 0 0 ps" "sum_list (map part_Size ps) = n"
    using part_loop_spec [of "partSize n" 0 n 0] partSize_bounds(2,3) assms(1) by auto
  with assms(2) have "laid_out 0 0 (Parts b)" "sum_list (map part_Size (Parts b)) = n" by (auto simp: Prepare_def)
  moreover have "mset (map part_Size (glob_order ps)) = mset (map part_Size ps)" for ps by (simp add: glob_order_def)
  then have "sum_list (map part_Size (glob_order ps)) = sum_list (map part_Size ps)" for ps
    by (metis sum_mset_sum_list)
  moreover have "take k (Parts b) \<noteq> []" using assms(3,4) by auto
  ultimately show ?thesis using tot unfolding Prepare_def Let_def by simp
qed

text \<open>A registry that does not report the size of a blob makes the download an empty file.\<close>

lemma missing_length_downloads_nothing:
  "\<exists>b. Prepare 0 f [] = Some b \<and> Parts b = [] \<and> partial (begin_run b) = []"
  by (simp add: Prepare_def part_loop.simps begin_run_def resize_def)

end
