(* ===== verification/Gguf_Data.thy ===== *)
theory Gguf_Data
  imports Gguf_Codec "HOL-Library.Multiset"
begin

text \<open>
  GGUF files with the data of their tensors: the last part of \<open>WriteGGUF\<close> in \<open>fs/ggml/gguf.go\<close>, which writes the
  tensors concurrently, and the functions of \<open>server/create.go\<close> and \<open>server/quantization.go\<close> that copy tensors from one file to another.
\<close>

section \<open>Tensors with data\<close>

type_synonym tensor_data = "Tensor \<times> string"

text \<open>A write at an offset of a file; a gap is filled with zeros.\<close>

definition put_at :: "string \<Rightarrow> nat \<Rightarrow> string \<Rightarrow> string" where
  "put_at f off p = (if p = [] then f
     else take off (f @ replicate (off - length f) (CHR 0x00)) @ p @ drop (off + length p) f)"

definition put_all :: "string \<Rightarrow> (nat \<times> string) list \<Rightarrow> string" where
  "put_all f ws = fold (\<lambda>(off, p) f. put_at f off p) ws f"

text \<open>The writes of the tensor data.\<close>

definition tensor_writes :: "written \<Rightarrow> string list \<Rightarrow> (nat \<times> string) list" where
  "tensor_writes w ds = map (\<lambda>(t, d). (nat (dataOffset w + int_of (Offset t)), d)) (zip (placed w) ds)"

definition sorted_data :: "tensor_data list \<Rightarrow> tensor_data list" where
  "sorted_data tds = sort_key (\<lambda>td. (block (Tensor_Name (fst td)), Tensor_Name (fst td))) tds"

text \<open>\<open>WriteGGUF\<close> to a file; \<open>order\<close> is the order in which the goroutines write the tensors. The data of a tensor is
  \<open>None\<close> if it cannot be read.\<close>

definition WriteGGUF_file :: "((nat \<times> string) list \<Rightarrow> (nat \<times> string) list) \<Rightarrow> KV \<Rightarrow> (Tensor \<times> string option) list \<Rightarrow>
    gguf_error + string" where
  "WriteGGUF_file order m tds =
     (case WriteGGUF m (map fst tds) of
        Inl e \<Rightarrow> Inl e
      | Inr w \<Rightarrow>
          if list_ex (\<lambda>td. snd td = None) tds then Inl NegativeSeek
          else Inr (put_all (header w) (order (tensor_writes w (map snd (sorted_data (map (\<lambda>(t, d). (t, the d)) tds)))))))"

text \<open>What a section of a file yields, and \<open>tensorFromFile\<close>.\<close>

definition read_section :: "string \<Rightarrow> int \<Rightarrow> int \<Rightarrow> string option" where
  "read_section f off n = (if n \<le> 0 then Some [] else if off < 0 then None else Some (take (nat n) (drop (nat off) f)))"

definition tensorFromFile :: "string \<Rightarrow> 64 word \<Rightarrow> Tensor \<Rightarrow> Tensor \<times> string option" where
  "tensorFromFile f off t = (t\<lparr>Offset := 0\<rparr>, read_section f (int_of off) (int_of (Tensor_Size t)))"

definition tensorsFromGGUFFile :: "string \<Rightarrow> gguf \<Rightarrow> (Tensor \<times> string option) list" where
  "tensorsFromGGUFFile f g = map (\<lambda>t. tensorFromFile f (tensorOffset g + Offset t) t) (gg_tensors g)"

section \<open>Writes that do not overlap\<close>

definition holds :: "string \<Rightarrow> nat \<times> string \<Rightarrow> bool" where
  "holds f = (\<lambda>(off, d). take (length d) (drop off f) = d)"

definition apart :: "nat \<times> string \<Rightarrow> nat \<times> string \<Rightarrow> bool" where
  "apart x y \<longleftrightarrow> fst x + length (snd x) \<le> fst y \<or> fst y + length (snd y) \<le> fst x"

lemma holds_length: "holds f (off, d) \<Longrightarrow> d \<noteq> [] \<Longrightarrow> off + length d \<le> length f"
proof -
  assume h: "holds f (off, d)" and "d \<noteq> []"
  have "length (take (length d) (drop off f)) = length d" using h by (simp add: holds_def)
  then show ?thesis using \<open>d \<noteq> []\<close> by (cases d) auto
qed

lemma put_at_nth:
  assumes "x < length (put_at f off d)"
  shows "put_at f off d ! x = (if off \<le> x \<and> x < off + length d then d ! (x - off) else if x < length f then f ! x else CHR 0x00)"
  using assms by (auto simp: put_at_def nth_append min_def)

lemma length_put_at: "length (put_at f off d) = (if d = [] then length f else max (length f) (off + length d))"
  by (auto simp: put_at_def)

lemma put_at_holds: "holds (put_at f off d) (off, d)"
  by (auto simp: holds_def put_at_def)

lemma put_at_keeps:
  assumes "holds f x" "apart x (off, d)"
  shows "holds (put_at f off d) x"
proof (cases "snd x = [] \<or> d = []")
  case False
  obtain o' d' where x: "x = (o', d')" by (cases x)
  note l = holds_length [OF assms(1) [unfolded x]]
  have "take (length d') (drop o' (put_at f off d)) = take (length d') (drop o' f)"
    using False l x assms(2) by (intro nth_equalityI) (auto simp: length_put_at put_at_nth apart_def)
  then show ?thesis using assms(1) x by (simp add: holds_def)
qed (use assms in \<open>auto simp: holds_def put_at_def\<close>)

lemma put_all_holds:
  assumes "sorted_wrt apart ws"
  shows "(\<forall>x \<in> set ws. holds (put_all f ws) x) \<and> (\<forall>x. holds f x \<and> (\<forall>y \<in> set ws. apart x y) \<longrightarrow> holds (put_all f ws) x)"
  using assms
proof (induction ws arbitrary: f)
  case (Cons w ws)
  obtain off d where w: "w = (off, d)" by (cases w)
  note ih = Cons.IH [of "put_at f off d"]
  have "holds (put_at f off d) w" using w put_at_holds by simp
  then show ?case using ih Cons.prems w put_at_keeps by (auto simp: put_all_def)
qed (simp add: put_all_def)

lemma sorted_wrt_mset:
  assumes "\<And>x y. R x y \<Longrightarrow> R y x" "sorted_wrt R xs" "mset xs = mset ys"
  shows "sorted_wrt R ys"
  using assms(2,3)
proof (induction xs arbitrary: ys)
  case (Cons x xs)
  have "x \<in> set ys" using Cons.prems(2) by (metis list.set_intros(1) set_mset_mset)
  then obtain as bs where ys: "ys = as @ x # bs" by (meson split_list)
  have m: "mset xs = mset (as @ bs)" using Cons.prems(2) ys by simp
  then have "sorted_wrt R (as @ bs)" using Cons by simp
  moreover have "\<forall>y \<in> set (as @ bs). R x y" using Cons.prems(1) m by (metis set_mset_mset sorted_wrt.simps(2))
  ultimately show ?case using assms(1) unfolding ys by (auto simp: sorted_wrt_append)
qed simp

lemma apart_sym: "apart x y \<Longrightarrow> apart y x"
  by (auto simp: apart_def)

text \<open>Sorting pairs by their first component.\<close>

lemma map_insort_key: "map f (insort_key (\<lambda>x. k (f x)) a xs) = insort_key k (f a) (map f xs)"
  by (induction xs) simp_all

lemma map_sort_key: "map f (sort_key (\<lambda>x. k (f x)) xs) = sort_key k (map f xs)"
  by (induction xs) (simp_all add: map_insort_key)

section \<open>Data of a written file\<close>

lemma laid_out_apart:
  assumes "laid_out a s ts" "list_all2 (\<lambda>t d. length d = unat (Tensor_Size t)) ts ds"
  shows "sorted_wrt apart (map (\<lambda>(t, d). (base + unat (Offset t), d)) (zip ts ds)) \<and>
    (\<forall>x \<in> set (map (\<lambda>(t, d). (base + unat (Offset t), d)) (zip ts ds)). base + s \<le> fst x)"
  using assms
proof (induction ts arbitrary: s ds)
  case (Cons t ts)
  then obtain d ds' where ds: "ds = d # ds'" "length d = unat (Tensor_Size t)"
      "list_all2 (\<lambda>t d. length d = unat (Tensor_Size t)) ts ds'" by (auto simp: list_all2_Cons1)
  let ?W = "map (\<lambda>(t, d). (base + unat (Offset t), d)) (zip ts ds')"
  have W: "sorted_wrt apart ?W" "\<forall>x \<in> set ?W. base + (unat (Offset t) + unat (Tensor_Size t)) \<le> fst x"
    using Cons.IH [OF _ ds(3), of "unat (Offset t) + unat (Tensor_Size t)"] Cons.prems(1) by auto
  have "\<forall>x \<in> set ?W. apart (base + unat (Offset t), d) x" using W(2) ds(2) unfolding apart_def by (fastforce simp: add.assoc)
  moreover have "\<forall>x \<in> set ?W. base + s \<le> fst x" using W(2) Cons.prems(1) by fastforce
  ultimately show ?case using W(1) ds(1) Cons.prems(1) by simp
qed simp

lemma int_of_small: "unat x < max_len \<Longrightarrow> int_of x = int (unat x)"
  by (simp add: int_of_def)

lemma nat_int_of_small: "unat x < max_len \<Longrightarrow> nat (int_of x) = unat x"
  by (metis int_of_small nat_int)

text \<open>What a file holds after the tensors were written in any order.\<close>

lemma written_data:
  assumes "WriteGGUF m (map fst tds) = Inr w" "a = unat (KV_Uint m ''general.alignment'' 32)"
    and "room a (map fst tds) < max_len" "\<forall>(t, d) \<in> set tds. length d = unat (Tensor_Size t)"
    and "\<And>ws. mset (order ws) = mset ws"
    and "f = put_all (header w) (order (tensor_writes w (map snd (sorted_data tds))))"
  shows "take (length (header w)) f = header w"
    and "list_all2 (\<lambda>t td. t\<lparr>Offset := 0\<rparr> = (fst td)\<lparr>Offset := 0\<rparr> \<and> length (snd td) = unat (Tensor_Size t) \<and>
      holds f (nat (dataOffset w) + unat (Offset t), snd td)) (placed w) (sorted_data tds)"
    and "0 \<le> dataOffset w" "\<forall>t \<in> set (placed w). unat (Offset t) + unat (Tensor_Size t) \<le> room a (map fst tds)"
proof -
  let ?key = "\<lambda>t. (block (Tensor_Name t), Tensor_Name t)"
  have s: "map fst (sorted_data tds) = sort_key ?key (map fst tds)"
    unfolding sorted_data_def by (rule map_sort_key)
  obtain ps where pl: "place_tensors (int a) 0 (map fst (sorted_data tds)) = Inr (placed w)"
    and pad: "ggufPadding (int (length (header w))) (int a) = Some (dataOffset w - int (length (header w)))"
    using WriteGGUF_parts [OF assms(1) refl assms(2)] s by metis
  have apos: "0 < a" using ggufPadding_zero [OF pad] by simp
  then obtain p where "ggufPadding (int (length (header w))) (int a) = Some p" "0 \<le> p"
    using ggufPadding_nonneg [of "int (length (header w))" "int a"] by auto
  then have d: "int (length (header w)) \<le> dataOffset w" using pad by simp
  then show "0 \<le> dataOffset w" by linarith
  have rm: "room a (map fst (sorted_data tds)) = room a (map fst tds)" unfolding s by (simp add: room_mset)
  then have fit: "unat (0 :: 64 word) + room a (map fst (sorted_data tds)) < max_len" using assms(3) by simp
  have bound: "unat (Offset t) + unat (Tensor_Size t) \<le> room a (map fst tds)" if "t \<in> set (placed w)" for t
    using place_tensors_bound [OF pl apos fit that] rm by simp
  then show "\<forall>t \<in> set (placed w). unat (Offset t) + unat (Tensor_Size t) \<le> room a (map fst tds)" by blast
  have same: "map (\<lambda>t. t\<lparr>Offset := 0\<rparr>) (placed w) = map (\<lambda>td. (fst td)\<lparr>Offset := 0\<rparr>) (sorted_data tds)"
    using place_tensors_same [OF pl] by simp
  have len: "length (placed w) = length (sorted_data tds)" using arg_cong [OF same, of length] by simp
  have eq: "(placed w ! i)\<lparr>Offset := 0\<rparr> = (fst (sorted_data tds ! i))\<lparr>Offset := 0\<rparr>" if "i < length (placed w)" for i
    using arg_cong [OF same, of "\<lambda>xs. xs ! i"] that len by simp
  have sz: "length (snd (sorted_data tds ! i)) = unat (Tensor_Size (placed w ! i))" if i: "i < length (placed w)" for i
  proof -
    have "sorted_data tds ! i \<in> set tds" using i len nth_mem [of i "sorted_data tds"] by (simp add: sorted_data_def)
    then have "length (snd (sorted_data tds ! i)) = unat (Tensor_Size (fst (sorted_data tds ! i)))"
      using assms(4) by (auto simp: case_prod_beta)
    also have "\<dots> = unat (Tensor_Size (placed w ! i))"
      using arg_cong [OF eq [OF i], of Tensor_Size] by simp
    finally show ?thesis .
  qed
  define ds where "ds = map snd (sorted_data tds)"
  have "int_of (Offset t) = int (unat (Offset t))" if "t \<in> set (placed w)" for t
    using bound [OF that] assms(3) by (intro int_of_small) linarith
  then have ws: "tensor_writes w ds = map (\<lambda>(t, d). (nat (dataOffset w) + unat (Offset t), d)) (zip (placed w) ds)"
    using d by (auto simp: tensor_writes_def nat_add_distrib dest: set_zip_leftD)
  have l: "laid_out a 0 (placed w)" using place_tensors_layout [OF pl apos _ fit] by simp
  have l2: "list_all2 (\<lambda>t d. length d = unat (Tensor_Size t)) (placed w) ds"
    unfolding list_all2_conv_all_nth ds_def using sz len by simp
  note ap = laid_out_apart [OF l l2, of "nat (dataOffset w)"]
  have ap2: "sorted_wrt apart (order (tensor_writes w ds))"
    by (rule sorted_wrt_mset [of apart "tensor_writes w ds", OF apart_sym]) (use ap ws assms(5) in simp_all)
  have sets: "set (order (tensor_writes w ds)) = set (tensor_writes w ds)" using assms(5) by (metis set_mset_mset)
  note ph = put_all_holds [OF ap2, of "header w", folded assms(6) [folded ds_def]]
  have "holds f (0, header w)"
  proof -
    have "apart (0, header w) y" if "y \<in> set (tensor_writes w ds)" for y
      using that ap ws d by (auto simp: apart_def)
    moreover have "holds (header w) (0, header w)" by (simp add: holds_def)
    ultimately show ?thesis using ph sets by blast
  qed
  then show "take (length (header w)) f = header w" by (simp add: holds_def)
  show "list_all2 (\<lambda>t td. t\<lparr>Offset := 0\<rparr> = (fst td)\<lparr>Offset := 0\<rparr> \<and> length (snd td) = unat (Tensor_Size t) \<and>
      holds f (nat (dataOffset w) + unat (Offset t), snd td)) (placed w) (sorted_data tds)"
  proof (rule list_all2_all_nthI [OF len])
    fix i assume i: "i < length (placed w)"
    have "(nat (dataOffset w) + unat (Offset (placed w ! i)), snd (sorted_data tds ! i)) \<in> set (tensor_writes w ds)"
      unfolding ws using i len by (auto simp: set_conv_nth ds_def intro!: exI [of _ i])
    then show "(placed w ! i)\<lparr>Offset := 0\<rparr> = (fst (sorted_data tds ! i))\<lparr>Offset := 0\<rparr> \<and>
        length (snd (sorted_data tds ! i)) = unat (Tensor_Size (placed w ! i)) \<and>
        holds f (nat (dataOffset w) + unat (Offset (placed w ! i)), snd (sorted_data tds ! i))"
      using eq [OF i] sz [OF i] ph sets by blast
  qed
qed

text \<open>A file that was written yields the tensors and the data that were put in.\<close>

definition writable_file :: "int \<Rightarrow> KV \<Rightarrow> tensor_data list \<Rightarrow> bool" where
  "writable_file mx m tds \<longleftrightarrow>
     (let arch = KV_String m ''general.architecture'' []; ts = map fst tds in
      arch \<noteq> ''general'' \<and> distinct (map (\<lambda>p. qualified_key arch (fst p)) m) \<and>
      list_all (\<lambda>p. length (qualified_key arch (fst p)) < max_len \<and> writable mx (snd p)) m \<and>
      list_all (\<lambda>t. length (Tensor_Name t) < max_len \<and> length (Shape t) < 2 ^ 32) ts \<and>
      length m < max_len \<and> length tds < max_len \<and>
      room (unat (KV_Uint m ''general.alignment'' 32)) ts < max_len \<and>
      list_all (\<lambda>(t, d). d \<noteq> [] \<and> length d = unat (Tensor_Size t)) tds)"

definition loaded :: "tensor_data \<Rightarrow> Tensor \<times> string option" where
  "loaded = (\<lambda>(t, d). (t\<lparr>Offset := 0\<rparr>, Some d))"

lemma data_roundtrip:
  assumes "WriteGGUF_file order m (map (\<lambda>(t, d). (t, Some d)) tds) = Inr f" "\<And>ws. mset (order ws) = mset ws" "writable_file mx m tds"
    and "length f < max_len"
  shows "\<exists>g. ggml_Decode f mx = Inr g \<and> tensorsFromGGUFFile f g = map loaded (sorted_data tds) \<and>
    map_of (gg_kv g) = (map_of (map (qualify (KV_String m ''general.architecture'' [])) m))
      (''general.parameter_count'' \<mapsto> Uint64 (gg_parameters g))"
proof -
  define a where "a = unat (KV_Uint m ''general.alignment'' 32)"
  define arch where "arch = KV_String m ''general.architecture'' []"
  note wf = assms(3) [unfolded writable_file_def Let_def, folded a_def arch_def]
  obtain w where w: "WriteGGUF m (map fst tds) = Inr w"
      "f = put_all (header w) (order (tensor_writes w (map snd (sorted_data tds))))"
    using assms(1) by (auto simp: WriteGGUF_file_def comp_def case_prod_beta split: sum.splits if_splits)
  have "\<forall>(t, d) \<in> set tds. length d = unat (Tensor_Size t)" "room a (map fst tds) < max_len"
    using wf by (auto simp: list_all_iff)
  note dat = written_data [OF w(1) a_def this(2,1) assms(2) w(2)]
  have len: "length (placed w) = length (sorted_data tds)" using dat(2) by (rule list_all2_lengthD)
  note ith = list_all2_nthD [OF dat(2)]
  have ne: "snd (sorted_data tds ! i) \<noteq> []" if "i < length (placed w)" for i
  proof -
    have "sorted_data tds ! i \<in> set tds" using that len nth_mem [of i "sorted_data tds"] by (simp add: sorted_data_def)
    then show ?thesis using wf by (auto simp: list_all_iff case_prod_beta)
  qed
  have within: "nat (dataOffset w) + unat (Offset (placed w ! i)) + unat (Tensor_Size (placed w ! i)) \<le> length f"
    if "i < length (placed w)" for i
    using ith [OF that] holds_length [OF _ ne [OF that]] by fastforce
  have inside: "\<forall>t \<in> set (placed w). dataOffset w + int (unat (Offset t)) + int (unat (Tensor_Size t)) \<le> int (length f)"
  proof
    fix t assume "t \<in> set (placed w)"
    then obtain i where i: "i < length (placed w)" "t = placed w ! i" by (auto simp: in_set_conv_nth)
    show "dataOffset w + int (unat (Offset t)) + int (unat (Tensor_Size t)) \<le> int (length f)"
      unfolding i(2) using within [OF i(1)] dat(3) by linarith
  qed
  have f: "f = header w @ drop (length (header w)) f" using dat(1) by (metis append_take_drop_id)
  have mm: "\<forall>p \<in> set m. length (qualified_key arch (fst p)) < max_len \<and> writable mx (snd p)"
    "\<forall>t \<in> set (map fst tds). length (Tensor_Name t) < max_len \<and> length (Shape t) < 2 ^ 32"
    "arch \<noteq> ''general''" "distinct (map (\<lambda>p. qualified_key arch (fst p)) m)" "length m < max_len"
    "length (map fst tds) < max_len"
    using wf by (simp_all add: list_all_iff)
  obtain g where g: "ggml_Decode f mx = Inr g" "gg_tensors g = placed w" "int (unat (tensorOffset g)) = dataOffset w"
      "map_of (gg_kv g) = (map_of (map (qualify arch) m))(''general.parameter_count'' \<mapsto> Uint64 (gg_parameters g))"
    using written_file_decodes [OF w(1) arch_def mm(3,4,1,2,5,6) f assms(4) inside] by blast
  have "tensorFromFile f (tensorOffset g + Offset (placed w ! i)) (placed w ! i) = loaded (sorted_data tds ! i)"
    if i: "i < length (placed w)" for i
  proof -
    let ?t = "placed w ! i"
    have b: "unat (tensorOffset g) + unat (Offset ?t) + unat (Tensor_Size ?t) < max_len"
      using within [OF i] assms(4) g(3) by linarith
    then have ov: "unat (tensorOffset g + Offset ?t) = unat (tensorOffset g) + unat (Offset ?t)"
      by (simp add: unat_word_ariths)
    then have "nat (int_of (tensorOffset g + Offset ?t)) = nat (dataOffset w) + unat (Offset ?t)"
      using b g(3) nat_int_of_small [of "tensorOffset g + Offset ?t"] by linarith
    moreover have "nat (int_of (Tensor_Size ?t)) = length (snd (sorted_data tds ! i))"
      using b ith [OF i] nat_int_of_small [of "Tensor_Size ?t"] by simp
    moreover have "0 < unat (Tensor_Size ?t)" using ne [OF i] ith [OF i] by (metis length_greater_0_conv)
    then have "0 < int_of (Tensor_Size ?t)" "0 \<le> int_of (tensorOffset g + Offset ?t)"
      using b ov int_of_small [of "Tensor_Size ?t"] int_of_small [of "tensorOffset g + Offset ?t"] by linarith+
    ultimately show ?thesis
      using ith [OF i] by (auto simp: tensorFromFile_def read_section_def loaded_def holds_def case_prod_beta)
  qed
  then have "tensorsFromGGUFFile f g = map loaded (sorted_data tds)"
    unfolding tensorsFromGGUFFile_def g(2) using len by (intro nth_equalityI) simp_all
  with g(1,4) show ?thesis unfolding arch_def by blast
qed

lemma mset_sorted_data [simp]: "mset (sorted_data tds) = mset tds" "set (sorted_data tds) = set tds"
  "length (sorted_data tds) = length tds"
  by (simp_all add: sorted_data_def)

section \<open>Copies of model files\<close>

definition isEmbeddedCompatibilityTensor :: "string \<Rightarrow> bool" where
  "isEmbeddedCompatibilityTensor name =
     list_ex (HasPrefix name) [''a.'', ''mm.'', ''mtp.'', ''s.'', ''v.'']"

definition hasEmbeddedCompatibilityTensors :: "gguf \<Rightarrow> bool" where
  "hasEmbeddedCompatibilityTensors g = list_ex (\<lambda>t. isEmbeddedCompatibilityTensor (Tensor_Name t)) (gg_tensors g)"

type_synonym schedule = "(nat \<times> string) list \<Rightarrow> (nat \<times> string) list"

text \<open>\<open>restoreEmbeddedCompatibilityTensors\<close>: the new content of the file \<open>out\<close>.\<close>

definition restoreEmbeddedCompatibilityTensors :: "schedule \<Rightarrow> string \<Rightarrow> string \<Rightarrow> gguf \<Rightarrow> FileType \<Rightarrow> gguf_error + string" where
  "restoreEmbeddedCompatibilityTensors order inp out orig newFileType =
     (case ggml_Decode out (-1) of
        Inl e \<Rightarrow> Inl e
      | Inr rewritten \<Rightarrow>
          (let kv = AList.update ''general.file_type'' (Uint32 newFileType) (gg_kv orig);
               kept = filter (\<lambda>t. \<not> isEmbeddedCompatibilityTensor (Tensor_Name t)) (gg_tensors rewritten);
               present = map Tensor_Name kept;
               missing = filter (\<lambda>t. isEmbeddedCompatibilityTensor (Tensor_Name t) \<and> Tensor_Name t \<notin> set present) (gg_tensors orig);
               tensors = map (\<lambda>t. tensorFromFile out (tensorOffset rewritten + Offset t) t) kept @
                 map (\<lambda>t. tensorFromFile inp (tensorOffset orig + Offset t) t) missing
           in if missing = [] then Inr out else WriteGGUF_file order kv tensors))"

datatype quantize_error = UnsupportedQuantizationType | ToolFailed | RestoreFailed gguf_error

text \<open>\<open>quantize\<close>; \<open>tool\<close> is the program \<open>llama-quantize\<close>, with the input file and the name of the type.\<close>

definition quantize :: "(string \<Rightarrow> string \<Rightarrow> string option) \<Rightarrow> schedule \<Rightarrow> string \<Rightarrow> gguf \<Rightarrow> FileType \<Rightarrow> quantize_error + string" where
  "quantize tool order inp orig newFileType =
     (let typeName = FileType_String newFileType in
      if typeName = [] then Inl UnsupportedQuantizationType
      else (case tool inp typeName of
          None \<Rightarrow> Inl ToolFailed
        | Some out \<Rightarrow>
            if hasEmbeddedCompatibilityTensors orig then
              (case restoreEmbeddedCompatibilityTensors order inp out orig newFileType of
                 Inl e \<Rightarrow> Inl (RestoreFailed e)
               | Inr f \<Rightarrow> Inr f)
            else Inr out))"

definition needsDefaultLlavaProjectorType :: "gguf \<Rightarrow> bool" where
  "needsDefaultLlavaProjectorType g =
     (let kv = gg_kv g in
      Architecture kv = ''clip'' \<and> KV_Bool kv ''has_vision_encoder'' False \<and>
      map_of kv ''clip.projector_type'' = None \<and> map_of kv ''clip.vision.projector_type'' = None)"

text \<open>The file that \<open>addDefaultLlavaProjectorType\<close> writes.\<close>

definition addDefaultLlavaProjectorType :: "schedule \<Rightarrow> string \<Rightarrow> gguf \<Rightarrow> gguf_error + string" where
  "addDefaultLlavaProjectorType order f g =
     WriteGGUF_file order (AList.update ''clip.projector_type'' (String ''mlp'') (gg_kv g)) (tensorsFromGGUFFile f g)"

definition removeSplitMetadata :: "KV \<Rightarrow> string \<Rightarrow> KV" where
  "removeSplitMetadata kv arch =
     filter (\<lambda>p. fst p \<notin> set (concat (map (\<lambda>k. [k, arch @ ''.'' @ k]) [''split.no'', ''split.count'', ''split.tensors.count'']))) kv"

text \<open>The file that \<open>copySplitLayerPreservingTensors\<close> writes, from the parts of a model in several files.\<close>

definition copySplit :: "schedule \<Rightarrow> gguf \<Rightarrow> (string \<times> gguf) list \<Rightarrow> gguf_error + string" where
  "copySplit order primary parts =
     WriteGGUF_file order (removeSplitMetadata (gg_kv primary) (Architecture (gg_kv primary)))
       (concat (map (\<lambda>(f, g). tensorsFromGGUFFile f g) parts))"

text \<open>A list of tensors whose data was read.\<close>

definition readable :: "(Tensor \<times> string option) list \<Rightarrow> bool" where
  "readable tds = list_all (\<lambda>td. snd td \<noteq> None) tds"

definition contents :: "(Tensor \<times> string option) list \<Rightarrow> tensor_data list" where
  "contents tds = map (\<lambda>(t, d). (t, the d)) tds"

lemma contents_back: "readable tds \<Longrightarrow> map (\<lambda>(t, d). (t, Some d)) (contents tds) = tds"
  by (induction tds) (auto simp: readable_def contents_def)

lemma loaded_contents:
  assumes "readable tds" "\<forall>td \<in> set tds. Offset (fst td) = 0"
  shows "map loaded (contents tds) = tds"
  using assms by (induction tds) (auto simp: readable_def contents_def loaded_def)

lemma unplaced_read: "Offset (fst (tensorFromFile f off t)) = 0"
  by (simp add: tensorFromFile_def)

lemma copy_roundtrip:
  assumes "WriteGGUF_file order m tds = Inr f" "\<And>ws. mset (order ws) = mset ws" "writable_file mx m (contents tds)"
    and "length f < max_len" "\<forall>td \<in> set tds. Offset (fst td) = 0"
  shows "\<exists>g. ggml_Decode f mx = Inr g \<and> mset (tensorsFromGGUFFile f g) = mset tds \<and>
    map_of (gg_kv g) = (map_of (map (qualify (KV_String m ''general.architecture'' [])) m))
      (''general.parameter_count'' \<mapsto> Uint64 (gg_parameters g))"
proof -
  have r: "readable tds"
    using assms(1) by (auto simp: WriteGGUF_file_def readable_def list_ex_iff list_all_iff split: sum.splits if_splits)
  have "WriteGGUF_file order m (map (\<lambda>(t, d). (t, Some d)) (contents tds)) = Inr f"
    using assms(1) contents_back [OF r] by simp
  from data_roundtrip [OF this assms(2-4)] obtain g where
    g: "ggml_Decode f mx = Inr g" "tensorsFromGGUFFile f g = map loaded (sorted_data (contents tds))"
      "map_of (gg_kv g) = (map_of (map (qualify (KV_String m ''general.architecture'' [])) m))
        (''general.parameter_count'' \<mapsto> Uint64 (gg_parameters g))" by blast
  have "mset (tensorsFromGGUFFile f g) = mset (map loaded (contents tds))" unfolding g(2) by simp
  then show ?thesis using g loaded_contents [OF r assms(5)] by metis
qed

section \<open>Properties\<close>

text \<open>C29: After a model was quantized, the file holds, with their data, the tensors of the quantized model and every
  embedded tensor of the original that the quantization does not know, in whatever order the tensors are written.\<close>

theorem compat_tensors_restored:
  assumes "restoreEmbeddedCompatibilityTensors order inp out orig ft = Inr f" "ggml_Decode out (-1) = Inr rw"
    and "hasEmbeddedCompatibilityTensors orig" "\<And>ws. mset (order ws) = mset ws"
    and "tds = filter (\<lambda>td. \<not> isEmbeddedCompatibilityTensor (Tensor_Name (fst td))) (tensorsFromGGUFFile out rw) @
      filter (\<lambda>td. isEmbeddedCompatibilityTensor (Tensor_Name (fst td))) (tensorsFromGGUFFile inp orig)"
    and "writable_file mx (AList.update ''general.file_type'' (Uint32 ft) (gg_kv orig)) (contents tds)" "length f < max_len"
  shows "\<exists>g. ggml_Decode f mx = Inr g \<and> mset (tensorsFromGGUFFile f g) = mset tds"
proof -
  define kept where "kept = filter (\<lambda>t. \<not> isEmbeddedCompatibilityTensor (Tensor_Name t)) (gg_tensors rw)"
  define missing where "missing = filter (\<lambda>t. isEmbeddedCompatibilityTensor (Tensor_Name t)) (gg_tensors orig)"
  have "filter (\<lambda>t. isEmbeddedCompatibilityTensor (Tensor_Name t) \<and> Tensor_Name t \<notin> set (map Tensor_Name kept)) (gg_tensors orig) = missing"
    unfolding missing_def by (rule filter_cong) (auto simp: kept_def)
  moreover have "missing \<noteq> []"
    using assms(3) by (auto simp: missing_def hasEmbeddedCompatibilityTensors_def list_ex_iff filter_empty_conv)
  moreover have "tds = map (\<lambda>t. tensorFromFile out (tensorOffset rw + Offset t) t) kept @
      map (\<lambda>t. tensorFromFile inp (tensorOffset orig + Offset t) t) missing"
    unfolding assms(5) kept_def missing_def
    by (simp add: tensorsFromGGUFFile_def filter_map comp_def tensorFromFile_def)
  ultimately have "WriteGGUF_file order (AList.update ''general.file_type'' (Uint32 ft) (gg_kv orig)) tds = Inr f"
    using assms(1,2) by (simp add: restoreEmbeddedCompatibilityTensors_def Let_def kept_def [symmetric])
  moreover have "\<forall>td \<in> set tds. Offset (fst td) = 0"
    unfolding assms(5) by (auto simp: tensorsFromGGUFFile_def unplaced_read)
  ultimately show ?thesis using copy_roundtrip [OF _ assms(4,6,7)] by blast
qed

text \<open>The same for the other copies: a model in several files becomes one file with the tensors of all of them, and
  the projector keeps its tensors.\<close>

lemma copySplit_tensors:
  assumes "copySplit order primary parts = Inr f" "\<And>ws. mset (order ws) = mset ws" "length f < max_len"
    and "writable_file mx (removeSplitMetadata (gg_kv primary) (Architecture (gg_kv primary)))
      (contents (concat (map (\<lambda>(f, g). tensorsFromGGUFFile f g) parts)))"
  shows "\<exists>g. ggml_Decode f mx = Inr g \<and> mset (tensorsFromGGUFFile f g) = (\<Sum>(f, g) \<in># mset parts. mset (tensorsFromGGUFFile f g))"
proof -
  have "\<forall>td \<in> set (concat (map (\<lambda>(f, g). tensorsFromGGUFFile f g) parts)). Offset (fst td) = 0"
    by (auto simp: tensorsFromGGUFFile_def tensorFromFile_def)
  from copy_roundtrip [OF assms(1) [unfolded copySplit_def] assms(2,4,3) this]
  obtain g where g: "ggml_Decode f mx = Inr g"
      "mset (tensorsFromGGUFFile f g) = mset (concat (map (\<lambda>(f, g). tensorsFromGGUFFile f g) parts))" by blast
  have "mset (concat (map (\<lambda>(f, g). tensorsFromGGUFFile f g) parts)) = (\<Sum>(f, g) \<in># mset parts. mset (tensorsFromGGUFFile f g))"
    by (induction parts) auto
  with g show ?thesis by auto
qed

lemma llava_tensors:
  assumes "addDefaultLlavaProjectorType order f g = Inr f'" "\<And>ws. mset (order ws) = mset ws" "length f' < max_len"
    and "writable_file mx (AList.update ''clip.projector_type'' (String ''mlp'') (gg_kv g)) (contents (tensorsFromGGUFFile f g))"
  shows "\<exists>g'. ggml_Decode f' mx = Inr g' \<and> mset (tensorsFromGGUFFile f' g') = mset (tensorsFromGGUFFile f g)"
proof -
  have "\<forall>td \<in> set (tensorsFromGGUFFile f g). Offset (fst td) = 0" by (auto simp: tensorsFromGGUFFile_def unplaced_read)
  from copy_roundtrip [OF assms(1) [unfolded addDefaultLlavaProjectorType_def] assms(2,4,3) this] show ?thesis by blast
qed

text \<open>An array that was not kept when the metadata was read is written as an empty array. The metadata of a model in
  several files is read again with a limit of 1024 after the files were joined, and a quantization writes it back.\<close>

lemma dropped_array_written_empty:
  "writeValue (Strings (Array n None)) = Some (put32 ggufTypeArray @ put32 ggufTypeString @ put64 0)"
  by (simp add: writeGGUFArray_def values_of_def)

text \<open>Writing succeeds on metadata of the types that GGUF knows.\<close>

lemma place_total: "align \<noteq> 0 \<Longrightarrow> \<exists>ts'. place_tensors align s ts = Inr ts'"
  by (induction ts arbitrary: s) (auto simp: Let_def ggufPadding_def split: sum.split, metis sum.distinct(1))

lemma writeAll_total: "\<forall>x \<in> set xs. \<exists>a. f x = Inr a \<Longrightarrow> \<exists>bs. writeAll f xs = Inr bs"
  by (induction xs) (auto split: sum.split)

lemma WriteGGUF_total:
  assumes "KV_String m ''general.architecture'' [] \<noteq> []" "KV_Uint m ''general.alignment'' 32 \<noteq> 0"
    and "\<forall>p \<in> set m. writeValue (snd p) \<noteq> None" "distinct (map fst m)"
  shows "\<exists>w. WriteGGUF m ts = Inr w"
proof -
  let ?arch = "KV_String m ''general.architecture'' []" and ?ps = "map (\<lambda>k. (k, the (map_of m k))) (sort (map fst m))"
  have "\<exists>bs. writeAll (ggufWriteKV ?arch) ?ps = Inr bs"
  proof (rule writeAll_total, rule ballI)
    fix p assume "p \<in> set ?ps"
    then have "p \<in> set m" using assms(4) by auto
    then show "\<exists>a. ggufWriteKV ?arch p = Inr a" using assms(3) by (auto simp: ggufWriteKV_def Let_def)
  qed
  then obtain bs where bs: "writeAll (ggufWriteKV ?arch) ?ps = Inr bs" by blast
  define a where "a = int (unat (KV_Uint m ''general.alignment'' 32))"
  have "a \<noteq> 0" using assms(2) unfolding a_def by (simp only: of_nat_eq_0_iff unsigned_eq_0_iff) simp
  moreover obtain ts' where "place_tensors a 0 (sort_key (\<lambda>t. (block (Tensor_Name t), Tensor_Name t)) ts) = Inr ts'"
    using place_total [OF calculation] by blast
  ultimately show ?thesis
    using assms(1) bs unfolding WriteGGUF_def Let_def a_def [symmetric] by (simp add: ggufPadding_def)
qed

text \<open>A model with one embedded tensor, and the quantized model without it.\<close>

definition ex_embedded :: Tensor where
  "ex_embedded = \<lparr>Tensor_Name = ''v.a'', Kind = 0, Offset = 0, Shape = [1]\<rparr>"

definition ex_orig :: gguf where
  "ex_orig = \<lparr>gg_kv = sample_meta, gg_tensors = [ex_embedded], gg_parameters = 1, tensorOffset = 0, Length = 4\<rparr>"

definition ex_kv :: KV where
  "ex_kv = AList.update ''general.file_type'' (Uint32 7) (gg_kv ex_orig)"

lemma ex_embedded_size: "Tensor_Size ex_embedded = 4"
  by (simp add: ex_embedded_def Tensor_Size_def Elements_def typeSize_def blockSize_def TypeSize_def BlockSize_def switch_def)

lemma ex_kv: "KV_String ex_kv ''general.architecture'' [] = ''x''" "KV_Uint ex_kv ''general.alignment'' 32 = 32"
  "ex_kv = [(''general.architecture'', String ''x''), (''general.file_type'', Uint32 7)]"
  by (simp_all add: ex_kv_def ex_orig_def sample_meta_def KV_String_def KV_Uint_def keyValue_def typed_def)

lemma ex_read: "tensorFromFile ''data'' (0 + Offset ex_embedded) ex_embedded = (ex_embedded, Some ''data'')"
proof -
  have "int_of (4 :: 64 word) = 4" by (simp add: int_of_def)
  moreover have "ex_embedded\<lparr>Offset := 0\<rparr> = ex_embedded" "Offset ex_embedded = 0" by (simp_all add: ex_embedded_def)
  ultimately show ?thesis by (simp add: tensorFromFile_def read_section_def ex_embedded_size int_of_def)
qed

lemma ex_read_out:
  assumes "length h = 112" "int (unat off) = 128"
  shows "tensorFromFile (h @ replicate 100 (CHR 0x00)) (off + Offset sample_tensor) sample_tensor =
    (sample_tensor, Some (replicate 24 (CHR 0x00)))"
proof -
  have "unat off = 128" using assms(2) by linarith
  then have "off = 128" by (metis of_nat_numeral of_nat_unat ucast_id)
  moreover have "sample_tensor\<lparr>Offset := 0\<rparr> = sample_tensor" "Offset sample_tensor = 0" by (simp_all add: sample_tensor_def)
  moreover have "int_of (128 :: 64 word) = 128" "int_of (24 :: 64 word) = 24" by (simp_all add: int_of_def)
  ultimately show ?thesis using assms(1) by (simp add: tensorFromFile_def read_section_def sample_sizes)
qed

lemma ex_writable: "writable_file (-1) ex_kv [(sample_tensor, replicate 24 (CHR 0x00)), (ex_embedded, ''data'')]"
proof -
  have "room 32 [sample_tensor, ex_embedded] = 92" by (simp add: room_def sample_sizes ex_embedded_size)
  then show ?thesis
    unfolding writable_file_def Let_def ex_kv(1,2) unfolding ex_kv(3)
    by (simp add: qualified_key_def sample_sizes ex_embedded_size) (simp add: sample_tensor_def ex_embedded_def)
qed

lemma length_put_all: "length (put_all f ws) \<le> length f + sum_list (map (\<lambda>w. fst w + length (snd w)) ws)"
proof (induction ws arbitrary: f)
  case (Cons w ws)
  have "length (put_at f (fst w) (snd w)) \<le> length f + (fst w + length (snd w))" by (simp add: length_put_at)
  then show ?case using Cons.IH [of "put_at f (fst w) (snd w)"] by (simp add: put_all_def case_prod_beta)
qed (simp add: put_all_def)

definition info_length :: "Tensor \<Rightarrow> nat" where
  "info_length t = 24 + length (Tensor_Name t) + 8 * length (Shape t)"

lemma length_info: "length (ggufWriteTensorInfo t) = info_length (t\<lparr>Offset := 0\<rparr>)"
  by (simp add: ggufWriteTensorInfo_def info_length_def putString_def put32_def put64_def length_concat sum_list_triv comp_def)

lemma header_length:
  assumes "WriteGGUF m ts = Inr w"
  shows "length (header w) = 24 + length (concat (map (\<lambda>k. put_kv (qualify (KV_String m ''general.architecture'' []) (k, the (map_of m k)))) (sort (map fst m)))) +
    sum_list (map (\<lambda>t. info_length (t\<lparr>Offset := 0\<rparr>)) ts)"
proof -
  let ?s = "sort_key (\<lambda>t. (block (Tensor_Name t), Tensor_Name t)) ts"
  obtain ps where h: "ps = map (\<lambda>k. (k, the (map_of m k))) (sort (map fst m))"
      "header w = ''GGUF'' @ put32 3 @ put64 (word_of_nat (length (placed w))) @
      put64 (word_of_nat (length m)) @ concat (map put_kv (map (qualify (KV_String m ''general.architecture'' [])) ps)) @
      concat (map ggufWriteTensorInfo (placed w))"
    and pl: "place_tensors (int (unat (KV_Uint m ''general.alignment'' 32))) 0 ?s = Inr (placed w)"
    and "ggufPadding (int (length (header w))) (int (unat (KV_Uint m ''general.alignment'' 32))) = Some (dataOffset w - int (length (header w)))"
    by (rule WriteGGUF_parts [OF assms refl refl])
  have "length (concat (map ggufWriteTensorInfo (placed w))) = sum_list (map info_length (map (\<lambda>t. t\<lparr>Offset := 0\<rparr>) (placed w)))"
    by (simp add: length_concat length_info comp_def)
  also have "\<dots> = sum_list (map info_length (map (\<lambda>t. t\<lparr>Offset := 0\<rparr>) ?s))"
    by (simp only: place_tensors_same [OF pl])
  also have "\<dots> = sum_mset (mset (map (\<lambda>t. info_length (t\<lparr>Offset := 0\<rparr>)) ?s))"
    by (simp only: sum_mset_sum_list map_map comp_def)
  also have "\<dots> = sum_list (map (\<lambda>t. info_length (t\<lparr>Offset := 0\<rparr>)) ts)"
    by (simp only: mset_map mset_sort flip: sum_mset_sum_list)
  finally show ?thesis by (simp add: h put32_def put64_def comp_def)
qed

lemma ex_length:
  assumes "WriteGGUF ex_kv [sample_tensor, ex_embedded] = Inr v" "length ds = 2" "\<forall>d \<in> set ds. length d \<le> 24"
  shows "length (put_all (header v) (rev (tensor_writes v ds))) < max_len"
proof -
  have a: "32 = unat (KV_Uint ex_kv ''general.alignment'' 32)" by (simp add: ex_kv(2))
  have h: "length (header v) \<le> 500"
    unfolding header_length [OF assms(1)] ex_kv(1) unfolding ex_kv(3)
    by (simp add: info_length_def sample_tensor_def ex_embedded_def put_kv_def qualify_def qualified_key_def putString_def put64_def
        writeGGUFString_def writeGGUF_def put32_def)
  obtain ps where pl: "place_tensors (int 32) 0 (sort_key (\<lambda>t. (block (Tensor_Name t), Tensor_Name t)) [sample_tensor, ex_embedded]) = Inr (placed v)"
    and pad: "ggufPadding (int (length (header v))) (int 32) = Some (dataOffset v - int (length (header v)))"
    by (rule WriteGGUF_parts [OF assms(1) refl a])
  have rm: "room 32 (sort_key (\<lambda>t. (block (Tensor_Name t), Tensor_Name t)) [sample_tensor, ex_embedded]) = 92"
    by (simp only: room_mset mset_sort) (simp add: sample_sizes ex_embedded_size)
  obtain p where "ggufPadding (int (length (header v))) 32 = Some p" "p < 32"
    using ggufPadding_nonneg [of "int (length (header v))" 32] by auto
  then have d: "dataOffset v \<le> 532" using pad h by simp
  have "fst x + length (snd x) \<le> 1000" if x: "x \<in> set (tensor_writes v ds)" for x
  proof -
    obtain t e where te: "(t, e) \<in> set (zip (placed v) ds)" "x = (nat (dataOffset v + int_of (Offset t)), e)"
      using x by (auto simp: tensor_writes_def)
    have "unat (Offset t) + unat (Tensor_Size t) \<le> 92"
      using place_tensors_bound [OF pl _ _ set_zip_leftD [OF te(1)]] rm by simp
    moreover from this have "int_of (Offset t) = int (unat (Offset t))" by (intro int_of_small) simp
    ultimately have "int_of (Offset t) \<le> 92" by linarith
    moreover have "length e \<le> 24" using assms(3) set_zip_rightD [OF te(1)] by blast
    ultimately show ?thesis using d te(2) by simp
  qed
  then have "sum_list (map (\<lambda>w. fst w + length (snd w)) (rev (tensor_writes v ds))) \<le> sum_list (map (\<lambda>_. 1000) (rev (tensor_writes v ds)))"
    by (intro sum_list_mono) simp
  also have "\<dots> \<le> 2000" using assms(2) by (simp add: sum_list_triv tensor_writes_def)
  finally show ?thesis using length_put_all [of "header v" "rev (tensor_writes v ds)"] h by simp
qed

theorem compat_tensors_restored_witness:
  "\<exists>out rw f g. ggml_Decode out (-1) = Inr rw \<and>
    restoreEmbeddedCompatibilityTensors rev ''data'' out ex_orig 7 = Inr f \<and> ggml_Decode f (-1) = Inr g \<and>
    mset (tensorsFromGGUFFile f g) = {#(sample_tensor, Some (replicate 24 (CHR 0x00))), (ex_embedded, Some ''data'')#}"
proof -
  let ?tds = "[(sample_tensor, Some (replicate 24 (CHR 0x00))), (ex_embedded, Some ''data'')]"
  obtain w :: written and rw where w: "length (header w) = 112" and rw: "ggml_Decode (header w @ replicate 100 (CHR 0x00)) (-1) = Inr rw"
      "gg_tensors rw = [sample_tensor]" "int (unat (tensorOffset rw)) = 128"
    using sample_decoded by blast
  let ?out = "header w @ replicate 100 (CHR 0x00)"
  have c: "\<not> isEmbeddedCompatibilityTensor (Tensor_Name sample_tensor)" "isEmbeddedCompatibilityTensor (Tensor_Name ex_embedded)"
    "Tensor_Name ex_embedded \<noteq> Tensor_Name sample_tensor"
    by (simp_all add: sample_tensor_def ex_embedded_def isEmbeddedCompatibilityTensor_def)
  note reads = ex_read_out [OF w rw(3)] ex_read
  have tds: "?tds = filter (\<lambda>td. \<not> isEmbeddedCompatibilityTensor (Tensor_Name (fst td))) (tensorsFromGGUFFile ?out rw) @
      filter (\<lambda>td. isEmbeddedCompatibilityTensor (Tensor_Name (fst td))) (tensorsFromGGUFFile ''data'' ex_orig)"
    using reads c by (simp add: tensorsFromGGUFFile_def rw(2) ex_orig_def)
  obtain v where v: "WriteGGUF ex_kv [sample_tensor, ex_embedded] = Inr v"
    using WriteGGUF_total [of ex_kv "[sample_tensor, ex_embedded]"] ex_kv(1,2) by (auto simp: ex_kv(3))
  let ?ws = "tensor_writes v (map snd (sorted_data (contents ?tds)))"
  let ?f = "put_all (header v) (rev ?ws)"
  have f: "WriteGGUF_file rev ex_kv ?tds = Inr ?f"
    using v by (simp add: WriteGGUF_file_def contents_def)
  have r: "restoreEmbeddedCompatibilityTensors rev ''data'' ?out ex_orig 7 = Inr ?f"
    using f reads c rw(1,2) unfolding restoreEmbeddedCompatibilityTensors_def ex_kv_def
    by (simp add: Let_def ex_orig_def)
  have len: "length ?f < max_len" unfolding contents_def by (rule ex_length [OF v]) simp_all
  have e: "hasEmbeddedCompatibilityTensors ex_orig" using c by (simp add: hasEmbeddedCompatibilityTensors_def ex_orig_def)
  have "writable_file (-1) (AList.update ''general.file_type'' (Uint32 7) (gg_kv ex_orig)) (contents ?tds)"
    using ex_writable by (simp add: ex_kv_def contents_def)
  from compat_tensors_restored [OF r rw(1) e _ tds this len] r rw(1) show ?thesis by fastforce
qed

end
