(* ===== verification/Manifest_Store.thy ===== *)
theory Manifest_Store
  imports Model_Name Blob_Digest "HOL-Library.AList"
begin

text \<open>
  The store of models: manifests and the layers they refer to, after package \<open>manifest\<close>
  (\<open>manifest.go\<close>, \<open>layer.go\<close>, \<open>paths.go\<close>), the functions of \<open>server/unified_shard_conductor.go\<close> that pull,
  copy and prune models, and the deletion of a model in \<open>server/routes.go\<close>. There are two model
  directories, a primary and an auxiliary one. A file of the manifest tree is listed with its path relative
  to the \<open>manifests\<close> directory, a blob with its file name; directories and times are left out. The JSON of a
  manifest is the manifest, or does not decode. The content of the registry is a parameter.
\<close>

section \<open>Data\<close>

record Layer =
  l_MediaType :: string
  l_Digest :: string
  l_Size :: "64 word"
  l_From :: string
  l_Name :: string

record Manifest =
  SchemaVersion :: nat
  m_MediaType :: string
  Config :: Layer
  Layers :: "Layer list"

text \<open>What the file of a manifest holds: a manifest, something that does not decode, or a file that cannot be
  read.\<close>

datatype mfile = Decodes Manifest | Garbled | Unreadable

text \<open>A base directory; \<open>Stray\<close> is what the path \<open>None\<close> of a directory that is not available leads to.\<close>

datatype area = Primary | Auxiliary | Stray

record Store =
  prim_ok :: bool
  aux_ok :: bool
  aux_blobs_dir :: bool
  mans :: "area \<Rightarrow> (string \<times> mfile) list"
  blobs :: "area \<Rightarrow> (string \<times> bytes) list"

datatype store_error = NotExist | NoPath | UnqualifiedName | BadJSON | InvalidName | PermissionDenied | EmptyDigest
  | DownloadFailed | DigestMismatch | WriteFailed | InsecureProtocol | NamePanic

section \<open>Paths\<close>

definition PrimaryPath :: "Store \<Rightarrow> area" where
  "PrimaryPath s = (if prim_ok s then Primary else Stray)"

definition AuxPath :: "Store \<Rightarrow> area" where
  "AuxPath s = (if aux_ok s then Auxiliary else Stray)"

definition Path :: "Store \<Rightarrow> store_error + area \<times> area \<times> bool" where
  "Path s = (if \<not> prim_ok s \<and> \<not> aux_ok s then Inl NoPath else Inr (PrimaryPath s, AuxPath s, aux_ok s))"

definition can_read :: "Store \<Rightarrow> area \<Rightarrow> string \<Rightarrow> bool" where
  "can_read s a rel = (case map_of (mans s a) rel of Some f \<Rightarrow> f \<noteq> Unreadable | None \<Rightarrow> False)"

text \<open>\<open>PathForName\<close>: the place of the manifest, \<open>None\<close> for the empty path.\<close>

definition PathForName :: "Name \<Rightarrow> Store \<Rightarrow> store_error + (area \<times> string) option" where
  "PathForName n s =
     (case Filepath n of
        None \<Rightarrow> Inl NotExist
      | Some rel \<Rightarrow>
          (case Path s of
             Inl e \<Rightarrow> Inl e
           | Inr (p, a, _) \<Rightarrow>
               if \<not> can_read s p rel \<and> \<not> can_read s a rel then Inr None
               else if \<not> can_read s p rel then Inr (Some (a, rel))
               else Inr (Some (p, rel))))"

definition PathForPull :: "Name \<Rightarrow> Store \<Rightarrow> store_error + area \<times> string" where
  "PathForPull n s =
     (case Filepath n of
        None \<Rightarrow> Inl NotExist
      | Some rel \<Rightarrow>
          (case Path s of
             Inl e \<Rightarrow> Inl e
           | Inr (p, a, fAux) \<Rightarrow> Inr (if fAux then a else p, rel)))"

text \<open>\<open>strings.ReplaceAll\<close> of one byte by another.\<close>

definition replace_byte :: "char \<Rightarrow> char \<Rightarrow> string \<Rightarrow> string" where
  "replace_byte x y = map (\<lambda>c. if c = x then y else c)"

definition blob_name :: "string \<Rightarrow> string" where
  "blob_name digest = replace_byte (CHR '':'') (CHR ''-'') digest"

text \<open>\<open>BlobsPath\<close>; the empty digest is the directory itself.\<close>

definition BlobsPath :: "string \<Rightarrow> Store \<Rightarrow> store_error + area \<times> string" where
  "BlobsPath digest s =
     (case Path s of
        Inl e \<Rightarrow> Inl e
      | Inr (p, a, inclAux) \<Rightarrow>
          (let name = blob_name digest;
               found = (if name = [] then aux_blobs_dir s else map_of (blobs s Auxiliary) name \<noteq> None)
           in Inr (if inclAux \<and> found then a else p, name)))"

section \<open>Manifests\<close>

definition all_layers :: "Manifest \<Rightarrow> Layer list" where
  "all_layers m = Layers m @ [Config m]"

definition Manifest_Size :: "Manifest \<Rightarrow> 64 word" where
  "Manifest_Size m = sum_list (map l_Size (all_layers m))"

definition ParseNamedManifest :: "Name \<Rightarrow> Store \<Rightarrow> store_error + Manifest \<times> area \<times> string" where
  "ParseNamedManifest n s =
     (if \<not> IsFullyQualified n then Inl UnqualifiedName
      else (case PathForName n s of
          Inl e \<Rightarrow> Inl e
        | Inr None \<Rightarrow> Inl NotExist
        | Inr (Some (a, rel)) \<Rightarrow>
            (case map_of (mans s a) rel of
               Some (Decodes m) \<Rightarrow> Inr (m, a, rel)
             | Some Garbled \<Rightarrow> Inl BadJSON
             | _ \<Rightarrow> Inl NotExist)))"

definition put_man :: "area \<Rightarrow> string \<Rightarrow> mfile \<Rightarrow> Store \<Rightarrow> Store" where
  "put_man a rel f s = s\<lparr>mans := (mans s)(a := AList.update rel f (mans s a))\<rparr>"

text \<open>\<open>WriteManifest\<close>: the file may fail to be created, or be cut off while it is written.\<close>

datatype write_outcome = WriteOK | CreateFails | EncodeFails

definition WriteManifest :: "write_outcome \<Rightarrow> Name \<Rightarrow> Layer \<Rightarrow> Layer list \<Rightarrow> Store \<Rightarrow> store_error option \<times> Store" where
  "WriteManifest out n config layers s =
     (case Path s of
        Inl e \<Rightarrow> (Some e, s)
      | Inr (p, a, fAux) \<Rightarrow>
          (case Filepath n of
             None \<Rightarrow> (Some NamePanic, s)
           | Some rel \<Rightarrow>
               let dir = (if fAux then a else p);
                   m = \<lparr>SchemaVersion = 2, m_MediaType = ''application/vnd.docker.distribution.manifest.v2+json'',
                     Config = config, Layers = layers\<rparr>
               in (case out of
                  CreateFails \<Rightarrow> (Some WriteFailed, s)
                | EncodeFails \<Rightarrow> (Some WriteFailed, put_man dir rel Garbled s)
                | WriteOK \<Rightarrow> (None, put_man dir rel (Decodes m) s))))"

text \<open>The name under which \<open>Manifests\<close> looks up a file of the tree.\<close>

definition name_of_file :: "string \<Rightarrow> Name" where
  "name_of_file rel = (let n = ParseNameFromFilepath rel in if IsValid n then n else ParseName rel)"

fun sweep :: "bool \<Rightarrow> Store \<Rightarrow> string list \<Rightarrow> (Name \<times> Manifest) list \<Rightarrow> store_error + (Name \<times> Manifest) list" where
  "sweep cont s [] ms = Inr ms"
| "sweep cont s (rel # rels) ms =
     (let n = name_of_file rel in
      if \<not> IsValid n then (if cont then sweep cont s rels ms else Inl InvalidName)
      else (case ParseNamedManifest n s of
          Inl e \<Rightarrow> if cont then sweep cont s rels ms else Inl e
        | Inr (m, _) \<Rightarrow> sweep cont s rels (AList.update n m ms)))"

definition Manifests :: "bool \<Rightarrow> Store \<Rightarrow> store_error + (Name \<times> Manifest) list" where
  "Manifests cont s =
     (case Path s of
        Inl e \<Rightarrow> Inl e
      | Inr (p, a, inclAux) \<Rightarrow>
          sweep cont s ((if prim_ok s then map fst (mans s p) else []) @ (if inclAux then map fst (mans s a) else [])) [])"

definition Manifest_Remove :: "area \<times> string \<Rightarrow> Store \<Rightarrow> store_error option \<times> Store" where
  "Manifest_Remove loc s =
     (case loc of (a, rel) \<Rightarrow>
        if map_of (mans s a) rel = None then (Some NotExist, s)
        else (let s = s\<lparr>mans := (mans s)(a := AList.delete rel (mans s a))\<rparr> in
          (case Path s of
             Inl e \<Rightarrow> (Some e, s)
           | Inr _ \<Rightarrow> if prim_ok s then (None, s) else (Some NotExist, s))))"

section \<open>Layers\<close>

definition digests :: "Manifest \<Rightarrow> string list" where
  "digests m = filter (\<lambda>d. d \<noteq> []) (map l_Digest (all_layers m))"

definition in_use :: "(Name \<times> Manifest) list \<Rightarrow> string list" where
  "in_use ms = concat (map (\<lambda>(n, m). digests m) ms)"

text \<open>\<open>os.Remove\<close> of a blob; \<open>deny\<close> are the names that the system refuses to remove.\<close>

definition remove_blob :: "(string \<Rightarrow> bool) \<Rightarrow> area \<times> string \<Rightarrow> Store \<Rightarrow> store_error option \<times> Store" where
  "remove_blob deny loc s =
     (case loc of (a, name) \<Rightarrow>
        if map_of (blobs s a) name = None then (Some NotExist, s)
        else if deny name then (Some PermissionDenied, s)
        else (None, s\<lparr>blobs := (blobs s)(a := AList.delete name (blobs s a))\<rparr>))"

text \<open>The loop of \<open>RemoveLayers\<close>: the digests removed, in order.\<close>

fun remove_layers :: "(string \<Rightarrow> bool) \<Rightarrow> string list \<Rightarrow> string list \<Rightarrow> Store \<Rightarrow> (string list \<times> store_error option) \<times> Store" where
  "remove_layers deny used [] s = (([], None), s)"
| "remove_layers deny used (d # ds) s =
     (if d = [] \<or> d \<in> set used then remove_layers deny used ds s
      else (case BlobsPath d s of
          Inl e \<Rightarrow> (([], Some e), s)
        | Inr loc \<Rightarrow>
            (case remove_blob deny loc s of
               (err, s') \<Rightarrow>
                 if err = None \<or> err = Some NotExist then
                   (case remove_layers deny used ds s' of ((removed, e), s'') \<Rightarrow> ((d # removed, e), s''))
                 else (([], err), s'))))"

definition RemoveLayers :: "(string \<Rightarrow> bool) \<Rightarrow> Manifest \<Rightarrow> Store \<Rightarrow> (string list \<times> store_error option) \<times> Store" where
  "RemoveLayers deny m s =
     (case Manifests True s of
        Inl e \<Rightarrow> (([], Some e), s)
      | Inr ms \<Rightarrow> remove_layers deny (in_use ms) (map l_Digest (all_layers m)) s)"

definition Layer_Remove :: "(string \<Rightarrow> bool) \<Rightarrow> Layer \<Rightarrow> Store \<Rightarrow> store_error option \<times> Store" where
  "Layer_Remove deny l s =
     (if l_Digest l = [] then (None, s)
      else (case Manifests True s of
          Inl e \<Rightarrow> (Some e, s)
        | Inr ms \<Rightarrow>
            if l_Digest l \<in> set (map l_Digest (concat (map (\<lambda>(n, m). all_layers m) ms))) then (None, s)
            else (case BlobsPath (l_Digest l) s of
                Inl e \<Rightarrow> (Some e, s)
              | Inr loc \<Rightarrow> remove_blob deny loc s)))"

text \<open>\<open>NewLayer\<close> on the data that was read; \<open>sha\<close> is SHA-256.\<close>

definition layer_digest :: "(bytes \<Rightarrow> bytes) \<Rightarrow> bytes \<Rightarrow> string" where
  "layer_digest sha data = ''sha256:'' @ hex_encode (sha data)"

definition put_blob :: "area \<times> string \<Rightarrow> bytes \<Rightarrow> Store \<Rightarrow> Store" where
  "put_blob loc data s = s\<lparr>blobs := (blobs s)(fst loc := AList.update (snd loc) data (blobs s (fst loc)))\<rparr>"

definition NewLayer :: "(bytes \<Rightarrow> bytes) \<Rightarrow> bytes \<Rightarrow> string \<Rightarrow> Store \<Rightarrow> (store_error + Layer) \<times> Store" where
  "NewLayer sha data mediatype s =
     (case BlobsPath (layer_digest sha data) s of
        Inl e \<Rightarrow> (Inl e, s)
      | Inr loc \<Rightarrow>
          (Inr \<lparr>l_MediaType = mediatype, l_Digest = layer_digest sha data, l_Size = of_nat (length data), l_From = [], l_Name = []\<rparr>,
           if map_of (blobs s (fst loc)) (snd loc) = None then put_blob loc data s else s))"

definition NewLayerFromLayer :: "string \<Rightarrow> string \<Rightarrow> string \<Rightarrow> Store \<Rightarrow> store_error + Layer" where
  "NewLayerFromLayer digest mediatype from s =
     (if digest = [] then Inl EmptyDigest
      else (case BlobsPath digest s of
          Inl e \<Rightarrow> Inl e
        | Inr (a, name) \<Rightarrow>
            (case map_of (blobs s a) name of
               None \<Rightarrow> Inl NotExist
             | Some data \<Rightarrow> Inr \<lparr>l_MediaType = mediatype, l_Digest = digest, l_Size = of_nat (length data), l_From = from, l_Name = []\<rparr>)))"

definition Layer_Open :: "Layer \<Rightarrow> Store \<Rightarrow> store_error + bytes" where
  "Layer_Open l s =
     (if l_Digest l = [] then Inl EmptyDigest
      else (case BlobsPath (l_Digest l) s of
          Inl e \<Rightarrow> Inl e
        | Inr (a, name) \<Rightarrow> (case map_of (blobs s a) name of None \<Rightarrow> Inl NotExist | Some data \<Rightarrow> Inr data)))"

section \<open>Models\<close>

definition CopyModel :: "write_outcome \<Rightarrow> Name \<Rightarrow> Name \<Rightarrow> Store \<Rightarrow> store_error option \<times> Store" where
  "CopyModel out src dst s =
     (case (Filepath dst, Filepath src) of
        (None, _) \<Rightarrow> (Some UnqualifiedName, s)
      | (_, None) \<Rightarrow> (Some UnqualifiedName, s)
      | (Some dstrel, Some srcrel) \<Rightarrow>
          if srcrel = dstrel then (None, s)
          else (case Path s of
              Inl e \<Rightarrow> (Some e, s)
            | Inr (p, _) \<Rightarrow>
                (case map_of (mans s p) srcrel of
                   None \<Rightarrow> (Some NotExist, s)
                 | Some Unreadable \<Rightarrow> (Some PermissionDenied, s)
                 | Some f \<Rightarrow>
                     (case out of
                        CreateFails \<Rightarrow> (Some WriteFailed, s)
                      | EncodeFails \<Rightarrow> (Some WriteFailed, put_man p dstrel Garbled s)
                      | WriteOK \<Rightarrow> (None, put_man p dstrel f s)))))"

definition try_remove :: "(string \<Rightarrow> bool) \<Rightarrow> string \<Rightarrow> Store \<Rightarrow> Store" where
  "try_remove deny d s = (case BlobsPath d s of Inl _ \<Rightarrow> s | Inr loc \<Rightarrow> snd (remove_blob deny loc s))"

definition deleteUnusedLayers :: "(string \<Rightarrow> bool) \<Rightarrow> string list \<Rightarrow> Store \<Rightarrow> store_error option \<times> Store" where
  "deleteUnusedLayers deny deleteMap s =
     (case Manifests True s of
        Inl e \<Rightarrow> (Some e, s)
      | Inr ms \<Rightarrow>
          (let used = map l_Digest (concat (map (\<lambda>(n, m). all_layers m) ms))
           in (None, fold (try_remove deny) (filter (\<lambda>d. d \<notin> set used) deleteMap) s)))"

text \<open>\<open>PruneLayers\<close>; \<open>fresh\<close> are the blobs within the grace period. \<open>BlobsPath\<close> accepts every name.\<close>

definition PruneLayers :: "(string \<Rightarrow> bool) \<Rightarrow> (string \<Rightarrow> bool) \<Rightarrow> Store \<Rightarrow> store_error option \<times> Store" where
  "PruneLayers fresh deny s =
     (case BlobsPath [] s of
        Inl e \<Rightarrow> (Some e, s)
      | Inr (dir, _) \<Rightarrow>
          (let names = filter (\<lambda>x. \<not> fresh x) (map fst (blobs s dir));
               deleteMap = map (replace_byte (CHR ''-'') (CHR '':'')) names
           in (None, snd (deleteUnusedLayers deny deleteMap s))))"

text \<open>The clean-up when the server starts.\<close>

definition startup_prune :: "bool \<Rightarrow> (string \<Rightarrow> bool) \<Rightarrow> (string \<Rightarrow> bool) \<Rightarrow> Store \<Rightarrow> store_error option \<times> Store" where
  "startup_prune noPrune fresh deny s =
     (if noPrune then (None, s)
      else (case Manifests False s of Inl e \<Rightarrow> (None, s) | Inr _ \<Rightarrow> PruneLayers fresh deny s))"

text \<open>\<open>getExistingName\<close>, with the names of the existing models in the order in which the map yields them; the
  variable \<open>set\<close> stays empty.\<close>

definition adopt_case :: "Name \<Rightarrow> Name \<Rightarrow> Name" where
  "adopt_case e n =
     (let n = (if EqualFold (Host e) (Host n) then n\<lparr>Host := Host e\<rparr> else n);
          n = (if EqualFold (Namespace e) (Namespace n) then n\<lparr>Namespace := Namespace e\<rparr> else n);
          n = (if EqualFold (Model e) (Model n) then n\<lparr>Model := Model e\<rparr> else n)
      in if EqualFold (Tag e) (Tag n) then n\<lparr>Tag := Tag e\<rparr> else n)"

definition getExistingName :: "Name list \<Rightarrow> Name \<Rightarrow> Name" where
  "getExistingName existing n = fold adopt_case existing n"

text \<open>The deletion of a model, once its name is known.\<close>

definition DeleteModel :: "(string \<Rightarrow> bool) \<Rightarrow> Name \<Rightarrow> Store \<Rightarrow> store_error option \<times> Store" where
  "DeleteModel deny n s =
     (case ParseNamedManifest n s of
        Inl e \<Rightarrow> (Some e, s)
      | Inr (m, loc) \<Rightarrow>
          (case Manifest_Remove loc s of
             (Some e, s) \<Rightarrow> (Some e, s)
           | (None, s) \<Rightarrow> (case RemoveLayers deny m s of ((removed, e), s) \<Rightarrow> (e, s))))"

text \<open>\<open>downloadBlob\<close> for each layer; \<open>fetch\<close> is what the registry sends for a digest, \<open>None\<close> if it fails. The list
  \<open>skip\<close> is the map \<open>skipVerify\<close>: the blobs that were there before.\<close>

definition set_skip :: "string \<Rightarrow> bool \<Rightarrow> (string \<times> bool) list \<Rightarrow> (string \<times> bool) list" where
  "set_skip d cacheHit skip =
     AList.update d (case map_of skip d of None \<Rightarrow> cacheHit | Some existing \<Rightarrow> existing \<and> cacheHit) skip"

fun download_layers :: "(string \<Rightarrow> bytes option) \<Rightarrow> string list \<Rightarrow> (string \<times> bool) list \<Rightarrow> Store \<Rightarrow>
    (store_error + (string \<times> bool) list) \<times> Store" where
  "download_layers fetch [] skip s = (Inr skip, s)"
| "download_layers fetch (d # ds) skip s =
     (if d = [] then (Inl EmptyDigest, s)
      else (case BlobsPath d s of
          Inl e \<Rightarrow> (Inl e, s)
        | Inr loc \<Rightarrow>
            if map_of (blobs s (fst loc)) (snd loc) \<noteq> None then download_layers fetch ds (set_skip d True skip) s
            else (case fetch d of
                None \<Rightarrow> (Inl DownloadFailed, s)
              | Some data \<Rightarrow> download_layers fetch ds (set_skip d False skip) (put_blob loc data s))))"

text \<open>\<open>verifyBlob\<close>: the comparison with the digest of the file has an empty branch. The loop removes a blob whose
  digest does not match.\<close>

definition verifyBlob :: "(bytes \<Rightarrow> bytes) \<Rightarrow> string \<Rightarrow> Store \<Rightarrow> store_error option" where
  "verifyBlob sha digest s =
     (case BlobsPath digest s of
        Inl e \<Rightarrow> Some e
      | Inr (a, name) \<Rightarrow>
          (case map_of (blobs s a) name of
             None \<Rightarrow> Some NotExist
           | Some data \<Rightarrow> if digest \<noteq> layer_digest sha data then None else None))"

fun verify_layers :: "(bytes \<Rightarrow> bytes) \<Rightarrow> (string \<Rightarrow> bool) \<Rightarrow> (string \<times> bool) list \<Rightarrow> string list \<Rightarrow> Store \<Rightarrow>
    store_error option \<times> Store" where
  "verify_layers sha deny skip [] s = (None, s)"
| "verify_layers sha deny skip (d # ds) s =
     (if map_of skip d = Some True then verify_layers sha deny skip ds s
      else (case verifyBlob sha d s of
          None \<Rightarrow> verify_layers sha deny skip ds s
        | Some e \<Rightarrow> (Some e, if e = DigestMismatch then try_remove deny d s else s)))"

text \<open>\<open>PullModel\<close> after the attempt to pull a model in several files has failed; \<open>answer\<close> is the manifest that the
  registry sends.\<close>

definition old_digests :: "Name \<Rightarrow> Store \<Rightarrow> string list" where
  "old_digests n s =
     (case ParseNamedManifest n s of
        Inl e \<Rightarrow> []
      | Inr (m, _) \<Rightarrow> map l_Digest (Layers m) @ (if l_Digest (Config m) \<noteq> [] then [l_Digest (Config m)] else []))"

definition pulled_digests :: "Manifest \<Rightarrow> string list" where
  "pulled_digests mf = map l_Digest (Layers mf) @ (if l_Digest (Config mf) \<noteq> [] then [l_Digest (Config mf)] else [])"

definition PullModel :: "(bytes \<Rightarrow> bytes) \<Rightarrow> bool \<Rightarrow> bool \<Rightarrow> (string \<Rightarrow> bool) \<Rightarrow> write_outcome \<Rightarrow> (string \<Rightarrow> bytes option) \<Rightarrow>
    store_error + Manifest \<Rightarrow> Name \<Rightarrow> Store \<Rightarrow> store_error option \<times> Store" where
  "PullModel sha insecure noPrune deny out fetch answer n s =
     (if ProtocolScheme n = ''https'' \<and> \<not> insecure then (Some InsecureProtocol, s)
      else (case answer of
          Inl e \<Rightarrow> (Some e, s)
        | Inr mf \<Rightarrow>
            (let deleteMap = filter (\<lambda>d. d \<notin> set (pulled_digests mf) \<and> d \<noteq> l_Digest (Config mf)) (old_digests n s) in
             case download_layers fetch (pulled_digests mf) [] s of
               (Inl e, s) \<Rightarrow> (Some e, s)
             | (Inr skip, s) \<Rightarrow>
                 (case verify_layers sha deny skip (pulled_digests mf) s of
                    (Some e, s) \<Rightarrow> (Some e, s)
                  | (None, s) \<Rightarrow>
                      (case PathForPull n s of
                         Inl e \<Rightarrow> (Some e, s)
                       | Inr (a, rel) \<Rightarrow>
                           (case out of
                              CreateFails \<Rightarrow> (Some WriteFailed, s)
                            | EncodeFails \<Rightarrow> (Some WriteFailed, put_man a rel Garbled s)
                            | WriteOK \<Rightarrow>
                                (let s = put_man a rel (Decodes mf) s in
                                 if \<not> noPrune \<and> deleteMap \<noteq> [] then (None, snd (deleteUnusedLayers deny deleteMap s))
                                 else (None, s))))))))"

section \<open>Facts about blobs\<close>

definition has_blob :: "Store \<Rightarrow> string \<Rightarrow> bool" where
  "has_blob s d \<longleftrightarrow> (case BlobsPath d s of Inl _ \<Rightarrow> False | Inr (a, name) \<Rightarrow> map_of (blobs s a) name \<noteq> None)"

text \<open>A digest in the form that names one blob.\<close>

definition colon_form :: "string \<Rightarrow> bool" where
  "colon_form d \<longleftrightarrow> d \<noteq> [] \<and> CHR ''-'' \<notin> set d"

lemma blob_name_inj: "colon_form d \<Longrightarrow> colon_form e \<Longrightarrow> blob_name d = blob_name e \<Longrightarrow> d = e"
proof -
  have inv: "colon_form x \<Longrightarrow> replace_byte (CHR ''-'') (CHR '':'') (blob_name x) = x" for x
    by (auto simp: blob_name_def replace_byte_def colon_form_def intro!: map_idI)
  show "colon_form d \<Longrightarrow> colon_form e \<Longrightarrow> blob_name d = blob_name e \<Longrightarrow> d = e"
    using inv by metis
qed

lemma blob_name_Nil [simp]: "blob_name d = [] \<longleftrightarrow> d = []" "blob_name [] = []"
  by (simp_all add: blob_name_def replace_byte_def)

lemma has_blob_iff:
  assumes "d \<noteq> []" "prim_ok s"
  shows "has_blob s d \<longleftrightarrow> (aux_ok s \<and> map_of (blobs s Auxiliary) (blob_name d) \<noteq> None) \<or>
    map_of (blobs s Primary) (blob_name d) \<noteq> None"
  using assms by (auto simp: has_blob_def BlobsPath_def Path_def PrimaryPath_def AuxPath_def Let_def split: if_splits)

text \<open>The manifests do not depend on the blobs.\<close>

definition same_manifests :: "Store \<Rightarrow> Store \<Rightarrow> bool" where
  "same_manifests s t \<longleftrightarrow> prim_ok t = prim_ok s \<and> aux_ok t = aux_ok s \<and> mans t = mans s"

text \<open>Reading a manifest looks only at the files of its path.\<close>

lemma parse_elsewhere:
  assumes "prim_ok t = prim_ok s" "aux_ok t = aux_ok s" "Filepath n \<noteq> Some rel"
    and "\<And>a rel'. rel' \<noteq> rel \<Longrightarrow> map_of (mans t a) rel' = map_of (mans s a) rel'"
  shows "ParseNamedManifest n t = ParseNamedManifest n s"
proof (cases "Filepath n")
  case None
  then show ?thesis by (simp add: ParseNamedManifest_def PathForName_def)
next
  case (Some rel')
  have p: "Path t = Path s" using assms(1,2) by (simp add: Path_def PrimaryPath_def AuxPath_def)
  have m: "map_of (mans t a) rel' = map_of (mans s a) rel'" for a using assms(3,4) Some by simp
  then have "can_read t a rel' = can_read s a rel'" for a by (simp add: can_read_def)
  with m p Some show ?thesis
    by (auto simp: ParseNamedManifest_def PathForName_def split: sum.split option.split mfile.split)
qed

lemma same_manifests_parse:
  assumes "same_manifests s t"
  shows "ParseNamedManifest n t = ParseNamedManifest n s"
proof (cases "Filepath n")
  case None
  then show ?thesis by (simp add: ParseNamedManifest_def PathForName_def)
next
  case (Some rel)
  then have "Filepath n \<noteq> Some (rel @ ''x'')" by simp
  then show ?thesis using assms by (intro parse_elsewhere [of t s n "rel @ ''x''"]) (simp_all add: same_manifests_def)
qed

lemma same_manifests_refl [simp]: "same_manifests s s"
  by (simp add: same_manifests_def)

lemma same_manifests_trans [trans]: "same_manifests s t \<Longrightarrow> same_manifests t u \<Longrightarrow> same_manifests s u"
  by (simp add: same_manifests_def)

section \<open>Well-kept stores\<close>

definition used :: "Store \<Rightarrow> string set" where
  "used s = {d. \<exists>n m loc. ParseNamedManifest n s = Inr (m, loc) \<and> d \<in> set (digests m)}"

text \<open>No path lies in both directories, and every model that can be read has all its layers.\<close>

definition store_ok :: "Store \<Rightarrow> bool" where
  "store_ok s \<longleftrightarrow> prim_ok s \<and> mans s Stray = [] \<and>
     (aux_ok s \<longrightarrow> (\<forall>rel. map_of (mans s Primary) rel = None \<or> map_of (mans s Auxiliary) rel = None)) \<and>
     (\<forall>d \<in> used s. colon_form d \<and> has_blob s d)"

lemma usedI: "ParseNamedManifest n s = Inr (m, loc) \<Longrightarrow> d \<in> set (digests m) \<Longrightarrow> d \<in> used s"
  unfolding used_def by blast

lemma Filepath_FQ: "Filepath n = Some rel \<Longrightarrow> IsFullyQualified n"
  by (simp add: Filepath_def split: if_splits)

lemma parse_iff:
  assumes "prim_ok s"
  shows "ParseNamedManifest n s = Inr (m, a, rel) \<longleftrightarrow> Filepath n = Some rel \<and>
    (a = Primary \<and> map_of (mans s Primary) rel = Some (Decodes m) \<or>
     a = AuxPath s \<and> \<not> can_read s Primary rel \<and> map_of (mans s a) rel = Some (Decodes m))"
  using assms Filepath_FQ [of n]
  by (auto simp: ParseNamedManifest_def PathForName_def Path_def PrimaryPath_def can_read_def
      split: option.splits mfile.splits if_splits)

lemma sweep_total: "\<exists>ms'. sweep True s rels ms = Inr ms'"
  by (induction rels arbitrary: ms) (auto simp: Let_def split: sum.split)

lemma sweep_finds:
  assumes "sweep True s rels ms = Inr ms'" "ParseNamedManifest n s = Inr (m, loc)"
    and "map_of ms n = Some m \<or> (\<exists>rel \<in> set rels. name_of_file rel = n \<and> IsValid n)"
  shows "map_of ms' n = Some m"
  using assms
proof (induction rels arbitrary: ms)
  case (Cons rel rels)
  show ?case
  proof (cases "name_of_file rel = n")
    case True
    then show ?thesis
      using Cons.prems Cons.IH [of ms] Cons.IH [of "AList.update n m ms"]
      by (cases "IsValid n") (auto simp: Let_def update_conv')
  next
    case False
    then show ?thesis
      using Cons.prems Cons.IH
      by (auto simp: Let_def update_conv' split: if_splits sum.splits)
  qed
qed simp

lemma name_of_manifest_file:
  assumes "Filepath n = Some rel"
  shows "IsValid (name_of_file rel)" "Filepath (name_of_file rel) = Some rel"
proof -
  obtain p where "Filepath n = Some p" "ParseNameFromFilepath p = n\<lparr>ProtocolScheme := []\<rparr>"
    using filepath_of_name [OF Filepath_FQ [OF assms]] by auto
  then have p: "ParseNameFromFilepath rel = n\<lparr>ProtocolScheme := []\<rparr>" using assms by simp
  have "IsValid (n\<lparr>ProtocolScheme := []\<rparr>)" "Filepath (n\<lparr>ProtocolScheme := []\<rparr>) = Some rel"
    using Filepath_FQ [OF assms] assms by (simp_all add: IsValid_def IsFullyQualified_def Filepath_def)
  with p show "IsValid (name_of_file rel)" "Filepath (name_of_file rel) = Some rel"
    by (simp_all add: name_of_file_def)
qed

text \<open>\<open>Manifests\<close> finds every model that can be read.\<close>

lemma Manifests_finds:
  assumes "prim_ok s" "mans s Stray = []" "ParseNamedManifest n s = Inr (m, a, rel)"
  shows "\<exists>ms n'. Manifests True s = Inr ms \<and> (n', m) \<in> set ms"
proof -
  let ?n = "name_of_file rel"
  have f: "Filepath n = Some rel" using assms by (simp add: parse_iff)
  note v = name_of_manifest_file [OF f]
  have p: "ParseNamedManifest ?n s = Inr (m, a, rel)" using assms(1,3) v(2) by (simp add: parse_iff)
  define rels where "rels = map fst (mans s Primary) @ (if aux_ok s then map fst (mans s Auxiliary) else [])"
  obtain ms where ms: "sweep True s rels [] = Inr ms" using sweep_total by blast
  then have M: "Manifests True s = Inr ms"
    using assms(1) by (simp add: Manifests_def Path_def PrimaryPath_def AuxPath_def rels_def split: if_splits)
  have "rel \<in> set rels"
    using assms by (auto simp: parse_iff rels_def AuxPath_def image_iff dest!: map_of_SomeD split: if_splits) force+
  then have "map_of ms ?n = Some m" using sweep_finds [OF ms p] v(1) by blast
  with M show ?thesis using map_of_SomeD by fast
qed

lemma used_covered:
  assumes "prim_ok s" "mans s Stray = []" "Manifests True s = Inr ms"
  shows "used s \<subseteq> set (in_use ms)" "used s \<subseteq> set (map l_Digest (concat (map (\<lambda>(n, m). all_layers m) ms)))"
proof -
  have "\<exists>n' m. (n', m) \<in> set ms \<and> d \<in> set (digests m)" if u: "d \<in> used s" for d
  proof -
    obtain n m a rel where "ParseNamedManifest n s = Inr (m, a, rel)" "d \<in> set (digests m)"
      using u by (auto simp: used_def)
    with Manifests_finds [OF assms(1,2)] assms(3) show ?thesis by fastforce
  qed
  then show "used s \<subseteq> set (in_use ms)" "used s \<subseteq> set (map l_Digest (concat (map (\<lambda>(n, m). all_layers m) ms)))"
    by (fastforce simp: in_use_def digests_def)+
qed

section \<open>Operations keep the store\<close>

text \<open>An operation on blobs spares a set of digests.\<close>

definition spares :: "string set \<Rightarrow> Store \<Rightarrow> Store \<Rightarrow> bool" where
  "spares U s t \<longleftrightarrow> same_manifests s t \<and> (\<forall>d \<in> U. has_blob s d \<longrightarrow> has_blob t d)"

lemma spares_refl [simp]: "spares U s s"
  by (simp add: spares_def)

lemma spares_trans: "spares U s t \<Longrightarrow> spares U t u \<Longrightarrow> spares U s u"
  by (auto simp: spares_def intro: same_manifests_trans)

lemma spares_prim: "spares U s t \<Longrightarrow> prim_ok t = prim_ok s"
  by (simp add: spares_def same_manifests_def)

lemma used_same: "same_manifests s t \<Longrightarrow> used t = used s"
  by (simp add: used_def same_manifests_parse)

lemma spares_ok: "store_ok s \<Longrightarrow> spares (used s) s t \<Longrightarrow> store_ok t"
  using used_same [of s t] by (auto simp: store_ok_def spares_def same_manifests_def)

lemma remove_spares:
  assumes "prim_ok s" "BlobsPath d s = Inr loc" "\<forall>e \<in> U. colon_form e" "d = [] \<or> colon_form d" "d \<notin> U"
  shows "spares U s (snd (remove_blob deny loc s))"
proof -
  obtain a where loc: "loc = (a, blob_name d)" using assms(2) by (auto simp: BlobsPath_def Let_def split: sum.splits prod.splits)
  have "has_blob (snd (remove_blob deny loc s)) e" if e: "e \<in> U" "has_blob s e" for e
  proof -
    have "blob_name e \<noteq> blob_name d"
      using blob_name_inj [of e d] assms(3-5) e(1) by (auto simp: colon_form_def)
    moreover have "e \<noteq> []" using assms(3) e(1) by (auto simp: colon_form_def)
    ultimately show ?thesis
      using e(2) assms(1) by (auto simp: has_blob_iff remove_blob_def loc delete_conv' split: if_splits)
  qed
  then show ?thesis by (auto simp: spares_def same_manifests_def remove_blob_def split: prod.splits)
qed

lemma try_remove_spares:
  assumes "prim_ok s" "\<forall>e \<in> U. colon_form e" "d = [] \<or> colon_form d" "d \<notin> U"
  shows "spares U s (try_remove deny d s)"
  using remove_spares [OF assms(1) _ assms(2-4)] by (auto simp: try_remove_def split: sum.splits)

lemma fold_remove_spares:
  assumes "prim_ok s" "\<forall>e \<in> U. colon_form e" "\<forall>d \<in> set ds. (d = [] \<or> colon_form d) \<and> d \<notin> U"
  shows "spares U s (fold (try_remove deny) ds s)"
  using assms(1,3)
proof (induction ds arbitrary: s)
  case (Cons d ds)
  have "spares U s (try_remove deny d s)" using Cons.prems assms(2) by (intro try_remove_spares) auto
  moreover from this have "spares U (try_remove deny d s) (fold (try_remove deny) ds (try_remove deny d s))"
    using Cons by (simp add: spares_prim)
  ultimately show ?case by (simp add: spares_trans)
qed simp

lemma remove_layers_spares:
  assumes "prim_ok s" "\<forall>e \<in> U. colon_form e" "\<forall>d \<in> set ds. d = [] \<or> colon_form d" "U \<subseteq> set us"
  shows "spares U s (snd (remove_layers deny us ds s))"
  using assms(1,3)
proof (induction ds arbitrary: s)
  case (Cons d ds)
  show ?case
  proof (cases "d = [] \<or> d \<in> set us")
    case True
    then show ?thesis using Cons by simp
  next
    case False
    show ?thesis
    proof (cases "BlobsPath d s")
      case (Inl e)
      then show ?thesis using False by simp
    next
      case (Inr loc)
      obtain err s' where r: "remove_blob deny loc s = (err, s')" by (cases "remove_blob deny loc s")
      have 1: "spares U s s'"
        using remove_spares [OF Cons.prems(1) Inr assms(2), of deny] Cons.prems(2) False assms(4) r by auto
      then have "spares U s' (snd (remove_layers deny us ds s'))" using Cons by (simp add: spares_prim)
      with 1 show ?thesis using False Inr r by (auto split: prod.split intro: spares_trans)
    qed
  qed
qed simp

lemma Manifests_total: "prim_ok s \<Longrightarrow> \<exists>ms. Manifests True s = Inr ms"
  using sweep_total by (simp add: Manifests_def Path_def)

lemma RemoveLayers_ok:
  assumes "store_ok s" "\<forall>d \<in> set (digests m). colon_form d"
  shows "store_ok (snd (RemoveLayers deny m s))"
proof -
  have s: "prim_ok s" "mans s Stray = []" "\<forall>e \<in> used s. colon_form e" using assms(1) by (auto simp: store_ok_def)
  obtain ms where ms: "Manifests True s = Inr ms" using Manifests_total [OF s(1)] by blast
  have "spares (used s) s (snd (RemoveLayers deny m s))"
    unfolding RemoveLayers_def ms sum.case
    using assms(2) used_covered(1) [OF s(1,2) ms] by (intro remove_layers_spares [OF s(1,3)]) (auto simp: digests_def)
  then show ?thesis by (rule spares_ok [OF assms(1)])
qed

lemma deleteUnusedLayers_ok:
  assumes "store_ok s" "\<forall>d \<in> set ds. d = [] \<or> colon_form d"
  shows "store_ok (snd (deleteUnusedLayers deny ds s))"
proof -
  have s: "prim_ok s" "mans s Stray = []" "\<forall>e \<in> used s. colon_form e" using assms(1) by (auto simp: store_ok_def)
  obtain ms where ms: "Manifests True s = Inr ms" using Manifests_total [OF s(1)] by blast
  have "spares (used s) s (snd (deleteUnusedLayers deny ds s))"
    unfolding deleteUnusedLayers_def ms sum.case Let_def snd_conv
    using assms(2) used_covered(2) [OF s(1,2) ms] by (intro fold_remove_spares [OF s(1,3)]) auto
  then show ?thesis by (rule spares_ok [OF assms(1)])
qed

lemma PruneLayers_ok:
  assumes "store_ok s"
  shows "store_ok (snd (PruneLayers fresh deny s))"
proof -
  have "store_ok (snd (deleteUnusedLayers deny (map (replace_byte (CHR ''-'') (CHR '':'')) xs) s))" for xs
    by (rule deleteUnusedLayers_ok [OF assms]) (auto simp: colon_form_def replace_byte_def)
  then show ?thesis using assms unfolding PruneLayers_def Let_def by (auto split: sum.split)
qed

lemma Layer_Remove_ok:
  assumes "store_ok s" "l_Digest l = [] \<or> colon_form (l_Digest l)"
  shows "store_ok (snd (Layer_Remove deny l s))"
proof -
  have s: "prim_ok s" "mans s Stray = []" "\<forall>e \<in> used s. colon_form e" using assms(1) by (auto simp: store_ok_def)
  obtain ms where ms: "Manifests True s = Inr ms" using Manifests_total [OF s(1)] by blast
  have "store_ok (snd (remove_blob deny loc s))"
    if "BlobsPath (l_Digest l) s = Inr loc" "l_Digest l \<notin> set (map l_Digest (concat (map (\<lambda>(n, m). all_layers m) ms)))" for loc
    using remove_spares [OF s(1) that(1) s(3) assms(2)] that(2) used_covered(2) [OF s(1,2) ms]
    by (intro spares_ok [OF assms(1)]) blast
  then show ?thesis using assms(1) unfolding Layer_Remove_def ms by (auto split: sum.split)
qed

text \<open>Adding a blob where \<open>BlobsPath\<close> says.\<close>

lemma put_blob_spares:
  assumes "prim_ok s" "d \<noteq> []" "BlobsPath d s = Inr loc"
  shows "\<forall>e. e \<noteq> [] \<and> has_blob s e \<longrightarrow> has_blob (put_blob loc data s) e" "has_blob (put_blob loc data s) d"
    "same_manifests s (put_blob loc data s)"
proof -
  have loc: "fst loc = Primary \<or> fst loc = Auxiliary \<and> aux_ok s" "snd loc = blob_name d"
    using assms by (auto simp: BlobsPath_def Path_def PrimaryPath_def AuxPath_def Let_def split: if_splits)
  have p: "prim_ok (put_blob loc data s)" "aux_ok (put_blob loc data s) = aux_ok s" using assms(1) by (simp_all add: put_blob_def)
  show "\<forall>e. e \<noteq> [] \<and> has_blob s e \<longrightarrow> has_blob (put_blob loc data s) e"
    using p assms(1) by (auto simp: has_blob_iff put_blob_def update_conv')
  show "has_blob (put_blob loc data s) d"
    using p assms(1,2) loc by (auto simp: has_blob_iff put_blob_def update_conv')
  show "same_manifests s (put_blob loc data s)" by (simp add: same_manifests_def put_blob_def)
qed

lemma put_blob_ok:
  assumes "store_ok s" "d \<noteq> []" "BlobsPath d s = Inr loc"
  shows "store_ok (put_blob loc data s)"
proof -
  have "prim_ok s" "\<forall>e \<in> used s. e \<noteq> []" using assms(1) by (auto simp: store_ok_def colon_form_def)
  then have "spares (used s) s (put_blob loc data s)"
    using put_blob_spares [OF _ assms(2,3)] by (auto simp: spares_def)
  then show ?thesis by (rule spares_ok [OF assms(1)])
qed

lemma NewLayer_ok: "store_ok s \<Longrightarrow> store_ok (snd (NewLayer sha data mt s))"
  by (auto simp: NewLayer_def layer_digest_def intro: put_blob_ok split: sum.split)

lemma download_ok:
  assumes "store_ok s" "download_layers fetch ds skip s = (r, t)"
  shows "store_ok t \<and> same_manifests s t \<and> (\<forall>e. e \<noteq> [] \<and> has_blob s e \<longrightarrow> has_blob t e) \<and>
    (\<not> isl r \<longrightarrow> (\<forall>d \<in> set ds. has_blob t d))"
  using assms
proof (induction ds arbitrary: s skip)
  case (Cons d ds)
  have prim: "prim_ok s" using Cons.prems by (simp add: store_ok_def)
  show ?case
  proof (cases "d = []")
    case False
    obtain loc where loc: "BlobsPath d s = Inr loc" using prim by (simp add: BlobsPath_def Path_def Let_def)
    show ?thesis
    proof (cases "map_of (blobs s (fst loc)) (snd loc)")
      case None
      show ?thesis
      proof (cases "fetch d")
        case None': None
        then show ?thesis using False loc None Cons.prems by auto
      next
        case (Some data)
        note b = put_blob_spares [OF prim False loc, of data]
        have "download_layers fetch ds (set_skip d False skip) (put_blob loc data s) = (r, t)"
          using Cons.prems(2) False loc None Some by simp
        note ih = Cons.IH [OF put_blob_ok [OF Cons.prems(1) False loc, of data] this]
        then show ?thesis using b False same_manifests_trans [OF b(3)] by auto
      qed
    next
      case (Some data)
      then have "has_blob s d" using loc by (auto simp: has_blob_def split: prod.split)
      moreover have "download_layers fetch ds (set_skip d True skip) s = (r, t)" using Cons.prems(2) False loc Some by simp
      ultimately show ?thesis using Cons.IH [OF Cons.prems(1)] False by auto
    qed
  qed (use Cons.prems in auto)
qed auto

text \<open>The check of the digests never finds anything wrong.\<close>

lemma verifyBlob_accepts: "has_blob s d \<Longrightarrow> verifyBlob sha d s = None"
  by (auto simp: has_blob_def verifyBlob_def split: sum.splits prod.splits)

lemma verify_layers_accepts: "\<forall>d \<in> set ds. has_blob s d \<Longrightarrow> verify_layers sha deny skip ds s = (None, s)"
  by (induction ds) (simp_all add: verifyBlob_accepts)

text \<open>A change of the manifest files at one path.\<close>

lemma change_ok:
  assumes "store_ok s" "prim_ok t = prim_ok s" "aux_ok t = aux_ok s" "blobs t = blobs s" "mans t Stray = []"
    and "\<And>a rel'. rel' \<noteq> rel \<Longrightarrow> map_of (mans t a) rel' = map_of (mans s a) rel'"
    and "aux_ok s \<Longrightarrow> map_of (mans t Primary) rel = None \<or> map_of (mans t Auxiliary) rel = None"
    and "\<And>a m d. a \<in> {Primary, AuxPath s} \<Longrightarrow> map_of (mans t a) rel = Some (Decodes m) \<Longrightarrow> d \<in> set (digests m) \<Longrightarrow>
      colon_form d \<and> has_blob s d"
  shows "store_ok t"
proof -
  have s: "prim_ok s" "\<forall>d \<in> used s. colon_form d \<and> has_blob s d"
    "aux_ok s \<longrightarrow> (\<forall>rel. map_of (mans s Primary) rel = None \<or> map_of (mans s Auxiliary) rel = None)"
    using assms(1) by (auto simp: store_ok_def)
  have ax: "AuxPath t = AuxPath s" using assms(3) by (simp add: AuxPath_def)
  have A: "colon_form d \<and> has_blob s d" if "ParseNamedManifest n t = Inr (m, a, rel')" "d \<in> set (digests m)" for n m a rel' d
  proof (cases "rel' = rel")
    case True
    have "prim_ok t" using assms(2) s(1) by simp
    with that True have "a \<in> {Primary, AuxPath s}" "map_of (mans t a) rel = Some (Decodes m)" by (auto simp: parse_iff ax)
    then show ?thesis using assms(8) that(2) by blast
  next
    case False
    have "prim_ok t" using assms(2) s(1) by simp
    with that(1) False have "Filepath n \<noteq> Some rel" by (simp add: parse_iff)
    then have "ParseNamedManifest n s = Inr (m, a, rel')"
      using parse_elsewhere [OF assms(2,3) _ assms(6)] that(1) by simp
    then show ?thesis using s(2) usedI that(2) by blast
  qed
  have B: "d \<noteq> [] \<Longrightarrow> has_blob t d = has_blob s d" for d using assms(2-4) s(1) by (simp add: has_blob_iff)
  have "colon_form d \<and> has_blob t d" if d: "d \<in> used t" for d
  proof -
    obtain n m a rel' where p: "ParseNamedManifest n t = Inr (m, a, rel')" "d \<in> set (digests m)"
      using d by (auto simp: used_def)
    from A [OF p] B [of d] show ?thesis by (auto simp: colon_form_def)
  qed
  moreover have "aux_ok t \<longrightarrow> (\<forall>rel. map_of (mans t Primary) rel = None \<or> map_of (mans t Auxiliary) rel = None)"
  proof (intro impI allI)
    fix rel' assume "aux_ok t"
    then show "map_of (mans t Primary) rel' = None \<or> map_of (mans t Auxiliary) rel' = None"
      using assms(3,7) assms(6) [of rel'] s(3) by (cases "rel' = rel") simp_all
  qed
  ultimately show ?thesis using s(1) assms(2,5) by (simp add: store_ok_def)
qed

lemma put_man_ok:
  assumes "store_ok s" "a = Primary \<or> a = Auxiliary \<and> aux_ok s"
    and "aux_ok s \<Longrightarrow> map_of (mans s (if a = Primary then Auxiliary else Primary)) rel = None"
    and "\<And>m d. f = Decodes m \<Longrightarrow> d \<in> set (digests m) \<Longrightarrow> colon_form d \<and> has_blob s d"
  shows "store_ok (put_man a rel f s)"
proof (rule change_ok [OF assms(1), where rel = rel])
  show "colon_form d \<and> has_blob s d"
    if "b \<in> {Primary, AuxPath s}" "map_of (mans (put_man a rel f s) b) rel = Some (Decodes m)" "d \<in> set (digests m)" for b m d
  proof (cases "b = a")
    case True
    then show ?thesis using that assms(4) by (simp add: put_man_def update_conv')
  next
    case False
    have "mans s Stray = []" using assms(1) by (simp add: store_ok_def)
    with False that(1,2) assms(2,3) show ?thesis
      by (auto simp: put_man_def AuxPath_def split: if_splits)
  qed
qed (use assms in \<open>auto simp: put_man_def update_conv' store_ok_def split: if_splits\<close>)

lemma Manifest_Remove_ok:
  assumes "store_ok s" "a \<in> {Primary, AuxPath s}"
  shows "store_ok (snd (Manifest_Remove (a, rel) s))"
proof (cases "map_of (mans s a) rel = None")
  case False
  define t where "t = s\<lparr>mans := (mans s)(a := AList.delete rel (mans s a))\<rparr>"
  have s: "prim_ok s" "mans s Stray = []" "aux_ok s \<longrightarrow> (\<forall>rel. map_of (mans s Primary) rel = None \<or> map_of (mans s Auxiliary) rel = None)"
    using assms(1) by (simp_all add: store_ok_def)
  have "a \<noteq> Stray" using False s(2) by auto
  have "store_ok t"
  proof (rule change_ok [OF assms(1), where rel = rel])
    show "colon_form d \<and> has_blob s d"
      if "b \<in> {Primary, AuxPath s}" "map_of (mans t b) rel = Some (Decodes m)" "d \<in> set (digests m)" for b m d
    proof -
      have "b \<noteq> a" using that(2) by (auto simp: t_def delete_conv')
      then have "map_of (mans s b) rel = Some (Decodes m)" using that(2) by (simp add: t_def)
      moreover from this have "b \<noteq> Stray" using s(2) by auto
      ultimately have "aux_ok s" "map_of (mans s Primary) rel \<noteq> None" "map_of (mans s Auxiliary) rel \<noteq> None"
        using that(1) assms(2) \<open>b \<noteq> a\<close> \<open>a \<noteq> Stray\<close> False by (cases a; cases b; auto simp: AuxPath_def split: if_splits)+
      with s(3) [THEN mp, THEN spec, of rel] show ?thesis by simp
    qed
  qed (use s \<open>a \<noteq> Stray\<close> in \<open>auto simp: t_def delete_conv'\<close>)
  then show ?thesis using False s(1) assms(1) by (simp add: Manifest_Remove_def Path_def Let_def t_def)
qed (use assms in \<open>simp add: Manifest_Remove_def\<close>)

lemma DeleteModel_ok:
  assumes "store_ok s"
  shows "store_ok (snd (DeleteModel deny n s))"
proof (cases "ParseNamedManifest n s")
  case (Inr x)
  obtain m a rel where x: "x = (m, a, rel)" by (cases x)
  have s: "prim_ok s" "\<forall>d \<in> used s. colon_form d" using assms by (simp_all add: store_ok_def)
  have a: "a \<in> {Primary, AuxPath s}" using Inr x s(1) by (auto simp: parse_iff)
  have c: "\<forall>d \<in> set (digests m). colon_form d" using s(2) usedI [OF Inr [unfolded x]] by blast
  obtain e t where t: "Manifest_Remove (a, rel) s = (e, t)" by (cases "Manifest_Remove (a, rel) s")
  have "store_ok t" using Manifest_Remove_ok [OF assms a, of rel] t by simp
  then show ?thesis
    using RemoveLayers_ok [OF _ c] Inr x t by (auto simp: DeleteModel_def split: option.split prod.split) (metis snd_conv)
qed (use assms in \<open>simp add: DeleteModel_def\<close>)

text \<open>A model is written into the auxiliary directory if there is one, and read from the primary one first.\<close>

definition unclaimed :: "Name \<Rightarrow> Store \<Rightarrow> bool" where
  "unclaimed n s \<longleftrightarrow> (aux_ok s \<longrightarrow> (case Filepath n of Some rel \<Rightarrow> map_of (mans s Primary) rel = None | None \<Rightarrow> True))"

lemma target_man_ok:
  assumes "store_ok s" "unclaimed n s" "Filepath n = Some rel"
    and "\<And>m d. f = Decodes m \<Longrightarrow> d \<in> set (digests m) \<Longrightarrow> colon_form d \<and> has_blob s d"
  shows "store_ok (put_man (if aux_ok s then AuxPath s else PrimaryPath s) rel f s)"
  by (rule put_man_ok [OF assms(1)])
    (use assms in \<open>auto simp: AuxPath_def PrimaryPath_def unclaimed_def store_ok_def split: if_splits\<close>)

lemma WriteManifest_ok:
  assumes "store_ok s" "unclaimed n s"
    and "\<And>l. l \<in> set (config # layers) \<Longrightarrow> l_Digest l \<noteq> [] \<Longrightarrow> colon_form (l_Digest l) \<and> has_blob s (l_Digest l)"
  shows "store_ok (snd (WriteManifest out n config layers s))"
proof (cases "Filepath n")
  case (Some rel)
  have "store_ok (put_man (if aux_ok s then AuxPath s else PrimaryPath s) rel f s)"
    if "f = Garbled \<or> (\<exists>v t. f = Decodes \<lparr>SchemaVersion = v, m_MediaType = t, Config = config, Layers = layers\<rparr>)" for f
  proof (rule target_man_ok [OF assms(1,2) Some])
    fix m d assume "f = Decodes m" and d: "d \<in> set (digests m)"
    then have "Config m = config" "Layers m = layers" using that by auto
    with d have "d \<in> l_Digest ` set (config # layers)" "d \<noteq> []" by (auto simp: digests_def all_layers_def split: if_splits)
    then show "colon_form d \<and> has_blob s d" using assms(3) by blast
  qed
  note put = this
  have "Path s = Inr (PrimaryPath s, AuxPath s, aux_ok s)" using assms(1) by (simp add: store_ok_def Path_def)
  then show ?thesis
    using Some assms(1) put [of Garbled] put by (cases out; cases "aux_ok s") (simp_all add: WriteManifest_def Let_def)
qed (use assms(1) in \<open>simp add: WriteManifest_def Path_def store_ok_def\<close>)

lemma CopyModel_ok:
  assumes "store_ok s" "aux_ok s \<longrightarrow> (case Filepath dst of Some rel \<Rightarrow> map_of (mans s Auxiliary) rel = None | None \<Rightarrow> True)"
  shows "store_ok (snd (CopyModel out src dst s))"
proof (cases "Filepath dst = None \<or> Filepath src = None")
  case False
  then obtain dstrel srcrel where r: "Filepath dst = Some dstrel" "Filepath src = Some srcrel" by auto
  have s: "prim_ok s" "\<forall>d \<in> used s. colon_form d \<and> has_blob s d" using assms(1) by (simp_all add: store_ok_def)
  have put: "store_ok (put_man Primary dstrel f s)"
    if "f = Garbled \<or> map_of (mans s Primary) srcrel = Some f" for f
  proof (rule put_man_ok [OF assms(1)])
    show "colon_form d \<and> has_blob s d" if "f = Decodes m" "d \<in> set (digests m)" for m d
    proof -
      have "ParseNamedManifest src s = Inr (m, Primary, srcrel)"
        using that(1) \<open>f = Garbled \<or> map_of (mans s Primary) srcrel = Some f\<close> s(1) r(2) by (auto simp: parse_iff)
      from usedI [OF this that(2)] s(2) show ?thesis by blast
    qed
  qed (use assms(2) r in auto)
  show ?thesis
  proof (cases "srcrel = dstrel \<or> map_of (mans s Primary) srcrel = None")
    case True
    then show ?thesis using r s(1) assms(1) by (auto simp: CopyModel_def Path_def PrimaryPath_def)
  next
    case False
    then obtain f where "map_of (mans s Primary) srcrel = Some f" by auto
    then show ?thesis
      using False r s(1) assms(1) put [of f] put [of Garbled]
      by (cases f; cases out) (auto simp: CopyModel_def Path_def PrimaryPath_def)
  qed
qed (use assms(1) in \<open>auto simp: CopyModel_def split: option.split\<close>)

lemma old_digests_form:
  assumes "store_ok s" "d \<in> set (old_digests n s)"
  shows "d = [] \<or> colon_form d"
proof -
  have u: "\<forall>d \<in> used s. colon_form d" using assms(1) by (simp add: store_ok_def)
  obtain m loc where p: "ParseNamedManifest n s = Inr (m, loc)"
    using assms(2) by (cases "ParseNamedManifest n s") (auto simp: old_digests_def)
  then have "d = [] \<or> d \<in> set (digests m)"
    using assms(2) by (auto simp: old_digests_def digests_def all_layers_def split: if_splits)
  with usedI [OF p] u show ?thesis by blast
qed

lemma pulled_digests_all: "set (digests mf) \<subseteq> set (pulled_digests mf)"
  by (auto simp: digests_def pulled_digests_def all_layers_def)

lemma PullModel_ok:
  assumes "store_ok s" "unclaimed n s" "\<And>mf d. answer = Inr mf \<Longrightarrow> d \<in> set (digests mf) \<Longrightarrow> colon_form d"
  shows "store_ok (snd (PullModel sha insecure noPrune deny out fetch answer n s))"
proof (cases "ProtocolScheme n = ''https'' \<and> \<not> insecure \<or> isl answer")
  case False
  then obtain mf where mf: "answer = Inr mf" by (cases answer) auto
  obtain r t where e: "download_layers fetch (pulled_digests mf) [] s = (r, t)" by fastforce
  note d = download_ok [OF assms(1) e]
  have sm: "prim_ok t" "aux_ok t = aux_ok s" "mans t = mans s" and "store_ok t"
    using d assms(1) by (auto simp: same_manifests_def store_ok_def)
  define ds where "ds = filter (\<lambda>d. d \<notin> set (pulled_digests mf) \<and> d \<noteq> l_Digest (Config mf)) (old_digests n s)"
  have ds: "\<forall>d \<in> set ds. d = [] \<or> colon_form d" using old_digests_form [OF assms(1)] by (auto simp: ds_def)
  show ?thesis
  proof (cases r)
    case (Inr skip)
    have all: "\<forall>d \<in> set (pulled_digests mf). has_blob t d" using d Inr by simp
    have put: "store_ok (put_man a rel f t)" if "PathForPull n t = Inr (a, rel)" "f = Garbled \<or> f = Decodes mf" for a rel f
    proof -
      have r: "Filepath n = Some rel" "a = (if aux_ok t then AuxPath t else PrimaryPath t)"
        using that(1) sm(1) by (auto simp: PathForPull_def Path_def split: option.splits)
      have "unclaimed n t" using assms(2) sm r(1) by (simp add: unclaimed_def)
      moreover have "colon_form d \<and> has_blob t d" if "d \<in> set (digests mf)" for d
        using that assms(3) [OF mf] all pulled_digests_all by blast
      ultimately show ?thesis unfolding r(2) using that(2) by (intro target_man_ok [OF \<open>store_ok t\<close> _ r(1)]) auto
    qed
    show ?thesis
    proof (cases "PathForPull n t")
      case (Inr loc)
      obtain a rel where loc: "loc = (a, rel)" by (cases loc)
      note put = put [OF Inr [unfolded loc]]
      show ?thesis
        using False mf e \<open>r = Inr skip\<close> Inr loc verify_layers_accepts [OF all] put [of Garbled] put [of "Decodes mf"]
          deleteUnusedLayers_ok [OF put [of "Decodes mf"] ds] \<open>store_ok t\<close> assms(1)
        by (cases out) (simp_all add: PullModel_def Let_def ds_def [symmetric])
    qed (use False mf e Inr \<open>store_ok t\<close> assms(1) verify_layers_accepts [OF all] in \<open>simp add: PullModel_def Let_def\<close>)
  qed (use False mf e \<open>store_ok t\<close> assms(1) in \<open>simp add: PullModel_def Let_def\<close>)
qed (use assms(1) in \<open>auto simp: PullModel_def split: sum.split\<close>)

section \<open>Runs of operations\<close>

text \<open>The states that the operations lead to from \<open>s0\<close>; \<open>fetch\<close> is the content of the registry. Only models whose
  layers are in the store are written, and no operation writes a path that the other directory holds.\<close>

inductive managed :: "(bytes \<Rightarrow> bytes) \<Rightarrow> (string \<Rightarrow> bytes option) \<Rightarrow> Store \<Rightarrow> Store \<Rightarrow> bool"
  for sha fetch s0 where
  start: "managed sha fetch s0 s0"
| layer: "managed sha fetch s0 s \<Longrightarrow> managed sha fetch s0 (snd (NewLayer sha data mt s))"
| store_manifest: "managed sha fetch s0 s \<Longrightarrow> unclaimed n s \<Longrightarrow>
    list_all (\<lambda>l. l_Digest l \<noteq> [] \<longrightarrow> colon_form (l_Digest l) \<and> has_blob s (l_Digest l)) (config # layers) \<Longrightarrow>
    managed sha fetch s0 (snd (WriteManifest out n config layers s))"
| copy: "managed sha fetch s0 s \<Longrightarrow>
    aux_ok s \<longrightarrow> (case Filepath dst of Some rel \<Rightarrow> map_of (mans s Auxiliary) rel = None | None \<Rightarrow> True) \<Longrightarrow>
    managed sha fetch s0 (snd (CopyModel out src dst s))"
| delete: "managed sha fetch s0 s \<Longrightarrow> managed sha fetch s0 (snd (DeleteModel deny n s))"
| remove_layers: "managed sha fetch s0 s \<Longrightarrow> list_all colon_form (digests m) \<Longrightarrow>
    managed sha fetch s0 (snd (RemoveLayers deny m s))"
| remove_layer: "managed sha fetch s0 s \<Longrightarrow> l_Digest l = [] \<or> colon_form (l_Digest l) \<Longrightarrow>
    managed sha fetch s0 (snd (Layer_Remove deny l s))"
| prune: "managed sha fetch s0 s \<Longrightarrow> managed sha fetch s0 (snd (PruneLayers fresh deny s))"
| startup: "managed sha fetch s0 s \<Longrightarrow> managed sha fetch s0 (snd (startup_prune noPrune fresh deny s))"
| pull: "managed sha fetch s0 s \<Longrightarrow> unclaimed n s \<Longrightarrow> \<forall>mf. answer = Inr mf \<longrightarrow> list_all colon_form (digests mf) \<Longrightarrow>
    managed sha fetch s0 (snd (PullModel sha insecure noPrune deny out fetch answer n s))"

lemma managed_ok:
  assumes "store_ok s0" "managed sha fetch s0 s"
  shows "store_ok s"
  using assms(2)
proof induction
  case (store_manifest s n config layers out)
  then show ?case by (intro WriteManifest_ok) (auto simp: list_all_iff)
next
  case (pull s n answer insecure noPrune deny out)
  then show ?case by (intro PullModel_ok) (auto simp: list_all_iff)
next
  case (startup s noPrune fresh deny)
  then show ?case by (auto simp: startup_prune_def PruneLayers_ok split: sum.split)
qed (use assms(1) in \<open>auto simp: NewLayer_ok CopyModel_ok DeleteModel_ok RemoveLayers_ok Layer_Remove_ok PruneLayers_ok
  list_all_iff\<close>)

lemma store_ok_opens:
  assumes "store_ok s" "ParseNamedManifest n s = Inr (m, loc)" "l \<in> set (all_layers m)" "l_Digest l \<noteq> []"
  shows "colon_form (l_Digest l) \<and> (\<exists>data. Layer_Open l s = Inr data)"
proof -
  have "l_Digest l \<in> used s" using usedI [OF assms(2)] assms(3,4) by (force simp: digests_def)
  then have "colon_form (l_Digest l)" "has_blob s (l_Digest l)" using assms(1) by (auto simp: store_ok_def)
  then show ?thesis using assms(4) by (auto simp: Layer_Open_def has_blob_def split: sum.splits option.splits)
qed

text \<open>A store without files.\<close>

definition empty_store :: "bool \<Rightarrow> Store" where
  "empty_store aux = \<lparr>prim_ok = True, aux_ok = aux, aux_blobs_dir = aux, mans = (\<lambda>_. []), blobs = (\<lambda>_. [])\<rparr>"

lemma empty_store_ok: "store_ok (empty_store aux)"
proof -
  have "used (empty_store aux) = {}"
    by (auto simp: used_def parse_iff empty_store_def)
  then show ?thesis by (simp add: store_ok_def) (simp add: empty_store_def)
qed

section \<open>Content of the blobs\<close>

definition authentic :: "(bytes \<Rightarrow> bytes) \<Rightarrow> Store \<Rightarrow> bool" where
  "authentic sha s \<longleftrightarrow> (\<forall>a name data. map_of (blobs s a) name = Some data \<longrightarrow> name = blob_name (layer_digest sha data))"

named_theorems authentic_intros

lemma authentic_same: "authentic sha s \<Longrightarrow> blobs t = blobs s \<Longrightarrow> authentic sha t"
  by (simp add: authentic_def)

lemma authentic_remove [authentic_intros]: "authentic sha s \<Longrightarrow> authentic sha (snd (remove_blob deny loc s))"
  by (auto simp: authentic_def remove_blob_def delete_conv' split: prod.splits if_splits)

lemma authentic_try [authentic_intros]: "authentic sha s \<Longrightarrow> authentic sha (try_remove deny d s)"
  by (auto simp: try_remove_def intro: authentic_remove split: sum.split)

lemma authentic_fold [authentic_intros]: "authentic sha s \<Longrightarrow> authentic sha (fold (try_remove deny) ds s)"
  by (induction ds arbitrary: s) (auto intro: authentic_try)

lemma authentic_unused [authentic_intros]: "authentic sha s \<Longrightarrow> authentic sha (snd (deleteUnusedLayers deny ds s))"
  by (auto simp: deleteUnusedLayers_def Let_def intro: authentic_fold split: sum.split)

lemma authentic_layers [authentic_intros]: "authentic sha s \<Longrightarrow> authentic sha (snd (remove_layers deny us ds s))"
proof (induction deny us ds s rule: remove_layers.induct)
  case (2 deny us d ds s)
  show ?case
  proof (cases "d = [] \<or> d \<in> set us \<or> isl (BlobsPath d s)")
    case True
    then show ?thesis using 2 by (cases "BlobsPath d s") auto
  next
    case False
    then obtain loc where loc: "BlobsPath d s = Inr loc" by (cases "BlobsPath d s") auto
    obtain err s' where r: "remove_blob deny loc s = (err, s')" by (cases "remove_blob deny loc s")
    have "authentic sha s'" using authentic_remove [OF 2(3), of deny loc] r by simp
    then show ?thesis using 2(2) [of loc err s'] False loc r by (auto split: prod.split)
  qed
qed simp

lemma authentic_put:
  assumes "authentic sha s" "BlobsPath (layer_digest sha data) s = Inr loc"
  shows "authentic sha (put_blob loc data s)"
proof -
  have "snd loc = blob_name (layer_digest sha data)"
    using assms(2) by (auto simp: BlobsPath_def Let_def split: sum.splits prod.splits)
  then show ?thesis using assms(1) by (auto simp: authentic_def put_blob_def update_conv' split: if_splits)
qed

lemma authentic_download:
  assumes "\<forall>d data. fetch d = Some data \<longrightarrow> d = layer_digest sha data"
  shows "authentic sha s \<Longrightarrow> authentic sha (snd (download_layers fetch ds skip s))"
proof (induction ds arbitrary: skip s)
  case (Cons d ds)
  show ?case
  proof (cases "d = [] \<or> isl (BlobsPath d s)")
    case True
    then show ?thesis using Cons.prems by (cases "BlobsPath d s") auto
  next
    case False
    then obtain loc where loc: "BlobsPath d s = Inr loc" by (cases "BlobsPath d s") auto
    have "authentic sha (put_blob loc data s)" if "fetch d = Some data" for data
      using authentic_put [OF Cons.prems] loc that assms by simp
    then show ?thesis using Cons False loc by (auto split: option.split)
  qed
qed simp

lemma authentic_verify [authentic_intros]: "authentic sha s \<Longrightarrow> authentic sha (snd (verify_layers sha deny skip ds s))"
  by (induction ds) (auto intro: authentic_try split: option.split)

lemma authentic_pull:
  assumes "\<forall>d data. fetch d = Some data \<longrightarrow> d = layer_digest sha data" "authentic sha s"
  shows "authentic sha (snd (PullModel sha insecure noPrune deny out fetch answer n s))"
proof (cases "ProtocolScheme n = ''https'' \<and> \<not> insecure \<or> isl answer")
  case False
  then obtain mf where mf: "answer = Inr mf" by (cases answer) auto
  obtain r t where e: "download_layers fetch (pulled_digests mf) [] s = (r, t)" by fastforce
  have t: "authentic sha t" using authentic_download [OF assms, of "pulled_digests mf" "[]"] e by simp
  show ?thesis
  proof (cases r)
    case (Inr skip)
    obtain v u where v: "verify_layers sha deny skip (pulled_digests mf) t = (v, u)" by fastforce
    have u: "authentic sha u" using authentic_verify [OF t, of deny skip "pulled_digests mf"] v by simp
    then have "authentic sha (put_man a rel f u)" for a rel f by (rule authentic_same) (simp add: put_man_def)
    then show ?thesis
      using False mf e Inr v u
      by (cases v; cases out) (auto simp: PullModel_def Let_def intro: authentic_unused split: sum.split)
  qed (use False mf e t assms(2) in \<open>simp add: PullModel_def Let_def\<close>)
qed (use assms(2) in \<open>auto simp: PullModel_def split: sum.split\<close>)

lemma managed_authentic:
  assumes "\<forall>d data. fetch d = Some data \<longrightarrow> d = layer_digest sha data" "authentic sha s0" "managed sha fetch s0 s"
  shows "authentic sha s"
  using assms(3)
proof induction
  case (layer s data mt)
  then show ?case by (auto simp: NewLayer_def intro: authentic_put split: sum.split)
next
  case (store_manifest s n config layers out)
  show ?case
    by (rule authentic_same [OF store_manifest.IH])
      (auto simp: WriteManifest_def put_man_def Let_def split: sum.split option.split write_outcome.split)
next
  case (copy s dst out src)
  show ?case
    by (rule authentic_same [OF copy.IH])
      (auto simp: CopyModel_def put_man_def split: sum.split option.split write_outcome.split mfile.split)
next
  case (delete s deny n)
  have "authentic sha (snd (Manifest_Remove loc s))" for loc
    by (rule authentic_same [OF delete.IH]) (auto simp: Manifest_Remove_def Let_def split: prod.split sum.split)
  then have "authentic sha t" if "Manifest_Remove loc s = (e, t)" for loc e t using that by (metis snd_conv)
  then show ?case
    using delete.IH authentic_layers
    by (auto simp: DeleteModel_def RemoveLayers_def split: sum.split prod.split option.split) (metis snd_conv)+
qed (use assms in \<open>auto simp: RemoveLayers_def Layer_Remove_def startup_prune_def PruneLayers_def Let_def authentic_pull
  intro: authentic_intros split: sum.split\<close>)

lemma hex_no_dash: "CHR ''-'' \<notin> set (hex_encode bs)"
proof (induction bs)
  case (Cons b bs)
  have "hex_value (CHR ''-'') = None" by code_simp
  moreover have "unat b < 256" using unsigned_less [of b] by simp
  then have "unat b div 16 < 16" "unat b mod 16 < 16" by auto
  ultimately show ?case using Cons hex_value_digit by force
qed simp

lemma layer_digest_form: "colon_form (layer_digest sha data)"
  using hex_no_dash by (simp add: layer_digest_def colon_form_def)

lemma parse_after_put:
  assumes "prim_ok s" "unclaimed n s" "Filepath n = Some rel"
  shows "ParseNamedManifest n (put_man (if aux_ok s then AuxPath s else PrimaryPath s) rel (Decodes m) s) =
    Inr (m, if aux_ok s then AuxPath s else PrimaryPath s, rel)"
proof -
  have "prim_ok (put_man a rel f s)" for a f using assms(1) by (simp add: put_man_def)
  then show ?thesis
    using assms by (simp add: parse_iff) (simp add: put_man_def update_conv' AuxPath_def PrimaryPath_def unclaimed_def can_read_def)
qed

text \<open>Removing blobs one by one empties the places where they are looked up.\<close>

definition looked_up_in :: "area \<Rightarrow> Store \<Rightarrow> bool" where
  "looked_up_in a s \<longleftrightarrow> prim_ok s \<and> (a = Auxiliary \<and> aux_ok s \<or> a = Primary \<and> (aux_ok s \<longrightarrow> blobs s Auxiliary = []))"

lemma try_remove_frame:
  "looked_up_in a s \<Longrightarrow> looked_up_in a (try_remove deny d s)"
  "map_of (blobs s a) x = None \<Longrightarrow> map_of (blobs (try_remove deny d s) a) x = None"
  by (auto simp: try_remove_def remove_blob_def looked_up_in_def delete_conv' split: sum.splits prod.splits)

lemma try_remove_gone:
  assumes "looked_up_in a s" "d \<noteq> []" "\<not> deny (blob_name d)"
  shows "map_of (blobs (try_remove deny d s) a) (blob_name d) = None"
  using assms
  by (auto simp: try_remove_def remove_blob_def looked_up_in_def BlobsPath_def Path_def PrimaryPath_def AuxPath_def Let_def
      delete_conv' split: if_splits)

lemma fold_frame: "map_of (blobs s a) x = None \<Longrightarrow> map_of (blobs (fold (try_remove deny) ds s) a) x = None"
  by (induction ds arbitrary: s) (simp_all add: try_remove_frame(2))

lemma fold_gone:
  "looked_up_in a s \<Longrightarrow> d \<in> set ds \<Longrightarrow> d \<noteq> [] \<Longrightarrow> \<not> deny (blob_name d) \<Longrightarrow>
    map_of (blobs (fold (try_remove deny) ds s) a) (blob_name d) = None"
proof (induction ds arbitrary: s)
  case (Cons e ds)
  then show ?case by (cases "d = e") (simp_all add: fold_frame try_remove_gone try_remove_frame(1))
qed simp

lemma pull_result:
  assumes "store_ok s" "unclaimed n s" "ProtocolScheme n = ''https'' \<longrightarrow> insecure" "Filepath n = Some rel"
    and "\<forall>d \<in> set (pulled_digests mf). d \<noteq> [] \<and> (has_blob s d \<or> fetch d \<noteq> None)"
  shows "\<exists>t. same_manifests s t \<and> PullModel sha insecure noPrune deny WriteOK fetch (Inr mf) n s =
    (None, let u = put_man (if aux_ok t then AuxPath t else PrimaryPath t) rel (Decodes mf) t;
               ds = filter (\<lambda>d. d \<notin> set (pulled_digests mf) \<and> d \<noteq> l_Digest (Config mf)) (old_digests n s)
           in if \<not> noPrune \<and> ds \<noteq> [] then snd (deleteUnusedLayers deny ds u) else u)"
proof -
  obtain r t where e: "download_layers fetch (pulled_digests mf) [] s = (r, t)" by fastforce
  note d = download_ok [OF assms(1) e]
  have "\<not> isl r"
  proof -
    have "\<not> isl (fst (download_layers fetch ds skip s))"
      if "\<forall>d \<in> set ds. d \<noteq> [] \<and> (has_blob s d \<or> fetch d \<noteq> None)" "store_ok s" for ds skip s
      using that
    proof (induction ds arbitrary: skip s)
      case (Cons d ds)
      have prim: "prim_ok s" and dn: "d \<noteq> []" using Cons.prems by (simp_all add: store_ok_def)
      obtain loc where loc: "BlobsPath d s = Inr loc" using prim by (simp add: BlobsPath_def Path_def Let_def)
      show ?case
      proof (cases "map_of (blobs s (fst loc)) (snd loc)")
        case None
        then have "\<not> has_blob s d" using loc by (auto simp: has_blob_def split: prod.split)
        then obtain data where f: "fetch d = Some data" using Cons.prems(1) by auto
        have "\<not> isl (fst (download_layers fetch ds (set_skip d False skip) (put_blob loc data s)))"
          using Cons.prems put_blob_spares(1) [OF prim dn loc] by (intro Cons.IH put_blob_ok [OF Cons.prems(2) dn loc]) auto
        then show ?thesis using None f dn loc by simp
      qed (use Cons dn loc in simp)
    qed simp
    from this [OF assms(5,1), of "[]"] show ?thesis using e by simp
  qed
  then obtain skip where skip: "r = Inr skip" by (cases r) auto
  have v: "verify_layers sha deny skip (pulled_digests mf) t = (None, t)" using d skip by (intro verify_layers_accepts) simp
  have "prim_ok t" using d by (simp add: store_ok_def)
  then have "PathForPull n t = Inr (if aux_ok t then AuxPath t else PrimaryPath t, rel)"
    using assms(4) by (simp add: PathForPull_def Path_def)
  then have "PullModel sha insecure noPrune deny WriteOK fetch (Inr mf) n s =
    (None, let u = put_man (if aux_ok t then AuxPath t else PrimaryPath t) rel (Decodes mf) t;
               ds = filter (\<lambda>d. d \<notin> set (pulled_digests mf) \<and> d \<noteq> l_Digest (Config mf)) (old_digests n s)
           in if \<not> noPrune \<and> ds \<noteq> [] then snd (deleteUnusedLayers deny ds u) else u)"
    using assms(3) e skip v by (simp add: PullModel_def Let_def)
  with d show ?thesis by blast
qed

lemma unused_same_manifests: "same_manifests s (snd (deleteUnusedLayers deny ds s))"
proof -
  have "same_manifests s (fold (try_remove deny) xs s)" for xs
  proof (induction xs arbitrary: s)
    case (Cons x xs)
    have "same_manifests s (try_remove deny x s)"
      by (auto simp: try_remove_def remove_blob_def same_manifests_def split: sum.split prod.split)
    then show ?case using Cons same_manifests_trans by simp
  qed simp
  then show ?thesis by (simp add: deleteUnusedLayers_def Let_def split: sum.split)
qed

section \<open>Properties\<close>

text \<open>A run for the examples: a layer is stored, a model is written over it, another layer is stored and the unused
  layers are pruned.\<close>

definition ex_name :: Name where
  "ex_name = emptyName\<lparr>Host := ''host'', Namespace := ''library'', Model := ''m'', Tag := ''latest''\<rparr>"

definition ex_layer :: Layer where
  "ex_layer = \<lparr>l_MediaType = ''model'', l_Digest = ''sha256:07'', l_Size = 1, l_From = [], l_Name = []\<rparr>"

definition ex_no_config :: Layer where
  "ex_no_config = \<lparr>l_MediaType = [], l_Digest = [], l_Size = 0, l_From = [], l_Name = []\<rparr>"

definition ex_stored :: Store where
  "ex_stored = snd (NewLayer id [7] ''model'' (empty_store False))"

definition ex_written :: Store where
  "ex_written = snd (WriteManifest WriteOK ex_name ex_no_config [ex_layer] ex_stored)"

definition ex_unused :: Store where
  "ex_unused = snd (NewLayer id [8] ''model'' ex_written)"

definition ex_pruned :: Store where
  "ex_pruned = snd (PruneLayers (\<lambda>_. False) (\<lambda>_. False) ex_unused)"

lemmas ex_defs = ex_name_def ex_layer_def ex_no_config_def ex_stored_def ex_written_def ex_unused_def ex_pruned_def empty_store_def

lemma ex_managed:
  "managed id (\<lambda>_. None) (empty_store False) ex_unused" "managed id (\<lambda>_. None) (empty_store False) ex_pruned"
proof -
  have "unclaimed ex_name ex_stored" unfolding ex_defs by code_simp
  moreover have "list_all (\<lambda>l. l_Digest l \<noteq> [] \<longrightarrow> colon_form (l_Digest l) \<and> has_blob ex_stored (l_Digest l))
      [ex_no_config, ex_layer]" unfolding ex_defs by code_simp
  moreover have "managed id (\<lambda>_. None) (empty_store False) ex_stored"
    unfolding ex_stored_def by (rule managed.layer, rule managed.start)
  ultimately have "managed id (\<lambda>_. None) (empty_store False) ex_written"
    unfolding ex_written_def by (rule managed.store_manifest [rotated])
  then show u: "managed id (\<lambda>_. None) (empty_store False) ex_unused" unfolding ex_unused_def by (rule managed.layer)
  then show "managed id (\<lambda>_. None) (empty_store False) ex_pruned" unfolding ex_pruned_def by (rule managed.prune)
qed

lemma ex_parsed: "ParseNamedManifest ex_name ex_pruned = Inr (\<lparr>SchemaVersion = 2,
    m_MediaType = ''application/vnd.docker.distribution.manifest.v2+json'', Config = ex_no_config, Layers = [ex_layer]\<rparr>,
    Primary, ''host/library/m/latest'')"
  unfolding ex_defs by code_simp









text \<open>A manifest that was written is read back under its name, unless the primary directory holds a file of that
  name while manifests are written to the auxiliary one.\<close>

theorem write_then_parse:
  assumes "prim_ok s" "unclaimed n s" "IsFullyQualified n"
  shows "\<exists>t loc. WriteManifest WriteOK n config layers s = (None, t) \<and> ParseNamedManifest n t =
    Inr (\<lparr>SchemaVersion = 2, m_MediaType = ''application/vnd.docker.distribution.manifest.v2+json'',
      Config = config, Layers = layers\<rparr>, loc)"
proof -
  obtain rel where rel: "Filepath n = Some rel" using assms(3) by (simp add: Filepath_def)
  from parse_after_put [OF assms(1,2) rel] show ?thesis
    using assms(1) rel by (simp add: WriteManifest_def Path_def Let_def)
qed

theorem write_then_parse_witness:
  "\<exists>t loc. WriteManifest WriteOK ex_name ex_no_config [ex_layer] (empty_store True) = (None, t) \<and> ParseNamedManifest ex_name t =
    Inr (\<lparr>SchemaVersion = 2, m_MediaType = ''application/vnd.docker.distribution.manifest.v2+json'',
      Config = ex_no_config, Layers = [ex_layer]\<rparr>, loc)"
proof (rule write_then_parse)
  show "prim_ok (empty_store True)" "unclaimed ex_name (empty_store True)" "IsFullyQualified ex_name"
    unfolding ex_defs by code_simp+
qed

text \<open>Pruning removes every file of the blobs directory that it lists, if the file is old enough, can be removed and
  no manifest refers to it.\<close>

theorem prune_removes_unused:
  assumes "store_ok s" "aux_ok s \<longrightarrow> aux_blobs_dir s \<or> blobs s Auxiliary = []" "BlobsPath [] s = Inr (dir, base)"
    and "Manifests True s = Inr ms" "name \<notin> blob_name ` set (in_use ms)"
    and "name \<noteq> []" "CHR '':'' \<notin> set name" "\<not> fresh name" "\<not> deny name"
  shows "map_of (blobs (snd (PruneLayers fresh deny s)) dir) name = None"
proof -
  define d where "d = replace_byte (CHR ''-'') (CHR '':'') name"
  define del where "del = map (replace_byte (CHR ''-'') (CHR '':'')) (filter (\<lambda>x. \<not> fresh x) (map fst (blobs s dir)))"
  define xs where "xs = filter (\<lambda>d. d \<notin> set (map l_Digest (concat (map (\<lambda>(n, m). all_layers m) ms)))) del"
  have d: "blob_name d = name" "d \<noteq> []"
    using assms(6,7) by (auto simp: d_def blob_name_def replace_byte_def comp_def intro!: map_idI)
  have "PruneLayers fresh deny s = (None, fold (try_remove deny) xs s)"
    using assms(3,4) by (simp add: PruneLayers_def deleteUnusedLayers_def Let_def xs_def del_def)
  moreover have l: "looked_up_in dir s"
    using assms(1-3) by (auto simp: looked_up_in_def store_ok_def BlobsPath_def Path_def AuxPath_def PrimaryPath_def Let_def split: if_splits)
  moreover have "d \<in> set xs" if "map_of (blobs s dir) name \<noteq> None"
  proof -
    have "d \<in> set del" using that assms(8) by (force simp: del_def d_def dest: map_of_SomeD)
    moreover have "d \<notin> set (map l_Digest (concat (map (\<lambda>(n, m). all_layers m) ms)))"
      using assms(5) d by (force simp: in_use_def digests_def)
    ultimately show ?thesis by (simp add: xs_def)
  qed
  ultimately show ?thesis
    using fold_gone [OF l _ d(2)] fold_frame d(1) assms(9) by (cases "map_of (blobs s dir) name = None") simp_all
qed

theorem prune_removes_unused_witness:
  "map_of (blobs ex_unused Primary) ''sha256-08'' = Some [8] \<and> map_of (blobs ex_pruned Primary) ''sha256-08'' = None"
proof -
  have "store_ok ex_unused" by (rule managed_ok [OF empty_store_ok ex_managed(1)])
  moreover have "aux_ok ex_unused \<longrightarrow> aux_blobs_dir ex_unused \<or> blobs ex_unused Auxiliary = []"
    "BlobsPath [] ex_unused = Inr (Primary, [])" unfolding ex_defs by code_simp+
  moreover obtain ms where "Manifests True ex_unused = Inr ms" "''sha256-08'' \<notin> blob_name ` set (in_use ms)"
  proof -
    have "(case Manifests True ex_unused of Inl _ \<Rightarrow> False | Inr ms \<Rightarrow> list_all (\<lambda>d. blob_name d \<noteq> ''sha256-08'') (in_use ms))"
      unfolding ex_defs by code_simp
    then show ?thesis using that by (cases "Manifests True ex_unused") (force simp: list_all_iff)+
  qed
  ultimately have "map_of (blobs ex_pruned Primary) ''sha256-08'' = None"
    unfolding ex_pruned_def by (rule prune_removes_unused) simp_all
  moreover have "map_of (blobs ex_unused Primary) ''sha256-08'' = Some [8]" unfolding ex_defs by code_simp
  ultimately show ?thesis by blast
qed

text \<open>Deleting a model makes its name unknown, whether or not its layers can be removed, and changes no other
  model.\<close>

theorem delete_removes_only:
  assumes "store_ok s" "ParseNamedManifest n s = Inr (m, loc)"
  shows "ParseNamedManifest n (snd (DeleteModel deny n s)) = Inl NotExist \<and>
    (Filepath n' \<noteq> Filepath n \<longrightarrow> ParseNamedManifest n' (snd (DeleteModel deny n s)) = ParseNamedManifest n' s)"
proof -
  obtain a rel where loc: "loc = (a, rel)" by (cases loc)
  have s: "prim_ok s" "mans s Stray = []" "\<forall>d \<in> used s. colon_form d"
    "aux_ok s \<longrightarrow> (\<forall>rel. map_of (mans s Primary) rel = None \<or> map_of (mans s Auxiliary) rel = None)"
    using assms(1) by (simp_all add: store_ok_def)
  have p: "Filepath n = Some rel" "map_of (mans s a) rel = Some (Decodes m)" "a = Primary \<or> a = Auxiliary \<and> aux_ok s"
    using assms(2) s(1,2) loc by (auto simp: parse_iff AuxPath_def split: if_splits)
  define t where "t = s\<lparr>mans := (mans s)(a := AList.delete rel (mans s a))\<rparr>"
  have t: "Manifest_Remove loc s = (None, t)" "prim_ok t" "aux_ok t = aux_ok s"
    using p(2) s(1) loc by (simp_all add: Manifest_Remove_def Path_def Let_def t_def)
  have gone: "map_of (mans t b) rel = None" if "b \<in> {Primary, AuxPath s}" for b
    using that s(2) s(4) [THEN mp, THEN spec, of rel] p(2,3)
    by (cases "b = a") (auto simp: t_def delete_conv' AuxPath_def split: if_splits)
  have "same_manifests t (snd (DeleteModel deny n s))"
  proof -
    obtain ms where ms: "Manifests True t = Inr ms" using Manifests_total [OF t(2)] by blast
    have "\<forall>d \<in> set (map l_Digest (all_layers m)). d = [] \<or> colon_form d"
      using s(3) usedI [OF assms(2)] by (auto simp: digests_def)
    from remove_layers_spares [OF t(2), of "{}", OF _ this, of "in_use ms" deny] have
      "same_manifests t (snd (RemoveLayers deny m t))" using ms by (simp add: RemoveLayers_def spares_def)
    then show ?thesis using assms(2) t(1) by (auto simp: DeleteModel_def split: prod.split)
  qed
  note this [THEN same_manifests_parse]
  moreover have "ParseNamedManifest n t = Inl NotExist"
    using gone [of Primary] gone [of "AuxPath s"] t(2,3) p(1) Filepath_FQ [OF p(1)]
    by (simp add: ParseNamedManifest_def PathForName_def Path_def PrimaryPath_def can_read_def AuxPath_def split: if_splits)
  moreover have "ParseNamedManifest n' t = ParseNamedManifest n' s" if "Filepath n' \<noteq> Filepath n"
    using that p(1) by (intro parse_elsewhere [where rel = rel]) (auto simp: t_def delete_conv')
  ultimately show ?thesis by simp
qed

theorem delete_removes_only_witness:
  "ParseNamedManifest ex_name (snd (DeleteModel (\<lambda>_. False) ex_name ex_pruned)) = Inl NotExist"
  using delete_removes_only [OF managed_ok [OF empty_store_ok ex_managed(2)] ex_parsed] by simp

section \<open>Limits of the code\<close>

text \<open>A model of the primary directory hides what is written later: the old manifest is still read.\<close>

lemma write_hidden_by_primary:
  assumes "prim_ok s" "aux_ok s" "Filepath n = Some rel" "map_of (mans s Primary) rel = Some (Decodes m)"
  shows "fst (WriteManifest WriteOK n config layers s) = None"
    "ParseNamedManifest n (snd (WriteManifest WriteOK n config layers s)) = Inr (m, Primary, rel)"
  using assms
  by (simp_all add: WriteManifest_def Path_def Let_def parse_iff put_man_def AuxPath_def)

text \<open>A model of the auxiliary directory can be read but not copied.\<close>

lemma copy_misses_auxiliary:
  assumes "prim_ok s" "aux_ok s" "Filepath n = Some rel" "map_of (mans s Primary) rel = None"
    and "map_of (mans s Auxiliary) rel = Some (Decodes m)" "Filepath dst = Some rel'" "rel' \<noteq> rel"
  shows "ParseNamedManifest n s = Inr (m, Auxiliary, rel)" "CopyModel out n dst s = (Some NotExist, s)"
  using assms by (simp_all add: parse_iff AuxPath_def can_read_def CopyModel_def Path_def PrimaryPath_def)

text \<open>With an auxiliary blobs directory, nothing in the primary one is pruned that is not in the auxiliary one.\<close>

lemma primary_blobs_not_pruned:
  assumes "prim_ok s" "aux_ok s" "aux_blobs_dir s" "blobs s Auxiliary = []"
  shows "snd (PruneLayers fresh deny s) = s"
  using assms Manifests_total [OF assms(1)]
  by (auto simp: PruneLayers_def BlobsPath_def Path_def AuxPath_def Let_def deleteUnusedLayers_def)

text \<open>Names of different models are mixed: the result is the name of neither.\<close>

lemma existing_names_mixed:
  "getExistingName
     [ex_name\<lparr>Model := ''Llama'', Tag := ''latest''\<rparr>, ex_name\<lparr>Model := ''qwen'', Tag := ''LATEST''\<rparr>]
     (ex_name\<lparr>Model := ''llama'', Tag := ''Latest''\<rparr>) = ex_name\<lparr>Model := ''Llama'', Tag := ''LATEST''\<rparr>"
  unfolding ex_name_def by code_simp

text \<open>The error for an insecure protocol is given for \<open>https\<close>, and not for \<open>http\<close>.\<close>

lemma secure_protocol_refused:
  "ProtocolScheme n = ''https'' \<Longrightarrow> PullModel sha False noPrune deny out fetch answer n s = (Some InsecureProtocol, s)"
  by (simp add: PullModel_def)

lemma default_pull_refused:
  "PullModel sha False noPrune deny out fetch answer (ParseName ''llama3'') s = (Some InsecureProtocol, s)"
proof (rule secure_protocol_refused)
  show "ProtocolScheme (ParseName ''llama3'') = ''https''" by code_simp
qed

text \<open>Data that does not have the digest of the manifest is installed as the layer.\<close>

lemma wrong_data_installed:
  "(case PullModel id False False (\<lambda>_. False) WriteOK (\<lambda>d. Some [9])
      (Inr \<lparr>SchemaVersion = 2, m_MediaType = [], Config = ex_no_config, Layers = [ex_layer]\<rparr>) ex_name (empty_store False) of
     (e, t) \<Rightarrow> (e, Layer_Open ex_layer t)) = (None, Inr [9])"
  unfolding ex_defs by code_simp

text \<open>A write that is cut off destroys the manifest that was there.\<close>

lemma cut_write_destroys_model:
  assumes "prim_ok s" "\<not> aux_ok s" "mans s Stray = []" "Filepath n = Some rel"
  shows "ParseNamedManifest n (snd (WriteManifest EncodeFails n config layers s)) = Inl BadJSON"
  using assms Filepath_FQ [OF assms(4)]
  by (simp add: WriteManifest_def Path_def Let_def put_man_def AuxPath_def PrimaryPath_def ParseNamedManifest_def
      PathForName_def can_read_def update_conv')

text \<open>A digest with a dash names the same blob, but pruning takes the blob for unused.\<close>

lemma dash_digest_pruned:
  defines "l \<equiv> ex_layer\<lparr>l_Digest := ''sha256-07''\<rparr>"
  defines "s \<equiv> snd (WriteManifest WriteOK ex_name ex_no_config [l] ex_stored)"
  shows "Layer_Open l s = Inr [7]" "Layer_Open l (snd (PruneLayers (\<lambda>_. False) (\<lambda>_. False) s)) = Inl NotExist"
  unfolding assms ex_defs by code_simp+

end
