(* ===== verification/Split_Gguf.thy ===== *)
theory Split_Gguf
  imports Gguf_Data Manifest_Store Go_Strconv
begin

text \<open>
  Models in several files, after \<open>server/create.go\<close> and \<open>server/model.go\<close>: the name and the metadata of a part, the
  grouping of parts and the check that a group is complete.
\<close>

section \<open>Layers with a decoded file\<close>

record splitGGUFPart =
  part_Digest :: string
  part_Name :: string
  part_GGML :: gguf

text \<open>\<open>layerGGML\<close>; a layer that is not a GGUF file has no decoded file.\<close>

record layerGGML =
  lg_Layer :: Manifest_Store.Layer
  lg_GGML :: "gguf option"
  rewriteForCreate :: bool
  splitParts :: "splitGGUFPart list"

definition layer_KV :: "layerGGML \<Rightarrow> KV" where
  "layer_KV l = (case lg_GGML l of Some g \<Rightarrow> gg_kv g | None \<Rightarrow> [])"

section \<open>Names of parts\<close>

text \<open>\<open>path.Base\<close>.\<close>

definition path_Base :: "string \<Rightarrow> string" where
  "path_Base p =
     (if p = [] then ''.''
      else (let s = rev (dropWhile (\<lambda>c. c = Sep) (rev p)) in
            if s = [] then ''/'' else rev (takeWhile (\<lambda>c. c \<noteq> Sep) (rev s))))"

text \<open>The pattern \<open>^(.*)-(\\d{5})-of-(\\d{5})\\.gguf$\<close>: its last part has 20 characters.\<close>

definition match_split :: "string \<Rightarrow> (string \<times> string \<times> string) option" where
  "match_split s =
     (let pre = take (length s - 20) s; rest = drop (length s - 20) s;
          i = take 5 (drop 1 rest); n = take 5 (drop 10 rest)
      in if 20 \<le> length s \<and> CHR 0x0A \<notin> set pre \<and> list_all is_digit i \<and> list_all is_digit n \<and>
            rest = ''-'' @ i @ ''-of-'' @ n @ ''.gguf''
         then Some (pre, i, n) else None)"

text \<open>\<open>strconv.ParseUint(s, 10, 16)\<close> on digits.\<close>

definition ParseUint16 :: "string \<Rightarrow> 16 word option" where
  "ParseUint16 s = (if s = [] \<or> \<not> list_all is_digit s \<or> digits_val s > 65535 then None else Some (word_of_int (digits_val s)))"

definition splitGGUFName :: "string \<Rightarrow> (string \<times> 16 word \<times> 16 word) option" where
  "splitGGUFName name =
     (case match_split (path_Base name) of
        None \<Rightarrow> None
      | Some (pre, i, n) \<Rightarrow>
          (case (ParseUint16 i, ParseUint16 n) of
             (Some idx, Some cnt) \<Rightarrow> if idx = 0 \<or> cnt = 0 then None else Some (pre, idx - 1, cnt)
           | _ \<Rightarrow> None))"

text \<open>\<open>splitGGUFUint\<close>: a number of the metadata, under the key itself or with the architecture before it.\<close>

fun as_split_uint :: "value \<Rightarrow> 16 word option" where
  "as_split_uint (Uint16 v) = Some v"
| "as_split_uint (Uint32 v) = (if v \<le> 65535 then Some (ucast v) else None)"
| "as_split_uint (Uint64 v) = (if v \<le> 65535 then Some (ucast v) else None)"
| "as_split_uint (Int32 v) = (if 0 \<le> sint v \<and> sint v \<le> 65535 then Some (ucast v) else None)"
| "as_split_uint (Int64 v) = (if 0 \<le> sint v \<and> sint v \<le> 65535 then Some (ucast v) else None)"
| "as_split_uint _ = None"

fun first_uint :: "KV \<Rightarrow> string list \<Rightarrow> 16 word option" where
  "first_uint kv [] = None"
| "first_uint kv (k # ks) =
     (case Option.bind (map_of kv k) as_split_uint of Some v \<Rightarrow> Some v | None \<Rightarrow> first_uint kv ks)"

definition splitGGUFUint :: "KV \<Rightarrow> string \<Rightarrow> 16 word option" where
  "splitGGUFUint kv key =
     first_uint kv (key # (if \<not> HasPrefix key ''tokenizer.'' \<and> \<not> HasPrefix key ''general.'' then [Architecture kv @ ''.'' @ key] else []))"

datatype split_error = BadSplitName | CountMismatch | MissingNo | IndexMismatch | EmptyGroup | MissingCount | WrongNumber
  | InvalidIndex | DuplicateIndex | MissingShard

definition splitGGUFGroupKey :: "layerGGML \<Rightarrow> split_error + string option" where
  "splitGGUFGroupKey layer =
     (case splitGGUFUint (layer_KV layer) ''split.count'' of
        None \<Rightarrow> Inr None
      | Some cnt \<Rightarrow>
          if cnt \<le> 1 then Inr None
          else (case splitGGUFName (l_From (lg_Layer layer)) of
              None \<Rightarrow> Inl BadSplitName
            | Some (pre, index, nameCount) \<Rightarrow>
                if nameCount \<noteq> cnt then Inl CountMismatch
                else (case splitGGUFUint (layer_KV layer) ''split.no'' of
                    None \<Rightarrow> Inl MissingNo
                  | Some splitNo \<Rightarrow>
                      if splitNo \<noteq> index then Inl IndexMismatch
                      else Inr (Some (l_MediaType (lg_Layer layer) @ '':'' @ pre @ '':'' @ utoa (unat cnt))))))"

section \<open>Joining the parts\<close>

text \<open>The loop of \<open>mergeSplitGGUFLayers\<close> over the layers, with the array \<open>byIndex\<close>.\<close>

fun place_parts :: "16 word \<Rightarrow> layerGGML option list \<Rightarrow> layerGGML list \<Rightarrow> split_error + layerGGML option list" where
  "place_parts cnt arr [] = Inr arr"
| "place_parts cnt arr (l # ls) =
     (case splitGGUFUint (layer_KV l) ''split.no'' of
        None \<Rightarrow> Inl MissingNo
      | Some index \<Rightarrow>
          if index \<ge> cnt then Inl InvalidIndex
          else if arr ! unat index \<noteq> None then Inl DuplicateIndex
          else place_parts cnt (arr[unat index := Some l]) ls)"

definition to_part :: "layerGGML \<Rightarrow> splitGGUFPart" where
  "to_part l = \<lparr>part_Digest = l_Digest (lg_Layer l), part_Name = l_From (lg_Layer l), part_GGML = the (lg_GGML l)\<rparr>"

definition mergeSplitGGUFLayers :: "layerGGML list \<Rightarrow> split_error + layerGGML" where
  "mergeSplitGGUFLayers layers =
     (case layers of
        [] \<Rightarrow> Inl EmptyGroup
      | first # _ \<Rightarrow>
          (case splitGGUFUint (layer_KV first) ''split.count'' of
             None \<Rightarrow> Inl MissingCount
           | Some cnt \<Rightarrow>
               if unat cnt \<noteq> length layers then Inl WrongNumber
               else (case place_parts cnt (replicate (unat cnt) None) layers of
                   Inl e \<Rightarrow> Inl e
                 | Inr byIndex \<Rightarrow>
                     (case byIndex ! 0 of
                        None \<Rightarrow> Inl MissingShard
                      | Some primary \<Rightarrow>
                          if list_ex (\<lambda>l. l = None) byIndex then Inl MissingShard
                          else Inr (primary\<lparr>splitParts := map (\<lambda>l. to_part (the l)) byIndex\<rparr>)))))"

text \<open>The grouping in \<open>convertModelFromFilesWithMediaType\<close>: layers that are not parts, and the groups in the order of
  their first part.\<close>

fun group_parts :: "layerGGML list \<Rightarrow> layerGGML list \<Rightarrow> (string \<times> layerGGML list) list \<Rightarrow>
    split_error + layerGGML list \<times> (string \<times> layerGGML list) list" where
  "group_parts [] all groups = Inr (all, groups)"
| "group_parts (l # ls) all groups =
     (case splitGGUFGroupKey l of
        Inl e \<Rightarrow> Inl e
      | Inr None \<Rightarrow> group_parts ls (all @ [l]) groups
      | Inr (Some key) \<Rightarrow>
          group_parts ls all (AList.update key ((case map_of groups key of Some g \<Rightarrow> g | None \<Rightarrow> []) @ [l]) groups))"

fun merge_groups :: "(string \<times> layerGGML list) list \<Rightarrow> split_error + layerGGML list" where
  "merge_groups [] = Inr []"
| "merge_groups ((key, g) # gs) =
     (case mergeSplitGGUFLayers g of
        Inl e \<Rightarrow> Inl e
      | Inr l \<Rightarrow> (case merge_groups gs of Inl e \<Rightarrow> Inl e | Inr ls \<Rightarrow> Inr (l # ls)))"

definition join_split :: "layerGGML list \<Rightarrow> split_error + layerGGML list" where
  "join_split ls =
     (case group_parts ls [] [] of
        Inl e \<Rightarrow> Inl e
      | Inr (all, groups) \<Rightarrow> (case merge_groups groups of Inl e \<Rightarrow> Inl e | Inr ms \<Rightarrow> Inr (all @ ms)))"

section \<open>Complete groups\<close>

definition part_no :: "layerGGML \<Rightarrow> nat option" where
  "part_no l = map_option unat (splitGGUFUint (layer_KV l) ''split.no'')"

lemma place_parts_step:
  assumes "length arr = unat c"
  shows "(\<exists>arr'. place_parts c arr (l # ls) = Inr arr') \<longleftrightarrow>
    (\<exists>i arr'. part_no l = Some i \<and> i < unat c \<and> arr ! i = None \<and> place_parts c (arr[i := Some l]) ls = Inr arr')"
    "place_parts c arr (l # ls) = Inr arr' \<Longrightarrow>
      \<exists>i < unat c. part_no l = Some i \<and> arr ! i = None \<and> place_parts c (arr[i := Some l]) ls = Inr arr'"
  by (auto simp: part_no_def word_le_nat_alt split: option.splits if_splits)

lemma place_parts_sound:
  assumes "place_parts c arr ls = Inr arr'" "length arr = unat c"
  shows "length arr' = unat c \<and> (\<forall>i < unat c. arr ! i \<noteq> None \<longrightarrow> arr' ! i = arr ! i) \<and>
    (\<forall>l \<in> set ls. \<exists>i < unat c. part_no l = Some i \<and> arr ! i = None \<and> arr' ! i = Some l) \<and> distinct (map part_no ls)"
  using assms
proof (induction ls arbitrary: arr)
  case (Cons l ls)
  obtain i where i: "i < unat c" "part_no l = Some i" "arr ! i = None" "place_parts c (arr[i := Some l]) ls = Inr arr'"
    using place_parts_step(2) [OF Cons.prems(2,1)] by blast
  have ih: "length arr' = unat c" "\<forall>j < unat c. arr[i := Some l] ! j \<noteq> None \<longrightarrow> arr' ! j = arr[i := Some l] ! j"
      "\<forall>m \<in> set ls. \<exists>j < unat c. part_no m = Some j \<and> arr[i := Some l] ! j = None \<and> arr' ! j = Some m"
      "distinct (map part_no ls)"
    using Cons.IH [OF i(4)] Cons.prems(2) by simp_all
  have "arr' ! i = Some l" using ih(2) i(1) Cons.prems(2) by simp
  moreover have "part_no l \<notin> set (map part_no ls)"
  proof
    assume "part_no l \<in> set (map part_no ls)"
    with ih(3) i(2) have "arr[i := Some l] ! i = None" by fastforce
    then show False using i(1) Cons.prems(2) by simp
  qed
  moreover have "\<exists>j < unat c. part_no m = Some j \<and> arr ! j = None \<and> arr' ! j = Some m" if m: "m \<in> set ls" for m
  proof -
    obtain j where j: "j < unat c" "part_no m = Some j" "arr[i := Some l] ! j = None" "arr' ! j = Some m"
      using ih(3) m by blast
    then have "arr ! j = None" using Cons.prems(2) by (cases "i = j") simp_all
    with j show ?thesis by blast
  qed
  moreover have "arr' ! k = arr ! k" if "k < unat c" "arr ! k \<noteq> None" for k
    using ih(2) that i(3) Cons.prems(2) by (cases "k = i") (auto simp: nth_list_update)
  ultimately show ?case using ih(1,4) i(1-3) by auto
qed simp

lemma place_parts_complete:
  assumes "length arr = unat c" "distinct (map part_no ls)" "\<forall>l \<in> set ls. \<exists>i < unat c. part_no l = Some i \<and> arr ! i = None"
  shows "\<exists>arr'. place_parts c arr ls = Inr arr'"
  using assms
proof (induction ls arbitrary: arr)
  case (Cons l ls)
  then obtain i where i: "i < unat c" "part_no l = Some i" "arr ! i = None" by auto
  have "\<exists>j < unat c. part_no m = Some j \<and> arr[i := Some l] ! j = None" if m: "m \<in> set ls" for m
  proof -
    obtain j where "j < unat c" "part_no m = Some j" "arr ! j = None" using Cons.prems(3) m by auto
    moreover have "j \<noteq> i" using calculation(2) i(2) Cons.prems(2) m by force
    ultimately show ?thesis by (auto simp: nth_list_update)
  qed
  then have "\<exists>arr'. place_parts c (arr[i := Some l]) ls = Inr arr'" using Cons by (intro Cons.IH) auto
  then show ?case using place_parts_step(1) [OF Cons.prems(1)] i by blast
qed simp

text \<open>The array is full exactly when the parts are numbered from 0 on.\<close>

lemma numbered_iff:
  assumes "length ls = n"
  shows "distinct (map part_no ls) \<and> (\<forall>l \<in> set ls. \<exists>i < n. part_no l = Some i) \<longleftrightarrow>
    mset (map part_no ls) = mset (map Some [0..<n])"
proof
  assume a: "distinct (map part_no ls) \<and> (\<forall>l \<in> set ls. \<exists>i < n. part_no l = Some i)"
  then have "set (map part_no ls) \<subseteq> set (map Some [0..<n])" by force
  moreover have "card (set (map part_no ls)) = n" using a assms distinct_card by (metis length_map)
  moreover have "card (set (map Some [0..<n])) = n" by (simp add: card_image)
  ultimately have "set (map part_no ls) = set (map Some [0..<n])" by (intro card_subset_eq) auto
  moreover have "distinct (map Some [0..<n])" by (simp add: distinct_map)
  ultimately show "mset (map part_no ls) = mset (map Some [0..<n])"
    using a set_eq_iff_mset_eq_distinct by blast
next
  assume m: "mset (map part_no ls) = mset (map Some [0..<n])"
  have "distinct (map Some [0..<n])" by (simp add: distinct_map)
  then have "distinct (map part_no ls)" using m mset_eq_imp_distinct_iff by blast
  moreover have "set (map part_no ls) = set (map Some [0..<n])" using m by (metis set_mset_mset)
  ultimately show "distinct (map part_no ls) \<and> (\<forall>l \<in> set ls. \<exists>i < n. part_no l = Some i)"
    by (metis (no_types, lifting) atLeastLessThan_iff image_eqI imageE list.set_map set_upt)
qed

lemma place_parts_full:
  assumes "place_parts c (replicate (unat c) None) ls = Inr arr" "length ls = unat c"
  shows "arr = map Some (sort_key (\<lambda>l. the (part_no l)) ls)"
proof -
  let ?n = "unat c" and ?k = "\<lambda>l. the (part_no l)"
  have s: "length arr = ?n" "\<forall>l \<in> set ls. \<exists>i < ?n. part_no l = Some i \<and> arr ! i = Some l" "distinct (map part_no ls)"
    using place_parts_sound [OF assms(1)] by auto
  then have m: "mset (map part_no ls) = mset (map Some [0..<?n])" using numbered_iff [OF assms(2)] by blast
  have at: "\<exists>l \<in> set ls. part_no l = Some i \<and> arr ! i = Some l" if "i < ?n" for i
  proof -
    have "Some i \<in> set (map part_no ls)" using m that by (metis atLeastLessThan_iff image_eqI set_map set_mset_mset set_upt zero_le)
    then obtain l where l: "l \<in> set ls" "part_no l = Some i" by auto
    with s(2) show ?thesis by force
  qed
  define ys where "ys = map the arr"
  have arr: "arr = map Some ys"
  proof (rule nth_equalityI)
    fix i assume "i < length arr"
    then show "arr ! i = map Some ys ! i" using at [of i] s(1) by (auto simp: ys_def)
  qed (simp add: ys_def)
  have keys: "map ?k ys = [0..<?n]"
    using at s(1) by (intro nth_equalityI) (fastforce simp: ys_def)+
  have sub: "set ys \<subseteq> set ls" using at s(1) by (fastforce simp: ys_def in_set_conv_nth)
  have dy: "distinct ys" using keys by (metis distinct_map distinct_upt)
  have dl: "distinct ls" using s(3) by (simp add: distinct_map)
  have "set ys = set ls"
  proof (rule card_subset_eq [OF finite_set sub])
    have "length ys = length ls" using s(1) assms(2) by (simp add: ys_def)
    then show "card (set ys) = card (set ls)" using distinct_card [OF dy] distinct_card [OF dl] by simp
  qed
  then have "mset ls = mset ys" using dl dy set_eq_iff_mset_eq_distinct by blast
  moreover have "inj_on ?k (set ls)"
    using s(2,3) by (auto simp: distinct_map inj_on_def) (metis option.sel)
  moreover have "sorted (map ?k ys)" unfolding keys by simp
  ultimately have "sort_key ?k ls = ys" by (rule sort_key_inj_key_eq)
  with arr show ?thesis by simp
qed

lemma merge_iff:
  assumes "ls = first # rest" "splitGGUFUint (layer_KV first) ''split.count'' = Some c"
  shows "mergeSplitGGUFLayers ls =
    (if unat c \<noteq> length ls then Inl WrongNumber
     else case place_parts c (replicate (unat c) None) ls of Inl e \<Rightarrow> Inl e
       | Inr arr \<Rightarrow> Inr (hd (sort_key (\<lambda>l. the (part_no l)) ls)
           \<lparr>splitParts := map to_part (sort_key (\<lambda>l. the (part_no l)) ls)\<rparr>))"
proof (cases "unat c = length ls")
  case True
  show ?thesis
  proof (cases "place_parts c (replicate (unat c) None) ls")
    case (Inr arr)
    note arr = place_parts_full [OF Inr True [symmetric]]
    define ys where "ys = sort_key (\<lambda>l. the (part_no l)) ls"
    have ne: "ys \<noteq> []" using assms(1) by (metis length_sort length_0_conv list.distinct(1) ys_def)
    have a: "arr ! 0 = Some (hd ys)" "\<not> list_ex (\<lambda>l. l = None) arr" "map (\<lambda>l. to_part (the l)) arr = map to_part ys"
      unfolding arr ys_def [symmetric] using ne by (auto simp: hd_conv_nth list_ex_iff)
    have "mergeSplitGGUFLayers ls = Inr (hd ys\<lparr>splitParts := map to_part ys\<rparr>)"
      using True Inr assms(2) a unfolding mergeSplitGGUFLayers_def assms(1) by simp
    then show ?thesis using True Inr by (simp add: ys_def)
  qed (use True assms(2) in \<open>simp add: mergeSplitGGUFLayers_def assms(1)\<close>)
qed (use assms(2) in \<open>simp add: mergeSplitGGUFLayers_def assms(1)\<close>)

lemma merge_cases:
  assumes "mergeSplitGGUFLayers ls = Inr p"
  obtains first rest c arr where "ls = first # rest" "splitGGUFUint (layer_KV first) ''split.count'' = Some c"
    "unat c = length ls" "place_parts c (replicate (unat c) None) ls = Inr arr"
    "p = hd (sort_key (\<lambda>l. the (part_no l)) ls)\<lparr>splitParts := map to_part (sort_key (\<lambda>l. the (part_no l)) ls)\<rparr>"
proof -
  obtain first rest where f: "ls = first # rest" using assms by (cases ls) (auto simp: mergeSplitGGUFLayers_def)
  obtain c where c: "splitGGUFUint (layer_KV first) ''split.count'' = Some c"
    using assms f by (cases "splitGGUFUint (layer_KV first) ''split.count''") (auto simp: mergeSplitGGUFLayers_def)
  show thesis using assms merge_iff [OF f c] that [OF f c] by (auto split: if_splits sum.splits)
qed

lemma merge_succeeds_iff:
  assumes "ls = first # rest" "splitGGUFUint (layer_KV first) ''split.count'' = Some c"
  shows "(\<exists>p. mergeSplitGGUFLayers ls = Inr p) \<longleftrightarrow>
    length ls = unat c \<and> mset (map part_no ls) = mset (map Some [0..<unat c])"
proof (cases "length ls = unat c")
  case True
  have "(\<exists>p. mergeSplitGGUFLayers ls = Inr p) \<longleftrightarrow> (\<exists>arr. place_parts c (replicate (unat c) None) ls = Inr arr)"
    using merge_iff [OF assms] True by (auto split: sum.splits)
  also have "\<dots> \<longleftrightarrow> distinct (map part_no ls) \<and> (\<forall>l \<in> set ls. \<exists>i < unat c. part_no l = Some i)"
    using place_parts_sound [of c "replicate (unat c) None" ls] place_parts_complete [of "replicate (unat c) None" c ls] by fastforce
  finally show ?thesis using numbered_iff [OF True] True by simp
qed (use merge_iff [OF assms] in auto)

lemma merge_numbered:
  assumes "mergeSplitGGUFLayers ls = Inr p"
  shows "map part_no (sort_key (\<lambda>l. the (part_no l)) ls) = map Some [0..<length ls]"
proof -
  obtain first rest c where c: "ls = first # rest" "splitGGUFUint (layer_KV first) ''split.count'' = Some c" "unat c = length ls"
    by (rule merge_cases [OF assms])
  have m: "mset (map part_no ls) = mset (map Some [0..<length ls])" using merge_succeeds_iff [OF c(1,2)] assms c(3) by auto
  then have som: "\<forall>l \<in> set ls. part_no l = Some (the (part_no l))" using numbered_iff [OF refl, of ls] by force
  then have "map (\<lambda>l. the (part_no l)) ls = map the (map part_no ls)" by simp
  then have "mset (map (\<lambda>l. the (part_no l)) ls) = mset (map the (map Some [0..<length ls]))" using m by (metis mset_map)
  then have "mset (map (\<lambda>l. the (part_no l)) (sort_key (\<lambda>l. the (part_no l)) ls)) = mset [0..<length ls]" by (simp add: comp_def)
  then have k: "map (\<lambda>l. the (part_no l)) (sort_key (\<lambda>l. the (part_no l)) ls) = [0..<length ls]"
    by (metis properties_for_sort sorted_sort_id sorted_sort_key sorted_upt)
  have "map part_no (sort_key (\<lambda>l. the (part_no l)) ls) = map (\<lambda>l. Some (the (part_no l))) (sort_key (\<lambda>l. the (part_no l)) ls)"
    by (rule map_cong [OF refl]) (use som in auto)
  also have "\<dots> = map Some (map (\<lambda>l. the (part_no l)) (sort_key (\<lambda>l. the (part_no l)) ls))" by (simp only: map_map comp_def)
  finally show ?thesis by (simp only: k)
qed

section \<open>Names\<close>

definition pad5 :: "nat \<Rightarrow> string" where
  "pad5 k = replicate (5 - length (utoa k)) (CHR ''0'') @ utoa k"

lemma length_utoa: "k < 10 ^ n \<Longrightarrow> 0 < n \<Longrightarrow> length (utoa k) \<le> n"
proof (induction n arbitrary: k)
  case (Suc n)
  show ?case
  proof (cases "k < 10")
    case False
    then have "length (utoa (k div 10)) \<le> n" using Suc by (intro Suc.IH) (auto intro: Nat.gr0I)
    then show ?thesis using False by (simp add: utoa.simps [of k])
  qed (simp add: utoa.simps [of k])
qed simp

lemma digits_val_zeros: "digits_val (replicate n (CHR ''0'') @ ds) = digits_val ds"
  by (induction n) (simp_all add: digits_val_def digit_val_def)

lemma pad5_facts:
  assumes "k \<le> 65535"
  shows "length (pad5 k) = 5" "list_all is_digit (pad5 k)" "digits_val (pad5 k) = int k" "ParseUint16 (pad5 k) = Some (word_of_nat k)"
proof -
  have "length (utoa k) \<le> 5" using assms by (intro length_utoa) simp_all
  then show l: "length (pad5 k) = 5" by (simp add: pad5_def)
  have "is_digit (CHR ''0'')" by (simp add: is_digit_def in_range_def)
  then show d: "list_all is_digit (pad5 k)" using utoa_digits [of k] by (auto simp: pad5_def list_all_iff)
  show v: "digits_val (pad5 k) = int k" by (simp add: pad5_def digits_val_zeros digits_val_utoa)
  show "ParseUint16 (pad5 k) = Some (word_of_nat k)" using l d v assms by (auto simp: ParseUint16_def)
qed

lemma path_Base_plain: "s \<noteq> [] \<Longrightarrow> Sep \<notin> set s \<Longrightarrow> path_Base s = s"
proof -
  assume s: "s \<noteq> []" "Sep \<notin> set s"
  have a: "dropWhile (\<lambda>c. c = Sep) (rev s) = rev s" 
  proof (cases "rev s")
    case (Cons c cs)
    then have "c \<in> set s" by (metis list.set_intros(1) set_rev)
    then show ?thesis using Cons s(2) by auto
  qed simp
  have b: "takeWhile (\<lambda>c. c \<noteq> Sep) (rev s) = rev s" using s by (auto simp: takeWhile_eq_all_conv)
  show ?thesis using s(1) by (simp add: path_Base_def Let_def a b)
qed

text \<open>The name of the part with number \<open>i\<close> of \<open>n\<close> is recognised.\<close>

lemma split_name_recognised:
  assumes "i < n" "n \<le> 65535" "CHR 0x0A \<notin> set pre" "Sep \<notin> set pre"
  shows "splitGGUFName (pre @ ''-'' @ pad5 (i + 1) @ ''-of-'' @ pad5 n @ ''.gguf'') = Some (pre, word_of_nat i, word_of_nat n)"
proof -
  note p = pad5_facts [of "i + 1"] pad5_facts [of n]
  define rest where "rest = ''-'' @ pad5 (i + 1) @ ''-of-'' @ pad5 n @ ''.gguf''"
  have r: "length rest = 20" "take 5 (drop 1 rest) = pad5 (i + 1)" "take 5 (drop 10 rest) = pad5 n"
    using p assms by (simp_all add: rest_def)
  have "match_split (pre @ rest) = Some (pre, pad5 (i + 1), pad5 n)"
    using r p assms by (simp add: match_split_def Let_def) (simp add: rest_def)
  moreover have "is_digit (CHR ''/'') = False" by (simp add: is_digit_def in_range_def)
  then have "Sep \<notin> set (pad5 (i + 1))" "Sep \<notin> set (pad5 n)"
    using p(2,6) assms by (auto simp: list_all_iff Sep_def)
  then have "path_Base (pre @ rest) = pre @ rest"
    using assms(4) by (intro path_Base_plain) (auto simp: rest_def Sep_def)
  moreover have w: "(word_of_nat k :: 16 word) \<noteq> 0" if "0 < k" "k \<le> 65535" for k :: nat
    using that by (auto simp: word_of_nat_eq_0_iff dest: dvd_imp_le)
  ultimately have "splitGGUFName (pre @ rest) = Some (pre, word_of_nat i, word_of_nat n)"
    using p assms w [of "i + 1"] w [of n] by (simp add: splitGGUFName_def)
  then show ?thesis by (simp only: rest_def)
qed

section \<open>Properties\<close>

text \<open>C30: The parts of a model are joined exactly when there are as many as the first one says and they are numbered
  from 0 without gap or repetition. The result is the first part, with all parts in the order of their numbers,
  whatever the order in which they were given.\<close>

theorem split_merge_complete:
  assumes "ls = first # rest" "splitGGUFUint (layer_KV first) ''split.count'' = Some c"
  shows "((\<exists>p. mergeSplitGGUFLayers ls = Inr p) \<longleftrightarrow> length ls = unat c \<and> mset (map part_no ls) = mset (map Some [0..<unat c])) \<and>
    (\<forall>p. mergeSplitGGUFLayers ls = Inr p \<longrightarrow>
      (\<exists>ys. mset ys = mset ls \<and> map part_no ys = map Some [0..<unat c] \<and> p = hd ys\<lparr>splitParts := map to_part ys\<rparr>))"
proof (intro conjI allI impI)
  show "(\<exists>p. mergeSplitGGUFLayers ls = Inr p) \<longleftrightarrow> length ls = unat c \<and> mset (map part_no ls) = mset (map Some [0..<unat c])"
    by (rule merge_succeeds_iff [OF assms])
  fix p assume p: "mergeSplitGGUFLayers ls = Inr p"
  let ?ys = "sort_key (\<lambda>l. the (part_no l)) ls"
  have "p = hd ?ys\<lparr>splitParts := map to_part ?ys\<rparr>" by (rule merge_cases [OF p])
  moreover have "length ls = unat c" using p merge_succeeds_iff [OF assms] by auto
  ultimately show "\<exists>ys. mset ys = mset ls \<and> map part_no ys = map Some [0..<unat c] \<and> p = hd ys\<lparr>splitParts := map to_part ys\<rparr>"
    using merge_numbered [OF p] by (intro exI [of _ ?ys]) simp
qed

text \<open>The files that a layer stands for.\<close>

definition pieces :: "layerGGML \<Rightarrow> string list" where
  "pieces l = (if splitParts l = [] then [l_Digest (lg_Layer l)] else map part_Digest (splitParts l))"

abbreviation layer_sum :: "layerGGML \<Rightarrow> string" where
  "layer_sum l \<equiv> l_Digest (lg_Layer l)"

lemma update_group:
  "mset (concat (map snd (AList.update k ((case map_of gs k of Some g \<Rightarrow> g | None \<Rightarrow> []) @ [l]) gs))) =
    add_mset l (mset (concat (map snd gs)))"
  by (induction gs) auto

lemma group_parts_mset:
  "group_parts ls all groups = Inr (all', groups') \<Longrightarrow>
    mset all' + mset (concat (map snd groups')) = mset ls + mset all + mset (concat (map snd groups))"
proof (induction ls arbitrary: all groups)
  case (Cons l ls)
  show ?case
  proof (cases "splitGGUFGroupKey l")
    case (Inr k)
    then show ?thesis
      using Cons.prems Cons.IH update_group [of _ groups l] by (cases k) (fastforce simp del: AList.update.simps)+
  qed (use Cons.prems in simp)
qed simp

lemma merge_pieces:
  assumes "mergeSplitGGUFLayers ls = Inr p"
  shows "mset (pieces p) = mset (map layer_sum ls)"
proof -
  let ?ys = "sort_key (\<lambda>l. the (part_no l)) ls"
  obtain first rest where l: "ls = first # rest" and p: "p = hd ?ys\<lparr>splitParts := map to_part ?ys\<rparr>"
    by (rule merge_cases [OF assms])
  have "?ys \<noteq> []" using l by (metis length_0_conv length_sort list.distinct(1))
  then have "pieces p = map layer_sum ?ys" unfolding p by (simp add: pieces_def to_part_def comp_def)
  then show ?thesis by (simp only: mset_map mset_sort)
qed

lemma merge_groups_pieces:
  "merge_groups gs = Inr ms \<Longrightarrow> mset (concat (map pieces ms)) = mset (map layer_sum (concat (map snd gs)))"
proof (induction gs arbitrary: ms)
  case (Cons g gs)
  then show ?case using merge_pieces by (cases g) (auto split: sum.splits)
qed simp

text \<open>C31: When the files of a model are gathered, every file is accounted for exactly once: it is a layer of its own or
  one of the parts of a joined layer.\<close>

theorem gathering_keeps_every_file:
  assumes "join_split ls = Inr out" "list_all (\<lambda>l. splitParts l = []) ls"
  shows "mset (concat (map pieces out)) = mset (map layer_sum ls)"
proof -
  obtain all groups ms where g: "group_parts ls [] [] = Inr (all, groups)" "merge_groups groups = Inr ms" "out = all @ ms"
    using assms(1) by (auto simp: join_split_def split: sum.splits)
  have m: "mset ls = mset all + mset (concat (map snd groups))" using group_parts_mset [OF g(1)] by simp
  then have "set all \<subseteq> set ls" by (metis mset_subset_eq_add_left set_mset_mono set_mset_mset)
  then have "concat (map pieces all) = map layer_sum all"
    using assms(2) by (induction all) (auto simp: pieces_def list_all_iff)
  then have "mset (concat (map pieces out)) = image_mset layer_sum (mset all + mset (concat (map snd groups)))"
    using merge_groups_pieces [OF g(2)] g(3) by simp
  then show ?thesis using m by simp
qed

text \<open>A model in two files, given in the wrong order.\<close>

definition ex_part :: "16 word \<Rightarrow> string \<Rightarrow> layerGGML" where
  "ex_part i name = \<lparr>lg_Layer = \<lparr>l_MediaType = ''model'', l_Digest = name, l_Size = 1, l_From = name, l_Name = []\<rparr>,
     lg_GGML = Some \<lparr>gg_kv = [(''split.count'', Uint16 2), (''split.no'', Uint16 i)], gg_tensors = [], gg_parameters = 0,
       tensorOffset = 0, Length = 0\<rparr>, rewriteForCreate = True, splitParts = []\<rparr>"

definition ex_files :: "layerGGML list" where
  "ex_files = [ex_part 1 ''m-00002-of-00002.gguf'', ex_part 0 ''m-00001-of-00002.gguf'']"

lemma ex_part_uint:
  "splitGGUFUint (layer_KV (ex_part i name)) ''split.count'' = Some 2" "part_no (ex_part i name) = Some (unat i)"
  by (simp_all add: splitGGUFUint_def part_no_def layer_KV_def ex_part_def)

theorem split_merge_complete_witness:
  "\<exists>p ys. mergeSplitGGUFLayers ex_files = Inr p \<and> mset ys = mset ex_files \<and> map part_no ys = [Some 0, Some 1] \<and>
    p = hd ys\<lparr>splitParts := map to_part ys\<rparr>"
proof -
  have c: "unat (2 :: 16 word) = 2" "[0..<2] = [0, 1 :: nat]" by (simp_all add: upt_rec)
  have "mset (map part_no ex_files) = mset (map Some [0..<unat (2 :: 16 word)])"
    unfolding c by (simp add: ex_files_def ex_part_uint)
  moreover have "length ex_files = unat (2 :: 16 word)" by (simp add: ex_files_def)
  ultimately show ?thesis
    using split_merge_complete [OF ex_files_def ex_part_uint(1)] unfolding c by fastforce
qed

theorem gathering_keeps_every_file_witness:
  "\<exists>out. join_split ex_files = Inr out \<and>
    mset (concat (map pieces out)) = {#''m-00002-of-00002.gguf'', ''m-00001-of-00002.gguf''#}"
proof -
  have "\<not> isl (join_split ex_files)" unfolding ex_files_def ex_part_def by code_simp
  then obtain out where o: "join_split ex_files = Inr out" by (cases "join_split ex_files") auto
  have "list_all (\<lambda>l. splitParts l = []) ex_files" by (simp add: ex_files_def ex_part_def)
  from gathering_keeps_every_file [OF o this] o show ?thesis by (auto simp: ex_files_def ex_part_def)
qed

end
