(* ===== verification/Model_Create.thy ===== *)
theory Model_Create
  imports Split_Gguf Model_Ref
begin

text \<open>
  The creation of a model, after \<open>server/create.go\<close>, \<open>server/quantization.go\<close> and \<open>server/model.go\<close>: base layers from
  a model or from files, quantization, the layers for template, system message, licenses, parameters and messages,
  the configuration and the manifest. What lies outside is in the record \<open>env\<close>: SHA-256, the program
  \<open>llama-quantize\<close>, the parser of templates, the distance between templates, JSON of parameters, messages and configuration.
\<close>

section \<open>Requests and results\<close>

datatype create_error = StoreErr store_error | GgufErr gguf_error | SplitErr split_error | QuantizeErr quantize_error
  | TypeErr type_error | OnlyGGUFSupported | BadTemplate | NotQuantizable | BadParameters | BadConfig | NoFilesProvided
  | OnlyOneAdapter | NeitherFromOrFiles | LinkFailed | InfoPanic | FilePathErr | InvalidDigestErr | InvalidModelName
  | BadLicense

record ConfigV2 =
  c_ModelFormat :: string
  c_ModelFamily :: string
  c_ModelFamilies :: "string list"
  c_ModelType :: string
  c_FileType :: string
  c_Renderer :: string
  c_Parser :: string
  c_Requires :: string
  c_Capabilities :: "string list"
  c_ContextLen :: int
  c_EmbedLen :: int
  c_BaseName :: string
  c_DiffIDs :: "string list"

text \<open>A template of the index: its name, the text that is compared, the text that is used and its parameters.\<close>

record named_template =
  t_Name :: string
  t_Template :: string
  t_Bytes :: string
  t_Parameters :: "string option"

record 'v env =
  sha256 :: "bytes \<Rightarrow> bytes"
  schedule_of :: schedule
  quantize_tool :: "(string \<times> string) list \<Rightarrow> string \<Rightarrow> string \<Rightarrow> string option"
  human_number :: "64 word \<Rightarrow> string"
  enc_params :: "(string \<times> 'v) list \<Rightarrow> string"
  dec_params :: "string \<Rightarrow> (string \<times> 'v) list option"
  enc_messages :: "(string \<times> string) list \<Rightarrow> string"
  enc_config :: "ConfigV2 \<Rightarrow> string"
  dec_config :: "string \<Rightarrow> ConfigV2 option"
  template_ok :: "string \<Rightarrow> bool"
  templates :: "named_template list"
  distance :: "string \<Rightarrow> string \<Rightarrow> nat"
  removal_denied :: "string \<Rightarrow> bool"
  manifest_write :: write_outcome
  pull_write :: write_outcome
  registry_answer :: "Name \<Rightarrow> store_error + Manifest"
  fetch_blob :: "string \<Rightarrow> bytes option"
  noPrune :: bool
  map_order :: "Name list \<Rightarrow> Name list"

text \<open>Values of the request that may have several types; a number is what \<open>int\<close> makes of the JSON number.\<close>

datatype license_value = NoLicense | LicenseText string | LicenseTexts "string list" | LicenseOther

datatype info_value = InfoString string | InfoNumber int | InfoList "string option list" | InfoOther

record 'v CreateRequest =
  r_Model :: string
  r_Quantize :: string
  r_From :: string
  r_Files :: "(string \<times> string) list option"
  r_Template :: string
  r_License :: license_value
  r_System :: string
  r_Parameters :: "(string \<times> 'v) list"
  r_Messages :: "(string \<times> string) list"
  r_Renderer :: string
  r_Parser :: string
  r_Requires :: string
  r_Info :: "(string \<times> info_value) list option"
  r_Name :: string
  r_Quantization :: string

section \<open>Operations with errors on a store\<close>

type_synonym 'a act = "Store \<Rightarrow> (create_error + 'a) \<times> Store"

definition ret :: "'a \<Rightarrow> 'a act" where
  "ret x s = (Inr x, s)"

definition fail :: "create_error \<Rightarrow> 'a act" where
  "fail e s = (Inl e, s)"

definition bind :: "'a act \<Rightarrow> ('a \<Rightarrow> 'b act) \<Rightarrow> 'b act" where
  "bind m f s = (case m s of (Inl e, t) \<Rightarrow> (Inl e, t) | (Inr x, t) \<Rightarrow> f x t)"

definition check :: "create_error + 'a \<Rightarrow> 'a act" where
  "check r = (case r of Inl e \<Rightarrow> fail e | Inr x \<Rightarrow> ret x)"

definition peek :: "(Store \<Rightarrow> store_error + 'a) \<Rightarrow> 'a act" where
  "peek f s = (case f s of Inl e \<Rightarrow> (Inl (StoreErr e), s) | Inr x \<Rightarrow> (Inr x, s))"

fun each :: "('a \<Rightarrow> 'b act) \<Rightarrow> 'a list \<Rightarrow> 'b list act" where
  "each f [] = ret []"
| "each f (x # xs) = bind (f x) (\<lambda>y. bind (each f xs) (\<lambda>ys. ret (y # ys)))"

definition new_layer :: "'v env \<Rightarrow> string \<Rightarrow> string \<Rightarrow> Manifest_Store.Layer act" where
  "new_layer e content mediatype s =
     (case NewLayer (sha256 e) (map (\<lambda>c. word_of_nat (of_char c)) content) mediatype s of
        (Inl x, t) \<Rightarrow> (Inl (StoreErr x), t)
      | (Inr l, t) \<Rightarrow> (Inr l, t))"

text \<open>The content of the blob of a digest.\<close>

definition read_blob :: "string \<Rightarrow> string act" where
  "read_blob digest = peek (\<lambda>s. case BlobsPath digest s of
     Inl e \<Rightarrow> Inl e
   | Inr (a, name) \<Rightarrow> (case map_of (blobs s a) name of None \<Rightarrow> Inl NotExist | Some data \<Rightarrow> Inr (map (\<lambda>b. char_of (unat b)) data)))"

definition decode_file :: "string \<Rightarrow> int \<Rightarrow> gguf act" where
  "decode_file f mx = check (case ggml_Decode f mx of Inl e \<Rightarrow> Inl (GgufErr e) | Inr g \<Rightarrow> Inr g)"

section \<open>Kinds of layers\<close>

definition model_type :: string where "model_type = ''application/vnd.yollama.image.model''"
definition projector_type :: string where "projector_type = ''application/vnd.yollama.image.projector''"
definition adapter_type :: string where "adapter_type = ''application/vnd.yollama.image.adapter''"
definition draft_type :: string where "draft_type = ''application/vnd.yollama.image.draft''"
definition template_type :: string where "template_type = ''application/vnd.yollama.image.template''"
definition system_type :: string where "system_type = ''application/vnd.yollama.image.system''"
definition license_type :: string where "license_type = ''application/vnd.yollama.image.license''"
definition params_type :: string where "params_type = ''application/vnd.yollama.image.params''"
definition messages_type :: string where "messages_type = ''application/vnd.yollama.image.messages''"
definition config_type :: string where "config_type = ''application/vnd.docker.container.image.v1+json''"

lemmas type_defs = model_type_def projector_type_def adapter_type_def draft_type_def template_type_def system_type_def
  license_type_def params_type_def messages_type_def config_type_def

section \<open>Base layers\<close>

definition plain_layer :: "Manifest_Store.Layer \<Rightarrow> gguf option \<Rightarrow> layerGGML" where
  "plain_layer l g = \<lparr>lg_Layer = l, lg_GGML = g, rewriteForCreate = False, splitParts = []\<rparr>"

definition ggufLayersWithMediaType :: "string \<Rightarrow> string \<Rightarrow> string \<Rightarrow> layerGGML list act" where
  "ggufLayersWithMediaType digest sourceName mediaType =
     bind (read_blob digest) (\<lambda>blob.
     if DetectContentType (take 512 blob) \<noteq> ''gguf'' then fail OnlyGGUFSupported
     else bind (decode_file blob (-1)) (\<lambda>f.
       let kv = gg_kv f;
           mt = (if mediaType \<noteq> [] then mediaType
                 else if KV_Kind kv = ''adapter'' then adapter_type
                 else if KV_Uint kv ''block_count'' 0 = 0 \<and> KV_Uint kv ''vision.block_count'' 0 > 0 \<or> KV_Kind kv = ''projector''
                   then projector_type
                 else model_type)
       in bind (peek (NewLayerFromLayer digest mt sourceName)) (\<lambda>l.
          ret [\<lparr>lg_Layer = l, lg_GGML = Some f, rewriteForCreate = True, splitParts = []\<rparr>])))"

text \<open>\<open>template.Named\<close>: the first of the nearest templates, if it is near enough.\<close>

fun nearest :: "(string \<Rightarrow> string \<Rightarrow> nat) \<Rightarrow> string \<Rightarrow> named_template list \<Rightarrow> (nat \<times> named_template) option \<Rightarrow> (nat \<times> named_template) option" where
  "nearest dist s [] best = best"
| "nearest dist s (t # ts) best =
     (let d = dist s (t_Template t) in
      nearest dist s ts (case best of None \<Rightarrow> Some (d, t) | Some (score, b) \<Rightarrow> if d < score then Some (d, t) else best))"

definition Named :: "(string \<Rightarrow> string \<Rightarrow> nat) \<Rightarrow> named_template list \<Rightarrow> string \<Rightarrow> named_template option" where
  "Named dist ts s = (case nearest dist s ts None of Some (score, t) \<Rightarrow> if score < 100 then Some t else None | None \<Rightarrow> None)"

definition detected_layers :: "'v env \<Rightarrow> layerGGML \<Rightarrow> layerGGML list act" where
  "detected_layers e l =
     (let s = ChatTemplate (layer_KV l) in
      if s = [] then ret []
      else (case Named (distance e) (templates e) s of
          None \<Rightarrow> ret []
        | Some t \<Rightarrow>
            bind (new_layer e (t_Bytes t) template_type) (\<lambda>tl.
            case t_Parameters t of
              None \<Rightarrow> ret [plain_layer tl None]
            | Some p \<Rightarrow> bind (new_layer e p params_type) (\<lambda>pl. ret [plain_layer tl None, plain_layer pl None]))))"

definition detectChatTemplate :: "'v env \<Rightarrow> layerGGML list \<Rightarrow> layerGGML list act" where
  "detectChatTemplate e ls = bind (each (detected_layers e) ls) (\<lambda>new. ret (ls @ concat new))"

text \<open>The group of every layer is determined when its file was read.\<close>

definition check_keys :: "layerGGML list \<Rightarrow> layerGGML list act" where
  "check_keys ls = check (case group_parts ls [] [] of Inl x \<Rightarrow> Inl (SplitErr x) | Inr _ \<Rightarrow> Inr ls)"

definition convertModelFromFiles :: "'v env \<Rightarrow> (string \<times> string) list \<Rightarrow> bool \<Rightarrow> string \<Rightarrow> bool \<Rightarrow> layerGGML list act" where
  "convertModelFromFiles e files isAdapter mediaType detectTemplate =
     (if files = [] then fail NoFilesProvided
      else if length files > 1 \<and> isAdapter then fail OnlyOneAdapter
      else bind (each (\<lambda>p. bind (ggufLayersWithMediaType (the (map_of files p)) p mediaType) check_keys) (sort (map fst files))) (\<lambda>lss.
        bind (check (case join_split (concat lss) of Inl x \<Rightarrow> Inl (SplitErr x) | Inr ls \<Rightarrow> Inr ls)) (\<lambda>ls.
        if detectTemplate then detectChatTemplate e ls else ret ls)))"

definition from_layer :: "Name \<Rightarrow> Manifest_Store.Layer \<Rightarrow> layerGGML act" where
  "from_layer n src =
     bind (peek (NewLayerFromLayer (l_Digest src) (l_MediaType src) (DisplayShortest n))) (\<lambda>l.
     let l = l\<lparr>l_Name := l_Name src\<rparr> in
     if l_MediaType l \<in> set [model_type, projector_type, adapter_type, draft_type] then
       bind (read_blob (l_Digest l)) (\<lambda>blob. bind (decode_file blob (-1)) (\<lambda>f. ret (plain_layer l (Some f))))
     else ret (plain_layer l None))"

text \<open>A model that is not there is pulled.\<close>

definition pull_missing :: "'v env \<Rightarrow> Name \<Rightarrow> Store \<Rightarrow> store_error option \<times> Store" where
  "pull_missing e n = PullModel (sha256 e) False (noPrune e) (removal_denied e) (pull_write e) (fetch_blob e) (registry_answer e n) n"

definition parseFromModel :: "'v env \<Rightarrow> Name \<Rightarrow> layerGGML list act" where
  "parseFromModel e n s =
     (case ParseNamedManifest n s of
        Inr (m, _) \<Rightarrow> each (from_layer n) (Layers m) s
      | Inl x \<Rightarrow>
          if x \<noteq> NotExist then (Inl (StoreErr x), s)
          else (case pull_missing e n s of
              (Some y, t) \<Rightarrow> (Inl (StoreErr y), t)
            | (None, t) \<Rightarrow> bind (peek (ParseNamedManifest n)) (\<lambda>(m, _). each (from_layer n) (Layers m)) t))"

section \<open>Quantization\<close>

text \<open>The rule for a tensor: its name, a backslash, and the type of its weights.\<close>

definition weight_rule :: "string \<Rightarrow> string \<Rightarrow> string" where
  "weight_rule name q = name @ [CHR 0x5C] @ ''.weight$='' @ q"

definition llamaQuantizeArgs :: "string \<Rightarrow> FileType \<Rightarrow> string \<Rightarrow> string \<Rightarrow> string \<Rightarrow> string list" where
  "llamaQuantizeArgs arch newFileType input output typeName =
     (let k = newFileType \<in> set [FileTypeQ4_K_S, FileTypeQ4_K_M];
          tt = (\<lambda>ps. concat (map (\<lambda>p. [''--tensor-type'', p]) ps))
      in [''--allow-requantize''] @
         (if typeName = ''COPY'' then []
          else (if arch = ''gemma3n'' \<and> k then tt [weight_rule ''^per_layer_token_embd'' ''f16''] else []) @
               (if arch = ''deepseek2'' \<and> k
                then tt [weight_rule ''attn_k_b'' ''q8_0'', weight_rule ''attn_q_a'' ''q8_0'', weight_rule ''attn_q_b'' ''q8_0'', weight_rule ''attn_v_b'' ''q8_0'',
                  weight_rule ''attn_kv_a_mqa'' ''q8_0''] else []) @
               (if (arch = ''glmocr'' \<or> arch = ''glm4'') \<and> k
                then tt [weight_rule ''^token_embd'' ''f16'', weight_rule ''^output'' ''f16''] else [])) @
         [input, output, typeName])"

definition llamaCppCompatEnv :: string where "llamaCppCompatEnv = ''YOLLAMA_LLAMA_CPP_COMPAT''"

definition disableLlamaCppCompat :: "string list \<Rightarrow> string list" where
  "disableLlamaCppCompat es = filter (\<lambda>x. \<not> HasPrefix x (llamaCppCompatEnv @ ''='')) es @ [llamaCppCompatEnv @ ''=0'']"

definition llamaQuantizeEnv :: "string list \<Rightarrow> bool \<Rightarrow> string list" where
  "llamaQuantizeEnv es enableCompat =
     (if \<not> enableCompat then disableLlamaCppCompat es
      else filter (\<lambda>x. \<not> HasPrefix x (llamaCppCompatEnv @ ''='')) es)"

text \<open>The progress that \<open>runLlamaQuantizeCommand\<close> reports for the lines \<open>[current/total]\<close> of the program: increments in
  bytes.\<close>

fun quantize_progress :: "64 word \<Rightarrow> 64 word \<Rightarrow> (64 word \<times> 64 word) list \<Rightarrow> 64 word list" where
  "quantize_progress totalSize lastReported [] = []"
| "quantize_progress totalSize lastReported ((current, tot) # rest) =
     (if tot > 0 \<and> totalSize * current div tot > lastReported
      then (totalSize * current div tot - lastReported) # quantize_progress totalSize (totalSize * current div tot) rest
      else quantize_progress totalSize lastReported rest)"

text \<open>\<open>prepareSplitGGUFInput\<close>: the parts under their names in one directory; a name that exists is an error.\<close>

fun link_parts :: "splitGGUFPart list \<Rightarrow> (string \<times> string) list \<Rightarrow> (string \<times> string) list act" where
  "link_parts [] dir = ret dir"
| "link_parts (p # ps) dir =
     bind (read_blob (part_Digest p)) (\<lambda>f.
     if map_of dir (path_Base (part_Name p)) \<noteq> None then fail LinkFailed
     else link_parts ps (dir @ [(path_Base (part_Name p), f)]))"

text \<open>\<open>rewriteLayerWithLlamaQuantize\<close>; \<open>rewrite\<close> takes the files of the input directory and the input file.\<close>

definition rewriteLayer :: "'v env \<Rightarrow> layerGGML \<Rightarrow> ((string \<times> string) list \<Rightarrow> string \<Rightarrow> quantize_error + string) \<Rightarrow> layerGGML act" where
  "rewriteLayer e l rewrite =
     bind (read_blob (l_Digest (lg_Layer l))) (\<lambda>fp.
     bind (if splitParts l = [] then ret ([], fp)
           else bind (link_parts (splitParts l) []) (\<lambda>dir. ret (dir, snd (hd dir)))) (\<lambda>(dir, inp).
     bind (check (case rewrite dir inp of Inl x \<Rightarrow> Inl (QuantizeErr x) | Inr f \<Rightarrow> Inr f)) (\<lambda>out.
     bind (new_layer e out (l_MediaType (lg_Layer l))) (\<lambda>nl.
     bind (decode_file out 1024) (\<lambda>g. ret (plain_layer nl (Some g)))))))"

definition quantizeLayer :: "'v env \<Rightarrow> layerGGML \<Rightarrow> string \<Rightarrow> layerGGML act" where
  "quantizeLayer e l quantizeType =
     (case ParseFileType quantizeType of
        Inl x \<Rightarrow> fail (TypeErr x)
      | Inr ftype \<Rightarrow> rewriteLayer e l (\<lambda>dir inp. quantize (quantize_tool e dir) (schedule_of e) inp (the (lg_GGML l)) ftype))"

definition copyLayerWithLlamaQuantize :: "layerGGML \<Rightarrow> layerGGML act" where
  "copyLayerWithLlamaQuantize l = ret l"

text \<open>A file that was written becomes a layer of the same kind and is read again.\<close>

definition relayer :: "'v env \<Rightarrow> string \<Rightarrow> gguf_error + string \<Rightarrow> layerGGML act" where
  "relayer e mediatype r =
     bind (check (case r of Inl x \<Rightarrow> Inl (GgufErr x) | Inr f \<Rightarrow> Inr f)) (\<lambda>f.
     bind (new_layer e f mediatype) (\<lambda>nl.
     bind (decode_file f 1024) (\<lambda>g. ret (plain_layer nl (Some g)))))"

text \<open>The files of a layer with what was read of them.\<close>

definition baseLayerTensors :: "layerGGML \<Rightarrow> (string \<times> gguf) list act" where
  "baseLayerTensors l =
     (if splitParts l = [] then bind (read_blob (l_Digest (lg_Layer l))) (\<lambda>f. ret [(f, the (lg_GGML l))])
      else each (\<lambda>p. bind (read_blob (part_Digest p)) (\<lambda>f. ret (f, part_GGML p))) (splitParts l))"

definition copySplitLayerPreservingTensors :: "'v env \<Rightarrow> layerGGML \<Rightarrow> layerGGML act" where
  "copySplitLayerPreservingTensors e l =
     bind (baseLayerTensors l) (\<lambda>parts. relayer e (l_MediaType (lg_Layer l)) (copySplit (schedule_of e) (the (lg_GGML l)) parts))"

definition llavaLayer :: "'v env \<Rightarrow> layerGGML \<Rightarrow> layerGGML act" where
  "llavaLayer e l =
     bind (read_blob (l_Digest (lg_Layer l))) (\<lambda>f.
       relayer e (l_MediaType (lg_Layer l)) (addDefaultLlavaProjectorType (schedule_of e) f (the (lg_GGML l))))"

definition hasSourceFP8Tensors :: "KV \<Rightarrow> bool" where
  "hasSourceFP8Tensors kv \<longleftrightarrow>
     KV_String kv ''source_quantization'' [] = ''hf_fp8'' \<and>
     (case KV_Strings kv ''source_fp8_tensors'' None of Some xs \<Rightarrow> xs \<noteq> [] | None \<Rightarrow> False)"

definition layerHasEmbeddedCompatibilityTensors :: "layerGGML \<Rightarrow> bool" where
  "layerHasEmbeddedCompatibilityTensors l \<longleftrightarrow>
     (case lg_GGML l of Some g \<Rightarrow> hasEmbeddedCompatibilityTensors g | None \<Rightarrow> False) \<or>
     list_ex (\<lambda>p. hasEmbeddedCompatibilityTensors (part_GGML p)) (splitParts l)"

section \<open>The layers of a new model\<close>

definition float_types :: "string list" where
  "float_types = [''F16'', ''BF16'', ''F32'']"

text \<open>The body of the loop of \<open>createModel\<close> over the base layers that are GGUF files.\<close>

definition quantize_step :: "'v env \<Rightarrow> string \<Rightarrow> layerGGML \<Rightarrow> (layerGGML \<times> bool) act" where
  "quantize_step e requested l =
     (let kv = layer_KV l; mt = l_MediaType (lg_Layer l); ft = KV_FileType kv;
          quantType = (if mt = model_type then ToUpper requested else []);
          quantType = (if quantType = [] \<and> hasSourceFP8Tensors kv \<and> mt = model_type \<and> FileType_String ft \<in> set float_types
                       then ''Q8_0'' else quantType)
      in if quantType \<noteq> [] \<and> mt \<in> set [model_type, draft_type] then
           (case ParseFileType quantType of
              Inl x \<Rightarrow> fail (TypeErr x)
            | Inr want \<Rightarrow>
                if FileType_String ft \<notin> set float_types then fail NotQuantizable
                else if ft \<noteq> want then bind (quantizeLayer e l quantType) (\<lambda>nl. ret (nl, True))
                else ret (l, False))
         else ret (l, False))"

definition describe :: "'v env \<Rightarrow> layerGGML \<Rightarrow> ConfigV2 \<Rightarrow> ConfigV2" where
  "describe e l config =
     (let kv = layer_KV l in
      if l_MediaType (lg_Layer l) = model_type then
        config\<lparr>c_ModelFormat := cmp_Or (c_ModelFormat config) ''gguf'',
          c_ModelFamily := cmp_Or (c_ModelFamily config) (Architecture kv),
          c_ModelType := cmp_Or (c_ModelType config) (human_number e (ParameterCount kv)),
          c_FileType := cmp_Or (c_FileType config) (FileType_String (KV_FileType kv)),
          c_ModelFamilies := c_ModelFamilies config @ [Architecture kv]\<rparr>
      else config)"

definition prepare_layer :: "'v env \<Rightarrow> string \<Rightarrow> layerGGML \<Rightarrow> layerGGML act" where
  "prepare_layer e requested l =
     (if lg_GGML l = None then ret l
      else bind (if rewriteForCreate l \<and> splitParts l \<noteq> [] \<and> layerHasEmbeddedCompatibilityTensors l
                 then copySplitLayerPreservingTensors e l else ret l) (\<lambda>l.
        bind (quantize_step e requested l) (\<lambda>(l, rewrote).
        bind (if \<not> rewrote \<and> rewriteForCreate l \<and> l_MediaType (lg_Layer l) = model_type \<and>
                 \<not> hasEmbeddedCompatibilityTensors (the (lg_GGML l))
              then copyLayerWithLlamaQuantize l else ret l) (\<lambda>l.
        if rewriteForCreate l \<and> l_MediaType (lg_Layer l) = projector_type \<and> needsDefaultLlavaProjectorType (the (lg_GGML l))
        then llavaLayer e l else ret l))))"

fun prepare_layers :: "'v env \<Rightarrow> string \<Rightarrow> layerGGML list \<Rightarrow> ConfigV2 \<Rightarrow> (Manifest_Store.Layer list \<times> ConfigV2) act" where
  "prepare_layers e requested [] config = ret ([], config)"
| "prepare_layers e requested (l # ls) config =
     bind (prepare_layer e requested l) (\<lambda>nl.
     bind (prepare_layers e requested ls (if lg_GGML l = None then config else describe e nl config)) (\<lambda>(rest, config).
     ret (lg_Layer nl # rest, config)))"

fun removeLayer :: "'v env \<Rightarrow> string \<Rightarrow> Manifest_Store.Layer list \<Rightarrow> Manifest_Store.Layer list act" where
  "removeLayer e mediatype [] = ret []"
| "removeLayer e mediatype (l # ls) =
     (\<lambda>s. if l_MediaType l \<noteq> mediatype then bind (removeLayer e mediatype ls) (\<lambda>rest. ret (l # rest)) s
          else removeLayer e mediatype ls (snd (Layer_Remove (removal_denied e) l s)))"

definition append_layer :: "'v env \<Rightarrow> string \<Rightarrow> string \<Rightarrow> Manifest_Store.Layer list \<Rightarrow> Manifest_Store.Layer list act" where
  "append_layer e content mediatype ls = bind (new_layer e content mediatype) (\<lambda>l. ret (ls @ [l]))"

definition setTemplate :: "'v env \<Rightarrow> string \<Rightarrow> Manifest_Store.Layer list \<Rightarrow> Manifest_Store.Layer list act" where
  "setTemplate e t ls =
     bind (removeLayer e template_type ls) (\<lambda>ls.
     if \<not> template_ok e t then fail BadTemplate else append_layer e t template_type ls)"

definition setSystem :: "'v env \<Rightarrow> string \<Rightarrow> Manifest_Store.Layer list \<Rightarrow> Manifest_Store.Layer list act" where
  "setSystem e s ls =
     bind (removeLayer e system_type ls) (\<lambda>ls. if s \<noteq> [] then append_layer e s system_type ls else ret ls)"

definition setLicense :: "'v env \<Rightarrow> string \<Rightarrow> Manifest_Store.Layer list \<Rightarrow> Manifest_Store.Layer list act" where
  "setLicense e l ls = append_layer e l license_type ls"

fun add_licenses :: "'v env \<Rightarrow> string list \<Rightarrow> Manifest_Store.Layer list \<Rightarrow> Manifest_Store.Layer list act" where
  "add_licenses e [] ls = ret ls"
| "add_licenses e (l # lics) ls = bind (setLicense e l ls) (add_licenses e lics)"

definition setLicenses :: "'v env \<Rightarrow> license_value \<Rightarrow> Manifest_Store.Layer list \<Rightarrow> Manifest_Store.Layer list act" where
  "setLicenses e v ls =
     (case v of
        NoLicense \<Rightarrow> ret ls
      | LicenseText l \<Rightarrow> if l \<noteq> [] then setLicense e l ls else ret ls
      | LicenseTexts lics \<Rightarrow> add_licenses e lics ls
      | LicenseOther \<Rightarrow> fail BadLicense)"

text \<open>The parameters of the request come before those of the layers.\<close>

definition merge_params :: "(string \<times> 'v) list \<Rightarrow> (string \<times> 'v) list \<Rightarrow> (string \<times> 'v) list" where
  "merge_params p existing = p @ filter (\<lambda>kv. fst kv \<notin> set (map fst p)) existing"

fun gather_params :: "'v env \<Rightarrow> Manifest_Store.Layer list \<Rightarrow> (string \<times> 'v) list \<Rightarrow> (string \<times> 'v) list act" where
  "gather_params e [] p = ret p"
| "gather_params e (l # ls) p =
     (if l_MediaType l \<noteq> params_type then gather_params e ls p
      else bind (read_blob (l_Digest l)) (\<lambda>f.
        case dec_params e f of
          None \<Rightarrow> fail BadParameters
        | Some existing \<Rightarrow> gather_params e ls (merge_params p existing)))"

definition setParameters :: "'v env \<Rightarrow> (string \<times> 'v) list \<Rightarrow> Manifest_Store.Layer list \<Rightarrow> Manifest_Store.Layer list act" where
  "setParameters e p ls =
     bind (gather_params e ls p) (\<lambda>p.
     if p = [] then ret ls
     else bind (removeLayer e params_type ls) (\<lambda>ls. append_layer e (enc_params e p) params_type ls))"

definition setMessages :: "'v env \<Rightarrow> (string \<times> string) list \<Rightarrow> Manifest_Store.Layer list \<Rightarrow> Manifest_Store.Layer list act" where
  "setMessages e m ls =
     (if m = [] then ret ls
      else bind (removeLayer e messages_type ls) (\<lambda>ls. append_layer e (enc_messages e m) messages_type ls))"

definition createConfigLayer :: "'v env \<Rightarrow> Manifest_Store.Layer list \<Rightarrow> ConfigV2 \<Rightarrow> Manifest_Store.Layer act" where
  "createConfigLayer e ls config = new_layer e (enc_config e (config\<lparr>c_DiffIDs := map l_Digest ls\<rparr>)) config_type"

definition write_manifest :: "'v env \<Rightarrow> Name \<Rightarrow> Manifest_Store.Layer \<Rightarrow> Manifest_Store.Layer list \<Rightarrow> unit act" where
  "write_manifest e n config ls s =
     (case WriteManifest (manifest_write e) n config ls s of
        (Some x, t) \<Rightarrow> (Inl (StoreErr x), t)
      | (None, t) \<Rightarrow> (Inr (), t))"

text \<open>The layers of the model, before the manifest is written.\<close>

definition model_layers :: "'v env \<Rightarrow> 'v CreateRequest \<Rightarrow> layerGGML list \<Rightarrow> ConfigV2 \<Rightarrow> (Manifest_Store.Layer list \<times> ConfigV2) act" where
  "model_layers e r base config =
     bind (prepare_layers e (cmp_Or (r_Quantize r) (r_Quantization r)) base config) (\<lambda>(ls, config).
     bind (if r_Template r \<noteq> [] then setTemplate e (r_Template r) ls else ret ls) (\<lambda>ls.
     bind (if r_System r \<noteq> [] then setSystem e (r_System r) ls else ret ls) (\<lambda>ls.
     bind (setLicenses e (r_License r) ls) (\<lambda>ls.
     bind (setParameters e (r_Parameters r) ls) (\<lambda>ls.
     bind (setMessages e (r_Messages r) ls) (\<lambda>ls. ret (ls, config)))))))"

definition createModel :: "'v env \<Rightarrow> 'v CreateRequest \<Rightarrow> Name \<Rightarrow> layerGGML list \<Rightarrow> ConfigV2 \<Rightarrow> unit act" where
  "createModel e r n base config =
     bind (model_layers e r base config) (\<lambda>(ls, config).
     bind (createConfigLayer e ls config) (\<lambda>c. write_manifest e n c ls))"

section \<open>The request\<close>

text \<open>Settings of the base model that the request leaves open.\<close>

definition inherit :: "ConfigV2 \<Rightarrow> ConfigV2 \<Rightarrow> ConfigV2" where
  "inherit config b =
     config\<lparr>c_Renderer := cmp_Or (c_Renderer config) (c_Renderer b), c_Parser := cmp_Or (c_Parser config) (c_Parser b),
       c_Requires := cmp_Or (c_Requires config) (c_Requires b), c_ModelFormat := cmp_Or (c_ModelFormat config) (c_ModelFormat b),
       c_Capabilities := (if c_Capabilities config = [] then c_Capabilities b else c_Capabilities config)\<rparr>"

definition base_config :: "'v env \<Rightarrow> Name \<Rightarrow> ConfigV2 \<Rightarrow> Store \<Rightarrow> ConfigV2" where
  "base_config e from config s =
     (case ParseNamedManifest from s of
        Inl _ \<Rightarrow> config
      | Inr (m, _) \<Rightarrow>
          if l_Digest (Config m) = [] then config
          else (case read_blob (l_Digest (Config m)) s of
              (Inl _, _) \<Rightarrow> config
            | (Inr f, _) \<Rightarrow> (case dec_config e f of Some b \<Rightarrow> inherit config b | None \<Rightarrow> config)))"

text \<open>The field \<open>Info\<close>: a value of another type than the code expects stops the program.\<close>

definition str_from_info :: "(string \<times> info_value) list \<Rightarrow> string \<Rightarrow> create_error + string" where
  "str_from_info info k = (case map_of info k of None \<Rightarrow> Inr [] | Some (InfoString v) \<Rightarrow> Inr v | Some _ \<Rightarrow> Inl InfoPanic)"

definition num_from_info :: "(string \<times> info_value) list \<Rightarrow> string \<Rightarrow> create_error + int" where
  "num_from_info info k = (case map_of info k of None \<Rightarrow> Inr 0 | Some (InfoNumber v) \<Rightarrow> Inr v | Some _ \<Rightarrow> Inl InfoPanic)"

definition apply_info :: "(string \<times> info_value) list option \<Rightarrow> ConfigV2 \<Rightarrow> ConfigV2 act" where
  "apply_info r_info config =
     (case r_info of
        None \<Rightarrow> ret config
      | Some info \<Rightarrow>
          (let config = (case map_of info ''capabilities'' of
                 Some (InfoList cs) \<Rightarrow> config\<lparr>c_Capabilities := c_Capabilities config @ map (\<lambda>c. case c of Some x \<Rightarrow> x | None \<Rightarrow> []) cs\<rparr>
               | _ \<Rightarrow> config)
           in bind (check (str_from_info info ''model_family'')) (\<lambda>fam.
              let config = config\<lparr>c_ModelFamily := fam, c_ModelFamilies := (if fam \<noteq> [] then [fam] else c_ModelFamilies config)\<rparr> in
              bind (check (str_from_info info ''base_name'')) (\<lambda>bn.
              bind (check (str_from_info info ''quantization_level'')) (\<lambda>ql.
              bind (check (str_from_info info ''parameter_size'')) (\<lambda>ps.
              bind (check (num_from_info info ''context_length'')) (\<lambda>cl.
              bind (check (num_from_info info ''embedding_length'')) (\<lambda>el.
              ret (config\<lparr>c_BaseName := bn, c_FileType := ql, c_ModelType := ps, c_ContextLen := cl, c_EmbedLen := el\<rparr>)))))))))"

text \<open>\<open>parseAndValidateModelRef\<close>, of which the request uses the name.\<close>

definition parseAndValidateModelRef :: "string \<Rightarrow> Name option" where
  "parseAndValidateModelRef raw =
     (case ParseRef raw of
        Inl _ \<Rightarrow> None
      | Inr parsed \<Rightarrow> (let n = ParseName (Base parsed) in if IsValid n then Some n else None))"

text \<open>\<open>fs.ValidPath\<close> on a string of a JSON document.\<close>

definition ValidPath :: "string \<Rightarrow> bool" where
  "ValidPath p \<longleftrightarrow> p = ''.'' \<or> list_all (\<lambda>x. x \<notin> set [[], ''.'', ''..'']) (Split p ''/'')"

fun check_files :: "(string \<times> string) list \<Rightarrow> create_error option" where
  "check_files [] = None"
| "check_files ((v, digest) # fs) =
     (if \<not> ValidPath v then Some FilePathErr
      else if digest = [] then Some InvalidDigestErr
      else check_files fs)"

text \<open>The end of the request: the settings, the model, and the layers of the model that had the name. The result
  lists the errors that were sent and whether the success was.\<close>

type_synonym response = "create_error list \<times> bool"

definition finish :: "'v env \<Rightarrow> 'v CreateRequest \<Rightarrow> Name \<Rightarrow> Manifest option \<Rightarrow> create_error list \<Rightarrow> layerGGML list \<Rightarrow> ConfigV2 \<Rightarrow>
    Store \<Rightarrow> response \<times> Store" where
  "finish e r n oldManifest errs base config s =
     (case bind (apply_info (r_Info r) config) (createModel e r n base) s of
        (Inl x, s) \<Rightarrow> ((errs @ [x], False), s)
      | (Inr _, s) \<Rightarrow>
          (case oldManifest of
             Some m \<Rightarrow>
               if noPrune e then ((errs, True), s)
               else (case RemoveLayers (removal_denied e) m s of
                   ((removed, Some x), s) \<Rightarrow> ((errs @ [StoreErr x], True), s)
                 | ((removed, None), s) \<Rightarrow> ((errs, True), s))
           | None \<Rightarrow> ((errs, True), s)))"

definition create_task :: "'v env \<Rightarrow> 'v CreateRequest \<Rightarrow> Name \<Rightarrow> ConfigV2 \<Rightarrow> Store \<Rightarrow> response \<times> Store" where
  "create_task e r n config s =
     (let old = (case ParseNamedManifest n s of Inl _ \<Rightarrow> None | Inr (m, _) \<Rightarrow> Some m) in
      if r_From r \<noteq> [] then
        (case parseAndValidateModelRef (r_From r) of
           None \<Rightarrow> (([InvalidModelName], False), s)
         | Some from \<Rightarrow>
             (case parseFromModel e from s of
                (Inl x, s) \<Rightarrow> finish e r n old [x] [] config s
              | (Inr base, s) \<Rightarrow> finish e r n old [] base (base_config e from config s) s))
      else (case r_Files r of
          Some files \<Rightarrow>
            (case convertModelFromFiles e files False [] True s of
               (Inl x, s) \<Rightarrow> (([x], False), s)
             | (Inr base, s) \<Rightarrow> finish e r n old [] base config s)
        | None \<Rightarrow> (([NeitherFromOrFiles], False), s)))"

definition first_config :: "'v CreateRequest \<Rightarrow> ConfigV2" where
  "first_config r = \<lparr>c_ModelFormat = [], c_ModelFamily = [], c_ModelFamilies = [], c_ModelType = [], c_FileType = [],
     c_Renderer = r_Renderer r, c_Parser = r_Parser r, c_Requires = r_Requires r, c_Capabilities = [],
     c_ContextLen = 0, c_EmbedLen = 0, c_BaseName = [], c_DiffIDs = []\<rparr>"

definition CreateHandler :: "'v env \<Rightarrow> 'v CreateRequest \<Rightarrow> Store \<Rightarrow> response \<times> Store" where
  "CreateHandler e r s =
     (case check_files (case r_Files r of Some fs \<Rightarrow> fs | None \<Rightarrow> []) of
        Some x \<Rightarrow> (([x], False), s)
      | None \<Rightarrow>
          (let n = ParseName (cmp_Or (r_Model r) (r_Name r)) in
           if \<not> IsValid n then (([InvalidModelName], False), s)
           else (case Manifests True s of
               Inl x \<Rightarrow> (([StoreErr x], False), s)
             | Inr ms \<Rightarrow> create_task e r (getExistingName (map_order e (map fst ms)) n) (first_config r) s)))"

end
