(* ===== verification/Create_Safety.thy ===== *)
theory Create_Safety
  imports Model_Create
begin

text \<open>
  What a request to create a model does to the store: the blobs only grow while the layers are made, the layers that
  are replaced may lose theirs, and the model that is written has all of its layers. A small logic of operations with
  errors, over a relation between the store before and after, carries the proofs.
\<close>

section \<open>Operations with errors\<close>

text \<open>From a store with \<open>P\<close> the operation makes steps \<open>step\<close>, and a result satisfies \<open>Q\<close>.\<close>

definition holds :: "(Store \<Rightarrow> Store \<Rightarrow> bool) \<Rightarrow> (Store \<Rightarrow> bool) \<Rightarrow> 'a act \<Rightarrow> ('a \<Rightarrow> Store \<Rightarrow> bool) \<Rightarrow> bool" where
  "holds step P m Q \<longleftrightarrow> (\<forall>s r t. P s \<and> m s = (r, t) \<longrightarrow> step s t \<and> (\<forall>x. r = Inr x \<longrightarrow> Q x t))"

lemma holdsD: "holds step P m Q \<Longrightarrow> P s \<Longrightarrow> m s = (r, t) \<Longrightarrow> step s t \<and> (\<forall>x. r = Inr x \<longrightarrow> Q x t)"
  unfolding holds_def by blast

locale progress =
  fixes step :: "Store \<Rightarrow> Store \<Rightarrow> bool"
  assumes step_refl: "step s s"
    and step_trans: "step s t \<Longrightarrow> step t u \<Longrightarrow> step s u"
begin

lemma ret_rule: "(\<And>s. P s \<Longrightarrow> Q x s) \<Longrightarrow> holds step P (ret x) Q"
  by (simp add: holds_def ret_def step_refl)

lemma fail_rule: "holds step P (fail x) Q"
  by (simp add: holds_def fail_def step_refl)

lemma bind_rule: "holds step P m Q \<Longrightarrow> (\<And>x. holds step (Q x) (f x) R) \<Longrightarrow> holds step P (bind m f) R"
  unfolding holds_def bind_def
  by (fastforce split: prod.splits sum.splits intro: step_trans)

lemma check_rule: "(\<And>x s. r = Inr x \<Longrightarrow> P s \<Longrightarrow> Q x s) \<Longrightarrow> holds step P (check r) Q"
  by (cases r) (simp_all add: check_def ret_rule fail_rule)

lemma look_rule: "(\<And>x s. f s = Inr x \<Longrightarrow> P s \<Longrightarrow> Q x s) \<Longrightarrow> holds step P (peek f) Q"
  by (auto simp: holds_def peek_def step_refl split: sum.splits)

lemma look_keeps: "holds step P (peek f) (\<lambda>_. P)"
  by (rule look_rule)

lemma check_keeps: "holds step P (check r) (\<lambda>_. P)"
  by (rule check_rule)

lemma weaken_rule: "holds step P m Q \<Longrightarrow> (\<And>s. P' s \<Longrightarrow> P s) \<Longrightarrow> (\<And>x s. Q x s \<Longrightarrow> Q' x s) \<Longrightarrow> holds step P' m Q'"
  unfolding holds_def by blast

text \<open>A fact that survives the steps can be carried along.\<close>

lemma frame_rule:
  assumes "holds step P m Q" "\<And>s t. R s \<Longrightarrow> step s t \<Longrightarrow> R t"
  shows "holds step (\<lambda>s. P s \<and> R s) m (\<lambda>x s. Q x s \<and> R s)"
  using assms unfolding holds_def by blast

lemma each_rule:
  assumes "\<And>x. x \<in> set xs \<Longrightarrow> holds step P (f x) (\<lambda>y t. P t \<and> Q y t)" "\<And>y s t. Q y s \<Longrightarrow> step s t \<Longrightarrow> Q y t"
  shows "holds step P (each f xs) (\<lambda>ys t. P t \<and> (\<forall>y \<in> set ys. Q y t))"
  using assms(1)
proof (induction xs)
  case (Cons x xs)
  have "holds step (\<lambda>t. P t \<and> Q y t) (each f xs) (\<lambda>ys t. (P t \<and> (\<forall>z \<in> set ys. Q z t)) \<and> Q y t)" for y
    by (rule frame_rule) (use Cons assms(2) in auto)
  then have "holds step (\<lambda>t. P t \<and> Q y t) (bind (each f xs) (\<lambda>ys. ret (y # ys))) (\<lambda>ys t. P t \<and> (\<forall>z \<in> set ys. Q z t))" for y
    by (rule bind_rule) (rule ret_rule, auto)
  from bind_rule [OF Cons.prems this] show ?case by simp
qed (auto intro: ret_rule)

end

text \<open>Two kinds of steps: those that only add blobs, and those that change no manifest and keep the models.\<close>

definition grows :: "Store \<Rightarrow> Store \<Rightarrow> bool" where
  "grows s t \<longleftrightarrow> same_manifests s t \<and> (\<forall>d. d \<noteq> [] \<and> has_blob s d \<longrightarrow> has_blob t d)"

definition keeps :: "Store \<Rightarrow> Store \<Rightarrow> bool" where
  "keeps s t \<longleftrightarrow> same_manifests s t \<and> (store_ok s \<longrightarrow> store_ok t)"

interpretation growing: progress grows
  by unfold_locales (auto simp: grows_def intro: same_manifests_trans)

interpretation keeping: progress keeps
  by unfold_locales (auto simp: keeps_def intro: same_manifests_trans)

lemma grows_ok: "store_ok s \<Longrightarrow> grows s t \<Longrightarrow> store_ok t"
  by (rule spares_ok) (auto simp: grows_def spares_def store_ok_def colon_form_def)

lemma grows_keeps: "grows s t \<Longrightarrow> keeps s t"
  using grows_ok by (auto simp: keeps_def grows_def)

lemma holds_keeps: "holds grows P m Q \<Longrightarrow> holds keeps P m Q"
  unfolding holds_def using grows_keeps by blast

text \<open>A layer whose blob is there.\<close>

definition solid :: "Store \<Rightarrow> Manifest_Store.Layer \<Rightarrow> bool" where
  "solid s l \<longleftrightarrow> colon_form (l_Digest l) \<and> has_blob s (l_Digest l)"

lemma solid_grows: "solid s l \<Longrightarrow> grows s t \<Longrightarrow> solid t l"
  by (auto simp: solid_def grows_def colon_form_def)

lemma NewLayer_grows:
  assumes "prim_ok s" "NewLayer sha data mt s = (r, t)"
  shows "grows s t" "r = Inr l \<Longrightarrow> solid t l \<and> l_MediaType l = mt"
proof -
  obtain loc where loc: "BlobsPath (layer_digest sha data) s = Inr loc" using assms(1) by (simp add: BlobsPath_def Path_def Let_def)
  have ne: "layer_digest sha data \<noteq> []" using layer_digest_form by (auto simp: colon_form_def)
  note put = put_blob_spares [OF assms(1) ne loc, of data]
  show "grows s t" using assms(2) loc put by (auto simp: NewLayer_def grows_def split: if_splits)
  show "solid t l \<and> l_MediaType l = mt" if "r = Inr l"
  proof -
    have "has_blob s (layer_digest sha data)" if "map_of (blobs s (fst loc)) (snd loc) \<noteq> None"
      using loc that by (simp add: has_blob_def case_prod_beta)
    then show ?thesis
      using assms(2) loc put that layer_digest_form by (auto simp: NewLayer_def solid_def split: if_splits)
  qed
qed

lemma new_layer_rule: "holds grows store_ok (new_layer e content mt) (\<lambda>l t. store_ok t \<and> solid t l \<and> l_MediaType l = mt)"
  unfolding holds_def new_layer_def
proof (intro allI impI)
  fix s r t
  let ?N = "NewLayer (sha256 e) (map (\<lambda>c. word_of_nat (of_char c)) content) mt s"
  assume "store_ok s \<and> (case ?N of (Inl x, t) \<Rightarrow> (Inl (StoreErr x), t) | (Inr l, t) \<Rightarrow> (Inr l, t)) = (r, t)"
  moreover obtain r' t' where N: "?N = (r', t')" by fastforce
  ultimately have s: "prim_ok s" "store_ok s" "t' = t" "\<And>l. r = Inr l \<Longrightarrow> r' = Inr l"
    by (auto simp: store_ok_def split: sum.splits)
  with NewLayer_grows [OF s(1) N] show "grows s t \<and> (\<forall>x. r = Inr x \<longrightarrow> store_ok t \<and> solid t x \<and> l_MediaType x = mt)"
    using grows_ok by blast
qed

lemma read_blob_rule: "holds grows P (read_blob d) (\<lambda>_. P)"
  unfolding read_blob_def by (rule growing.look_keeps)

lemma decode_file_rule: "holds grows P (decode_file f mx) (\<lambda>_. P)"
  unfolding decode_file_def by (rule growing.check_keeps)

section \<open>The base layers become layers of the model\<close>

text \<open>A layer of kind \<open>mt\<close> whose blob is there.\<close>

definition made :: "string \<Rightarrow> layerGGML \<Rightarrow> Store \<Rightarrow> bool" where
  "made mt l s \<longleftrightarrow> store_ok s \<and> solid s (lg_Layer l) \<and> l_MediaType (lg_Layer l) = mt"

lemma made_plain: "store_ok s \<and> solid s l \<and> l_MediaType l = mt \<Longrightarrow> made mt (plain_layer l g) s"
  by (simp add: made_def plain_layer_def)

lemma stored_rule:
  "holds grows store_ok (bind (new_layer e f mt) (\<lambda>nl. bind (decode_file f mx) (\<lambda>g. ret (plain_layer nl (Some g))))) (made mt)"
  by (rule growing.bind_rule [OF new_layer_rule], rule growing.bind_rule [OF decode_file_rule], rule growing.ret_rule, rule made_plain)

lemma relayer_rule: "holds grows store_ok (relayer e mt r) (made mt)"
  unfolding relayer_def by (rule growing.bind_rule [OF growing.check_keeps stored_rule])

lemma link_parts_rule: "holds grows P (link_parts ps dir) (\<lambda>_. P)"
proof (induction ps arbitrary: dir)
  case (Cons p ps)
  then show ?case
    by (auto intro!: growing.bind_rule [OF read_blob_rule] simp: growing.fail_rule)
qed (simp add: growing.ret_rule)

lemma rewriteLayer_rule: "holds grows store_ok (rewriteLayer e l f) (made (l_MediaType (lg_Layer l)))"
proof -
  have inp: "holds grows store_ok (if splitParts l = [] then ret ([], fp)
      else bind (link_parts (splitParts l) []) (\<lambda>dir. ret (dir, snd (hd dir)))) (\<lambda>_. store_ok)" for fp
    by (simp add: growing.ret_rule growing.bind_rule [OF link_parts_rule])
  show ?thesis
    unfolding rewriteLayer_def
    by (rule growing.bind_rule [OF read_blob_rule growing.bind_rule [OF inp]])
      (auto intro: growing.bind_rule [OF growing.check_keeps stored_rule])
qed

lemma quantizeLayer_rule: "holds grows store_ok (quantizeLayer e l q) (made (l_MediaType (lg_Layer l)))"
  by (simp add: quantizeLayer_def rewriteLayer_rule growing.fail_rule split: sum.split)

lemma copySplitLayer_rule: "holds grows store_ok (copySplitLayerPreservingTensors e l) (made (l_MediaType (lg_Layer l)))"
proof -
  have part: "holds grows store_ok (bind (read_blob (part_Digest p)) (\<lambda>f. ret (f, part_GGML p))) (\<lambda>_ t. store_ok t \<and> True)" for p
    by (rule growing.bind_rule [OF read_blob_rule growing.ret_rule]) simp
  have "holds grows store_ok (each (\<lambda>p. bind (read_blob (part_Digest p)) (\<lambda>f. ret (f, part_GGML p))) (splitParts l)) (\<lambda>_. store_ok)"
    using growing.each_rule [OF part] by (rule growing.weaken_rule) simp_all
  then have "holds grows store_ok (baseLayerTensors l) (\<lambda>_. store_ok)"
    by (simp add: baseLayerTensors_def growing.bind_rule [OF read_blob_rule] growing.ret_rule)
  then show ?thesis unfolding copySplitLayerPreservingTensors_def by (rule growing.bind_rule [OF _ relayer_rule])
qed

lemma llavaLayer_rule: "holds grows store_ok (llavaLayer e l) (made (l_MediaType (lg_Layer l)))"
  unfolding llavaLayer_def by (rule growing.bind_rule [OF read_blob_rule relayer_rule])

text \<open>An operation that makes a layer of the kind of its argument.\<close>

lemma remade_rule:
  assumes "holds grows store_ok m (made (l_MediaType (lg_Layer l)))"
  shows "holds grows (made mt l) m (made mt)"
  using assms by (cases "l_MediaType (lg_Layer l) = mt") (auto simp: holds_def made_def)

lemma quantize_step_rule:
  "holds grows (made mt l) (quantize_step e q l) (\<lambda>(x, _). made mt x)"
proof -
  have "holds grows (made mt l) (bind (quantizeLayer e l y) (\<lambda>nl. ret (nl, True))) (\<lambda>(x, _). made mt x)" for y
    by (rule growing.bind_rule [OF remade_rule [OF quantizeLayer_rule] growing.ret_rule]) simp
  then show ?thesis
    by (auto simp: quantize_step_def Let_def growing.ret_rule growing.fail_rule split: sum.split)
qed

lemma prepare_layer_rule:
  "holds grows (made mt l) (prepare_layer e q l) (\<lambda>x t. made mt x t \<and> (lg_GGML l = None \<longrightarrow> x = l))"
proof (cases "lg_GGML l")
  case (Some g)
  have 1: "holds grows (made mt l) (if c then copySplitLayerPreservingTensors e l else ret l) (made mt)" for c
    by (simp add: remade_rule [OF copySplitLayer_rule] growing.ret_rule)
  have 2: "holds grows (made mt x) (if c then copyLayerWithLlamaQuantize x else ret x) (made mt)" for c x
    by (simp add: copyLayerWithLlamaQuantize_def growing.ret_rule)
  have 3: "holds grows (made mt x) (if c then llavaLayer e x else ret x) (made mt)" for c x
    by (simp add: remade_rule [OF llavaLayer_rule] growing.ret_rule)
  have "holds grows (made mt l) (prepare_layer e q l) (made mt)"
    unfolding prepare_layer_def using Some
    by (simp add: growing.bind_rule [OF 1 growing.bind_rule [OF quantize_step_rule]] growing.bind_rule [OF 2 3] case_prod_beta)
  then show ?thesis using Some by simp
qed (simp add: prepare_layer_def growing.ret_rule)

definition base_solid :: "layerGGML list \<Rightarrow> Store \<Rightarrow> bool" where
  "base_solid base s \<longleftrightarrow> store_ok s \<and> (\<forall>b \<in> set base. solid s (lg_Layer b))"

text \<open>A layer of the model is a base layer, or has the kind of a base layer that is a GGUF file.\<close>

definition stems :: "layerGGML list \<Rightarrow> Manifest_Store.Layer \<Rightarrow> bool" where
  "stems base l \<longleftrightarrow> l \<in> lg_Layer ` set base \<or> (\<exists>b \<in> set base. lg_GGML b \<noteq> None \<and> l_MediaType l = l_MediaType (lg_Layer b))"

lemma stems_Cons: "stems ls l \<Longrightarrow> stems (b # ls) l"
  by (auto simp: stems_def)

lemma prepare_layers_rule:
  "holds grows (base_solid base) (prepare_layers e q base c) (\<lambda>(ls, _) t. store_ok t \<and> (\<forall>l \<in> set ls. solid t l \<and> stems base l))"
proof (induction base arbitrary: c)
  case (Cons b base)
  let ?mt = "l_MediaType (lg_Layer b)"
  let ?got = "\<lambda>x t. (made ?mt x t \<and> (lg_GGML b = None \<longrightarrow> x = b)) \<and> (\<forall>b \<in> set base. solid t (lg_Layer b))"
  have 1: "holds grows (base_solid (b # base)) (prepare_layer e q b) ?got"
    by (rule growing.weaken_rule [OF growing.frame_rule [OF prepare_layer_rule, where R = "\<lambda>s. \<forall>b \<in> set base. solid s (lg_Layer b)"]])
      (auto simp: base_solid_def made_def intro: solid_grows)
  have 2: "holds grows (?got x) (prepare_layers e q base c')
      (\<lambda>(ls, _) t. store_ok t \<and> (\<forall>l \<in> set ls. solid t l \<and> stems base l) \<and> solid t (lg_Layer x) \<and> stems (b # base) (lg_Layer x))" for x c'
  proof (cases "stems (b # base) (lg_Layer x)")
    case True
    show ?thesis
      by (rule growing.weaken_rule [OF growing.frame_rule [OF Cons, where R = "\<lambda>s. solid s (lg_Layer x)"]])
        (auto simp: base_solid_def made_def True intro: solid_grows)
  qed (auto simp: holds_def made_def stems_def)
  have 3: "holds grows (\<lambda>t. store_ok t \<and> (\<forall>l \<in> set ls. solid t l \<and> stems base l) \<and> solid t (lg_Layer x) \<and> stems (b # base) (lg_Layer x))
    (ret (lg_Layer x # ls, c')) (\<lambda>(ls, _) t. store_ok t \<and> (\<forall>l \<in> set ls. solid t l \<and> stems (b # base) l))" for x ls c'
    by (rule growing.ret_rule) (auto intro: stems_Cons)
  show ?case
    by (simp, rule growing.bind_rule [OF 1], rule growing.bind_rule [OF 2]) (simp add: 3 split: prod.split)
qed (simp, rule growing.ret_rule, simp add: base_solid_def)

section \<open>Layers that are replaced\<close>

definition removable :: "string list" where
  "removable = [template_type, system_type, params_type, messages_type]"

lemma Layer_Remove_spares:
  assumes "store_ok s" "colon_form (l_Digest l)"
  shows "spares ({d. colon_form d} - ({l_Digest l} - used s)) s (snd (Layer_Remove deny l s))"
proof -
  have s: "prim_ok s" "mans s Stray = []" using assms(1) by (auto simp: store_ok_def)
  obtain ms where ms: "Manifests True s = Inr ms" using Manifests_total [OF s(1)] by blast
  have "spares ({d. colon_form d} - ({l_Digest l} - used s)) s (snd (remove_blob deny loc s))"
    if "BlobsPath (l_Digest l) s = Inr loc" "l_Digest l \<notin> set (map l_Digest (concat (map (\<lambda>(n, m). all_layers m) ms)))" for loc
  proof -
    have "l_Digest l \<notin> used s" using that(2) used_covered(2) [OF s ms] by blast
    then show ?thesis using assms(2) by (intro remove_spares [OF s(1) that(1)]) auto
  qed
  then show ?thesis unfolding Layer_Remove_def ms by (auto split: sum.split)
qed

lemma removeLayer_run:
  assumes "store_ok s" "\<forall>l \<in> set ls. colon_form (l_Digest l)"
  shows "\<exists>t. removeLayer e mt ls s = (Inr (filter (\<lambda>l. l_MediaType l \<noteq> mt) ls), t) \<and>
    spares ({d. colon_form d} - ({l_Digest l | l. l \<in> set ls \<and> l_MediaType l = mt} - used s)) s t"
  using assms
proof (induction ls arbitrary: s)
  case (Cons l ls)
  let ?gone = "\<lambda>ls. {l_Digest l | l. l \<in> set ls \<and> l_MediaType l = mt}"
  let ?s = "if l_MediaType l \<noteq> mt then s else snd (Layer_Remove (removal_denied e) l s)"
  have sp: "spares ({d. colon_form d} - (?gone (l # ls) - used s)) s ?s"
    using Layer_Remove_spares [OF Cons.prems(1), of l "removal_denied e"] Cons.prems(2) by (auto simp: spares_def)
  have u: "used ?s = used s" using sp used_same by (simp add: spares_def)
  have "store_ok ?s" using Cons.prems Layer_Remove_ok by simp
  from Cons.IH [OF this] Cons.prems(2) obtain t where
    t: "removeLayer e mt ls ?s = (Inr (filter (\<lambda>l. l_MediaType l \<noteq> mt) ls), t)"
       "spares ({d. colon_form d} - (?gone ls - used s)) ?s t" unfolding u by auto
  have "spares ({d. colon_form d} - (?gone (l # ls) - used s)) ?s t" using t(2) by (auto simp: spares_def)
  with sp have "spares ({d. colon_form d} - (?gone (l # ls) - used s)) s t" by (rule spares_trans)
  then show ?case using t(1) by (cases "l_MediaType l = mt") (auto simp: bind_def ret_def)
qed (simp add: ret_def)

text \<open>The digest of a layer is that of a base layer of another kind that no model uses and that may be removed.\<close>

definition loose :: "string set \<Rightarrow> Manifest_Store.Layer set \<Rightarrow> Manifest_Store.Layer \<Rightarrow> bool" where
  "loose U B l \<longleftrightarrow> (\<exists>b \<in> B. l_MediaType b \<in> set removable \<and> l_MediaType b \<noteq> l_MediaType l \<and> l_Digest b = l_Digest l \<and> l_Digest l \<notin> U)"

text \<open>The layers \<open>ls\<close> of the model so far; those of the kinds \<open>K\<close> are still base layers.\<close>

definition layers_ok :: "string set \<Rightarrow> Manifest_Store.Layer set \<Rightarrow> string set \<Rightarrow> Manifest_Store.Layer list \<Rightarrow> Store \<Rightarrow> bool" where
  "layers_ok U B K ls s \<longleftrightarrow> store_ok s \<and> used s = U \<and>
     (\<forall>l \<in> set ls. colon_form (l_Digest l) \<and> (has_blob s (l_Digest l) \<or> loose U B l) \<and> (l_MediaType l \<in> K \<longrightarrow> l \<in> B))"

lemma removeLayer_rule:
  assumes "mt \<in> set removable" "mt \<in> K"
  shows "holds keeps (layers_ok U B K ls) (removeLayer e mt ls) (layers_ok U B K)"
  unfolding holds_def
proof (intro allI impI)
  fix s r t assume a: "layers_ok U B K ls s \<and> removeLayer e mt ls s = (r, t)"
  then have ls: "store_ok s" "used s = U" "\<forall>l \<in> set ls. colon_form (l_Digest l)"
    "\<forall>l \<in> set ls. (has_blob s (l_Digest l) \<or> loose U B l) \<and> (l_MediaType l \<in> K \<longrightarrow> l \<in> B)"
    by (auto simp: layers_ok_def)
  let ?gone = "{l_Digest l | l. l \<in> set ls \<and> l_MediaType l = mt}"
  from removeLayer_run [OF ls(1,3), of e mt] a ls(2) have r: "r = Inr (filter (\<lambda>l. l_MediaType l \<noteq> mt) ls)"
    and sp: "spares ({d. colon_form d} - (?gone - U)) s t" by auto
  have sm: "same_manifests s t" using sp by (simp add: spares_def)
  have "spares (used s) s t" using sp ls(1,2) by (auto simp: spares_def store_ok_def)
  with ls(1) have "store_ok t" by (rule spares_ok)
  moreover have "has_blob t (l_Digest l) \<or> loose U B l" if "l \<in> set ls" "l_MediaType l \<noteq> mt" for l
  proof (cases "loose U B l")
    case False
    have "l_Digest l \<notin> ?gone - U"
    proof
      assume "l_Digest l \<in> ?gone - U"
      then obtain b where "b \<in> set ls" "l_MediaType b = mt" "l_Digest b = l_Digest l" "l_Digest l \<notin> U" by auto
      then have "loose U B l" using assms ls(4) that(2) by (auto simp: loose_def)
      with False show False ..
    qed
    then show ?thesis using False that(1) ls(3,4) sp by (auto simp: spares_def)
  qed simp
  ultimately show "keeps s t \<and> (\<forall>x. r = Inr x \<longrightarrow> layers_ok U B K x t)"
    using sm ls used_same [OF sm] unfolding r by (auto simp: keeps_def layers_ok_def)
qed

lemma layers_ok_grows: "layers_ok U B K ls s \<Longrightarrow> grows s t \<Longrightarrow> layers_ok U B K ls t"
  using grows_ok used_same by (auto simp: layers_ok_def grows_def colon_form_def)

lemma layers_ok_store: "layers_ok U B K ls s \<Longrightarrow> store_ok s"
  by (simp add: layers_ok_def)

lemma append_layer_rule:
  assumes "mt \<notin> K"
  shows "holds keeps (layers_ok U B K ls) (append_layer e content mt ls) (layers_ok U B K)"
proof -
  have "holds grows (layers_ok U B K ls) (new_layer e content mt)
      (\<lambda>l t. (store_ok t \<and> solid t l \<and> l_MediaType l = mt) \<and> layers_ok U B K ls t)"
    by (rule growing.weaken_rule [OF growing.frame_rule [OF new_layer_rule, where R = "layers_ok U B K ls"]])
      (auto intro: layers_ok_grows layers_ok_store)
  then show ?thesis
    unfolding append_layer_def
    by (rule keeping.bind_rule [OF holds_keeps]) (rule keeping.ret_rule, use assms in \<open>auto simp: layers_ok_def solid_def\<close>)
qed

lemma layers_ok_mono: "layers_ok U B K ls s \<Longrightarrow> K' \<subseteq> K \<Longrightarrow> layers_ok U B K' ls s"
  by (auto simp: layers_ok_def)

text \<open>Removal of a kind and a new layer of it.\<close>

lemma replace_rule:
  assumes "mt \<in> set removable" "mt \<in> K"
  shows "holds keeps (layers_ok U B K ls) (bind (removeLayer e mt ls) (\<lambda>ls. append_layer e content mt ls)) (layers_ok U B (K - {mt}))"
proof -
  have "holds keeps (layers_ok U B K ls') (append_layer e content mt ls') (layers_ok U B (K - {mt}))" for ls'
    by (rule keeping.weaken_rule [OF append_layer_rule]) (auto intro: layers_ok_mono)
  then show ?thesis by (rule keeping.bind_rule [OF removeLayer_rule [OF assms]])
qed

section \<open>The layers of the new model\<close>

lemma setTemplate_rule: "holds keeps (layers_ok U B {template_type, system_type, params_type, messages_type} ls)
    (if c then setTemplate e x ls else ret ls) (layers_ok U B {system_type, params_type, messages_type})"
proof -
  let ?K = "{template_type, system_type, params_type, messages_type}"
  have "holds keeps (layers_ok U B ?K ls) (setTemplate e x ls) (layers_ok U B (?K - {template_type}))"
  proof (cases "template_ok e x")
    case True
    then have "setTemplate e x ls = bind (removeLayer e template_type ls) (\<lambda>ls. append_layer e x template_type ls)"
      by (simp add: setTemplate_def)
    then show ?thesis by (simp only:) (rule replace_rule, simp_all add: removable_def)
  next
    case False
    have "holds keeps (layers_ok U B ?K ls) (removeLayer e template_type ls) (layers_ok U B ?K)"
      by (rule removeLayer_rule) (simp_all add: removable_def)
    then show ?thesis unfolding setTemplate_def using False by (simp add: keeping.bind_rule keeping.fail_rule)
  qed
  then show ?thesis by (auto simp: type_defs intro!: keeping.ret_rule intro: layers_ok_mono)
qed

lemma setSystem_rule: "holds keeps (layers_ok U B {system_type, params_type, messages_type} ls)
    (if x \<noteq> [] then setSystem e x ls else ret ls) (layers_ok U B {params_type, messages_type})"
proof -
  let ?K = "{system_type, params_type, messages_type}"
  have "holds keeps (layers_ok U B ?K ls) (bind (removeLayer e system_type ls) (append_layer e x system_type)) (layers_ok U B (?K - {system_type}))"
    by (rule replace_rule) (simp_all add: removable_def)
  then show ?thesis by (auto simp: setSystem_def type_defs intro!: keeping.ret_rule intro: layers_ok_mono)
qed

lemma setLicenses_rule: "holds keeps (layers_ok U B {params_type, messages_type} ls) (setLicenses e v ls)
    (layers_ok U B {params_type, messages_type})"
proof -
  let ?Q = "layers_ok U B {params_type, messages_type}"
  have one: "holds keeps (?Q ls) (setLicense e l ls) ?Q" for l ls
    unfolding setLicense_def by (rule append_layer_rule) (simp add: type_defs)
  have "holds keeps (?Q ls) (add_licenses e lics ls) ?Q" for lics
    by (induction lics arbitrary: ls) (simp_all add: keeping.ret_rule keeping.bind_rule [OF one])
  then show ?thesis by (simp add: setLicenses_def one keeping.ret_rule keeping.fail_rule split: license_value.split)
qed

lemma gather_params_rule: "holds grows P (gather_params e ls p) (\<lambda>_. P)"
proof (induction ls arbitrary: p)
  case (Cons l ls)
  have "holds grows P (case dec_params e f of None \<Rightarrow> fail BadParameters | Some x \<Rightarrow> gather_params e ls (merge_params p x)) (\<lambda>_. P)" for f
    by (simp add: Cons growing.fail_rule split: option.split)
  then show ?case by (simp add: Cons growing.bind_rule [OF read_blob_rule])
qed (simp add: growing.ret_rule)

lemma setParameters_rule: "holds keeps (layers_ok U B {params_type, messages_type} ls) (setParameters e p ls) (layers_ok U B {messages_type})"
proof -
  let ?K = "{params_type, messages_type}"
  have "holds keeps (layers_ok U B ?K ls) (bind (removeLayer e params_type ls) (append_layer e c params_type)) (layers_ok U B (?K - {params_type}))" for c
    by (rule replace_rule) (simp_all add: removable_def)
  then have "holds keeps (layers_ok U B ?K ls)
      (if q = [] then ret ls else bind (removeLayer e params_type ls) (append_layer e (enc_params e q) params_type)) (layers_ok U B {messages_type})" for q
    by (auto simp: type_defs intro!: keeping.ret_rule intro: layers_ok_mono)
  then show ?thesis unfolding setParameters_def by (rule keeping.bind_rule [OF holds_keeps [OF gather_params_rule]])
qed

lemma setMessages_rule: "holds keeps (layers_ok U B {messages_type} ls) (setMessages e m ls) (layers_ok U B {})"
proof -
  have "holds keeps (layers_ok U B {messages_type} ls)
      (bind (removeLayer e messages_type ls) (append_layer e c messages_type)) (layers_ok U B ({messages_type} - {messages_type}))" for c
    by (rule replace_rule) (simp_all add: removable_def)
  then show ?thesis by (auto simp: setMessages_def intro!: keeping.ret_rule intro: layers_ok_mono)
qed

text \<open>Base layers that can become a model: their blobs are there, and no GGUF file is of a kind that is replaced.\<close>

definition base_ok :: "layerGGML list \<Rightarrow> Store \<Rightarrow> bool" where
  "base_ok base s \<longleftrightarrow> (\<forall>b \<in> set base. colon_form (l_Digest (lg_Layer b)) \<and> has_blob s (l_Digest (lg_Layer b)) \<and>
     (lg_GGML b \<noteq> None \<longrightarrow> l_MediaType (lg_Layer b) \<notin> set removable))"

lemma model_layers_rule:
  "holds keeps (\<lambda>s. store_ok s \<and> base_ok base s \<and> used s = U) (model_layers e r base config)
    (\<lambda>(ls, _). layers_ok U (lg_Layer ` set base) {} ls)"
proof (cases "\<forall>b \<in> set base. lg_GGML b \<noteq> None \<longrightarrow> l_MediaType (lg_Layer b) \<notin> set removable")
  case True
  let ?B = "lg_Layer ` set base"
  have stem: "l \<in> ?B" if "stems base l" "l_MediaType l \<in> {template_type, system_type, params_type, messages_type}" for l
    using that True by (auto simp: stems_def removable_def)
  have 1: "holds keeps (\<lambda>s. store_ok s \<and> base_ok base s \<and> used s = U) (prepare_layers e q base config)
    (\<lambda>(ls, _) t. layers_ok U ?B {template_type, system_type, params_type, messages_type} ls t)" for q
    by (rule holds_keeps, rule growing.weaken_rule [OF growing.frame_rule [OF prepare_layers_rule, where R = "\<lambda>s. used s = U"]])
      (auto simp: base_ok_def base_solid_def solid_def grows_def layers_ok_def used_same stem)
  show ?thesis
    unfolding model_layers_def
    by (rule keeping.bind_rule [OF 1], rename_tac p, case_tac p, simp only: prod.case,
        rule keeping.bind_rule [OF setTemplate_rule], rule keeping.bind_rule [OF setSystem_rule], rule keeping.bind_rule [OF setLicenses_rule], rule keeping.bind_rule [OF setParameters_rule],
        rule keeping.bind_rule [OF setMessages_rule], rule keeping.ret_rule, simp)
qed (auto simp: holds_def base_ok_def)

section \<open>The model\<close>

lemma created_layers_rule:
  "holds keeps (\<lambda>s. store_ok s \<and> base_ok base s \<and> used s = U)
    (bind (model_layers e r base config) (\<lambda>(ls, config). bind (createConfigLayer e ls config) (\<lambda>c. ret (c, ls))))
    (\<lambda>(c, ls) t. layers_ok U (lg_Layer ` set base) {} ls t \<and> solid t c)"
proof -
  let ?Q = "layers_ok U (lg_Layer ` set base) {}"
  have "holds grows (?Q ls) (createConfigLayer e ls c) (\<lambda>l t. (store_ok t \<and> solid t l \<and> l_MediaType l = config_type) \<and> ?Q ls t)" for ls c
    unfolding createConfigLayer_def
    by (rule growing.weaken_rule [OF growing.frame_rule [OF new_layer_rule, where R = "?Q ls"]]) (auto intro: layers_ok_grows layers_ok_store)
  then have "holds keeps (?Q ls) (bind (createConfigLayer e ls c) (\<lambda>l. ret (l, ls))) (\<lambda>(c, ls) t. ?Q ls t \<and> solid t c)" for ls c
    by (rule keeping.bind_rule [OF holds_keeps]) (rule keeping.ret_rule, simp)
  then show ?thesis
    by (intro keeping.bind_rule [OF model_layers_rule]) (simp split: prod.split)
qed

lemma createModel_split:
  "createModel e r n base config = bind (bind (model_layers e r base config) (\<lambda>(ls, config).
     bind (createConfigLayer e ls config) (\<lambda>c. ret (c, ls)))) (\<lambda>(c, ls). write_manifest e n c ls)"
  by (rule ext) (simp add: createModel_def bind_def ret_def split: prod.split sum.split)

text \<open>A creation reaches a store with the same models; it fails there, or writes the manifest of layers it has.\<close>

lemma createModel_run:
  assumes "store_ok s" "base_ok base s" "createModel e r n base config s = (x, t)"
  shows "\<exists>u. store_ok u \<and> same_manifests s u \<and> (isl x \<and> t = u \<or>
    (\<exists>c ls. layers_ok (used s) (lg_Layer ` set base) {} ls u \<and> solid u c \<and> write_manifest e n c ls u = (x, t)))"
proof -
  let ?m = "bind (model_layers e r base config) (\<lambda>(ls, config). bind (createConfigLayer e ls config) (\<lambda>c. ret (c, ls)))"
  obtain y u where u: "?m s = (y, u)" by fastforce
  with created_layers_rule [of base "used s" e r config] assms(1,2) have k: "keeps s u"
    and y: "\<And>c ls. y = Inr (c, ls) \<Longrightarrow> layers_ok (used s) (lg_Layer ` set base) {} ls u \<and> solid u c"
    unfolding holds_def by fastforce+
  have "createModel e r n base config s = (case y of Inl x \<Rightarrow> (Inl x, u) | Inr (c, ls) \<Rightarrow> write_manifest e n c ls u)"
    unfolding createModel_split bind_def [of ?m] u by (simp split: sum.split)
  with assms(3) have "isl x \<and> t = u \<or> (\<exists>c ls. y = Inr (c, ls) \<and> write_manifest e n c ls u = (x, t))"
    by (auto split: sum.splits prod.splits)
  moreover have "store_ok u" "same_manifests s u" using k assms(1) by (auto simp: keeps_def)
  ultimately show ?thesis using y by blast
qed

lemma unclaimed_same: "same_manifests s t \<Longrightarrow> unclaimed n t = unclaimed n s"
  by (simp add: same_manifests_def unclaimed_def split: option.split)

lemma write_manifest_ok:
  assumes "store_ok s" "unclaimed n s" "layers_ok U B {} ls s" "solid s c" "\<And>l. l \<in> set ls \<Longrightarrow> \<not> loose U B l"
  shows "store_ok (snd (write_manifest e n c ls s))"
proof -
  have "store_ok (snd (WriteManifest (manifest_write e) n c ls s))"
    using assms by (intro WriteManifest_ok) (auto simp: layers_ok_def solid_def)
  then show ?thesis by (auto simp: write_manifest_def split: prod.split option.split)
qed

text \<open>The manifest that is written stands for the model, and no other model changes.\<close>

lemma write_manifest_result:
  assumes "store_ok s" "unclaimed n s" "write_manifest e n c ls s = (Inr (), t)"
  shows "\<exists>m loc. ParseNamedManifest n t = Inr (m, loc) \<and> Layers m = ls \<and> Config m = c"
    "Filepath n' \<noteq> Filepath n \<Longrightarrow> ParseNamedManifest n' t = ParseNamedManifest n' s"
proof -
  have p: "prim_ok s" using assms(1) by (simp add: store_ok_def)
  obtain rel where rel: "Filepath n = Some rel"
    using assms(3) p by (cases "Filepath n") (auto simp: write_manifest_def WriteManifest_def Path_def)
  let ?m = "\<lparr>SchemaVersion = 2, m_MediaType = ''application/vnd.docker.distribution.manifest.v2+json'', Config = c, Layers = ls\<rparr>"
  have t: "t = put_man (if aux_ok s then AuxPath s else PrimaryPath s) rel (Decodes ?m) s"
    using assms(3) p rel
    by (cases "manifest_write e"; cases "aux_ok s") (auto simp: write_manifest_def WriteManifest_def Path_def Let_def)
  show "\<exists>m loc. ParseNamedManifest n t = Inr (m, loc) \<and> Layers m = ls \<and> Config m = c"
    unfolding t using parse_after_put [OF p assms(2) rel, of ?m] by fastforce
  show "ParseNamedManifest n' t = ParseNamedManifest n' s" if "Filepath n' \<noteq> Filepath n"
    using that rel by (intro parse_elsewhere [of _ _ _ rel]) (simp_all add: t put_man_def update_conv')
qed

lemma write_manifest_fails:
  assumes "write_manifest e n c ls s = (Inl x, t)" "manifest_write e \<noteq> EncodeFails"
  shows "t = s"
  using assms by (cases "manifest_write e") (auto simp: write_manifest_def WriteManifest_def Let_def split: sum.splits option.splits prod.splits)

text \<open>The model that \<open>createModel\<close> leaves, when no layer of it shares its blob with a replaced layer that no model uses.\<close>

lemma createModel_complete:
  assumes "store_ok s" "unclaimed n s" "base_ok base s" "createModel e r n base config s = (Inr (), t)"
    and "\<forall>m loc l. ParseNamedManifest n t = Inr (m, loc) \<and> l \<in> set (Layers m) \<longrightarrow> \<not> loose (used s) (lg_Layer ` set base) l"
  shows "store_ok t" "\<exists>m loc. ParseNamedManifest n t = Inr (m, loc) \<and> list_all (\<lambda>l. colon_form (l_Digest l)) (all_layers m)"
    "Filepath n' \<noteq> Filepath n \<Longrightarrow> ParseNamedManifest n' t = ParseNamedManifest n' s"
proof -
  obtain u c ls where u: "store_ok u" "same_manifests s u" "layers_ok (used s) (lg_Layer ` set base) {} ls u" "solid u c"
    "write_manifest e n c ls u = (Inr (), t)"
    using createModel_run [OF assms(1,3,4)] by auto
  have n: "unclaimed n u" using assms(2) u(2) unclaimed_same by blast
  obtain m loc where m: "ParseNamedManifest n t = Inr (m, loc)" "Layers m = ls" "Config m = c"
    using write_manifest_result(1) [OF u(1) n u(5)] by blast
  have "\<not> loose (used s) (lg_Layer ` set base) l" if "l \<in> set ls" for l using assms(5) m that by blast
  from write_manifest_ok [OF u(1) n u(3,4) this, of e] show "store_ok t" using u(5) by simp
  have "list_all (\<lambda>l. colon_form (l_Digest l)) (all_layers m)"
    using u(3,4) m(2,3) by (auto simp: all_layers_def list_all_iff layers_ok_def solid_def)
  with m(1) show "\<exists>m loc. ParseNamedManifest n t = Inr (m, loc) \<and> list_all (\<lambda>l. colon_form (l_Digest l)) (all_layers m)" by blast
  show "ParseNamedManifest n' t = ParseNamedManifest n' s" if "Filepath n' \<noteq> Filepath n"
    using write_manifest_result(2) [OF u(1) n u(5) that] same_manifests_parse [OF u(2)] by simp
qed

lemma opens_all:
  assumes "store_ok s" "ParseNamedManifest n s = Inr (m, loc)" "list_all (\<lambda>l. colon_form (l_Digest l)) (all_layers m)"
  shows "\<not> list_ex (\<lambda>l. isl (Layer_Open l s)) (all_layers m)"
  using store_ok_opens [OF assms(1,2)] assms(3) by (fastforce simp: list_ex_iff list_all_iff colon_form_def)

section \<open>The request\<close>

lemma from_layer_rule:
  assumes "src \<in> set (Layers m)"
  shows "holds grows (\<lambda>s. store_ok s \<and> (\<exists>loc. ParseNamedManifest n s = Inr (m, loc))) (from_layer k src)
    (\<lambda>b t. (store_ok t \<and> (\<exists>loc. ParseNamedManifest n t = Inr (m, loc))) \<and> base_ok [b] t \<and> l_Digest (lg_Layer b) \<in> used t)"
proof -
  let ?P = "\<lambda>s. store_ok s \<and> (\<exists>loc. ParseNamedManifest n s = Inr (m, loc))"
  let ?Q = "\<lambda>l s. ?P s \<and> solid s l \<and> l_Digest l \<in> used s"
  have 1: "holds grows ?P (peek (NewLayerFromLayer (l_Digest src) (l_MediaType src) x)) ?Q" for x
  proof (rule growing.look_rule)
    fix l s assume l: "NewLayerFromLayer (l_Digest src) (l_MediaType src) x s = Inr l" and P: "?P s"
    then have "l_Digest l = l_Digest src" "l_Digest src \<noteq> []" by (auto simp: NewLayerFromLayer_def split: if_splits sum.splits option.splits)
    with P assms have "l_Digest l \<in> used s" by (fastforce simp: used_def digests_def all_layers_def)
    with P show "?Q l s" by (auto simp: store_ok_def solid_def)
  qed
  have 2: "holds grows (?Q l) (if l_MediaType l \<in> set [model_type, projector_type, adapter_type, draft_type] then
       bind (read_blob (l_Digest l)) (\<lambda>blob. bind (decode_file blob (-1)) (\<lambda>f. ret (plain_layer l (Some f))))
     else ret (plain_layer l None)) (\<lambda>b t. ?P t \<and> base_ok [b] t \<and> l_Digest (lg_Layer b) \<in> used t)" for l
  proof (cases "l_MediaType l \<in> set [model_type, projector_type, adapter_type, draft_type]")
    case True
    then have "l_MediaType l \<notin> set removable" by (auto simp: removable_def type_defs)
    then show ?thesis
      unfolding if_P [OF True]
      by (intro growing.bind_rule [OF read_blob_rule growing.bind_rule [OF decode_file_rule]] growing.ret_rule)
        (simp add: base_ok_def plain_layer_def solid_def)
  next
    case False
    show ?thesis unfolding if_not_P [OF False] by (rule growing.ret_rule) (simp add: base_ok_def plain_layer_def solid_def)
  qed
  have 3: "holds grows (?Q l) (if l_MediaType (l\<lparr>l_Name := y\<rparr>) \<in> set [model_type, projector_type, adapter_type, draft_type] then
       bind (read_blob (l_Digest (l\<lparr>l_Name := y\<rparr>))) (\<lambda>blob. bind (decode_file blob (-1)) (\<lambda>f. ret (plain_layer (l\<lparr>l_Name := y\<rparr>) (Some f))))
     else ret (plain_layer (l\<lparr>l_Name := y\<rparr>) None)) (\<lambda>b t. ?P t \<and> base_ok [b] t \<and> l_Digest (lg_Layer b) \<in> used t)" for l y
    by (rule growing.weaken_rule [OF 2]) (simp_all add: solid_def)
  show ?thesis unfolding from_layer_def Let_def by (rule growing.bind_rule [OF 1 3])
qed

definition from_ok :: "layerGGML list \<Rightarrow> Store \<Rightarrow> bool" where
  "from_ok base s \<longleftrightarrow> base_ok base s \<and> (\<forall>b \<in> set base. l_Digest (lg_Layer b) \<in> used s)"

lemma from_layers_ok:
  assumes "store_ok s" "ParseNamedManifest n s = Inr (m, loc)" "each (from_layer n) (Layers m) s = (r, t)"
  shows "grows s t" "r = Inr base \<Longrightarrow> from_ok base t"
proof -
  have "holds grows (\<lambda>s. store_ok s \<and> (\<exists>loc. ParseNamedManifest n s = Inr (m, loc))) (each (from_layer n) (Layers m))
    (\<lambda>bs t. (store_ok t \<and> (\<exists>loc. ParseNamedManifest n t = Inr (m, loc))) \<and> (\<forall>b \<in> set bs. base_ok [b] t \<and> l_Digest (lg_Layer b) \<in> used t))"
  proof (rule growing.each_rule [OF from_layer_rule])
    fix b s t assume b: "base_ok [b] s \<and> l_Digest (lg_Layer b) \<in> used s" and g: "grows s t"
    then have "same_manifests s t" by (simp add: grows_def)
    from used_same [OF this] have "used t = used s" .
    with b g show "base_ok [b] t \<and> l_Digest (lg_Layer b) \<in> used t" by (auto simp: base_ok_def grows_def colon_form_def)
  qed simp
  from holdsD [OF this _ assms(3)] assms(1,2) show "grows s t" "r = Inr base \<Longrightarrow> from_ok base t"
    by (simp_all add: from_ok_def base_ok_def)
qed

text \<open>A pull leaves the primary directory alone when it writes to the auxiliary one.\<close>

lemma PullModel_frame:
  assumes "store_ok s" "PullModel sha insecure np deny out fetch answer n s = (x, t)"
  shows "aux_ok t = aux_ok s" "aux_ok s \<Longrightarrow> mans t Primary = mans s Primary"
proof -
  have "aux_ok t = aux_ok s \<and> (aux_ok s \<longrightarrow> mans t Primary = mans s Primary)"
  proof (cases "ProtocolScheme n = ''https'' \<and> \<not> insecure \<or> isl answer")
    case False
    then obtain mf where mf: "answer = Inr mf" by (cases answer) auto
    obtain r u where d: "download_layers fetch (pulled_digests mf) [] s = (r, u)" by fastforce
    note dl = download_ok [OF assms(1) d]
    have u: "prim_ok u" "aux_ok u = aux_ok s" "mans u = mans s" using dl assms(1) by (auto simp: same_manifests_def store_ok_def)
    have put: "aux_ok v = aux_ok s \<and> (aux_ok s \<longrightarrow> mans v Primary = mans s Primary)"
      if "same_manifests (put_man a rel f u) v" "PathForPull n u = Inr (a, rel)" for a rel f v
      using that u by (auto simp: same_manifests_def put_man_def PathForPull_def Path_def AuxPath_def split: option.splits)
    show ?thesis
    proof (cases r)
      case (Inr skip)
      then have "verify_layers sha deny skip (pulled_digests mf) u = (None, u)" using dl by (intro verify_layers_accepts) simp
      then have "t = u \<or> (\<exists>a rel f. PathForPull n u = Inr (a, rel) \<and> same_manifests (put_man a rel f u) t)"
        using assms(2) False mf d Inr
        by (cases out) (auto simp: PullModel_def Let_def split: sum.splits if_splits prod.splits
            intro: same_manifests_refl unused_same_manifests)
      then show ?thesis using put u by auto
    qed (use assms(2) False mf d u in \<open>simp add: PullModel_def Let_def split: if_splits\<close>)
  qed (use assms(2) in \<open>auto simp: PullModel_def split: sum.splits if_splits\<close>)
  then show "aux_ok t = aux_ok s" "aux_ok s \<Longrightarrow> mans t Primary = mans s Primary" by simp_all
qed

definition honest_registry :: "'v env \<Rightarrow> bool" where
  "honest_registry e \<longleftrightarrow> (\<forall>n mf. registry_answer e n = Inr mf \<longrightarrow> list_all colon_form (digests mf))"

lemma pull_missing_ok:
  assumes "store_ok s" "\<forall>n. unclaimed n s" "honest_registry e" "pull_missing e n s = (x, t)"
  shows "store_ok t" "\<forall>n. unclaimed n t"
proof -
  have "store_ok (snd (pull_missing e n s))"
    unfolding pull_missing_def
    by (rule PullModel_ok) (use assms(1-3) in \<open>auto simp: honest_registry_def list_all_iff\<close>)
  then show "store_ok t" using assms(4) by simp
  from PullModel_frame [OF assms(1) assms(4) [unfolded pull_missing_def]] assms(2) show "\<forall>n. unclaimed n t"
    by (auto simp: unclaimed_def split: option.splits)
qed

lemma grows_unclaimed: "grows s t \<Longrightarrow> \<forall>n. unclaimed n s \<Longrightarrow> \<forall>n. unclaimed n t"
  using unclaimed_same by (auto simp: grows_def)

lemma parseFromModel_ok:
  assumes "store_ok s" "\<forall>n. unclaimed n s" "honest_registry e" "parseFromModel e n s = (r, t)"
  shows "store_ok t" "\<forall>n. unclaimed n t" "r = Inr base \<Longrightarrow> from_ok base t"
proof -
  have *: "store_ok t \<and> (\<forall>n. unclaimed n t) \<and> (\<forall>base. r = Inr base \<longrightarrow> from_ok base t)"
    if "store_ok u" "\<forall>n. unclaimed n u" "ParseNamedManifest n u = Inr (m, loc)" "each (from_layer n) (Layers m) u = (r, t)" for u m loc
    using from_layers_ok [OF that(1,3,4)] grows_ok [OF that(1)] grows_unclaimed [OF _ that(2)] by blast
  have "store_ok t \<and> (\<forall>n. unclaimed n t) \<and> (\<forall>base. r = Inr base \<longrightarrow> from_ok base t)"
  proof (cases "ParseNamedManifest n s")
    case (Inl x)
    show ?thesis
    proof (cases "x = NotExist")
      case True
      obtain y u where p: "pull_missing e n s = (y, u)" by fastforce
      note pull = pull_missing_ok [OF assms(1-3) p]
      show ?thesis
      proof (cases "ParseNamedManifest n u")
        case (Inr q)
        obtain m loc where q: "q = (m, loc)" by (cases q)
        have "(\<exists>z. r = Inl z \<and> t = u) \<or> each (from_layer n) (Layers m) u = (r, t)"
          using assms(4) Inl True p Inr q by (cases y) (auto simp: parseFromModel_def bind_def peek_def)
        then show ?thesis using * [OF pull Inr [unfolded q]] pull by auto
      qed (use assms(4) Inl True p pull in \<open>cases y; auto simp: parseFromModel_def bind_def peek_def\<close>)
    qed (use assms Inl in \<open>auto simp: parseFromModel_def\<close>)
  next
    case (Inr q)
    obtain m loc where q: "q = (m, loc)" by (cases q)
    show ?thesis using * [OF assms(1,2) Inr [unfolded q]] assms(4) Inr q by (simp add: parseFromModel_def)
  qed
  then show "store_ok t" "\<forall>n. unclaimed n t" "r = Inr base \<Longrightarrow> from_ok base t" by simp_all
qed

lemma apply_info_state: "apply_info i c s = (r, t) \<Longrightarrow> t = s"
proof -
  have "holds (=) (\<lambda>_. True) (apply_info i c) (\<lambda>_ _. True)"
    unfolding apply_info_def Let_def holds_def bind_def check_def ret_def fail_def
    by (auto split: option.splits sum.splits prod.splits)
  then show "apply_info i c s = (r, t) \<Longrightarrow> t = s" by (auto simp: holds_def)
qed

lemma from_not_loose: "from_ok base s \<Longrightarrow> \<not> loose (used s) (lg_Layer ` set base) l"
  by (auto simp: from_ok_def loose_def)

lemma createModel_ok:
  assumes "store_ok s" "unclaimed n s" "base_ok base s" "\<And>l. \<not> loose (used s) (lg_Layer ` set base) l"
  shows "store_ok (snd (createModel e r n base config s))"
proof -
  obtain x t where c: "createModel e r n base config s = (x, t)" by fastforce
  from createModel_run [OF assms(1,3) c] obtain u where u: "store_ok u" "same_manifests s u"
    "isl x \<and> t = u \<or> (\<exists>c ls. layers_ok (used s) (lg_Layer ` set base) {} ls u \<and> solid u c \<and> write_manifest e n c ls u = (x, t))"
    by blast
  have "unclaimed n u" using assms(2) u(2) unclaimed_same by blast
  then have "store_ok t" using u(1,3) write_manifest_ok [OF u(1) _ _ _ assms(4)] by (metis snd_conv)
  then show ?thesis using c by simp
qed

lemma RemoveLayers_same:
  assumes "prim_ok s" "list_all colon_form (digests m)"
  shows "same_manifests s (snd (RemoveLayers deny m s))"
proof -
  have "\<forall>d \<in> set (map l_Digest (all_layers m)). d = [] \<or> colon_form d" using assms(2) by (auto simp: digests_def list_all_iff)
  then have "spares {} s (snd (remove_layers deny us (map l_Digest (all_layers m)) s))" for us
    by (intro remove_layers_spares [OF assms(1)]) auto
  then show ?thesis by (simp add: RemoveLayers_def spares_def split: sum.split)
qed

text \<open>What a successful request promises: the store is well kept and the name stands for a model all of whose layers are there.\<close>

definition complete :: "Name \<Rightarrow> Store \<Rightarrow> bool" where
  "complete n s \<longleftrightarrow> (\<exists>m loc. ParseNamedManifest n s = Inr (m, loc) \<and> list_all (\<lambda>l. colon_form (l_Digest l)) (all_layers m))"

lemma complete_same: "same_manifests s t \<Longrightarrow> complete n t = complete n s"
  by (simp add: complete_def same_manifests_parse)

lemma finish_ok:
  assumes "store_ok s" "unclaimed n s" "from_ok base s" "\<And>m. old = Some m \<Longrightarrow> list_all colon_form (digests m)"
    and "finish e r n old errs base config s = ((errs', success), t)"
  shows "store_ok t" "success \<Longrightarrow> complete n t"
proof -
  obtain x u where c: "bind (apply_info (r_Info r) config) (createModel e r n base) s = (x, u)" by fastforce
  have nl: "\<not> loose (used s) (lg_Layer ` set base) l" for l using assms(3) by (rule from_not_loose)
  have b: "base_ok base s" using assms(3) by (simp add: from_ok_def)
  from c consider (info) "u = s" "isl x" | (model) config' where "createModel e r n base config' s = (x, u)"
    using apply_info_state by (fastforce simp: bind_def split: prod.splits sum.splits)
  then have u: "store_ok u \<and> (\<not> isl x \<longrightarrow> complete n u)"
  proof cases
    case model
    have "complete n u" if "\<not> isl x"
    proof -
      have "x = Inr ()" using that by (cases x) auto
      with model have "createModel e r n base config' s = (Inr (), u)" by simp
      from createModel_complete(2) [OF assms(1,2) b this] nl show ?thesis by (simp add: complete_def)
    qed
    moreover have "store_ok u" using createModel_ok [OF assms(1,2) b nl, of e r config'] model by simp
    ultimately show ?thesis by blast
  qed (use assms(1) in simp)
  have rem: "store_ok v \<and> (complete n u \<longrightarrow> complete n v)" if "old = Some m" "RemoveLayers (removal_denied e) m u = (y, v)" for m y v
  proof -
    have d: "list_all colon_form (digests m)" using assms(4) that(1) by blast
    have "same_manifests u v" using RemoveLayers_same [OF _ d] u that(2) by (metis snd_conv store_ok_def)
    moreover have "store_ok v" using RemoveLayers_ok [of u m] u d that(2) by (metis list_all_iff snd_conv)
    ultimately show ?thesis using complete_same by blast
  qed
  have "store_ok t \<and> (success \<longrightarrow> complete n t)"
    using assms(5) c u rem by (auto simp: finish_def split: sum.splits option.splits if_splits prod.splits)
  then show "store_ok t" "success \<Longrightarrow> complete n t" by simp_all
qed

lemma create_task_ok:
  assumes "store_ok s" "\<forall>n. unclaimed n s" "honest_registry e" "r_From r \<noteq> []" "create_task e r n config s = ((errs, success), t)"
  shows "store_ok t" "success \<Longrightarrow> complete n t"
proof -
  let ?old = "case ParseNamedManifest n s of Inl _ \<Rightarrow> None | Inr (m, _) \<Rightarrow> Some m"
  have old: "list_all colon_form (digests m)" if "?old = Some m" for m
    using that usedI [of n s m] assms(1) by (auto simp: store_ok_def list_all_iff split: sum.splits prod.splits)
  have "store_ok t \<and> (success \<longrightarrow> complete n t)"
  proof (cases "parseAndValidateModelRef (r_From r)")
    case (Some src)
    obtain q u where p: "parseFromModel e src s = (q, u)" by fastforce
    note pf = parseFromModel_ok [OF assms(1-3) p]
    have empty: "from_ok [] u" by (simp add: from_ok_def base_ok_def)
    show ?thesis
    proof (cases q)
      case (Inl x)
      then show ?thesis
        using finish_ok [OF pf(1) _ empty old] pf(2) assms(4,5) Some p by (fastforce simp: create_task_def Let_def)
    next
      case (Inr base)
      then show ?thesis
        using finish_ok [OF pf(1) _ pf(3) [OF Inr] old] pf(2) assms(4,5) Some p by (fastforce simp: create_task_def Let_def)
    qed
  qed (use assms in \<open>simp add: create_task_def Let_def\<close>)
  then show "store_ok t" "success \<Longrightarrow> complete n t" by simp_all
qed

section \<open>Parameters\<close>

text \<open>The parameters that a layer holds.\<close>

definition stored_params :: "'v env \<Rightarrow> Store \<Rightarrow> Manifest_Store.Layer \<Rightarrow> (string \<times> 'v) list" where
  "stored_params e s l = (case fst (read_blob (l_Digest l) s) of Inl _ \<Rightarrow> [] | Inr f \<Rightarrow> (case dec_params e f of None \<Rightarrow> [] | Some p \<Rightarrow> p))"

lemma merge_params_map: "map_of (merge_params p q) = map_of (p @ q)"
proof -
  have "map_of (filter (\<lambda>kv. fst kv \<notin> set (map fst p)) q) k = map_of q k" if "map_of p k = None" for k
    using that by (induction q) (auto simp: map_of_eq_None_iff)
  then show ?thesis by (auto simp: merge_params_def map_add_def fun_eq_iff split: option.split)
qed

lemma read_blob_state: "read_blob d s = (r, t) \<Longrightarrow> t = s"
  by (auto simp: read_blob_def peek_def split: sum.splits)

lemma gather_params_result:
  assumes "gather_params e ls p s = (Inr q, t)"
  shows "t = s \<and> map_of q = map_of (p @ concat (map (stored_params e s) (filter (\<lambda>l. l_MediaType l = params_type) ls)))"
  using assms
proof (induction ls arbitrary: p)
  case (Cons l ls)
  show ?case
  proof (cases "l_MediaType l = params_type")
    case True
    obtain r u where b: "read_blob (l_Digest l) s = (r, u)" by fastforce
    then have u: "u = s" by (rule read_blob_state)
    obtain f x where f: "r = Inr f" "dec_params e f = Some x"
      using Cons.prems True b by (auto simp: bind_def fail_def split: sum.splits option.splits)
    have "gather_params e ls (merge_params p x) s = (Inr q, t)" using Cons.prems True b u f by (simp add: bind_def)
    from Cons.IH [OF this] show ?thesis using True b f by (simp add: merge_params_map stored_params_def)
  qed (use Cons in simp)
qed (simp add: ret_def)

lemma removeLayer_result: "\<exists>t. removeLayer e mt ls s = (Inr (filter (\<lambda>l. l_MediaType l \<noteq> mt) ls), t)"
proof (induction ls arbitrary: s)
  case (Cons l ls)
  from Cons [of s] Cons [of "snd (Layer_Remove (removal_denied e) l s)"] show ?case by (auto simp: bind_def ret_def)
qed (simp add: ret_def)

lemma setParameters_result:
  assumes "setParameters e p ls s = (Inr ls', t)"
  shows "\<exists>q. map_of q = map_of (p @ concat (map (stored_params e s) (filter (\<lambda>l. l_MediaType l = params_type) ls))) \<and>
    (q = [] \<and> ls' = ls \<or> (\<exists>l. ls' = filter (\<lambda>l. l_MediaType l \<noteq> params_type) ls @ [l] \<and> l_MediaType l = params_type \<and>
      l_Digest l = layer_digest (sha256 e) (map (\<lambda>c. word_of_nat (of_char c)) (enc_params e q))))"
proof -
  obtain r u where "gather_params e ls p s = (r, u)" by fastforce
  with assms obtain q where g: "gather_params e ls p s = (Inr q, u)" by (cases r) (auto simp: setParameters_def bind_def)
  note q = gather_params_result [OF g]
  obtain v where v: "removeLayer e params_type ls s = (Inr (filter (\<lambda>l. l_MediaType l \<noteq> params_type) ls), v)"
    using removeLayer_result by blast
  have "q = [] \<and> ls' = ls \<or> (\<exists>l. ls' = filter (\<lambda>l. l_MediaType l \<noteq> params_type) ls @ [l] \<and> l_MediaType l = params_type \<and>
      l_Digest l = layer_digest (sha256 e) (map (\<lambda>c. word_of_nat (of_char c)) (enc_params e q)))"
    using assms g q v
    by (auto simp: setParameters_def append_layer_def new_layer_def NewLayer_def bind_def ret_def split: if_splits sum.splits prod.splits)
  with q show ?thesis by blast
qed

section \<open>Progress\<close>

text \<open>The increments that are reported add up to the last position that was reached, and none is empty.\<close>

lemma quantize_progress_sum:
  "\<exists>p. sum_list (quantize_progress n r ls) = p - r \<and> r \<le> p \<and> list_all (\<lambda>d. 0 < d) (quantize_progress n r ls)"
proof (induction n r ls rule: quantize_progress.induct)
  case (2 n r c t ls)
  show ?case
  proof (cases "t > 0 \<and> n * c div t > r")
    case True
    let ?d = "n * c div t"
    obtain p where p: "sum_list (quantize_progress n ?d ls) = p - ?d" "?d \<le> p" "list_all (\<lambda>d. 0 < d) (quantize_progress n ?d ls)"
      using 2(1) True by blast
    have "0 < ?d - r" using True by (metis diff_eq_diff_less eq_iff_diff_eq_0 less_le not_less word_neq_0_conv)
    then show ?thesis using True p by (intro exI [of _ p]) (auto simp: algebra_simps)
  next
    case False
    then have "quantize_progress n r ((c, t) # ls) = quantize_progress n r ls" by (simp only: quantize_progress.simps if_False)
    then show ?thesis using 2(2) [OF False] by simp
  qed
qed simp

section \<open>Properties\<close>

text \<open>An environment and a request for the examples: the model \<open>host/library/new\<close> from the model of the store \<open>ex_pruned\<close>,
  with a system message, a license and parameters.\<close>

definition ex_env :: "string env" where
  "ex_env = \<lparr>sha256 = id, schedule_of = id, quantize_tool = (\<lambda>_ _ _. None), human_number = (\<lambda>_. []), enc_params = (\<lambda>p. concat (map (\<lambda>(k, v). k @ v) p)),
     dec_params = (\<lambda>f. Some [(''stop'', f)]), enc_messages = (\<lambda>_. []), enc_config = (\<lambda>_. ''{}''), dec_config = (\<lambda>_. None), template_ok = (\<lambda>_. True),
     templates = [], distance = (\<lambda>_ _. 0), removal_denied = (\<lambda>_. False), manifest_write = WriteOK, pull_write = WriteOK,
     registry_answer = (\<lambda>_. Inl NotExist), fetch_blob = (\<lambda>_. None), noPrune = False, map_order = id\<rparr>"

definition ex_request :: "string CreateRequest" where
  "ex_request = \<lparr>r_Model = ''host/library/new'', r_Quantize = [], r_From = ''host/library/m'', r_Files = None, r_Template = [], r_License = LicenseText ''L'',
     r_System = ''S'', r_Parameters = [(''seed'', ''1'')], r_Messages = [], r_Renderer = [], r_Parser = [], r_Requires = [], r_Info = None,
     r_Name = [], r_Quantization = []\<rparr>"

text \<open>The name under which a request creates its model.\<close>

definition target_name :: "'v env \<Rightarrow> 'v CreateRequest \<Rightarrow> Store \<Rightarrow> Name" where
  "target_name e r s = getExistingName (case Manifests True s of Inr ms \<Rightarrow> map_order e (map fst ms) | Inl _ \<Rightarrow> [])
     (ParseName (cmp_Or (r_Model r) (r_Name r)))"


text \<open>The run of the example.\<close>

definition ex_new :: Name where
  "ex_new = ex_name\<lparr>Model := ''new'', ProtocolScheme := ''https''\<rparr>"

definition ex_base :: layerGGML where
  "ex_base = plain_layer (ex_layer\<lparr>l_From := ''host/library/m:latest''\<rparr>) None"

lemma ex_names:
  "ParseName ''host/library/new'' = ex_new" "ParseName ''host/library/m'' = ex_name\<lparr>ProtocolScheme := ''https''\<rparr>"
  "IsValid ex_new" "IsValid (ex_name\<lparr>ProtocolScheme := ''https''\<rparr>)" "getExistingName [ex_name] ex_new = ex_new"
  "DisplayShortest (ex_name\<lparr>ProtocolScheme := ''https''\<rparr>) = ''host/library/m:latest''"
  unfolding ex_new_def ex_name_def by code_simp+

lemma ex_from: "parseAndValidateModelRef ''host/library/m'' = Some (ex_name\<lparr>ProtocolScheme := ''https''\<rparr>)"
proof -
  have "compact ''host/library/m''" by (simp add: IsSpace_def in_range_def)
  then have "TrimSpace ''host/library/m'' = ''host/library/m''" by (rule TrimSpace_compact)
  moreover have "parseSourceSuffix ''host/library/m'' = (''host/library/m'', ModelSourceUnspecified, False)" by code_simp
  ultimately have "ParseRef ''host/library/m'' = Inr \<lparr>Original = ''host/library/m'', Base = ''host/library/m'', Source = ModelSourceUnspecified\<rparr>"
    by (simp add: ParseRef_def Let_def)
  then show ?thesis by (simp add: parseAndValidateModelRef_def ex_names)
qed

lemma ex_models: "Manifests True ex_pruned = Inr [(ex_name, \<lparr>SchemaVersion = 2,
    m_MediaType = ''application/vnd.docker.distribution.manifest.v2+json'', Config = ex_no_config, Layers = [ex_layer]\<rparr>)]"
  "ParseNamedManifest ex_new ex_pruned = Inl NotExist"
  "ParseNamedManifest (ex_name\<lparr>ProtocolScheme := ''https''\<rparr>) ex_pruned = Inr (\<lparr>SchemaVersion = 2,
    m_MediaType = ''application/vnd.docker.distribution.manifest.v2+json'', Config = ex_no_config, Layers = [ex_layer]\<rparr>,
    Primary, ''host/library/m/latest'')"
  "NewLayerFromLayer ''sha256:07'' ''model'' x ex_pruned = Inr (ex_layer\<lparr>l_From := x\<rparr>)"
  unfolding ex_new_def ex_defs by code_simp+

lemma ex_model: "fst (createModel ex_env ex_request ex_new [ex_base] (first_config ex_request) ex_pruned) = Inr ()"
  unfolding ex_new_def ex_base_def ex_defs ex_env_def ex_request_def by code_simp

lemma ex_created: "\<exists>t. CreateHandler ex_env ex_request ex_pruned = (([], True), t)"
proof -
  have r: "r_Files ex_request = None" "r_Model ex_request = ''host/library/new''" "r_From ex_request = ''host/library/m''"
    "r_Info ex_request = None" "cmp_Or ''host/library/new'' x = ''host/library/new''" for x
    by (simp_all add: ex_request_def cmp_Or_def)
  have "from_layer (ex_name\<lparr>ProtocolScheme := ''https''\<rparr>) ex_layer ex_pruned = (Inr ex_base, ex_pruned)"
    using ex_models(4) ex_names(6)
    by (simp add: from_layer_def bind_def peek_def ex_base_def) (simp add: ex_layer_def type_defs ret_def)
  then have p: "parseFromModel ex_env (ex_name\<lparr>ProtocolScheme := ''https''\<rparr>) ex_pruned = (Inr [ex_base], ex_pruned)"
    by (simp add: parseFromModel_def ex_models bind_def ret_def)
  have b: "base_config ex_env (ex_name\<lparr>ProtocolScheme := ''https''\<rparr>) c ex_pruned = c" for c
    by (simp add: base_config_def ex_models ex_no_config_def)
  have mo: "map_order ex_env = id" by (simp add: ex_env_def)
  obtain t where "createModel ex_env ex_request ex_new [ex_base] (first_config ex_request) ex_pruned = (Inr (), t)"
    using ex_model by (metis prod.collapse)
  then have "finish ex_env ex_request ex_new None [] [ex_base] (first_config ex_request) ex_pruned = (([], True), t)"
    by (simp add: finish_def apply_info_def r bind_def ret_def)
  then show ?thesis
    by (simp add: CreateHandler_def create_task_def r ex_names ex_models ex_from p b mo Let_def)
qed




text \<open>C33: A creation that fails, at whatever step before the manifest is cut off while it is written, changes no model
  and leaves every model its layers.\<close>

theorem failed_create_keeps_models:
  assumes "store_ok s" "base_ok base s" "createModel e r n base config s = (Inl x, t)" "manifest_write e \<noteq> EncodeFails"
  shows "store_ok t \<and> (\<forall>n'. ParseNamedManifest n' t = ParseNamedManifest n' s)"
proof -
  obtain u where u: "store_ok u" "same_manifests s u" "t = u \<or> (\<exists>c ls. write_manifest e n c ls u = (Inl x, t))"
    using createModel_run [OF assms(1-3)] by blast
  then have "t = u" using write_manifest_fails [OF _ assms(4)] by blast
  then show ?thesis using u(1) same_manifests_parse [OF u(2)] by simp
qed

theorem failed_create_keeps_models_witness:
  "ParseNamedManifest ex_name (snd (createModel (ex_env\<lparr>template_ok := \<lambda>_. False\<rparr>) (ex_request\<lparr>r_Template := ''t''\<rparr>) ex_new [ex_base]
    (first_config ex_request) ex_pruned)) = ParseNamedManifest ex_name ex_pruned"
proof -
  let ?m = "createModel (ex_env\<lparr>template_ok := \<lambda>_. False\<rparr>) (ex_request\<lparr>r_Template := ''t''\<rparr>) ex_new [ex_base] (first_config ex_request) ex_pruned"
  have "fst ?m = Inl BadTemplate" unfolding ex_new_def ex_base_def ex_defs ex_env_def ex_request_def by code_simp
  then obtain t where t: "?m = (Inl BadTemplate, t)" by (metis prod.collapse)
  have "base_ok [ex_base] ex_pruned" unfolding base_ok_def ex_base_def plain_layer_def ex_defs by code_simp
  moreover have "manifest_write (ex_env\<lparr>template_ok := \<lambda>_. False\<rparr>) \<noteq> EncodeFails" by (simp add: ex_env_def)
  ultimately show ?thesis
    using failed_create_keeps_models [OF managed_ok [OF empty_store_ok ex_managed(2)] _ t] t by simp
qed

text \<open>The parameters of a new model are those of the request, then those of each base layer of parameters in turn:
  the first that sets a parameter decides. They end up in one layer, after the other layers in their order; only a
  model without any parameters keeps its layers as they are.\<close>

theorem parameters_precedence:
  assumes "setParameters e p ls s = (Inr ls', t)"
  shows "\<exists>q. map_of q = map_of (p @ concat (map (stored_params e s) (filter (\<lambda>l. l_MediaType l = params_type) ls))) \<and>
    (q = [] \<and> ls' = ls \<or> (\<exists>l. ls' = filter (\<lambda>l. l_MediaType l \<noteq> params_type) ls @ [l] \<and> l_MediaType l = params_type \<and>
      l_Digest l = layer_digest (sha256 e) (map (\<lambda>c. word_of_nat (of_char c)) (enc_params e q))))"
  using setParameters_result [OF assms] .

theorem parameters_precedence_witness:
  "\<exists>q t. map_of q = map_of [(''seed'', ''1'')] \<and>
    fst (setParameters ex_env [(''seed'', ''1'')] [ex_layer] ex_pruned) = Inr [ex_layer, t] \<and> l_MediaType t = params_type"
proof -
  have "\<not> isl (fst (setParameters ex_env [(''seed'', ''1'')] [ex_layer] ex_pruned))" unfolding ex_defs ex_env_def by code_simp
  then obtain ls t where r: "setParameters ex_env [(''seed'', ''1'')] [ex_layer] ex_pruned = (Inr ls, t)"
    by (metis isl_def prod.collapse sum.exhaust_sel)
  have "l_MediaType ex_layer \<noteq> params_type" by (simp add: ex_layer_def type_defs)
  then have f: "filter (\<lambda>l. l_MediaType l = params_type) [ex_layer] = []" "filter (\<lambda>l. l_MediaType l \<noteq> params_type) [ex_layer] = [ex_layer]" by simp_all
  from parameters_precedence [OF r] obtain q where q: "map_of q = map_of [(''seed'', ''1'')]"
    and ls: "q = [] \<or> (\<exists>l. ls = [ex_layer] @ [l] \<and> l_MediaType l = params_type)" unfolding f by auto
  have "q \<noteq> []" using fun_cong [OF q, of "''seed''"] by auto
  with r ls obtain l where "fst (setParameters ex_env [(''seed'', ''1'')] [ex_layer] ex_pruned) = Inr [ex_layer, l]" "l_MediaType l = params_type" by auto
  with q show ?thesis by blast
qed

section \<open>Observations\<close>

text \<open>A request whose base model cannot be had reports the error, and still creates a model, without layers of the base.\<close>

lemma missing_base_still_creates:
  "\<exists>t. create_task ex_env (ex_request\<lparr>r_From := ''host/library/new''\<rparr>) ex_new (first_config ex_request) ex_pruned =
    (([StoreErr InsecureProtocol], True), t)"
proof -
  let ?r = "ex_request\<lparr>r_From := ''host/library/new''\<rparr>"
  have "compact ''host/library/new''" by (simp add: IsSpace_def in_range_def)
  then have "TrimSpace ''host/library/new'' = ''host/library/new''" by (rule TrimSpace_compact)
  moreover have "parseSourceSuffix ''host/library/new'' = (''host/library/new'', ModelSourceUnspecified, False)" by code_simp
  ultimately have f: "parseAndValidateModelRef ''host/library/new'' = Some ex_new"
    by (simp add: parseAndValidateModelRef_def ParseRef_def Let_def ex_names)
  have "pull_missing ex_env ex_new ex_pruned = (Some InsecureProtocol, ex_pruned)"
    unfolding pull_missing_def by (rule secure_protocol_refused) (simp add: ex_new_def)
  then have p: "parseFromModel ex_env ex_new ex_pruned = (Inl (StoreErr InsecureProtocol), ex_pruned)"
    by (simp add: parseFromModel_def ex_models)
  have "fst (createModel ex_env ?r ex_new [] (first_config ex_request) ex_pruned) = Inr ()"
    unfolding ex_new_def ex_defs ex_env_def ex_request_def by code_simp
  then obtain t where "createModel ex_env ?r ex_new [] (first_config ex_request) ex_pruned = (Inr (), t)" by (metis prod.collapse)
  moreover have "r_Info ?r = None" by (simp add: ex_request_def)
  ultimately have "finish ex_env ?r ex_new None [StoreErr InsecureProtocol] [] (first_config ex_request) ex_pruned = (([StoreErr InsecureProtocol], True), t)"
    by (simp add: finish_def apply_info_def bind_def ret_def)
  then show ?thesis by (simp add: create_task_def ex_models f p Let_def)
qed

text \<open>A model in several parts that is neither quantized nor has tensors to preserve keeps the layer of its first part only.\<close>

lemma split_model_keeps_first_part:
  assumes "mergeSplitGGUFLayers parts = Inr l" "\<not> layerHasEmbeddedCompatibilityTensors l" "\<not> hasSourceFP8Tensors (layer_KV l)"
    and "l_MediaType (lg_Layer l) = model_type"
  shows "prepare_layer e [] l s = (Inr l, s)" "l_Digest (lg_Layer l) \<in> set (map (\<lambda>p. l_Digest (lg_Layer p)) parts)"
proof -
  have t: "ToUpper [] = []" "model_type \<noteq> projector_type" by (simp_all add: ToUpper_def type_defs)
  have "quantize_step e [] l s = (Inr (l, False), s)" using assms(3,4) t(1) by (simp add: quantize_step_def Let_def ret_def)
  then show "prepare_layer e [] l s = (Inr l, s)"
    using assms(2,4) t(2) by (simp add: prepare_layer_def bind_def ret_def copyLayerWithLlamaQuantize_def)
  let ?ys = "sort_key (\<lambda>l. the (part_no l)) parts"
  obtain first rest where l: "parts = first # rest" and p: "l = hd ?ys\<lparr>splitParts := map to_part ?ys\<rparr>"
    by (rule merge_cases [OF assms(1)])
  have "?ys \<noteq> []" using l by (metis length_0_conv length_sort list.distinct(1))
  then have "hd ?ys \<in> set parts" by (metis hd_in_set set_sort)
  then show "l_Digest (lg_Layer l) \<in> set (map (\<lambda>p. l_Digest (lg_Layer p)) parts)" unfolding p by simp
qed

text \<open>A license with the text of a parameter layer that is replaced and that no model uses loses its blob.\<close>

lemma shared_blob_lost:
  "let par = \<lparr>l_MediaType = params_type, l_Digest = ''sha256:08'', l_Size = 1, l_From = [], l_Name = []\<rparr>; lic = par\<lparr>l_MediaType := license_type\<rparr>;
       res = setParameters ex_env [(''seed'', ''1'')] [par, lic] ex_unused
   in \<not> isl (fst res) \<and> \<not> isl (Layer_Open lic ex_unused) \<and> isl (Layer_Open lic (snd res))"
  unfolding ex_defs ex_env_def by code_simp

end
