(* ===== verification/Gguf_Metadata.thy ===== *)
theory Gguf_Metadata
  imports Gguf_Lazy Manifest_Store
begin

text \<open>
  The metadata that the server keeps beside the blobs, after \<open>server/gguf_metadata.go\<close>: the key values of a GGUF file
  are scanned once, normalized through JSON and written to a file named after the digest. A JSON document is
  represented by its value; numbers keep their text, as with \<open>UseNumber\<close>. The texts of floats are a parameter.
\<close>

section \<open>JSON values\<close>

datatype jvalue = JString string | JNumber string | JBool bool | JList "jvalue list"

text \<open>A string in a JSON document: bytes that are not UTF-8 become the replacement character.\<close>

function coerce :: "string \<Rightarrow> string" where
  "coerce s =
     (if s = [] then []
      else (let (r, w) = DecodeRune s in
            (if r = RuneError \<and> w = 1 then [CHR 0xEF, CHR 0xBF, CHR 0xBD] else take w s) @ coerce (drop w s)))"
  by pat_completeness auto
termination
proof (relation "measure length")
  fix s :: string and x r w
  assume "s \<noteq> []" "x = DecodeRune s" "(r, w) = x"
  then have "0 < w" using DecodeRune_width [of s] by (metis snd_conv)
  with \<open>s \<noteq> []\<close> show "(drop w s, s) \<in> measure length" by simp
qed simp

declare coerce.simps [simp del]

text \<open>A byte slice is written in base 64.\<close>

definition base64_digit :: "nat \<Rightarrow> char" where
  "base64_digit n =
     (if n < 26 then char_of (65 + n) else if n < 52 then char_of (71 + n) else if n < 62 then char_of (n - 4)
      else if n = 62 then CHR ''+'' else CHR ''/'')"

fun base64 :: "8 word list \<Rightarrow> string" where
  "base64 (x # y # z # bs) =
     (let n = unat x * 65536 + unat y * 256 + unat z
      in [base64_digit (n div 262144), base64_digit (n div 4096 mod 64), base64_digit (n div 64 mod 64), base64_digit (n mod 64)] @ base64 bs)"
| "base64 [x, y] =
     (let n = unat x * 65536 + unat y * 256
      in [base64_digit (n div 262144), base64_digit (n div 4096 mod 64), base64_digit (n div 64 mod 64), CHR ''=''])"
| "base64 [x] =
     (let n = unat x * 65536 in [base64_digit (n div 262144), base64_digit (n div 4096 mod 64), CHR ''='', CHR ''=''])"
| "base64 [] = []"

record json_env =
  float32_text :: "32 word \<Rightarrow> string"
  float64_text :: "64 word \<Rightarrow> string"

definition jint :: "int \<Rightarrow> jvalue" where
  "jint n = JNumber (Itoa n)"

fun to_json :: "json_env \<Rightarrow> value \<Rightarrow> jvalue" where
  "to_json e (Uint8 x) = jint (uint x)"
| "to_json e (Int8 x) = jint (sint x)"
| "to_json e (Uint16 x) = jint (uint x)"
| "to_json e (Int16 x) = jint (sint x)"
| "to_json e (Uint32 x) = jint (uint x)"
| "to_json e (Int32 x) = jint (sint x)"
| "to_json e (Uint64 x) = jint (uint x)"
| "to_json e (Int64 x) = jint (sint x)"
| "to_json e (Float32 x) = JNumber (float32_text e x)"
| "to_json e (Float64 x) = JNumber (float64_text e x)"
| "to_json e (Bool b) = JBool b"
| "to_json e (String s) = JString (coerce s)"
| "to_json e (Uint8s a) = JString (base64 (values_of a))"
| "to_json e (Int8s a) = JList (map (\<lambda>x. jint (sint x)) (values_of a))"
| "to_json e (Uint16s a) = JList (map (\<lambda>x. jint (uint x)) (values_of a))"
| "to_json e (Int16s a) = JList (map (\<lambda>x. jint (sint x)) (values_of a))"
| "to_json e (Uint32s a) = JList (map (\<lambda>x. jint (uint x)) (values_of a))"
| "to_json e (Int32s a) = JList (map (\<lambda>x. jint (sint x)) (values_of a))"
| "to_json e (Uint64s a) = JList (map (\<lambda>x. jint (uint x)) (values_of a))"
| "to_json e (Int64s a) = JList (map (\<lambda>x. jint (sint x)) (values_of a))"
| "to_json e (Float32s a) = JList (map (\<lambda>x. JNumber (float32_text e x)) (values_of a))"
| "to_json e (Float64s a) = JList (map (\<lambda>x. JNumber (float64_text e x)) (values_of a))"
| "to_json e (Bools a) = JList (map JBool (values_of a))"
| "to_json e (Strings a) = JList (map (\<lambda>s. JString (coerce s)) (values_of a))"

section \<open>Metadata\<close>

record ggufMetadata =
  OllamaVersion :: string
  md_KV :: "(string \<times> jvalue) list"
  Omitted :: "string list"

definition md_lookup :: "ggufMetadata \<Rightarrow> string \<Rightarrow> jvalue option" where
  "md_lookup m key =
     (let key = (if \<not> HasPrefix key ''general.'' \<and> \<not> HasPrefix key ''tokenizer.''
                 then (case map_of (md_KV m) ''general.architecture'' of Some (JString arch) \<Rightarrow> arch | _ \<Rightarrow> []) @ ''.'' @ key
                 else key)
      in map_of (md_KV m) key)"

definition md_Valid :: "ggufMetadata \<Rightarrow> string \<Rightarrow> bool" where
  "md_Valid m key \<longleftrightarrow> md_lookup m key \<noteq> None"

definition md_String :: "ggufMetadata \<Rightarrow> string \<Rightarrow> string" where
  "md_String m key = (case md_lookup m key of Some (JString s) \<Rightarrow> s | _ \<Rightarrow> [])"

definition md_number :: "ggufMetadata \<Rightarrow> string \<Rightarrow> string option" where
  "md_number m key = (case md_lookup m key of Some (JNumber n) \<Rightarrow> Some n | _ \<Rightarrow> None)"

definition md_Int :: "ggufMetadata \<Rightarrow> string \<Rightarrow> int" where
  "md_Int m key =
     (case md_number m key of
        None \<Rightarrow> 0
      | Some n \<Rightarrow> (case Atoi n of Some i \<Rightarrow> i | None \<Rightarrow> 0))"

definition md_Keys :: "ggufMetadata \<Rightarrow> string list" where
  "md_Keys m = map fst (md_KV m) @ Omitted m"

section \<open>Scanning a file\<close>

definition ggufMetadataMaxArray :: nat where
  "ggufMetadataMaxArray = 4096"

definition finite32 :: "32 word \<Rightarrow> bool" where
  "finite32 w \<longleftrightarrow> unat w div 2 ^ 23 mod 2 ^ 8 \<noteq> 255"

definition finite64 :: "64 word \<Rightarrow> bool" where
  "finite64 w \<longleftrightarrow> unat w div 2 ^ 52 mod 2 ^ 11 \<noteq> 2047"

definition too_many :: "'a array \<Rightarrow> bool" where
  "too_many a \<longleftrightarrow> length (values_of a) > ggufMetadataMaxArray"

fun oversized :: "value \<Rightarrow> bool" where
  "oversized (Strings a) = too_many a"
| "oversized (Int8s a) = too_many a"
| "oversized (Int16s a) = too_many a"
| "oversized (Int32s a) = too_many a"
| "oversized (Int64s a) = too_many a"
| "oversized (Uint8s a) = too_many a"
| "oversized (Uint16s a) = too_many a"
| "oversized (Uint32s a) = too_many a"
| "oversized (Uint64s a) = too_many a"
| "oversized (Float32s a) = too_many a"
| "oversized (Float64s a) = too_many a"
| "oversized (Bools a) = too_many a"
| "oversized v = False"

fun omitValue :: "value \<Rightarrow> bool" where
  "omitValue (Float32 f) = (\<not> finite32 f)"
| "omitValue (Float64 f) = (\<not> finite64 f)"
| "omitValue (Float32s a) = (list_ex (\<lambda>f. \<not> finite32 f) (values_of a) \<or> oversized (Float32s a))"
| "omitValue (Float64s a) = (list_ex (\<lambda>f. \<not> finite64 f) (values_of a) \<or> oversized (Float64s a))"
| "omitValue v = oversized v"

definition scan_step :: "KeyValue \<Rightarrow> (string \<times> value) list \<times> string list \<Rightarrow> (string \<times> value) list \<times> string list" where
  "scan_step kv = (\<lambda>(kvs, om).
     (case kv_Value kv of
        None \<Rightarrow> (kvs, om)
      | Some v \<Rightarrow> if omitValue v then (kvs, om @ [kv_Key kv]) else (AList.update (kv_Key kv) v kvs, om)))"

text \<open>\<open>Err\<close> of the file is always nil.\<close>

definition scanGGUFMetadata :: "string \<Rightarrow> lazy_error + (string \<times> value) list \<times> string list" where
  "scanGGUFMetadata file =
     (case Open file of
        Inl e \<Rightarrow> Inl e
      | Inr f \<Rightarrow> Inr (fold scan_step (fst (File_KeyValues (unat (lz_count (keyValues f))) f)) ([], [])))"

text \<open>The document that is marshalled, with the keys of the map in order, read back.\<close>

definition normalized :: "json_env \<Rightarrow> string \<Rightarrow> (string \<times> value) list \<times> string list \<Rightarrow> ggufMetadata" where
  "normalized e ver = (\<lambda>(kvs, om).
     \<lparr>OllamaVersion = coerce ver, md_KV = fold (\<lambda>(k, v). AList.update (coerce k) (to_json e v)) (sort_key fst kvs) [],
       Omitted = map coerce om\<rparr>)"

definition extractGGUFMetadata :: "json_env \<Rightarrow> string \<Rightarrow> string \<Rightarrow> lazy_error + ggufMetadata" where
  "extractGGUFMetadata e ver file =
     (case scanGGUFMetadata file of Inl x \<Rightarrow> Inl x | Inr md \<Rightarrow> Inr (normalized e ver md))"

section \<open>The metadata files\<close>

text \<open>A file of the directory holds metadata or something that does not decode to it.\<close>

datatype mdfile = Metadata ggufMetadata | Unusable

record meta_store =
  ms_store :: Store
  ms_files :: "(string \<times> mdfile) list"

datatype metadata_error = BlobErr store_error | FileErr lazy_error

definition ggufMetadataPath :: "string \<Rightarrow> string" where
  "ggufMetadataPath digest = blob_name digest @ ''.json''"

definition loadGGUFMetadata :: "string \<Rightarrow> meta_store \<Rightarrow> ggufMetadata option" where
  "loadGGUFMetadata path s = (case map_of (ms_files s) path of Some (Metadata md) \<Rightarrow> Some md | _ \<Rightarrow> None)"

definition blob_data :: "area \<times> string \<Rightarrow> meta_store \<Rightarrow> bytes option" where
  "blob_data blob s = map_of (blobs (ms_store s) (fst blob)) (snd blob)"

text \<open>The file is renamed into place; then the writer looks whether the blob is still there.\<close>

definition publish :: "string \<Rightarrow> ggufMetadata \<Rightarrow> meta_store \<Rightarrow> meta_store" where
  "publish path md s = s\<lparr>ms_files := AList.update path (Metadata md) (ms_files s)\<rparr>"

definition remove_file :: "string \<Rightarrow> meta_store \<Rightarrow> meta_store" where
  "remove_file path s = s\<lparr>ms_files := AList.delete path (ms_files s)\<rparr>"

definition recheck :: "string \<Rightarrow> area \<times> string \<Rightarrow> meta_store \<Rightarrow> meta_store" where
  "recheck path blob s = (if blob_data blob s = None then remove_file path s else s)"

definition writeGGUFMetadata :: "bool \<Rightarrow> string \<Rightarrow> area \<times> string \<Rightarrow> ggufMetadata \<Rightarrow> meta_store \<Rightarrow> meta_store" where
  "writeGGUFMetadata written path blob md s = (if written then recheck path blob (publish path md s) else s)"

definition text_of :: "bytes \<Rightarrow> string" where
  "text_of = map (\<lambda>b. char_of (unat b))"

definition readGGUFMetadata :: "json_env \<Rightarrow> string \<Rightarrow> bool \<Rightarrow> string \<Rightarrow> meta_store \<Rightarrow> (metadata_error + ggufMetadata) \<times> meta_store" where
  "readGGUFMetadata e ver written digest s =
     (case loadGGUFMetadata (ggufMetadataPath digest) s of
        Some md \<Rightarrow> (Inr md, s)
      | None \<Rightarrow>
          (case BlobsPath digest (ms_store s) of
             Inl x \<Rightarrow> (Inl (BlobErr x), s)
           | Inr blob \<Rightarrow>
               (case blob_data blob s of
                  None \<Rightarrow> (Inl (BlobErr NotExist), s)
                | Some data \<Rightarrow>
                    (case extractGGUFMetadata e ver (text_of data) of
                       Inl x \<Rightarrow> (Inl (FileErr x), s)
                     | Inr md \<Rightarrow> (Inr md, writeGGUFMetadata written (ggufMetadataPath digest) blob md s)))))"

definition removeGGUFMetadata :: "string list \<Rightarrow> meta_store \<Rightarrow> meta_store" where
  "removeGGUFMetadata ds = fold (\<lambda>d. remove_file (ggufMetadataPath d)) ds"

definition TrimSuffix :: "string \<Rightarrow> string \<Rightarrow> string" where
  "TrimSuffix s p = (if HasSuffix s p then take (length s - length p) s else s)"

definition prune_entry :: "string \<Rightarrow> meta_store \<Rightarrow> meta_store" where
  "prune_entry name s =
     (if \<not> HasSuffix name ''.json'' then s
      else (case BlobsPath (TrimSuffix name ''.json'') (ms_store s) of
          Inl _ \<Rightarrow> s
        | Inr blob \<Rightarrow> if blob_data blob s \<noteq> None then s else remove_file name s))"

definition pruneGGUFMetadata :: "meta_store \<Rightarrow> meta_store" where
  "pruneGGUFMetadata s = fold prune_entry (map fst (ms_files s)) s"

section \<open>The metadata of a file\<close>

lemma coerce_ascii [simp]: "ascii s \<Longrightarrow> coerce s = s"
proof (induction s)
  case (Cons c s)
  then have "byte c < 128" "ascii s" by simp_all
  then show ?case using Cons.IH by (subst coerce.simps) (simp add: RuneError_def)
qed (simp add: coerce.simps)

lemma read_upto_all:
  assumes "\<And>s x s'. rd s = (Inr x, s') \<Longrightarrow> P x" "x \<in> set (fst (read_upto rd n s))"
  shows "P x"
  using assms(2) by (induction n arbitrary: s) (auto split: prod.splits sum.splits dest: assms(1), metis fst_conv)

lemma header_values: "kv \<in> set (v_kvs (whole_header f)) \<Longrightarrow> kv_Value kv \<noteq> None"
proof -
  have "kv_Value kv \<noteq> None" if "File_readKeyValue s = (Inr kv, s')" for kv s s'
    using that by (auto simp: File_readKeyValue_def lbind_def lmap_def lreturn_def split: prod.splits sum.splits)
  then show "kv \<in> set (v_kvs (whole_header f)) \<Longrightarrow> kv_Value kv \<noteq> None"
    using read_upto_all [where P = "\<lambda>kv. kv_Value kv \<noteq> None" and rd = File_readKeyValue]
    by (auto simp: whole_header_def split: prod.splits) (metis fst_conv)
qed

text \<open>What the scan keeps of the value of a key.\<close>

definition kept :: "value option \<Rightarrow> value option" where
  "kept v = (case v of Some x \<Rightarrow> if omitValue x then None else Some x | None \<Rightarrow> None)"

lemma scan_fold:
  assumes "distinct (map kv_Key xs)" "distinct (map fst kvs)" "set (map fst kvs) \<inter> set (map kv_Key xs) = {}"
  shows "distinct (map fst (fst (fold scan_step xs (kvs, om)))) \<and>
    map_of (fst (fold scan_step xs (kvs, om))) k =
      (case find (\<lambda>kv. kv_Key kv = k) xs of Some kv \<Rightarrow> kept (kv_Value kv) | None \<Rightarrow> map_of kvs k)"
  using assms
proof (induction xs arbitrary: kvs om)
  case (Cons x xs)
  define kvs' where "kvs' = (case kept (kv_Value x) of Some v \<Rightarrow> AList.update (kv_Key x) v kvs | None \<Rightarrow> kvs)"
  have "\<exists>om'. scan_step x (kvs, om) = (kvs', om')"
    by (cases "kv_Value x"; cases "omitValue (the (kv_Value x))") (simp_all add: scan_step_def kvs'_def kept_def)
  then obtain om' where st: "scan_step x (kvs, om) = (kvs', om')" by blast
  have k: "set (map fst kvs') \<subseteq> insert (kv_Key x) (set (map fst kvs))" "distinct (map fst kvs')"
    "map_of kvs' k = (if kv_Key x = k then (case kept (kv_Value x) of Some v \<Rightarrow> Some v | None \<Rightarrow> map_of kvs k) else map_of kvs k)"
    using Cons.prems(2) by (auto simp: kvs'_def dom_update update_conv' distinct_update split: option.splits)
  have "set (map fst kvs') \<inter> set (map kv_Key xs) = {}" using k(1) Cons.prems(1,3) unfolding list.map list.set distinct.simps by blast
  note ih = Cons.IH [OF _ k(2) this, of om']
  have "map_of kvs (kv_Key x) = None" using Cons.prems(3) by (auto simp: map_of_eq_None_iff)
  moreover have "find (\<lambda>kv. kv_Key kv = kv_Key x) xs = None" using Cons.prems(1) unfolding find_None_iff list.map distinct.simps set_map
    by (metis image_eqI)
  ultimately show ?case using ih Cons.prems(1) k(3) st
    by (auto simp: kept_def split: option.splits)
qed simp

lemma fold_update:
  "distinct (map fst xs) \<Longrightarrow> map_of (fold (\<lambda>(k, v). AList.update k (g v)) xs acc) k =
    (case map_of xs k of Some v \<Rightarrow> Some (g v) | None \<Rightarrow> map_of acc k)"
proof (induction xs arbitrary: acc)
  case (Cons x xs)
  have "map_of xs (fst x) = None" using Cons.prems by (auto simp: map_of_eq_None_iff)
  then show ?case using Cons by (cases x) (auto simp: update_conv' split: option.split)
qed simp

lemma normalized_map:
  assumes "distinct (map fst kvs)" "\<forall>k \<in> fst ` set kvs. coerce k = k"
  shows "map_of (md_KV (normalized e ver (kvs, om))) k = map_option (to_json e) (map_of kvs k)"
proof -
  let ?xs = "sort_key fst kvs"
  have d: "distinct (map fst ?xs)" using assms(1) by (metis mset_eq_imp_distinct_iff mset_map mset_sort)
  have m: "map_of ?xs = map_of kvs" using map_of_inject_set [OF d assms(1)] by simp
  have "fold (\<lambda>(k, v). AList.update (coerce k) (to_json e v)) ?xs [] = fold (\<lambda>(k, v). AList.update k (to_json e v)) ?xs []"
    using assms(2) by (intro List.fold_cong) (auto simp: image_iff)
  then show ?thesis using fold_update [OF d, of "to_json e" "[]" k] m by (simp add: normalized_def split: option.split)
qed

text \<open>The metadata of a file answers a key as the file does, except for values that were left out.\<close>

lemma metadata_lookup:
  assumes "Open file = Inr f" "0 \<le> NumKeyValues f" "distinct (map kv_Key (v_kvs (whole_header f)))"
    and "\<forall>kv \<in> set (v_kvs (whole_header f)). coerce (kv_Key kv) = kv_Key kv"
    and "\<forall>a. kv_Value (first_key ''general.architecture'' (v_kvs (whole_header f))) \<noteq> Some (Uint8s a)"
    and "coerce (value_String (kv_Value (first_key ''general.architecture'' (v_kvs (whole_header f))))) =
      value_String (kv_Value (first_key ''general.architecture'' (v_kvs (whole_header f))))"
    and "extractGGUFMetadata e ver file = Inr md"
  shows "md_lookup md key = map_option (to_json e) (kept (kv_Value (fst (File_KeyValue key f))))"
proof -
  let ?kvs = "v_kvs (whole_header f)"
  note ok = fresh_ok [OF assms(1)]
  have len: "length ?kvs \<le> unat (lz_count (keyValues f))"
  proof -
    have "?kvs = fst (read_upto File_readKeyValue (unat (lz_count (keyValues f))) (f_rest f))"
      by (simp add: whole_header_def split: prod.split)
    then show ?thesis using read_upto_length by metis
  qed
  have "v_NumKV (whole_header f) = NumKeyValues f" by (simp add: whole_header_def split: prod.split)
  then have all: "fst (File_KeyValues (unat (lz_count (keyValues f))) f) = ?kvs"
    using KeyValues_ok [OF ok(1), of "unat (lz_count (keyValues f))"] assms(2) len unfolding ok(2) by simp
  obtain kvs om where so: "fold scan_step ?kvs ([], []) = (kvs, om)" by fastforce
  have sc: "distinct (map fst kvs)" "map_of kvs k = (case find (\<lambda>kv. kv_Key kv = k) ?kvs of Some kv \<Rightarrow> kept (kv_Value kv) | None \<Rightarrow> None)" for k
    using scan_fold [OF assms(3), of "[]" "[]" k] so by (simp_all split: option.splits)
  have fk: "map_of kvs k = kept (kv_Value (first_key k ?kvs))" for k
    unfolding sc(2) by (simp add: first_key_def kept_def split: option.split)
  have keys: "\<forall>k \<in> fst ` set kvs. coerce k = k"
  proof
    fix k assume "k \<in> fst ` set kvs"
    then have "map_of kvs k \<noteq> None" by (simp add: map_of_eq_None_iff)
    then obtain kv where "find (\<lambda>kv. kv_Key kv = k) ?kvs = Some kv" unfolding sc(2) by (auto split: option.splits)
    then show "coerce k = k" using assms(4) find_SomeD by fastforce
  qed
  have md: "md = normalized e ver (kvs, om)"
    using assms(1,7) all so by (simp add: extractGGUFMetadata_def scanGGUFMetadata_def)
  have look: "map_of (md_KV md) k = map_option (to_json e) (kept (kv_Value (first_key k ?kvs)))" for k
    unfolding md normalized_map [OF sc(1) keys] fk ..
  have arch: "(case map_of (md_KV md) ''general.architecture'' of Some (JString arch) \<Rightarrow> arch | _ \<Rightarrow> []) =
      value_String (kv_Value (first_key ''general.architecture'' ?kvs))"
  proof (cases "kv_Value (first_key ''general.architecture'' ?kvs)")
    case (Some v)
    then show ?thesis using assms(5,6) unfolding look by (cases v) (auto simp: kept_def jint_def)
  qed (simp add: look kept_def)
  obtain kv f' where kv: "File_KeyValue key f = (kv, f')" by fastforce
  have "kv = first_key (full_key (whole_header f) key) ?kvs" using KeyValue_ok [OF ok(1) kv] unfolding ok(2) by blast
  then show ?thesis using kv unfolding md_lookup_def Let_def arch unfolding look by (simp add: full_key_def)
qed

text \<open>The accessors of the metadata, from the value in the file.\<close>

lemma metadata_accessors:
  assumes "md_lookup md key = map_option (to_json e) (kept v)"
  shows "md_Valid md key \<longleftrightarrow> kept v \<noteq> None" "v = Some (String s) \<Longrightarrow> md_String md key = coerce s"
    "\<lbrakk>v = Some x; value_Int v \<noteq> 0\<rbrakk> \<Longrightarrow> md_Int md key = value_Int v"
    "\<lbrakk>v = Some x; value_Uint v \<noteq> 0; value_Uint v < 2 ^ 63\<rbrakk> \<Longrightarrow> md_Int md key = uint (value_Uint v)"
proof -
  show "md_Valid md key \<longleftrightarrow> kept v \<noteq> None" using assms by (simp add: md_Valid_def)
  show "v = Some (String s) \<Longrightarrow> md_String md key = coerce s" using assms by (simp add: md_String_def kept_def)
  have at: "Atoi (Itoa n) = Some n" if "- (2 ^ 63) \<le> n" "n < 2 ^ 63" for n
    using that by (intro Atoi_Itoa) (simp_all add: max_int_def)
  have sgn: "Atoi (Itoa (sint x8)) = Some (sint x8)" "Atoi (Itoa (sint x16)) = Some (sint x16)"
    "Atoi (Itoa (sint x32)) = Some (sint x32)" "Atoi (Itoa (sint x64)) = Some (sint x64)"
    for x8 :: "8 word" and x16 :: "16 word" and x32 :: "32 word" and x64 :: "64 word"
    using sint_greater_eq [of x8] sint_less [of x8] sint_greater_eq [of x16] sint_less [of x16] sint_greater_eq [of x32]
      sint_less [of x32] sint_greater_eq [of x64] sint_less [of x64] by (auto intro!: at)
  have uns: "Atoi (Itoa (uint x8)) = Some (uint x8)" "Atoi (Itoa (uint x16)) = Some (uint x16)"
    "Atoi (Itoa (uint x32)) = Some (uint x32)" "x64 < 2 ^ 63 \<Longrightarrow> Atoi (Itoa (uint x64)) = Some (uint x64)"
    for x8 :: "8 word" and x16 :: "16 word" and x32 :: "32 word" and x64 :: "64 word"
    using uint_lt2p [of x8] uint_lt2p [of x16] uint_lt2p [of x32] by (auto intro!: at order_trans [OF _ unsigned_greater_eq] simp: word_less_def)
  have up: "uint (ucast x8 :: 64 word) = uint x8" "uint (ucast x16 :: 64 word) = uint x16" "uint (ucast x32 :: 64 word) = uint x32"
    for x8 :: "8 word" and x16 :: "16 word" and x32 :: "32 word"
    by (simp_all add: uint_up_ucast is_up)
  show "md_Int md key = value_Int v" if "v = Some x" "value_Int v \<noteq> 0"
    using assms that by (cases x) (auto simp: md_Int_def md_number_def kept_def jint_def sgn)
  show "md_Int md key = uint (value_Uint v)" if "v = Some x" "value_Uint v \<noteq> 0" "value_Uint v < 2 ^ 63"
    using assms that by (cases x) (auto simp: md_Int_def md_number_def kept_def jint_def uns up)
qed

section \<open>The files stay true to the blobs\<close>

text \<open>A file of metadata was extracted, by some version of the program, from data with the digest it is named after.\<close>

definition meta_ok :: "(bytes \<Rightarrow> bytes) \<Rightarrow> json_env \<Rightarrow> meta_store \<Rightarrow> bool" where
  "meta_ok sha e s \<longleftrightarrow> authentic sha (ms_store s) \<and>
     (\<forall>path md. map_of (ms_files s) path = Some (Metadata md) \<longrightarrow>
       (\<exists>data ver. path = ggufMetadataPath (layer_digest sha data) \<and> extractGGUFMetadata e ver (text_of data) = Inr md))"

text \<open>What happens to a store with metadata: reads, removals and pruning, and any change of the blobs that keeps their names true.\<close>

inductive metadata_run :: "(bytes \<Rightarrow> bytes) \<Rightarrow> json_env \<Rightarrow> meta_store \<Rightarrow> meta_store \<Rightarrow> bool" for sha e s0 where
  initial: "metadata_run sha e s0 s0"
| load: "metadata_run sha e s0 s \<Longrightarrow> metadata_run sha e s0 (snd (readGGUFMetadata e ver written d s))"
| blobs_change: "metadata_run sha e s0 s \<Longrightarrow> authentic sha st \<Longrightarrow> metadata_run sha e s0 (s\<lparr>ms_store := st\<rparr>)"
| removal: "metadata_run sha e s0 s \<Longrightarrow> metadata_run sha e s0 (removeGGUFMetadata ds s)"
| pruning: "metadata_run sha e s0 s \<Longrightarrow> metadata_run sha e s0 (pruneGGUFMetadata s)"

lemma blob_path: "BlobsPath d s = Inr blob \<Longrightarrow> snd blob = blob_name d"
  by (auto simp: BlobsPath_def Let_def split: sum.splits)

lemma remove_file_store [simp]: "ms_store (remove_file p s) = ms_store s"
  by (simp add: remove_file_def)

lemma remove_file_files: "map_of (ms_files (remove_file p s)) q = (if q = p then None else map_of (ms_files s) q)"
  by (simp add: remove_file_def delete_conv')

lemma remove_file_ok: "meta_ok sha e s \<Longrightarrow> meta_ok sha e (remove_file p s)"
  by (simp add: meta_ok_def remove_file_files)

lemma authentic_blob:
  assumes "authentic sha (ms_store s)" "BlobsPath d (ms_store s) = Inr blob" "blob_data blob s = Some data"
  shows "ggufMetadataPath (layer_digest sha data) = ggufMetadataPath d"
  using assms blob_path [OF assms(2)] by (auto simp: authentic_def blob_data_def ggufMetadataPath_def)

lemma read_ok:
  assumes "meta_ok sha e s"
  shows "meta_ok sha e (snd (readGGUFMetadata e ver written d s))"
proof -
  have "meta_ok sha e (writeGGUFMetadata written (ggufMetadataPath d) blob md s)"
    if b: "BlobsPath d (ms_store s) = Inr blob" "blob_data blob s = Some data" "extractGGUFMetadata e ver (text_of data) = Inr md" for blob data md
  proof -
    have "authentic sha (ms_store s)" using assms by (simp add: meta_ok_def)
    from authentic_blob [OF this b(1,2)] b(3) assms have "meta_ok sha e (publish (ggufMetadataPath d) md s)"
      by (auto simp: meta_ok_def publish_def update_conv' split: if_splits) metis
    then show ?thesis using assms by (simp add: writeGGUFMetadata_def recheck_def remove_file_ok)
  qed
  then show ?thesis using assms by (auto simp: readGGUFMetadata_def split: option.split sum.split)
qed

lemma removeGGUFMetadata_ok: "meta_ok sha e s \<Longrightarrow> meta_ok sha e (removeGGUFMetadata ds s)"
  unfolding removeGGUFMetadata_def by (induction ds arbitrary: s) (simp_all add: remove_file_ok)

lemma pruneGGUFMetadata_ok: "meta_ok sha e s \<Longrightarrow> meta_ok sha e (pruneGGUFMetadata s)"
proof -
  have "meta_ok sha e s \<Longrightarrow> meta_ok sha e (fold prune_entry names s)" for names
    by (induction names arbitrary: s) (auto simp: prune_entry_def remove_file_ok split: sum.split)
  then show "meta_ok sha e s \<Longrightarrow> meta_ok sha e (pruneGGUFMetadata s)" by (simp add: pruneGGUFMetadata_def)
qed

lemma metadata_run_ok:
  assumes "metadata_run sha e s0 s" "meta_ok sha e s0"
  shows "meta_ok sha e s"
  using assms
proof induction
  case (blobs_change s st)
  then show ?case by (simp add: meta_ok_def)
qed (auto intro: read_ok removeGGUFMetadata_ok pruneGGUFMetadata_ok)

lemma extract_version: "extractGGUFMetadata e ver f = Inl x \<Longrightarrow> extractGGUFMetadata e ver' f = Inl x"
  by (auto simp: extractGGUFMetadata_def split: sum.splits)

lemma path_inj: "colon_form d \<Longrightarrow> colon_form d' \<Longrightarrow> ggufMetadataPath d = ggufMetadataPath d' \<Longrightarrow> d = d'"
  using blob_name_inj by (simp add: ggufMetadataPath_def)

text \<open>A read gives what the blob holds.\<close>

lemma read_result:
  assumes "meta_ok sha e s" "inj (layer_digest sha)" "BlobsPath d (ms_store s) = Inr blob" "blob_data blob s = Some data"
    and "readGGUFMetadata e ver written d s = (r, t)"
  shows "case r of Inr md \<Rightarrow> \<exists>ver'. extractGGUFMetadata e ver' (text_of data) = Inr md
    | Inl x \<Rightarrow> \<exists>y. x = FileErr y \<and> extractGGUFMetadata e ver (text_of data) = Inl y"
proof (cases "loadGGUFMetadata (ggufMetadataPath d) s")
  case (Some md)
  then have m: "map_of (ms_files s) (ggufMetadataPath d) = Some (Metadata md)"
    by (simp add: loadGGUFMetadata_def split: option.splits mdfile.splits)
  have "\<forall>path md. map_of (ms_files s) path = Some (Metadata md) \<longrightarrow>
       (\<exists>data ver. path = ggufMetadataPath (layer_digest sha data) \<and> extractGGUFMetadata e ver (text_of data) = Inr md)"
    using assms(1) unfolding meta_ok_def by (rule conjunct2)
  from this [rule_format, OF m]
  obtain data' ver' where f: "ggufMetadataPath d = ggufMetadataPath (layer_digest sha data')" "extractGGUFMetadata e ver' (text_of data') = Inr md"
    by (elim exE conjE)
  have "ggufMetadataPath (layer_digest sha data) = ggufMetadataPath d"
    using assms(1) by (intro authentic_blob [OF _ assms(3,4)]) (simp add: meta_ok_def)
  with f(1) have "layer_digest sha data = layer_digest sha data'" by (intro path_inj [OF layer_digest_form layer_digest_form]) simp
  then have "data = data'" using assms(2) by (simp add: inj_eq)
  then show ?thesis using f(2) assms(5) Some by (auto simp: readGGUFMetadata_def)
next
  case None
  then show ?thesis using assms(3-5) by (auto simp: readGGUFMetadata_def split: sum.splits)
qed

lemma text_of_bytes [simp]: "text_of (map (\<lambda>c. word_of_nat (of_char c)) f) = f"
proof -
  have "unat (word_of_nat (of_char c) :: 8 word) = of_char c" for c :: char
  proof -
    have "(of_char c :: nat) < 256" using range_nat_of_char by (metis atLeastLessThan_iff rangeI)
    then show ?thesis by (simp add: unat_of_nat take_bit_eq_mod)
  qed
  then show ?thesis by (simp add: text_of_def comp_def)
qed

section \<open>A writer and a remover\<close>

text \<open>The metadata of a blob is written while the blob is deleted. The writer publishes its file, looks for the blob and
  removes the file if the blob is gone; the remover deletes the blob first and the file after it. Either may be
  delayed between any two of its steps.\<close>

datatype metadata_writer = Extracted | Published | SawMissing | WriterDone

datatype metadata_remover = Waiting | BlobDeleted | RemoverDone

inductive race :: "string \<Rightarrow> area \<times> string \<Rightarrow> ggufMetadata \<Rightarrow> metadata_writer \<times> metadata_remover \<times> meta_store \<Rightarrow> metadata_writer \<times> metadata_remover \<times> meta_store \<Rightarrow> bool"
  for path blob md where
  put_file: "race path blob md (Extracted, r, s) (Published, r, publish path md s)"
| write_fails: "race path blob md (Extracted, r, s) (WriterDone, r, s)"
| blob_there: "blob_data blob s \<noteq> None \<Longrightarrow> race path blob md (Published, r, s) (WriterDone, r, s)"
| blob_missing: "blob_data blob s = None \<Longrightarrow> race path blob md (Published, r, s) (SawMissing, r, s)"
| clean_up: "race path blob md (SawMissing, r, s) (WriterDone, r, remove_file path s)"
| delete_blob: "race path blob md (w, Waiting, s) (w, BlobDeleted, s\<lparr>ms_store := snd (remove_blob (\<lambda>_. False) blob (ms_store s))\<rparr>)"
| delete_file: "race path blob md (w, BlobDeleted, s) (w, RemoverDone, remove_file path s)"

inductive_cases raceE: "race path blob md (w, r, s) st"

definition race_inv :: "string \<Rightarrow> area \<times> string \<Rightarrow> metadata_writer \<times> metadata_remover \<times> meta_store \<Rightarrow> bool" where
  "race_inv path blob = (\<lambda>(w, r, s). (r \<noteq> Waiting \<longrightarrow> blob_data blob s = None) \<and>
     (r = RemoverDone \<longrightarrow> w = Published \<or> w = SawMissing \<or> map_of (ms_files s) path = None))"

lemma blob_data_files [simp]: "blob_data blob (remove_file p s) = blob_data blob s" "blob_data blob (publish p md s) = blob_data blob s"
  by (simp_all add: blob_data_def publish_def)

lemma blob_removed: "blob_data blob (s\<lparr>ms_store := snd (remove_blob (\<lambda>_. False) blob (ms_store s))\<rparr>) = None"
  by (cases blob) (simp add: blob_data_def remove_blob_def delete_conv' split: option.split)

lemma race_step_inv: "race path blob md st st' \<Longrightarrow> race_inv path blob st \<Longrightarrow> race_inv path blob st'"
  by (induction rule: race.induct) (auto simp: race_inv_def blob_removed remove_file_files)

lemma race_run_inv: "(race path blob md)\<^sup>*\<^sup>* st st' \<Longrightarrow> race_inv path blob st \<Longrightarrow> race_inv path blob st'"
  by (induction rule: rtranclp_induct) (auto intro: race_step_inv)

section \<open>Pruning\<close>

definition has_its_blob :: "string \<Rightarrow> Store \<Rightarrow> bool" where
  "has_its_blob name st \<longleftrightarrow> (case BlobsPath (TrimSuffix name ''.json'') st of Inl _ \<Rightarrow> True | Inr (a, b) \<Rightarrow> map_of (blobs st a) b \<noteq> None)"

lemma prune_entry_files:
  "ms_store (prune_entry name s) = ms_store s"
  "map_of (ms_files (prune_entry name s)) q =
    (if q = name \<and> HasSuffix name ''.json'' \<and> \<not> has_its_blob name (ms_store s) then None else map_of (ms_files s) q)"
  by (auto simp: prune_entry_def has_its_blob_def blob_data_def remove_file_files split: sum.splits)

lemma prune_fold:
  "ms_store (fold prune_entry names s) = ms_store s \<and>
   map_of (ms_files (fold prune_entry names s)) q =
    (if q \<in> set names \<and> HasSuffix q ''.json'' \<and> \<not> has_its_blob q (ms_store s) then None else map_of (ms_files s) q)"
  by (induction names arbitrary: s) (auto simp: prune_entry_files)

lemma prune_files:
  "ms_store (pruneGGUFMetadata s) = ms_store s"
  "map_of (ms_files (pruneGGUFMetadata s)) q =
    (if HasSuffix q ''.json'' \<and> \<not> has_its_blob q (ms_store s) then None else map_of (ms_files s) q)"
  using prune_fold [of "map fst (ms_files s)" s q]
  by (auto simp: pruneGGUFMetadata_def map_of_eq_None_iff [of "ms_files s", symmetric] split: if_splits)

lemma has_its_blob_digest:
  assumes "prim_ok st"
  shows "has_its_blob (ggufMetadataPath d) st \<longleftrightarrow> has_blob st d"
proof -
  have "HasSuffix (blob_name d @ ''.json'') ''.json''" by (rule suffixI) (rule refl)
  then have "TrimSuffix (ggufMetadataPath d) ''.json'' = blob_name d" by (simp add: TrimSuffix_def ggufMetadataPath_def)
  moreover have "blob_name (blob_name d) = blob_name d" by (auto simp: blob_name_def replace_byte_def)
  ultimately have "BlobsPath (TrimSuffix (ggufMetadataPath d) ''.json'') st = BlobsPath d st" unfolding BlobsPath_def by metis
  then show ?thesis using assms by (simp add: has_its_blob_def has_blob_def BlobsPath_def Path_def Let_def)
qed

section \<open>Properties\<close>

text \<open>A file with one key value.\<close>

definition ex_gguf :: string where
  "ex_gguf = ''GGUF'' @ put32 3 @ put64 0 @ put64 1 @ put64 20 @ ''general.architecture'' @ put32 8 @ put64 1 @ ''x''"

lemma ex_open:
  "\<exists>f. Open ex_gguf = Inr f \<and> NumKeyValues f = 1 \<and>
    v_kvs (whole_header f) = [\<lparr>kv_Key = ''general.architecture'', kv_Value = Some (String ''x'')\<rparr>]"
proof -
  have l: "lread 4 (put32 x @ r) = (Inr x, r)" "lread 8 (put64 y @ r) = (Inr y, r)" for x y r
    using number_step [OF u32.read_write] number_step [OF u64.read_write] by simp_all
  have s: "readString (put64 20 @ ''general.architecture'' @ r) = (Inr ''general.architecture'', r)" "readString (put64 1 @ ''x'') = (Inr ''x'', [])" for r
    unfolding readString_def by (simp_all add: lbind_step l checkedLength_def MaxStringLength_def read_bytes_def)
  have v: "lazy_value 8 (put64 1 @ ''x'') = (Inr (String ''x''), [])" by (simp add: lazy_value_def lmap_step [of readString, OF s(2)])
  let ?s = "put64 20 @ ''general.architecture'' @ put32 8 @ put64 1 @ ''x''"
  have kv: "File_readKeyValue ?s = (Inr \<lparr>kv_Key = ''general.architecture'', kv_Value = Some (String ''x'')\<rparr>, [])"
    unfolding File_readKeyValue_def by (simp only: lbind_step [of readString, OF s(1)] lbind_step [of "lread 4", OF l(1)] lmap_step [of "lazy_value 8", OF v])
  have "read_bytes 4 (''GGUF'' @ r) = (Inr ''GGUF'', r)" for r by (simp add: read_bytes_def)
  then have o: "Open ex_gguf = Inr \<lparr>f_Magic = ''GGUF'', f_Version = 3, keyValues = newLazy 1, tensors = newLazy 0, f_offset = 0, f_rest = ?s, f_size = length ex_gguf\<rparr>"
    unfolding Open_def ex_gguf_def by (simp add: lbind_step l word_less_nat_alt)
  have "read_upto File_readKeyValue (Suc 0) ?s = ([\<lparr>kv_Key = ''general.architecture'', kv_Value = Some (String ''x'')\<rparr>], True, [])"
    by (simp only: read_upto.simps kv prod.case sum.case)
  with o show ?thesis by (simp add: NumKeyValues_def newLazy_def whole_header_def int_of_def)
qed

definition ex_json :: json_env where
  "ex_json = \<lparr>float32_text = (\<lambda>_. ''0''), float64_text = (\<lambda>_. ''0'')\<rparr>"




text \<open>A store whose one blob is the file of the example.\<close>

definition ex_data :: bytes where
  "ex_data = map (\<lambda>c. word_of_nat (of_char c)) ex_gguf"

definition ex_meta :: meta_store where
  "ex_meta = \<lparr>ms_store = snd (NewLayer id ex_data [] (empty_store False)), ms_files = []\<rparr>"

lemma ex_meta_facts:
  "BlobsPath (layer_digest id ex_data) (ms_store ex_meta) = Inr (Primary, blob_name (layer_digest id ex_data))"
  "blob_data (Primary, blob_name (layer_digest id ex_data)) ex_meta = Some ex_data" "prim_ok (ms_store ex_meta)"
  "meta_ok id ex_json ex_meta" "inj (layer_digest id)"
proof -
  show "BlobsPath (layer_digest id ex_data) (ms_store ex_meta) = Inr (Primary, blob_name (layer_digest id ex_data))"
    "blob_data (Primary, blob_name (layer_digest id ex_data)) ex_meta = Some ex_data" "prim_ok (ms_store ex_meta)"
    by (simp_all add: ex_meta_def NewLayer_def BlobsPath_def Path_def PrimaryPath_def AuxPath_def put_blob_def empty_store_def blob_data_def Let_def)
  have "authentic id (ms_store ex_meta)"
    unfolding ex_meta_def
    by (rule managed_authentic [of "\<lambda>_. None" _ "empty_store False"]) (simp_all add: authentic_def empty_store_def managed.intros)
  then show "meta_ok id ex_json ex_meta" by (simp add: meta_ok_def ex_meta_def)
  show "inj (layer_digest id)" using hex_encode_inj by (auto simp: inj_def layer_digest_def)
qed


text \<open>C36: However the steps of a writer of metadata and of the deletion of its blob interleave, and even if the write
  fails, no metadata is left behind once both are done.\<close>

theorem no_orphaned_metadata:
  assumes "(race path blob md)\<^sup>*\<^sup>* (Extracted, Waiting, s) (WriterDone, RemoverDone, t)"
  shows "map_of (ms_files t) path = None"
proof -
  have "race_inv path blob (Extracted, Waiting, s)" by (simp add: race_inv_def)
  from race_run_inv [OF assms this] show ?thesis by (simp add: race_inv_def)
qed

theorem no_orphaned_metadata_witness:
  "\<exists>t. (race ''p'' (Primary, ''b'') \<lparr>OllamaVersion = [], md_KV = [], Omitted = []\<rparr>)\<^sup>*\<^sup>* (Extracted, Waiting, ex_meta) (WriterDone, RemoverDone, t) \<and>
    map_of (ms_files t) ''p'' = None"
proof -
  let ?md = "\<lparr>OllamaVersion = [], md_KV = [], Omitted = []\<rparr>" and ?b = "(Primary, ''b'')"
  let ?s1 = "ex_meta\<lparr>ms_store := snd (remove_blob (\<lambda>_. False) ?b (ms_store ex_meta))\<rparr>"
  let ?s2 = "publish ''p'' ?md ?s1"
  have "race ''p'' ?b ?md (Extracted, Waiting, ex_meta) (Extracted, BlobDeleted, ?s1)" by (rule race.delete_blob)
  moreover have "race ''p'' ?b ?md (Extracted, BlobDeleted, ?s1) (Published, BlobDeleted, ?s2)" by (rule race.put_file)
  moreover have "race ''p'' ?b ?md (Published, BlobDeleted, ?s2) (SawMissing, BlobDeleted, ?s2)"
    by (rule race.blob_missing) (simp only: blob_data_files blob_removed)
  moreover have "race ''p'' ?b ?md (SawMissing, BlobDeleted, ?s2) (SawMissing, RemoverDone, remove_file ''p'' ?s2)" by (rule race.delete_file)
  moreover have "race ''p'' ?b ?md (SawMissing, RemoverDone, remove_file ''p'' ?s2) (WriterDone, RemoverDone, remove_file ''p'' (remove_file ''p'' ?s2))"
    by (rule race.clean_up)
  ultimately have "(race ''p'' ?b ?md)\<^sup>*\<^sup>* (Extracted, Waiting, ex_meta) (WriterDone, RemoverDone, remove_file ''p'' (remove_file ''p'' ?s2))"
    by (meson converse_rtranclp_into_rtranclp rtranclp.rtrancl_refl)
  with no_orphaned_metadata [OF this] show ?thesis by blast
qed

text \<open>Pruning removes the metadata of exactly those digests whose blob is gone.\<close>

theorem prune_metadata_exact:
  assumes "prim_ok (ms_store s)"
  shows "loadGGUFMetadata (ggufMetadataPath d) (pruneGGUFMetadata s) =
    (if has_blob (ms_store s) d then loadGGUFMetadata (ggufMetadataPath d) s else None)"
proof -
  have "HasSuffix (ggufMetadataPath d) ''.json''" unfolding ggufMetadataPath_def by (rule suffixI) (rule refl)
  then show ?thesis by (simp add: loadGGUFMetadata_def prune_files has_its_blob_digest [OF assms])
qed

theorem prune_metadata_exact_witness:
  "loadGGUFMetadata (ggufMetadataPath ''sha256:09'')
    (pruneGGUFMetadata (publish (ggufMetadataPath ''sha256:09'') \<lparr>OllamaVersion = [], md_KV = [], Omitted = []\<rparr> ex_meta)) = None"
proof -
  let ?s = "publish (ggufMetadataPath ''sha256:09'') \<lparr>OllamaVersion = [], md_KV = [], Omitted = []\<rparr> ex_meta"
  have st: "ms_store ?s = ms_store ex_meta" by (simp add: publish_def)
  have "\<not> aux_ok (ms_store ex_meta)"
    by (simp add: ex_meta_def NewLayer_def BlobsPath_def Path_def put_blob_def empty_store_def Let_def)
  moreover have "blob_name ''sha256:09'' \<noteq> blob_name (layer_digest id ex_data)"
    by (simp add: blob_name_def replace_byte_def layer_digest_def ex_data_def ex_gguf_def)
  then have "map_of (blobs (ms_store ex_meta) Primary) (blob_name ''sha256:09'') = None"
    by (simp add: ex_meta_def NewLayer_def BlobsPath_def Path_def PrimaryPath_def put_blob_def empty_store_def Let_def)
  ultimately have "\<not> has_blob (ms_store ex_meta) ''sha256:09''" using ex_meta_facts(3) by (simp add: has_blob_iff)
  then show ?thesis using prune_metadata_exact [of ?s "''sha256:09''"] ex_meta_facts(3) unfolding st by simp
qed

section \<open>Observations\<close>

text \<open>Of two entries with one key the metadata holds the last, while the lazy reader answers with the first.\<close>

lemma duplicate_key_differs:
  "first_key k [\<lparr>kv_Key = k, kv_Value = Some (Bool True)\<rparr>, \<lparr>kv_Key = k, kv_Value = Some (Bool False)\<rparr>] = \<lparr>kv_Key = k, kv_Value = Some (Bool True)\<rparr>"
  "map_of (fst (fold scan_step [\<lparr>kv_Key = k, kv_Value = Some (Bool True)\<rparr>, \<lparr>kv_Key = k, kv_Value = Some (Bool False)\<rparr>] ([], []))) k = Some (Bool False)"
  by (simp_all add: first_key_def scan_step_def)

text \<open>A file whose key values are cut short is taken as a file without them.\<close>

lemma cut_metadata_accepted:
  "\<exists>md. extractGGUFMetadata e ver (''GGUF'' @ put32 3 @ put64 0 @ put64 5) = Inr md"
proof -
  have l: "lread 4 (put32 x @ r) = (Inr x, r)" "lread 8 (put64 y @ r) = (Inr y, r)" "lread 8 (put64 y) = (Inr y, [])" for x y r
    using number_step [OF u32.read_write] number_step [OF u64.read_write] number_step [OF u64.read_write, of _ "[]"]
    by simp_all
  have "read_bytes 4 (''GGUF'' @ r) = (Inr ''GGUF'', r)" for r by (simp add: read_bytes_def)
  then have "\<exists>f. Open (''GGUF'' @ put32 3 @ put64 0 @ put64 5) = Inr f"
    unfolding Open_def by (simp add: lbind_step l word_less_nat_alt)
  then show ?thesis by (auto simp: extractGGUFMetadata_def scanGGUFMetadata_def)
qed

end
