(* ===== verification/Model_Load.thy ===== *)
theory Model_Load
  imports Modelfile Create_Safety Gguf_Metadata
begin

text \<open>
  A model as the server uses it, after \<open>server/capabilities.go\<close> and \<open>server/model_data.go\<close>: a manifest is found by
  name, its layers are read into a \<open>Model\<close>, the capabilities are read off it, and it is printed as a Modelfile.
  The JSON decoder works on a value that is there, as in Go: \<open>decode_options\<close> and \<open>decode_messages\<close> take the old
  value. The digest of the file of the manifest is left out. At the end stands what a model that was created holds
  when it is loaded.
\<close>

section \<open>Models\<close>

record 'v ServerModel =
  mo_Name :: string
  mo_Config :: ConfigV2
  mo_ShortName :: string
  mo_ModelPath :: "(area \<times> string) option"
  mo_ParentModel :: string
  mo_HasChatTemplate :: bool
  mo_ProjectorPaths :: "(area \<times> string) list"
  mo_System :: string
  mo_License :: "string list"
  mo_Options :: "(string \<times> 'v) list"
  mo_Messages :: "(string \<times> string) list"
  mo_Template :: "string option"
  mo_metadata :: ggufMetadata
  mo_projectorMetadata :: "ggufMetadata list"

definition isGGUF :: "'v ServerModel \<Rightarrow> bool" where
  "isGGUF m \<longleftrightarrow> c_ModelFormat (mo_Config m) = [] \<or> c_ModelFormat (mo_Config m) = ''gguf''"

section \<open>Kinds of layers\<close>

text \<open>\<open>strings.ToLower\<close> turns one letter outside of ASCII, the dotted capital I, into a letter of these names.\<close>

fun undot :: "string \<Rightarrow> string" where
  "undot (c # d # s) = (if c = CHR 0xC4 \<and> d = CHR 0xB0 then CHR ''i'' # undot s else c # undot (d # s))"
| "undot s = s"

definition NormalizeMediaType :: "string \<Rightarrow> string" where
  "NormalizeMediaType mediaType =
     (let mt = TrimSpace (ToLower (undot mediaType)) in
      if mt \<in> {''application/vnd.ollama.image.model'', model_type} then model_type
      else if mt \<in> {''application/vnd.ollama.image.projector'', projector_type} then projector_type
      else if mt \<in> {''application/vnd.ollama.image.template'', template_type} then template_type
      else if mt \<in> {''application/vnd.ollama.image.system'', system_type} then system_type
      else if mt \<in> {''application/vnd.ollama.image.adapter'', adapter_type} then adapter_type
      else mediaType)"

record ModelCapabilities =
  HasModel :: bool
  HasProjector :: bool
  HasTemplate :: bool

definition evaluate_layer :: "string \<Rightarrow> ModelCapabilities \<Rightarrow> ModelCapabilities" where
  "evaluate_layer mt caps =
     (let n = NormalizeMediaType mt in
      if n = model_type then caps\<lparr>HasModel := True\<rparr>
      else if n = projector_type then caps\<lparr>HasProjector := True\<rparr>
      else if n = template_type then caps\<lparr>HasTemplate := True\<rparr>
      else caps)"

definition EvaluateCapabilities :: "string list \<Rightarrow> ModelCapabilities" where
  "EvaluateCapabilities mts = fold evaluate_layer mts \<lparr>HasModel = False, HasProjector = False, HasTemplate = False\<rparr>"

section \<open>Capabilities\<close>

definition appendCapability :: "string \<Rightarrow> string list \<Rightarrow> string list" where
  "appendCapability c cs = (if c \<in> set cs then cs else cs @ [c])"

definition configCapabilities :: "'v ServerModel \<Rightarrow> string list \<Rightarrow> string list" where
  "configCapabilities m cs = fold appendCapability (c_Capabilities (mo_Config m)) cs"

definition chatTemplateHasThinkingSupport :: "string \<Rightarrow> bool" where
  "chatTemplateHasThinkingSupport t \<longleftrightarrow>
     Contains t ''<think>'' \<and> Contains t ''</think>'' \<or>
     (Contains t (''content.split('' @ [CHR 0x27] @ ''</think>'' @ [CHR 0x27] @ '')'') \<or>
      Contains t (''content.split('' @ [CHR 0x22] @ ''</think>'' @ [CHR 0x22] @ '')'')) \<and>
     \<not> Contains t ''reasoning_content'' \<and> \<not> Contains t ''<SPECIAL_12>''"

definition chatTemplateCapabilities :: "string \<Rightarrow> string list \<Rightarrow> string list" where
  "chatTemplateCapabilities t cs =
     (if t = [] then cs
      else if chatTemplateHasThinkingSupport t then appendCapability ''thinking'' cs
      else cs)"

definition ggufCapabilities :: "'v ServerModel \<Rightarrow> string list \<Rightarrow> string list \<times> string" where
  "ggufCapabilities m cs =
     (if mo_ModelPath m = None \<or> \<not> isGGUF m then (cs, [])
      else let md = mo_metadata m;
               cs = chatTemplateCapabilities (md_String md ''tokenizer.chat_template'') cs;
               cs = appendCapability (if md_Valid md ''pooling_type'' then ''embedding'' else ''completion'') cs;
               cs = (if md_Valid md ''vision.block_count'' then appendCapability ''vision'' cs else cs);
               cs = (if md_Valid md ''audio.block_count'' then appendCapability ''audio'' cs else cs)
           in (cs, md_String md ''general.architecture''))"

definition projectorHasAudio :: "ggufMetadata \<Rightarrow> bool" where
  "projectorHasAudio md = list_ex (\<lambda>key. (key = ''has_audio_encoder'' \<or> HasSuffix key ''.has_audio_encoder'') \<and>
     map_of (md_KV md) key = Some (JBool True)) (md_Keys md)"

definition projectorSuppressesAudioCapability :: "ggufMetadata \<Rightarrow> bool" where
  "projectorSuppressesAudioCapability md \<longleftrightarrow> md_String md ''vision.projector_type'' = ''gemma3nv''"

definition projectorCapabilities :: "'v ServerModel \<Rightarrow> string list \<Rightarrow> string list" where
  "projectorCapabilities m cs =
     (if mo_ProjectorPaths m = [] then cs
      else fold (\<lambda>md cs. if projectorHasAudio md \<and> \<not> projectorSuppressesAudioCapability md then appendCapability ''audio'' cs else cs)
        (mo_projectorMetadata m) (appendCapability ''vision'' cs))"

definition templateCapabilities :: "'v ServerModel \<Rightarrow> string list \<Rightarrow> string list" where
  "templateCapabilities m cs = cs"

definition parserCapabilities :: "'v ServerModel \<Rightarrow> string list \<Rightarrow> string list" where
  "parserCapabilities m cs = cs"

definition modelFamilyCapabilities :: "'v ServerModel \<Rightarrow> string list \<Rightarrow> string list" where
  "modelFamilyCapabilities m cs =
     (if c_ModelFamily (mo_Config m) \<in> set [''gptoss'', ''gpt-oss''] then appendCapability ''thinking'' cs else cs)"

definition suppressAudioCapability :: "'v ServerModel \<Rightarrow> string \<Rightarrow> bool" where
  "suppressAudioCapability m arch = False"

definition filterUnsupportedCapabilities :: "'v ServerModel \<Rightarrow> string \<Rightarrow> string list \<Rightarrow> string list" where
  "filterUnsupportedCapabilities m arch cs =
     (if suppressAudioCapability m arch then filter (\<lambda>c. c \<noteq> ''audio'') cs else cs)"

definition Capabilities :: "'v ServerModel \<Rightarrow> string list" where
  "Capabilities m =
     (let cs = configCapabilities m [];
          (cs, modelArch) = ggufCapabilities m cs;
          cs = projectorCapabilities m cs;
          cs = templateCapabilities m cs;
          cs = parserCapabilities m cs;
          cs = modelFamilyCapabilities m cs
      in filterUnsupportedCapabilities m modelArch cs)"

text \<open>An error for a capability carries its name; \<open>DoesNotSupport\<close> lists those that are missing and says whether the
  remark on thinking is added.\<close>

datatype capability_error = UnknownCapability string | DoesNotSupport "string list" bool

definition capToErr :: "string list" where
  "capToErr = [''completion'', ''insert'', ''vision'', ''audio'', ''embedding'', ''thinking'']"

fun missing_capabilities :: "string list \<Rightarrow> string list \<Rightarrow> string list \<Rightarrow> capability_error + string list" where
  "missing_capabilities available [] errs = Inr errs"
| "missing_capabilities available (c # want) errs =
     (if c \<notin> set capToErr then Inl (UnknownCapability c)
      else missing_capabilities available want (if c \<in> set available then errs else errs @ [c]))"

definition CheckCapabilities :: "'v ServerModel \<Rightarrow> string list \<Rightarrow> capability_error option" where
  "CheckCapabilities m want =
     (case missing_capabilities (Capabilities m) want [] of
        Inl x \<Rightarrow> Some x
      | Inr errs \<Rightarrow> if errs = [] then None else Some (DoesNotSupport errs (''thinking'' \<in> set errs)))"

section \<open>Loading a model\<close>

text \<open>What the loading of a model depends on beside the store: the environment of the creation of models, the JSON
  decoder on a value that is there, and what the files of metadata need.\<close>

record 'v loader =
  ld_env :: "'v env"
  decode_options :: "string \<Rightarrow> (string \<times> 'v) list \<Rightarrow> (string \<times> 'v) list option"
  decode_messages :: "string \<Rightarrow> (string \<times> string) list \<Rightarrow> (string \<times> string) list option"
  ld_json :: json_env
  ld_version :: string
  ld_written :: bool

datatype load_error = StoreError store_error | ConfigError | TemplateError | OptionsError | MessagesError | OpenError lazy_error

definition resolveModelManifest :: "(Name list \<Rightarrow> Name list) \<Rightarrow> string \<Rightarrow> Store \<Rightarrow> store_error + Name \<times> Manifest" where
  "resolveModelManifest order name s =
     (let n = ParseName name;
          resolved = (if IsFullyQualified n then Inr n
                      else (case Manifests True s of Inl x \<Rightarrow> Inl x | Inr ms \<Rightarrow> Inr (getExistingName (order (map fst ms)) n)))
      in case resolved of
           Inl x \<Rightarrow> Inl x
         | Inr n \<Rightarrow> (case ParseNamedManifest n s of Inl x \<Rightarrow> Inl x | Inr (mf, _) \<Rightarrow> Inr (n, mf)))"

definition CheckForManifest :: "(Name list \<Rightarrow> Name list) \<Rightarrow> string \<Rightarrow> Store \<Rightarrow> store_error + Name \<times> Manifest" where
  "CheckForManifest order name s = resolveModelManifest order name s"

definition no_config :: ConfigV2 where
  "no_config = \<lparr>c_ModelFormat = [], c_ModelFamily = [], c_ModelFamilies = [], c_ModelType = [], c_FileType = [], c_Renderer = [],
     c_Parser = [], c_Requires = [], c_Capabilities = [], c_ContextLen = 0, c_EmbedLen = 0, c_BaseName = [], c_DiffIDs = []\<rparr>"

definition no_metadata :: ggufMetadata where
  "no_metadata = \<lparr>OllamaVersion = [], md_KV = [], Omitted = []\<rparr>"

text \<open>The model before its layers are read; the template is its text.\<close>

definition blank_model :: "Name \<Rightarrow> string option \<Rightarrow> 'v ServerModel" where
  "blank_model n template = \<lparr>mo_Name = Name_String n, mo_Config = no_config, mo_ShortName = DisplayShortest n, mo_ModelPath = None,
     mo_ParentModel = [], mo_HasChatTemplate = False, mo_ProjectorPaths = [], mo_System = [], mo_License = [], mo_Options = [],
     mo_Messages = [], mo_Template = template, mo_metadata = no_metadata, mo_projectorMetadata = []\<rparr>"

definition file_text :: "area \<times> string \<Rightarrow> meta_store \<Rightarrow> load_error + string" where
  "file_text filename s = (case blob_data filename s of None \<Rightarrow> Inl (StoreError NotExist) | Some data \<Rightarrow> Inr (text_of data))"

definition prompt_type :: string where
  "prompt_type = ''application/vnd.yollama.image.prompt''"

text \<open>The layers whose content becomes a field of the model.\<close>

definition load_text :: "'v loader \<Rightarrow> string \<Rightarrow> string \<Rightarrow> 'v ServerModel \<Rightarrow> load_error + 'v ServerModel" where
  "load_text L mt f m =
     (if mt \<in> {prompt_type, template_type} then
        (if template_ok (ld_env L) f then Inr (m\<lparr>mo_Template := Some f\<rparr>) else Inl TemplateError)
      else if mt = system_type then Inr (m\<lparr>mo_System := f\<rparr>)
      else if mt = params_type then
        (case decode_options L f (mo_Options m) of None \<Rightarrow> Inl OptionsError | Some q \<Rightarrow> Inr (m\<lparr>mo_Options := q\<rparr>))
      else if mt = messages_type then
        (case decode_messages L f (mo_Messages m) of None \<Rightarrow> Inl MessagesError | Some q \<Rightarrow> Inr (m\<lparr>mo_Messages := q\<rparr>))
      else Inr (m\<lparr>mo_License := mo_License m @ [f]\<rparr>))"

definition load_layer :: "'v loader \<Rightarrow> Manifest_Store.Layer \<Rightarrow> 'v ServerModel \<Rightarrow> meta_store \<Rightarrow> (load_error + 'v ServerModel) \<times> meta_store" where
  "load_layer L l m s =
     (let mt = NormalizeMediaType (l_MediaType l) in
      case BlobsPath (l_Digest l) (ms_store s) of
        Inl x \<Rightarrow> (Inl (StoreError x), s)
      | Inr filename \<Rightarrow>
          if mt = model_type then
            (let m = m\<lparr>mo_ModelPath := Some filename, mo_ParentModel := l_From l\<rparr> in
             if isGGUF m then
               (case readGGUFMetadata (ld_json L) (ld_version L) (ld_written L) (l_Digest l) s of
                  (Inl _, s) \<Rightarrow> (Inr m, s)
                | (Inr md, s) \<Rightarrow> (Inr (m\<lparr>mo_metadata := md, mo_HasChatTemplate := md_String md ''tokenizer.chat_template'' \<noteq> []\<rparr>), s))
             else (Inr m, s))
          else if mt = projector_type then
            (let m = m\<lparr>mo_ProjectorPaths := mo_ProjectorPaths m @ [filename]\<rparr> in
             case readGGUFMetadata (ld_json L) (ld_version L) (ld_written L) (l_Digest l) s of
               (Inl _, s) \<Rightarrow> (Inr m, s)
             | (Inr md, s) \<Rightarrow> (Inr (m\<lparr>mo_projectorMetadata := mo_projectorMetadata m @ [md]\<rparr>), s))
          else if mt \<in> {prompt_type, template_type, system_type, params_type, messages_type, license_type} then
            (case file_text filename s of Inl x \<Rightarrow> (Inl x, s) | Inr f \<Rightarrow> (load_text L mt f m, s))
          else (Inr m, s))"

fun load_layers :: "'v loader \<Rightarrow> Manifest_Store.Layer list \<Rightarrow> 'v ServerModel \<Rightarrow> meta_store \<Rightarrow> (load_error + 'v ServerModel) \<times> meta_store" where
  "load_layers L [] m s = (Inr m, s)"
| "load_layers L (l # ls) m s =
     (case load_layer L l m s of (Inl x, s) \<Rightarrow> (Inl x, s) | (Inr m, s) \<Rightarrow> load_layers L ls m s)"

definition load_config :: "'v loader \<Rightarrow> Manifest \<Rightarrow> 'v ServerModel \<Rightarrow> meta_store \<Rightarrow> load_error + 'v ServerModel" where
  "load_config L mf m s =
     (if l_Digest (Config mf) = [] then Inr m
      else (case BlobsPath (l_Digest (Config mf)) (ms_store s) of
          Inl x \<Rightarrow> Inl (StoreError x)
        | Inr filename \<Rightarrow>
            (case file_text filename s of
               Inl x \<Rightarrow> Inl x
             | Inr f \<Rightarrow> (case dec_config (ld_env L) f of None \<Rightarrow> Inl ConfigError | Some c \<Rightarrow> Inr (m\<lparr>mo_Config := c\<rparr>)))))"

definition DefaultTemplate :: string where
  "DefaultTemplate = ''{{ .Prompt }}''"

definition GetModelCapabilities :: "'v loader \<Rightarrow> string \<Rightarrow> meta_store \<Rightarrow> (load_error + 'v ServerModel) \<times> meta_store" where
  "GetModelCapabilities L name s =
     (case CheckForManifest (map_order (ld_env L)) name (ms_store s) of
        Inl x \<Rightarrow> (Inl (StoreError x), s)
      | Inr (n, mf) \<Rightarrow>
          (case load_config L mf (blank_model n (Some DefaultTemplate)) s of
             Inl x \<Rightarrow> (Inl x, s)
           | Inr m \<Rightarrow> load_layers L (Layers mf) m s))"

text \<open>\<open>CheckForModel\<close> stops at the first layer of a model; no configuration is read, so the format counts as GGUF.\<close>

fun check_layers :: "Manifest_Store.Layer list \<Rightarrow> 'v ServerModel \<Rightarrow> meta_store \<Rightarrow> load_error + 'v ServerModel" where
  "check_layers [] m s = Inr m"
| "check_layers (l # ls) m s =
     (case BlobsPath (l_Digest l) (ms_store s) of
        Inl x \<Rightarrow> Inl (StoreError x)
      | Inr filename \<Rightarrow>
          if NormalizeMediaType (l_MediaType l) = model_type then
            (let m = m\<lparr>mo_ModelPath := Some filename\<rparr> in
             if isGGUF m then
               (case file_text filename s of
                  Inl x \<Rightarrow> Inl x
                | Inr f \<Rightarrow> (case Open f of Inl x \<Rightarrow> Inl (OpenError x) | Inr _ \<Rightarrow> Inr m))
             else check_layers ls m s)
          else check_layers ls m s)"

definition CheckForModel :: "(Name list \<Rightarrow> Name list) \<Rightarrow> string \<Rightarrow> meta_store \<Rightarrow> load_error + 'v ServerModel" where
  "CheckForModel order name s =
     (case resolveModelManifest order name (ms_store s) of
        Inl x \<Rightarrow> Inl (StoreError x)
      | Inr (n, mf) \<Rightarrow> check_layers (Layers mf) (blank_model n None) s)"

section \<open>The Modelfile of a model\<close>

text \<open>The runes of a text.\<close>

function to_runes :: "string \<Rightarrow> rtext" where
  "to_runes s = (if s = [] then [] else fst (DecodeRune s) # to_runes (drop (snd (DecodeRune s)) s))"
  by pat_completeness auto
termination
  by (relation "measure length") (use DecodeRune_width in \<open>auto simp: diff_less\<close>)

declare to_runes.simps [simp del]

definition command :: "string \<Rightarrow> string \<Rightarrow> Command" where
  "command name args = \<lparr>cmd_Name = to_runes name, cmd_Args = to_runes args\<rparr>"

text \<open>The options in the order of the map; \<open>as_list\<close> recognises a list, \<open>sprint\<close> is the verb \<open>v\<close> of \<open>fmt\<close>.\<close>

definition option_commands :: "('v \<Rightarrow> 'v list option) \<Rightarrow> ('v \<Rightarrow> string) \<Rightarrow> string \<times> 'v \<Rightarrow> Command list" where
  "option_commands as_list sprint kv =
     (case as_list (snd kv) of
        Some vs \<Rightarrow> map (\<lambda>s. command (fst kv) (sprint s)) vs
      | None \<Rightarrow> [command (fst kv) (sprint (snd kv))])"

definition model_commands :: "(area \<times> string \<Rightarrow> string) \<Rightarrow> ('v \<Rightarrow> 'v list option) \<Rightarrow> ('v \<Rightarrow> string) \<Rightarrow> 'v ServerModel \<Rightarrow> Modelfile" where
  "model_commands path as_list sprint m =
     [command ''model'' (case mo_ModelPath m of None \<Rightarrow> [] | Some p \<Rightarrow> path p)] @
     map (\<lambda>p. command ''model'' (path p)) (mo_ProjectorPaths m) @
     (case mo_Template m of None \<Rightarrow> [] | Some t \<Rightarrow> [command ''template'' t]) @
     (if mo_System m \<noteq> [] then [command ''system'' (mo_System m)] else []) @
     (if c_Renderer (mo_Config m) \<noteq> [] then [command ''renderer'' (c_Renderer (mo_Config m))] else []) @
     (if c_Parser (mo_Config m) \<noteq> [] then [command ''parser'' (c_Parser (mo_Config m))] else []) @
     concat (map (option_commands as_list sprint) (mo_Options m)) @
     map (command ''license'') (mo_License m) @
     map (\<lambda>(role, content). command ''message'' (role @ '': '' @ content)) (mo_Messages m)"

definition Model_String :: "(area \<times> string \<Rightarrow> string) \<Rightarrow> ('v \<Rightarrow> 'v list option) \<Rightarrow> ('v \<Rightarrow> string) \<Rightarrow> 'v ServerModel \<Rightarrow> rtext" where
  "Model_String path as_list sprint m = Modelfile_String (model_commands path as_list sprint m)"

section \<open>Facts on capabilities\<close>

lemma appendCapability_facts [simp]:
  "set (appendCapability c cs) = insert c (set cs)" "distinct (appendCapability c cs) = distinct cs"
  by (auto simp: appendCapability_def)

lemma config_facts:
  "set (fold appendCapability xs cs) = set cs \<union> set xs" "distinct (fold appendCapability xs cs) = distinct cs"
  by (induction xs arbitrary: cs) auto

lemma projector_facts:
  "set (fold (\<lambda>md cs. if P md then appendCapability c cs else cs) mds cs) = (if list_ex P mds then insert c (set cs) else set cs)"
  "distinct (fold (\<lambda>md cs. if P md then appendCapability c cs else cs) mds cs) = distinct cs"
  by (induction mds arbitrary: cs) auto

lemma Capabilities_eq:
  "Capabilities m = modelFamilyCapabilities m (projectorCapabilities m (fst (ggufCapabilities m (configCapabilities m []))))"
  by (simp add: Capabilities_def templateCapabilities_def parserCapabilities_def filterUnsupportedCapabilities_def suppressAudioCapability_def
      Let_def split: prod.split)

lemma capabilities_grow:
  "set cs \<subseteq> set (fst (ggufCapabilities m cs))" "set cs \<subseteq> set (projectorCapabilities m cs)" "set cs \<subseteq> set (modelFamilyCapabilities m cs)"
  by (auto simp: ggufCapabilities_def chatTemplateCapabilities_def projectorCapabilities_def modelFamilyCapabilities_def projector_facts Let_def)

lemma missing_capabilities_spec:
  "missing_capabilities available want errs =
    (case find (\<lambda>c. c \<notin> set capToErr) want of
       Some c \<Rightarrow> Inl (UnknownCapability c)
     | None \<Rightarrow> Inr (errs @ filter (\<lambda>c. c \<notin> set available) want))"
  by (induction want arbitrary: errs) (auto split: option.split)

lemma find_unknown: "find (\<lambda>c. c \<notin> S) want = None \<longleftrightarrow> set want \<subseteq> S"
  by (auto simp: find_None_iff)

section \<open>Facts on loading\<close>

text \<open>A lower-case name without white space is only looked up.\<close>

definition plain_name :: "string \<Rightarrow> bool" where
  "plain_name s \<longleftrightarrow> list_all (\<lambda>c. byte c < 128 \<and> \<not> IsSpace (byte c) \<and> lower_byte c = c) s"

lemma undot_ascii: "ascii s \<Longrightarrow> undot s = s"
  by (induction s rule: undot.induct) auto

lemma normalize_plain:
  assumes "plain_name mt"
  shows "TrimSpace (ToLower (undot mt)) = mt"
proof -
  have "ascii mt" using assms by (simp add: plain_name_def ascii_def list_all_iff)
  moreover have "ToLower mt = mt" using assms by (simp add: ToLower_def plain_name_def list_all_iff map_idI)
  moreover have "TrimSpace mt = mt" using assms by (intro TrimSpace_compact) (auto simp: plain_name_def compact_def list_all_iff)
  ultimately show ?thesis by (simp add: undot_ascii)
qed

lemma plain_kinds:
  "list_all plain_name [model_type, projector_type, adapter_type, draft_type, template_type, system_type, license_type, params_type, messages_type]"
  by (simp add: plain_name_def type_defs IsSpace_def in_range_def lower_byte_def)

lemma normalize_kinds [simp]:
  "NormalizeMediaType model_type = model_type" "NormalizeMediaType projector_type = projector_type"
  "NormalizeMediaType adapter_type = adapter_type" "NormalizeMediaType draft_type = draft_type"
  "NormalizeMediaType template_type = template_type" "NormalizeMediaType system_type = system_type"
  "NormalizeMediaType license_type = license_type" "NormalizeMediaType params_type = params_type"
  "NormalizeMediaType messages_type = messages_type"
  using plain_kinds by (simp_all add: NormalizeMediaType_def normalize_plain Let_def) (simp_all add: type_defs)

lemma normalize_idem: "NormalizeMediaType (NormalizeMediaType mt) = NormalizeMediaType mt"
proof -
  have "NormalizeMediaType mt \<in> {model_type, projector_type, template_type, system_type, adapter_type, mt}"
    by (auto simp: NormalizeMediaType_def Let_def)
  then show ?thesis by auto
qed

abbreviation kind :: "Manifest_Store.Layer \<Rightarrow> string" where
  "kind l \<equiv> NormalizeMediaType (l_MediaType l)"

definition text_kinds :: "string list" where
  "text_kinds = [prompt_type, template_type, system_type, params_type, messages_type, license_type]"

lemma kinds_differ [simp]:
  "model_type \<notin> set text_kinds" "projector_type \<notin> set text_kinds" "adapter_type \<notin> set text_kinds" "draft_type \<notin> set text_kinds"
  "model_type \<noteq> projector_type" "projector_type \<noteq> model_type"
  by (simp_all add: text_kinds_def prompt_type_def type_defs)

text \<open>A layer of text can be read, whatever model it is read into.\<close>

definition loadable :: "'v loader \<Rightarrow> Manifest_Store.Layer \<Rightarrow> bool" where
  "loadable L l \<longleftrightarrow> (\<forall>data m. kind l \<in> set text_kinds \<and> layer_digest (sha256 (ld_env L)) data = l_Digest l \<longrightarrow>
     \<not> isl (load_text L (kind l) (text_of data) m))"

text \<open>The content of a layer whose blob is there under its digest.\<close>

lemma solid_content:
  assumes "solid (ms_store s) l" "prim_ok (ms_store s)" "authentic sha (ms_store s)"
  obtains filename data where "BlobsPath (l_Digest l) (ms_store s) = Inr filename" "file_text filename s = Inr (text_of data)"
    "layer_digest sha data = l_Digest l"
proof -
  obtain filename where f: "BlobsPath (l_Digest l) (ms_store s) = Inr filename"
    using assms(2) by (simp add: BlobsPath_def Path_def Let_def)
  then obtain data where d: "map_of (blobs (ms_store s) (fst filename)) (snd filename) = Some data"
    using assms(1) by (auto simp: solid_def has_blob_def case_prod_beta)
  then have "snd filename = blob_name (layer_digest sha data)" using assms(3) by (auto simp: authentic_def)
  then have "layer_digest sha data = l_Digest l"
    using blob_path [OF f] assms(1) by (intro blob_name_inj [OF layer_digest_form]) (auto simp: solid_def)
  with f d show ?thesis by (intro that [of filename data]) (simp_all add: file_text_def blob_data_def)
qed

lemma read_store: "readGGUFMetadata e ver w d s = (r, t) \<Longrightarrow> ms_store t = ms_store s"
  by (auto simp: readGGUFMetadata_def writeGGUFMetadata_def recheck_def publish_def split: option.splits sum.splits)

lemma load_layer_store: "load_layer L l m s = (r, t) \<Longrightarrow> ms_store t = ms_store s"
  by (auto simp: load_layer_def Let_def dest: read_store split: sum.splits prod.splits if_splits)

text \<open>The fields that a layer of another kind leaves alone.\<close>

lemma load_layer_frame:
  assumes "load_layer L l m s = (Inr m', t)"
  shows "mo_Name m' = mo_Name m" "mo_Config m' = mo_Config m"
    "kind l \<notin> {prompt_type, template_type} \<Longrightarrow> mo_Template m' = mo_Template m"
    "kind l \<noteq> system_type \<Longrightarrow> mo_System m' = mo_System m"
    "kind l \<noteq> params_type \<Longrightarrow> mo_Options m' = mo_Options m"
    "kind l \<noteq> messages_type \<Longrightarrow> mo_Messages m' = mo_Messages m"
    "set (mo_License m) \<subseteq> set (mo_License m')"
  using assms by (auto simp: load_layer_def load_text_def Let_def split: sum.splits prod.splits if_splits option.splits)

lemma load_layer_text:
  assumes "kind l \<in> set text_kinds" "BlobsPath (l_Digest l) (ms_store s) = Inr filename" "file_text filename s = Inr f"
  shows "load_layer L l m s = (load_text L (kind l) f m, s)"
  using assms by (auto simp: load_layer_def text_kinds_def prompt_type_def type_defs)

lemma load_layer_ok:
  assumes "solid (ms_store s) l" "prim_ok (ms_store s)" "authentic (sha256 (ld_env L)) (ms_store s)" "loadable L l"
  shows "\<exists>m' t. load_layer L l m s = (Inr m', t) \<and> ms_store t = ms_store s"
proof -
  obtain filename data where f: "BlobsPath (l_Digest l) (ms_store s) = Inr filename" "file_text filename s = Inr (text_of data)"
    "layer_digest (sha256 (ld_env L)) data = l_Digest l"
    using solid_content [OF assms(1-3)] by blast
  have "\<not> isl (fst (load_layer L l m s))"
  proof (cases "kind l \<in> set text_kinds")
    case True
    then show ?thesis using load_layer_text [OF True f(1,2), of L m] assms(4) f(3) by (simp add: loadable_def)
  next
    case False
    then show ?thesis using f(1) by (auto simp: load_layer_def text_kinds_def Let_def split: prod.split sum.split)
  qed
  then obtain m' t where "load_layer L l m s = (Inr m', t)" by (metis isl_def prod.collapse sum.exhaust_sel)
  then show ?thesis using load_layer_store by blast
qed

lemma load_layers_ok:
  assumes "\<forall>l \<in> set ls. solid (ms_store s) l \<and> loadable L l" "prim_ok (ms_store s)" "authentic (sha256 (ld_env L)) (ms_store s)"
  shows "\<exists>m' t. load_layers L ls m s = (Inr m', t) \<and> ms_store t = ms_store s"
  using assms
proof (induction ls arbitrary: m s)
  case (Cons l ls)
  obtain m' t where l: "load_layer L l m s = (Inr m', t)" "ms_store t = ms_store s"
    using load_layer_ok [of s l L m] Cons.prems by auto
  from Cons.IH [of t m'] Cons.prems l show ?case by simp
qed simp

lemma load_layers_append:
  "load_layers L (xs @ ys) m s = (case load_layers L xs m s of (Inl x, t) \<Rightarrow> (Inl x, t) | (Inr m', t) \<Rightarrow> load_layers L ys m' t)"
  by (induction xs arbitrary: m s) (simp_all split: prod.split sum.split)

lemma load_layers_frame:
  assumes "load_layers L ls m s = (Inr m', t)"
  shows "mo_Name m' = mo_Name m \<and> mo_Config m' = mo_Config m \<and> ms_store t = ms_store s \<and> set (mo_License m) \<subseteq> set (mo_License m')"
    "\<forall>l \<in> set ls. kind l \<notin> {prompt_type, template_type} \<Longrightarrow> mo_Template m' = mo_Template m"
    "\<forall>l \<in> set ls. kind l \<noteq> system_type \<Longrightarrow> mo_System m' = mo_System m"
    "\<forall>l \<in> set ls. kind l \<noteq> params_type \<Longrightarrow> mo_Options m' = mo_Options m"
    "\<forall>l \<in> set ls. kind l \<noteq> messages_type \<Longrightarrow> mo_Messages m' = mo_Messages m"
proof -
  have "(mo_Name m' = mo_Name m \<and> mo_Config m' = mo_Config m \<and> ms_store t = ms_store s \<and> set (mo_License m) \<subseteq> set (mo_License m')) \<and>
    ((\<forall>l \<in> set ls. kind l \<notin> {prompt_type, template_type}) \<longrightarrow> mo_Template m' = mo_Template m) \<and>
    ((\<forall>l \<in> set ls. kind l \<noteq> system_type) \<longrightarrow> mo_System m' = mo_System m) \<and>
    ((\<forall>l \<in> set ls. kind l \<noteq> params_type) \<longrightarrow> mo_Options m' = mo_Options m) \<and>
    ((\<forall>l \<in> set ls. kind l \<noteq> messages_type) \<longrightarrow> mo_Messages m' = mo_Messages m)"
    using assms
  proof (induction ls arbitrary: m s)
    case (Cons l ls)
    then obtain m1 s1 where 1: "load_layer L l m s = (Inr m1, s1)" "load_layers L ls m1 s1 = (Inr m', t)"
      by (auto split: prod.splits sum.splits)
    note f = load_layer_frame [OF 1(1)] load_layer_store [OF 1(1)] and ih = Cons.IH [OF 1(2)]
    show ?case using f ih by (auto simp del: insert_iff) 
  qed simp
  then show "mo_Name m' = mo_Name m \<and> mo_Config m' = mo_Config m \<and> ms_store t = ms_store s \<and> set (mo_License m) \<subseteq> set (mo_License m')"
    "\<forall>l \<in> set ls. kind l \<notin> {prompt_type, template_type} \<Longrightarrow> mo_Template m' = mo_Template m"
    "\<forall>l \<in> set ls. kind l \<noteq> system_type \<Longrightarrow> mo_System m' = mo_System m"
    "\<forall>l \<in> set ls. kind l \<noteq> params_type \<Longrightarrow> mo_Options m' = mo_Options m"
    "\<forall>l \<in> set ls. kind l \<noteq> messages_type \<Longrightarrow> mo_Messages m' = mo_Messages m"
    by blast+
qed

section \<open>The content of the blobs while a model is created\<close>

text \<open>An operation that keeps the names of the blobs true to their content.\<close>

definition trusty :: "(bytes \<Rightarrow> bytes) \<Rightarrow> 'a act \<Rightarrow> bool" where
  "trusty sha m \<longleftrightarrow> holds (\<lambda>s t. authentic sha s \<longrightarrow> authentic sha t) (\<lambda>_. True) m (\<lambda>_ _. True)"

interpretation trusting: progress "\<lambda>s t. authentic sha s \<longrightarrow> authentic sha t"
  by unfold_locales auto

named_theorems trusty_intros

lemma trustyD: "trusty sha m \<Longrightarrow> authentic sha s \<Longrightarrow> m s = (r, t) \<Longrightarrow> authentic sha t"
  by (auto simp: trusty_def holds_def)

lemma trusty_basic [trusty_intros]: "trusty sha (ret x)" "trusty sha (fail y)" "trusty sha (check r)" "trusty sha (peek f)"
  by (simp_all add: trusty_def trusting.ret_rule trusting.fail_rule trusting.check_rule trusting.look_rule)

lemma trusty_bind [trusty_intros]: "trusty sha m \<Longrightarrow> (\<And>x. trusty sha (f x)) \<Longrightarrow> trusty sha (bind m f)"
  unfolding trusty_def by (rule trusting.bind_rule)

lemma trusty_split [trusty_intros]:
  "(c \<Longrightarrow> trusty sha m) \<Longrightarrow> (\<not> c \<Longrightarrow> trusty sha m') \<Longrightarrow> trusty sha (if c then m else m')"
  "(\<And>x y. p = (x, y) \<Longrightarrow> trusty sha (f x y)) \<Longrightarrow> trusty sha (case p of (x, y) \<Rightarrow> f x y)"
  "trusty sha m \<Longrightarrow> (\<And>x. v = Some x \<Longrightarrow> trusty sha (g x)) \<Longrightarrow> trusty sha (case v of None \<Rightarrow> m | Some x \<Rightarrow> g x)"
  "(\<And>x. w = Inl x \<Longrightarrow> trusty sha (h x)) \<Longrightarrow> (\<And>x. w = Inr x \<Longrightarrow> trusty sha (k x)) \<Longrightarrow> trusty sha (case w of Inl x \<Rightarrow> h x | Inr x \<Rightarrow> k x)"
  by (cases p; cases v; cases w; simp)+

lemma trusty_each [trusty_intros]: "(\<And>x. trusty sha (f x)) \<Longrightarrow> trusty sha (each f xs)"
  by (induction xs) (auto intro!: trusty_intros)

lemma trusty_new_layer [trusty_intros]: "trusty (sha256 e) (new_layer e content mt)"
  by (auto simp: trusty_def holds_def new_layer_def NewLayer_def intro: authentic_put split: sum.splits prod.splits if_splits)

lemma trusty_read_blob [trusty_intros]: "trusty sha (read_blob d)"
  unfolding read_blob_def by (rule trusty_intros)

lemma trusty_decode_file [trusty_intros]: "trusty sha (decode_file f mx)"
  unfolding decode_file_def by (rule trusty_intros)

lemma trusty_relayer [trusty_intros]: "trusty (sha256 e) (relayer e mt r)"
  unfolding relayer_def by (intro trusty_intros)

lemma trusty_link_parts [trusty_intros]: "trusty sha (link_parts ps dir)"
  by (induction ps arbitrary: dir) (auto intro!: trusty_intros)

lemma trusty_rewriteLayer [trusty_intros]: "trusty (sha256 e) (rewriteLayer e l f)"
  unfolding rewriteLayer_def by (auto intro!: trusty_intros)

lemma trusty_prepare_layer [trusty_intros]: "trusty (sha256 e) (prepare_layer e q l)"
  unfolding prepare_layer_def quantize_step_def quantizeLayer_def copyLayerWithLlamaQuantize_def copySplitLayerPreservingTensors_def
    baseLayerTensors_def llavaLayer_def Let_def
  by (intro trusty_intros)

lemma trusty_prepare_layers [trusty_intros]: "trusty (sha256 e) (prepare_layers e q ls c)"
  by (induction ls arbitrary: c) (auto intro!: trusty_intros)

lemma trusty_removeLayer [trusty_intros]: "trusty sha (removeLayer e mt ls)"
proof -
  have "authentic sha (snd (removeLayer e mt ls s))" if "authentic sha s" for s
    using that
  proof (induction ls arbitrary: s)
    case (Cons l ls)
    have "authentic sha (snd (Layer_Remove deny l s))" for deny
      using Cons.prems by (auto simp: Layer_Remove_def intro: authentic_remove split: sum.split)
    then show ?case using Cons by (auto simp: bind_def ret_def split: prod.split sum.split) (metis snd_conv)+
  qed (simp add: ret_def)
  then show ?thesis by (auto simp: trusty_def holds_def) (metis snd_conv)
qed

lemma trusty_append_layer [trusty_intros]: "trusty (sha256 e) (append_layer e c mt ls)"
  unfolding append_layer_def by (intro trusty_intros)

lemma trusty_gather [trusty_intros]: "trusty sha (gather_params e ls p)"
  by (induction ls arbitrary: p) (auto intro!: trusty_intros)

lemma trusty_licenses [trusty_intros]: "trusty (sha256 e) (add_licenses e lics ls)"
  by (induction lics arbitrary: ls) (auto simp: setLicense_def intro!: trusty_intros)

lemma trusty_model_layers [trusty_intros]: "trusty (sha256 e) (model_layers e r base config)"
proof -
  have "trusty (sha256 e) (setLicenses e v ls)" for v ls
    by (cases v) (auto simp: setLicenses_def setLicense_def intro!: trusty_intros)
  then show ?thesis
    unfolding model_layers_def setTemplate_def setSystem_def setParameters_def setMessages_def by (intro trusty_intros)
qed

section \<open>The layers of a model that was created\<close>

definition made_layer :: "'v env \<Rightarrow> string \<Rightarrow> string \<Rightarrow> Manifest_Store.Layer" where
  "made_layer e content mt = \<lparr>l_MediaType = mt, l_Digest = layer_digest (sha256 e) (map (\<lambda>c. word_of_nat (of_char c)) content),
     l_Size = of_nat (length content), l_From = [], l_Name = []\<rparr>"

definition put_kind :: "'v env \<Rightarrow> string \<Rightarrow> string \<Rightarrow> Manifest_Store.Layer list \<Rightarrow> Manifest_Store.Layer list" where
  "put_kind e mt content ls = filter (\<lambda>l. l_MediaType l \<noteq> mt) ls @ [made_layer e content mt]"

lemma new_layer_result: "new_layer e content mt s = (Inr l, t) \<Longrightarrow> l = made_layer e content mt"
  by (auto simp: new_layer_def NewLayer_def made_layer_def split: sum.splits)

lemma append_layer_result: "append_layer e content mt ls s = (Inr ls', t) \<Longrightarrow> ls' = ls @ [made_layer e content mt]"
  by (auto simp: append_layer_def bind_def ret_def dest: new_layer_result split: prod.splits sum.splits)

lemma bindE:
  assumes "bind m f s = (Inr y, t)"
  obtains x u where "m s = (Inr x, u)" "f x u = (Inr y, t)"
  using assms by (auto simp: bind_def split: prod.splits sum.splits)

lemma replace_result: "bind (removeLayer e mt ls) (append_layer e content mt) s = (Inr ls', t) \<Longrightarrow> ls' = put_kind e mt content ls"
  using removeLayer_result [of e mt ls s] by (auto simp: put_kind_def elim!: bindE dest: append_layer_result)

definition license_texts :: "license_value \<Rightarrow> string list" where
  "license_texts v = (case v of LicenseText l \<Rightarrow> if l = [] then [] else [l] | LicenseTexts lics \<Rightarrow> lics | _ \<Rightarrow> [])"

lemma add_licenses_result:
  "add_licenses e lics ls s = (Inr ls', t) \<Longrightarrow> ls' = ls @ map (\<lambda>l. made_layer e l license_type) lics"
proof (induction lics arbitrary: ls s)
  case (Cons l lics)
  then show ?case by (fastforce simp: setLicense_def elim!: bindE dest!: append_layer_result)
qed (simp add: ret_def)

lemma setLicenses_result:
  "setLicenses e v ls s = (Inr ls', t) \<Longrightarrow> ls' = ls @ map (\<lambda>l. made_layer e l license_type) (license_texts v)"
  by (auto simp: setLicenses_def setLicense_def license_texts_def ret_def fail_def dest: append_layer_result add_licenses_result
      split: license_value.splits if_splits)

text \<open>The layers in terms of the prepared base layers \<open>ls0\<close> and the parameters \<open>q\<close>.\<close>

definition final_layers :: "'v env \<Rightarrow> 'v CreateRequest \<Rightarrow> (string \<times> 'v) list \<Rightarrow> Manifest_Store.Layer list \<Rightarrow> Manifest_Store.Layer list" where
  "final_layers e r q ls0 =
     (let ls = (if r_Template r = [] then ls0 else put_kind e template_type (r_Template r) ls0);
          ls = (if r_System r = [] then ls else put_kind e system_type (r_System r) ls);
          ls = ls @ map (\<lambda>l. made_layer e l license_type) (license_texts (r_License r));
          ls = (if q = [] then ls else put_kind e params_type (enc_params e q) ls)
      in if r_Messages r = [] then ls else put_kind e messages_type (enc_messages e (r_Messages r)) ls)"

text \<open>The keys of parameters are valid text.\<close>

definition clean_keys :: "(string \<times> 'v) list \<Rightarrow> bool" where
  "clean_keys q \<longleftrightarrow> (\<forall>k \<in> fst ` set q. coerce k = k)"

lemma gather_clean:
  assumes "gather_params e ls p s = (Inr q, t)" "clean_keys p" "\<forall>f x. dec_params e f = Some x \<longrightarrow> clean_keys x"
  shows "clean_keys q"
  using assms(1,2)
proof (induction ls arbitrary: p s)
  case (Cons l ls)
  show ?case
  proof (cases "l_MediaType l = params_type")
    case True
    with Cons.prems(1) obtain f u x where f: "dec_params e f = Some x" "gather_params e ls (merge_params p x) u = (Inr q, t)"
      by (auto simp: fail_def elim!: bindE split: option.splits)
    have "clean_keys (merge_params p x)" using Cons.prems(2) assms(3) f(1) by (fastforce simp: clean_keys_def merge_params_def)
    from Cons.IH [OF f(2) this] show ?thesis .
  qed (use Cons in simp)
qed (simp add: ret_def)

lemma setParameters_layers:
  assumes "setParameters e p ls s = (Inr ls', t)" "clean_keys p" "\<forall>f x. dec_params e f = Some x \<longrightarrow> clean_keys x"
  shows "\<exists>q. ls' = (if q = [] then ls else put_kind e params_type (enc_params e q) ls) \<and> map_of p \<subseteq>\<^sub>m map_of q \<and> clean_keys q"
proof -
  obtain q u where q: "gather_params e ls p s = (Inr q, u)"
    "(if q = [] then ret ls else bind (removeLayer e params_type ls) (append_layer e (enc_params e q) params_type)) u = (Inr ls', t)"
    using assms(1) unfolding setParameters_def by (elim bindE) auto
  have "map_of p \<subseteq>\<^sub>m map_of q" using gather_params_result [OF q(1)] by (auto simp: map_le_def map_add_def)
  moreover have "ls' = (if q = [] then ls else put_kind e params_type (enc_params e q) ls)"
    using q(2) by (auto simp: ret_def dest: replace_result split: if_splits)
  ultimately show ?thesis using gather_clean [OF q(1) assms(2,3)] by blast
qed

lemma prepare_layers_config:
  assumes "prepare_layers e q base c s = (Inr (ls, c'), t)"
  shows "c_Capabilities c' = c_Capabilities c"
  using assms
proof (induction base arbitrary: c s ls t)
  case (Cons b base)
  then obtain nl u rest v where "prepare_layers e q base (if lg_GGML b = None then c else describe e nl c) u = (Inr (rest, c'), v)"
    by (auto simp: ret_def elim!: bindE split: prod.splits)
  from Cons.IH [OF this] show ?case by (simp add: describe_def Let_def split: if_splits)
qed (simp add: ret_def)

lemma model_layers_result:
  assumes "model_layers e r base config s = (Inr (ls, c), t)" "clean_keys (r_Parameters r)"
    and "\<forall>f x. dec_params e f = Some x \<longrightarrow> clean_keys x"
  shows "\<exists>q ls0 p u. prepare_layers e p base config s = (Inr (ls0, c), u) \<and> ls = final_layers e r q ls0 \<and>
    map_of (r_Parameters r) \<subseteq>\<^sub>m map_of q \<and> clean_keys q \<and> (r_Template r \<noteq> [] \<longrightarrow> template_ok e (r_Template r))"
proof -
  let ?p = "cmp_Or (r_Quantize r) (r_Quantization r)"
  from assms(1) obtain ls0 c0 ls1 ls2 ls3 ls4 s0 s1 s2 s3 s4 where
    steps: "prepare_layers e ?p base config s = (Inr (ls0, c0), s0)"
      "(if r_Template r \<noteq> [] then setTemplate e (r_Template r) ls0 else ret ls0) s0 = (Inr ls1, s1)"
      "(if r_System r \<noteq> [] then setSystem e (r_System r) ls1 else ret ls1) s1 = (Inr ls2, s2)"
      "setLicenses e (r_License r) ls2 s2 = (Inr ls3, s3)" "setParameters e (r_Parameters r) ls3 s3 = (Inr ls4, s4)"
      "setMessages e (r_Messages r) ls4 s4 = (Inr ls, t)" "c0 = c"
    unfolding model_layers_def by (elim bindE) (auto simp: ret_def elim!: bindE)
  have 1: "ls1 = (if r_Template r = [] then ls0 else put_kind e template_type (r_Template r) ls0) \<and> (r_Template r \<noteq> [] \<longrightarrow> template_ok e (r_Template r))"
  proof (cases "r_Template r = []")
    case False
    then have "template_ok e (r_Template r)" using steps(2) by (auto simp: setTemplate_def fail_def elim!: bindE split: if_splits)
    then show ?thesis using False steps(2) by (simp add: setTemplate_def replace_result)
  qed (use steps(2) in \<open>simp add: ret_def\<close>)
  have 2: "ls2 = (if r_System r = [] then ls1 else put_kind e system_type (r_System r) ls1)"
    using steps(3) by (auto simp: setSystem_def ret_def dest: replace_result split: if_splits)
  note 3 = setLicenses_result [OF steps(4)]
  obtain q where 4: "ls4 = (if q = [] then ls3 else put_kind e params_type (enc_params e q) ls3)" "map_of (r_Parameters r) \<subseteq>\<^sub>m map_of q" "clean_keys q"
    using setParameters_layers [OF steps(5) assms(2,3)] by blast
  have 5: "ls = (if r_Messages r = [] then ls4 else put_kind e messages_type (enc_messages e (r_Messages r)) ls4)"
    using steps(6) by (auto simp: setMessages_def ret_def dest: replace_result split: if_splits)
  have "ls = final_layers e r q ls0" unfolding final_layers_def Let_def 5 4(1) 3 2 using 1 by simp
  with steps(1,7) 1 4 show ?thesis by blast
qed

text \<open>The last layer that satisfies \<open>P\<close>.\<close>

definition last_such :: "('a \<Rightarrow> bool) \<Rightarrow> 'a list \<Rightarrow> 'a \<Rightarrow> bool" where
  "last_such P ls l \<longleftrightarrow> (\<exists>xs ys. ls = xs @ l # ys \<and> (\<forall>y \<in> set ys. \<not> P y))"

lemma last_such_append: "last_such P ls l \<Longrightarrow> \<forall>y \<in> set ys. \<not> P y \<Longrightarrow> last_such P (ls @ ys) l"
  unfolding last_such_def by (metis append.assoc append_Cons set_append Un_iff)

lemma last_such_filter: "last_such P ls l \<Longrightarrow> Q l \<Longrightarrow> last_such P (filter Q ls) l"
  unfolding last_such_def by (elim exE conjE) (rule exI, rule exI, auto)

lemma last_such_put:
  assumes "last_such P ls l" "l_MediaType l \<noteq> mt" "\<not> P (made_layer e c mt)"
  shows "last_such P (put_kind e mt c ls) l"
  unfolding put_kind_def using assms by (intro last_such_append last_such_filter) auto

lemma last_such_new: "last_such P (put_kind e mt c ls) (made_layer e c mt)"
  unfolding put_kind_def last_such_def by fastforce

lemma made_layer_simps [simp]: "l_MediaType (made_layer e c mt) = mt"
  "l_Digest (made_layer e c mt) = layer_digest (sha256 e) (map (\<lambda>c. word_of_nat (of_char c)) c)"
  by (simp_all add: made_layer_def)

lemma kinds_neq [simp]:
  "template_type \<noteq> system_type" "template_type \<noteq> license_type" "template_type \<noteq> params_type" "template_type \<noteq> messages_type"
  "system_type \<noteq> template_type" "system_type \<noteq> license_type" "system_type \<noteq> params_type" "system_type \<noteq> messages_type"
  "license_type \<noteq> template_type" "license_type \<noteq> system_type" "license_type \<noteq> params_type" "license_type \<noteq> messages_type"
  "params_type \<noteq> template_type" "params_type \<noteq> system_type" "params_type \<noteq> license_type" "params_type \<noteq> messages_type"
  "messages_type \<noteq> template_type" "messages_type \<noteq> system_type" "messages_type \<noteq> license_type" "messages_type \<noteq> params_type"
  "prompt_type \<noteq> template_type" "prompt_type \<noteq> system_type" "prompt_type \<noteq> license_type" "prompt_type \<noteq> params_type" "prompt_type \<noteq> messages_type"
  "system_type \<noteq> prompt_type" "license_type \<noteq> prompt_type" "params_type \<noteq> prompt_type" "messages_type \<noteq> prompt_type"
  by (simp_all add: type_defs prompt_type_def)

lemma final_layers_last:
  shows "r_Template r \<noteq> [] \<Longrightarrow> last_such (\<lambda>l. kind l \<in> {prompt_type, template_type}) (final_layers e r q ls0) (made_layer e (r_Template r) template_type)"
    "r_System r \<noteq> [] \<Longrightarrow> last_such (\<lambda>l. kind l = system_type) (final_layers e r q ls0) (made_layer e (r_System r) system_type)"
    "q \<noteq> [] \<Longrightarrow> last_such (\<lambda>l. kind l = params_type) (final_layers e r q ls0) (made_layer e (enc_params e q) params_type)"
    "r_Messages r \<noteq> [] \<Longrightarrow> last_such (\<lambda>l. kind l = messages_type) (final_layers e r q ls0) (made_layer e (enc_messages e (r_Messages r)) messages_type)"
  unfolding final_layers_def Let_def by (auto intro!: last_such_new last_such_put last_such_append)

lemma final_layers_license: "t \<in> set (license_texts (r_License r)) \<Longrightarrow> made_layer e t license_type \<in> set (final_layers e r q ls0)"
  by (auto simp: final_layers_def put_kind_def Let_def)

lemma final_layers_subset:
  "l \<in> set (final_layers e r q ls0) \<Longrightarrow> l \<in> set ls0 \<or> (r_Template r \<noteq> [] \<and> l = made_layer e (r_Template r) template_type) \<or>
    (\<exists>c. l = made_layer e c system_type \<or> l = made_layer e c license_type) \<or> (\<exists>q'. q' = q \<and> l = made_layer e (enc_params e q') params_type) \<or>
    l = made_layer e (enc_messages e (r_Messages r)) messages_type"
  by (auto simp: final_layers_def put_kind_def Let_def split: if_splits)

section \<open>A model that was created is loaded\<close>

text \<open>The laws of the JSON package: what is decoded has valid text, an object is decoded over the entries that are there,
  an array replaces them.\<close>

definition json_ok :: "'v loader \<Rightarrow> bool" where
  "json_ok L \<longleftrightarrow>
     (\<forall>c. \<exists>c'. dec_config (ld_env L) (enc_config (ld_env L) c) = Some c' \<and> c_Capabilities c' = map coerce (c_Capabilities c)) \<and>
     (\<forall>q old. clean_keys q \<longrightarrow> (\<exists>new. decode_options L (enc_params (ld_env L) q) old = Some new \<and> map_of new = map_of old ++ map_of q)) \<and>
     (\<forall>ms old. decode_messages L (enc_messages (ld_env L) ms) old = Some (map (\<lambda>(role, content). (coerce role, coerce content)) ms)) \<and>
     (\<forall>f x. dec_params (ld_env L) f = Some x \<longrightarrow> clean_keys x)"

lemma json_options:
  "json_ok L \<Longrightarrow> clean_keys q \<Longrightarrow> \<exists>new. decode_options L (enc_params (ld_env L) q) old = Some new \<and> map_of new = map_of old ++ map_of q"
  by (simp add: json_ok_def)

text \<open>Base layers that can be read: text that decodes, and files of weights in layers for them.\<close>

definition base_loads :: "'v loader \<Rightarrow> layerGGML list \<Rightarrow> bool" where
  "base_loads L base \<longleftrightarrow> (\<forall>b \<in> set base. loadable L (lg_Layer b) \<and>
     (lg_GGML b \<noteq> None \<longrightarrow> l_MediaType (lg_Layer b) \<in> {model_type, projector_type, adapter_type, draft_type}))"

lemma stems_loadable: "base_loads L base \<Longrightarrow> stems base l \<Longrightarrow> loadable L l"
  by (auto simp: base_loads_def stems_def loadable_def)

lemma made_text:
  assumes "inj (layer_digest (sha256 e))" "layer_digest (sha256 e) data = l_Digest (made_layer e c mt)"
  shows "text_of data = c"
  using inj_eq [OF assms(1), of data "map (\<lambda>c. word_of_nat (of_char c)) c"] assms(2) by simp

lemma made_loadable:
  assumes "inj (layer_digest (sha256 (ld_env L)))" "NormalizeMediaType mt = mt" "\<And>m. \<not> isl (load_text L mt c m)"
  shows "loadable L (made_layer (ld_env L) c mt)"
  using made_text [OF assms(1)] assms(2,3) by (force simp: loadable_def)

lemma final_layers_loadable:
  assumes "inj (layer_digest (sha256 (ld_env L)))" "json_ok L" "clean_keys q" "r_Template r \<noteq> [] \<longrightarrow> template_ok (ld_env L) (r_Template r)"
    and "\<forall>l \<in> set ls0. loadable L l" "l \<in> set (final_layers (ld_env L) r q ls0)"
  shows "loadable L l"
proof -
  have 1: "\<not> isl (load_text L params_type (enc_params (ld_env L) q) m)" for m
    using json_options [OF assms(2,3), of "mo_Options m"] by (auto simp: load_text_def)
  have 2: "\<not> isl (load_text L messages_type (enc_messages (ld_env L) (r_Messages r)) m)" for m
    using assms(2) by (auto simp: json_ok_def load_text_def split: option.split)
  have 3: "\<not> isl (load_text L system_type c m)" "\<not> isl (load_text L license_type c m)" for c m by (simp_all add: load_text_def)
  have 4: "r_Template r \<noteq> [] \<Longrightarrow> \<not> isl (load_text L template_type (r_Template r) m)" for m using assms(4) by (simp add: load_text_def)
  from final_layers_subset [OF assms(6)] show ?thesis
    using assms(5) made_loadable [OF assms(1) _ 1] made_loadable [OF assms(1) _ 2] made_loadable [OF assms(1) _ 3(1)]
      made_loadable [OF assms(1) _ 3(2)] made_loadable [OF assms(1) _ 4] by auto
qed

text \<open>When the layers are loaded, one of them is read with what the layers before it gave, and those after it follow.\<close>

lemma load_at:
  assumes "load_layers L (xs @ l # ys) m s = (Inr m', t)" "solid (ms_store s) l" "prim_ok (ms_store s)"
    and "authentic (sha256 (ld_env L)) (ms_store s)" "inj (layer_digest (sha256 (ld_env L)))"
    and "l = made_layer (ld_env L) c mt" "mt \<in> set text_kinds" "NormalizeMediaType mt = mt"
  shows "\<exists>m1 m2 u. load_text L mt c m1 = Inr m2 \<and> load_layers L ys m2 u = (Inr m', t)"
proof -
  obtain m1 u where 1: "load_layers L xs m s = (Inr m1, u)" "load_layers L (l # ys) m1 u = (Inr m', t)"
    using assms(1) by (auto simp: load_layers_append split: prod.splits sum.splits)
  have u: "ms_store u = ms_store s" using load_layers_frame(1) [OF 1(1)] by simp
  obtain filename data where f: "BlobsPath (l_Digest l) (ms_store u) = Inr filename" "file_text filename u = Inr (text_of data)"
    "layer_digest (sha256 (ld_env L)) data = l_Digest l"
    using solid_content [of u l] assms(2-4) unfolding u by blast
  have "text_of data = c" using made_text [OF assms(5)] f(3) assms(6) by blast
  then have "load_layer L l m1 u = (load_text L mt c m1, u)"
    using load_layer_text [of l u filename c L m1] f(1,2) assms(6-8) by simp
  with 1(2) show ?thesis by (auto split: sum.splits)
qed

lemma load_last:
  assumes "load_layers L ls m s = (Inr m', t)" "last_such P ls (made_layer (ld_env L) c mt)" "\<forall>l \<in> set ls. solid (ms_store s) l"
    and "prim_ok (ms_store s)" "authentic (sha256 (ld_env L)) (ms_store s)" "inj (layer_digest (sha256 (ld_env L)))"
    and "mt \<in> set text_kinds" "NormalizeMediaType mt = mt"
  obtains m1 m2 ys u where "load_text L mt c m1 = Inr m2" "load_layers L ys m2 u = (Inr m', t)" "\<forall>y \<in> set ys. \<not> P y"
proof -
  obtain xs ys where ls: "ls = xs @ made_layer (ld_env L) c mt # ys" "\<forall>y \<in> set ys. \<not> P y" using assms(2) by (auto simp: last_such_def)
  have "solid (ms_store s) (made_layer (ld_env L) c mt)" using assms(3) ls(1) by simp
  from load_at [OF assms(1) [unfolded ls(1)] this assms(4-6) refl assms(7,8)] ls(2) that show ?thesis by blast
qed

text \<open>What the layers of a model give when they are loaded.\<close>

definition as_requested :: "'v CreateRequest \<Rightarrow> 'v ServerModel \<Rightarrow> bool" where
  "as_requested r m \<longleftrightarrow>
     (r_Template r \<noteq> [] \<longrightarrow> mo_Template m = Some (r_Template r)) \<and>
     (r_System r \<noteq> [] \<longrightarrow> mo_System m = r_System r) \<and>
     (r_Messages r \<noteq> [] \<longrightarrow> mo_Messages m = map (\<lambda>(role, content). (coerce role, coerce content)) (r_Messages r)) \<and>
     map_of (r_Parameters r) \<subseteq>\<^sub>m map_of (mo_Options m) \<and>
     set (license_texts (r_License r)) \<subseteq> set (mo_License m)"

lemma text_kinds_members [simp]:
  "template_type \<in> set text_kinds" "system_type \<in> set text_kinds" "params_type \<in> set text_kinds" "messages_type \<in> set text_kinds"
  "license_type \<in> set text_kinds"
  by (simp_all add: text_kinds_def)

lemma load_final_layers:
  assumes "load_layers L (final_layers (ld_env L) r q ls0) m s = (Inr m', t)" "\<forall>l \<in> set (final_layers (ld_env L) r q ls0). solid (ms_store s) l"
    and "prim_ok (ms_store s)" "authentic (sha256 (ld_env L)) (ms_store s)" "inj (layer_digest (sha256 (ld_env L)))"
    and "json_ok L" "clean_keys q" "map_of (r_Parameters r) \<subseteq>\<^sub>m map_of q"
  shows "as_requested r m'"
proof -
  note at = load_last [OF assms(1) _ assms(2-5)]
  have "mo_Template m' = Some (r_Template r)" if "r_Template r \<noteq> []"
    by (rule at [OF final_layers_last(1) [OF that]])
      (auto simp: load_text_def dest: load_layers_frame(2) split: if_splits)
  moreover have "mo_System m' = r_System r" if "r_System r \<noteq> []"
    by (rule at [OF final_layers_last(2) [OF that]])
      (auto simp: load_text_def dest: load_layers_frame(3) split: if_splits)
  moreover have "mo_Messages m' = map (\<lambda>(role, content). (coerce role, coerce content)) (r_Messages r)" if "r_Messages r \<noteq> []"
    by (rule at [OF final_layers_last(4) [OF that]])
      (use assms(6) in \<open>auto simp: load_text_def json_ok_def dest: load_layers_frame(5) split: if_splits option.splits\<close>)
  moreover have "map_of q \<subseteq>\<^sub>m map_of (mo_Options m')"
  proof (cases "q = []")
    case False
    show ?thesis
    proof (rule at [OF final_layers_last(3) [OF False]])
      fix m1 m2 ys u
      assume a: "load_text L params_type (enc_params (ld_env L) q) m1 = Inr m2" "load_layers L ys m2 u = (Inr m', t)" "\<forall>y \<in> set ys. kind y \<noteq> params_type"
      then have "map_of (mo_Options m2) = map_of (mo_Options m1) ++ map_of q"
        using json_options [OF assms(6,7), of "mo_Options m1"] by (auto simp: load_text_def)
      then show ?thesis using load_layers_frame(4) [OF a(2,3)] by (simp add: map_le_map_add)
    qed simp_all
  qed simp
  moreover have "x \<in> set (mo_License m')" if x: "x \<in> set (license_texts (r_License r))" for x
  proof -
    from final_layers_license [OF x] obtain xs ys where "final_layers (ld_env L) r q ls0 = xs @ made_layer (ld_env L) x license_type # ys"
      by (meson split_list)
    with load_at [of L xs _ ys] assms(1-5) obtain m1 m2 u where "load_text L license_type x m1 = Inr m2" "load_layers L ys m2 u = (Inr m', t)"
      by (metis in_set_conv_decomp normalize_kinds(7) text_kinds_members(5))
    then show ?thesis using load_layers_frame(1) [of L ys m2 u m' t] by (auto simp: load_text_def)
  qed
  ultimately show ?thesis using assms(8) map_le_trans unfolding as_requested_def by blast
qed

lemma write_manifest_blobs: "write_manifest e n c ls s = (r, t) \<Longrightarrow> blobs t = blobs s"
  by (auto simp: write_manifest_def WriteManifest_def put_man_def Let_def split: prod.splits option.splits sum.splits write_outcome.splits)

text \<open>The manifest of a model that was created, its layers and the content of the store.\<close>

lemma created_manifest:
  assumes "store_ok s" "authentic (sha256 e) s" "unclaimed n s" "base_ok base s" "createModel e r n base config s = (Inr (), t)"
    and "\<forall>m loc l. ParseNamedManifest n t = Inr (m, loc) \<and> l \<in> set (Layers m) \<longrightarrow> \<not> loose (used s) (lg_Layer ` set base) l"
  obtains mf loc ls c u where "ParseNamedManifest n t = Inr (mf, loc)" "Layers mf = ls" "model_layers e r base config s = (Inr (ls, c), u)"
    "Config mf = made_layer e (enc_config e (c\<lparr>c_DiffIDs := map l_Digest ls\<rparr>)) config_type"
    "\<forall>l \<in> set ls \<union> {Config mf}. solid t l" "store_ok t" "authentic (sha256 e) t"
proof -
  obtain ls c u cl v where run: "model_layers e r base config s = (Inr (ls, c), u)" "createConfigLayer e ls c u = (Inr cl, v)"
    "write_manifest e n cl ls v = (Inr (), t)"
    using assms(5) unfolding createModel_def by (auto elim!: bindE)
  have "authentic (sha256 e) u" using trustyD [OF trusty_model_layers assms(2) run(1)] .
  moreover have "trusty (sha256 e) (createConfigLayer e ls c)" unfolding createConfigLayer_def by (rule trusty_intros)
  ultimately have "authentic (sha256 e) v" using trustyD run(2) by blast
  then have auth: "authentic (sha256 e) t" using authentic_same write_manifest_blobs [OF run(3)] by blast
  let ?m = "bind (model_layers e r base config) (\<lambda>(ls, config). bind (createConfigLayer e ls config) (\<lambda>c. ret (c, ls)))"
  have m: "?m s = (Inr (cl, ls), v)" using run(1,2) by (simp add: bind_def ret_def)
  from holdsD [OF created_layers_rule [of base "used s" e r config] _ this] assms(1,4)
  have "keeps s v" "layers_ok (used s) (lg_Layer ` set base) {} ls v" by auto
  then have v: "store_ok v" "unclaimed n v" using assms(1,3) unclaimed_same [of s v] by (auto simp: keeps_def)
  obtain mf loc where mf: "ParseNamedManifest n t = Inr (mf, loc)" "Layers mf = ls" "Config mf = cl"
    using write_manifest_result(1) [OF v run(3)] by blast
  note c = createModel_complete [OF assms(1,3-6)]
  have cf: "list_all (\<lambda>l. colon_form (l_Digest l)) (all_layers mf)" using c(2) mf(1) by auto
  have "solid t l" if "l \<in> set (all_layers mf)" for l
  proof -
    have l: "colon_form (l_Digest l)" using cf that by (simp add: list_all_iff)
    have "\<not> isl (Layer_Open l t)" using opens_all [OF c(1) mf(1) cf] that by (auto simp: list_ex_iff)
    then show ?thesis using l by (auto simp: solid_def has_blob_def Layer_Open_def split: sum.splits if_splits prod.splits option.splits)
  qed
  then have "\<forall>l \<in> set ls \<union> {Config mf}. solid t l" using mf(2) by (auto simp: all_layers_def)
  moreover have "cl = made_layer e (enc_config e (c\<lparr>c_DiffIDs := map l_Digest ls\<rparr>)) config_type"
    using run(2) new_layer_result unfolding createConfigLayer_def by blast
  ultimately show ?thesis using that [OF mf(1,2) run(1)] mf(3) c(1) auth by simp
qed

lemma capabilities_of_config: "set (c_Capabilities (mo_Config m)) \<subseteq> set (Capabilities m)"
  using capabilities_grow config_facts(1) [of _ "[]"] unfolding Capabilities_eq configCapabilities_def by (metis Un_upper2 subset_trans)

lemma load_config_ok:
  assumes "solid (ms_store s) (Config mf)" "prim_ok (ms_store s)" "authentic (sha256 (ld_env L)) (ms_store s)"
    and "inj (layer_digest (sha256 (ld_env L)))" "json_ok L" "Config mf = made_layer (ld_env L) (enc_config (ld_env L) c) config_type"
  shows "\<exists>c'. load_config L mf m s = Inr (m\<lparr>mo_Config := c'\<rparr>) \<and> c_Capabilities c' = map coerce (c_Capabilities c)"
proof -
  obtain filename data where f: "BlobsPath (l_Digest (Config mf)) (ms_store s) = Inr filename" "file_text filename s = Inr (text_of data)"
    "layer_digest (sha256 (ld_env L)) data = l_Digest (Config mf)"
    using solid_content [OF assms(1-3)] by blast
  have "text_of data = enc_config (ld_env L) c" using made_text [OF assms(4)] f(3) assms(6) by simp
  moreover obtain c' where "dec_config (ld_env L) (enc_config (ld_env L) c) = Some c'" "c_Capabilities c' = map coerce (c_Capabilities c)"
    using assms(5) unfolding json_ok_def by blast
  moreover have "l_Digest (Config mf) \<noteq> []" using assms(1) by (auto simp: solid_def colon_form_def)
  ultimately show ?thesis using f(1,2) by (auto simp: load_config_def)
qed

section \<open>Properties\<close>


text \<open>An encoding for the example: strings with a dot before each byte, ended by a semicolon.\<close>

definition enc_string :: "string \<Rightarrow> string" where
  "enc_string s = concat (map (\<lambda>c. [CHR ''.'', c]) s) @ '';''"

fun dec_strings :: "string \<Rightarrow> string \<Rightarrow> string list option" where
  "dec_strings acc [] = (if acc = [] then Some [] else None)"
| "dec_strings acc (d # f) =
     (if d = CHR '';'' then map_option ((#) acc) (dec_strings [] f)
      else (case f of [] \<Rightarrow> None | c # f \<Rightarrow> dec_strings (acc @ [c]) f))"

lemma dec_string: "dec_strings acc (enc_string s @ f) = map_option ((#) (acc @ s)) (dec_strings [] f)"
  unfolding enc_string_def by (induction s arbitrary: acc) simp_all

lemma dec_enc: "dec_strings [] (concat (map enc_string ss)) = Some ss"
  by (induction ss) (simp_all add: dec_string)

fun pairs :: "string list \<Rightarrow> (string \<times> string) list" where
  "pairs (k # v # ss) = (k, v) # pairs ss"
| "pairs _ = []"

lemma pairs_flat: "pairs (concat (map (\<lambda>(k, v). [k, v]) q)) = q"
  by (induction q) auto

definition enc_pairs :: "(string \<times> string) list \<Rightarrow> string" where
  "enc_pairs q = concat (map enc_string (concat (map (\<lambda>(k, v). [k, v]) q)))"

definition dec_pairs :: "string \<Rightarrow> (string \<times> string) list option" where
  "dec_pairs f = map_option pairs (dec_strings [] f)"

lemma dec_enc_pairs [simp]: "dec_pairs (enc_pairs q) = Some q"
  unfolding dec_pairs_def enc_pairs_def by (simp only: dec_enc option.map pairs_flat)

definition ex_load_env :: "string env" where
  "ex_load_env = ex_env\<lparr>enc_params := enc_pairs, dec_params := (\<lambda>f. case dec_pairs f of Some q \<Rightarrow> if list_all (\<lambda>(k, _). coerce k = k) q then Some q else None | None \<Rightarrow> None),
     enc_messages := enc_pairs, enc_config := (\<lambda>c. concat (map enc_string (c_Capabilities c))),
     dec_config := (\<lambda>f. map_option (\<lambda>cs. no_config\<lparr>c_Capabilities := map coerce cs\<rparr>) (dec_strings [] f))\<rparr>"

definition ex_loader :: "string loader" where
  "ex_loader = \<lparr>ld_env = ex_load_env, decode_options = (\<lambda>f old. map_option (\<lambda>q. q @ old) (dec_pairs f)),
     decode_messages = (\<lambda>f old. map_option (map (\<lambda>(role, content). (coerce role, coerce content))) (dec_pairs f)),
     ld_json = ex_json, ld_version = [], ld_written = True\<rparr>"

lemma ex_loader_json: "json_ok ex_loader"
proof -
  have "\<exists>c'. dec_config ex_load_env (enc_config ex_load_env c) = Some c' \<and> c_Capabilities c' = map coerce (c_Capabilities c)" for c
    by (simp add: ex_load_env_def dec_enc)
  moreover have "dec_params ex_load_env f = Some x \<Longrightarrow> clean_keys x" for f x
    by (auto simp: ex_load_env_def clean_keys_def list_all_iff split: option.splits if_splits)
  ultimately show ?thesis by (simp add: json_ok_def ex_loader_def) (simp add: ex_load_env_def)
qed


text \<open>The capabilities of a model are listed once each and are exactly: those of its configuration; for a model with a
  GGUF file, thinking if its chat template has it, embedding or else completion by the key for pooling, vision and
  audio by their block counts; for projectors, vision, and audio if one has an audio encoder and is not excluded;
  and thinking for the gpt-oss family.\<close>

theorem capabilities_exact:
  "distinct (Capabilities m) \<and> set (Capabilities m) = set (c_Capabilities (mo_Config m)) \<union>
    (if mo_ModelPath m \<noteq> None \<and> isGGUF m then
       {if md_Valid (mo_metadata m) ''pooling_type'' then ''embedding'' else ''completion''} \<union>
       {c. c = ''thinking'' \<and> chatTemplateHasThinkingSupport (md_String (mo_metadata m) ''tokenizer.chat_template'')} \<union>
       {c. c = ''vision'' \<and> md_Valid (mo_metadata m) ''vision.block_count''} \<union> {c. c = ''audio'' \<and> md_Valid (mo_metadata m) ''audio.block_count''}
     else {}) \<union>
    (if mo_ProjectorPaths m \<noteq> [] then {''vision''} \<union>
       {c. c = ''audio'' \<and> list_ex (\<lambda>md. projectorHasAudio md \<and> \<not> projectorSuppressesAudioCapability md) (mo_projectorMetadata m)} else {}) \<union>
    {c. c = ''thinking'' \<and> c_ModelFamily (mo_Config m) \<in> set [''gptoss'', ''gpt-oss'']}"
proof -
  have "\<not> chatTemplateHasThinkingSupport []" by code_simp
  then have t: "set (chatTemplateCapabilities t cs) = {c. c = ''thinking'' \<and> chatTemplateHasThinkingSupport t} \<union> set cs"
    "distinct (chatTemplateCapabilities t cs) = distinct cs" for t cs
    by (auto simp: chatTemplateCapabilities_def)
  have p: "set (projectorCapabilities m cs) = (if mo_ProjectorPaths m \<noteq> [] then {''vision''} \<union>
       {c. c = ''audio'' \<and> list_ex (\<lambda>md. projectorHasAudio md \<and> \<not> projectorSuppressesAudioCapability md) (mo_projectorMetadata m)} else {}) \<union> set cs"
    "distinct (projectorCapabilities m cs) = distinct cs" for cs
    by (auto simp: projectorCapabilities_def projector_facts)
  have f: "set (modelFamilyCapabilities m cs) = {c. c = ''thinking'' \<and> c_ModelFamily (mo_Config m) \<in> set [''gptoss'', ''gpt-oss'']} \<union> set cs"
    "distinct (modelFamilyCapabilities m cs) = distinct cs" for cs
    by (auto simp: modelFamilyCapabilities_def)
  have g: "set (fst (ggufCapabilities m cs)) = (if mo_ModelPath m \<noteq> None \<and> isGGUF m then
       {if md_Valid (mo_metadata m) ''pooling_type'' then ''embedding'' else ''completion''} \<union>
       {c. c = ''thinking'' \<and> chatTemplateHasThinkingSupport (md_String (mo_metadata m) ''tokenizer.chat_template'')} \<union>
       {c. c = ''vision'' \<and> md_Valid (mo_metadata m) ''vision.block_count''} \<union> {c. c = ''audio'' \<and> md_Valid (mo_metadata m) ''audio.block_count''}
     else {}) \<union> set cs" "distinct (fst (ggufCapabilities m cs)) = distinct cs" for cs
    by (auto simp: ggufCapabilities_def Let_def t)
  show ?thesis using f p g by (simp only: Capabilities_eq configCapabilities_def config_facts set_empty distinct.simps) auto
qed

text \<open>C37: The check of capabilities accepts exactly the lists of known capabilities that the model has; otherwise it names the
  first unknown one, or lists exactly those that are missing, with the remark on thinking if that is one of them.\<close>

theorem check_capabilities_exact:
  "(CheckCapabilities m want = None \<longleftrightarrow> set want \<subseteq> set capToErr \<inter> set (Capabilities m)) \<and>
   (\<forall>c. CheckCapabilities m want = Some (UnknownCapability c) \<longleftrightarrow> find (\<lambda>c. c \<notin> set capToErr) want = Some c) \<and>
   (\<forall>es b. CheckCapabilities m want = Some (DoesNotSupport es b) \<longleftrightarrow> set want \<subseteq> set capToErr \<and>
     es = filter (\<lambda>c. c \<notin> set (Capabilities m)) want \<and> es \<noteq> [] \<and> b = (''thinking'' \<in> set es))"
proof (cases "find (\<lambda>c. c \<notin> set capToErr) want")
  case None
  then have "set want \<subseteq> set capToErr" by (simp add: find_unknown)
  with None show ?thesis by (auto simp: CheckCapabilities_def missing_capabilities_spec filter_empty_conv)
next
  case (Some c)
  then have "\<not> set want \<subseteq> set capToErr" using find_unknown by (metis option.distinct(1))
  with Some show ?thesis by (auto simp: CheckCapabilities_def missing_capabilities_spec)
qed

section \<open>The kinds of layers that are there\<close>

lemma evaluate_fold:
  "HasModel (fold evaluate_layer mts c) \<longleftrightarrow> HasModel c \<or> model_type \<in> NormalizeMediaType ` set mts"
  "HasProjector (fold evaluate_layer mts c) \<longleftrightarrow> HasProjector c \<or> projector_type \<in> NormalizeMediaType ` set mts"
  "HasTemplate (fold evaluate_layer mts c) \<longleftrightarrow> HasTemplate c \<or> template_type \<in> NormalizeMediaType ` set mts"
  by (induction mts arbitrary: c) (auto simp: evaluate_layer_def Let_def type_defs)

lemma load_layer_paths:
  assumes "load_layer L l m s = (Inr m', t)"
  shows "mo_ModelPath m' \<noteq> None \<longleftrightarrow> mo_ModelPath m \<noteq> None \<or> kind l = model_type"
    "mo_ProjectorPaths m' \<noteq> [] \<longleftrightarrow> mo_ProjectorPaths m \<noteq> [] \<or> kind l = projector_type"
  using assms by (auto simp: load_layer_def load_text_def Let_def split: sum.splits prod.splits if_splits option.splits)

text \<open>What \<open>EvaluateCapabilities\<close> finds among the kinds of layers is what a loaded model has.\<close>

lemma evaluate_agrees_with_load:
  assumes "load_layers L ls (blank_model n template) s = (Inr m, t)"
  shows "HasModel (EvaluateCapabilities (map l_MediaType ls)) \<longleftrightarrow> mo_ModelPath m \<noteq> None"
    "HasProjector (EvaluateCapabilities (map l_MediaType ls)) \<longleftrightarrow> mo_ProjectorPaths m \<noteq> []"
proof -
  have "(mo_ModelPath m \<noteq> None \<longleftrightarrow> mo_ModelPath m0 \<noteq> None \<or> model_type \<in> kind ` set ls) \<and>
    (mo_ProjectorPaths m \<noteq> [] \<longleftrightarrow> mo_ProjectorPaths m0 \<noteq> [] \<or> projector_type \<in> kind ` set ls)"
    if "load_layers L ls m0 s = (Inr m, t)" for m0
    using that
  proof (induction ls arbitrary: m0 s)
    case (Cons l ls)
    then obtain m1 s1 where 1: "load_layer L l m0 s = (Inr m1, s1)" "load_layers L ls m1 s1 = (Inr m, t)"
      by (auto split: prod.splits sum.splits)
    from Cons.IH [OF 1(2)] load_layer_paths [OF 1(1)] show ?case by auto
  qed simp
  from this [OF assms] show "HasModel (EvaluateCapabilities (map l_MediaType ls)) \<longleftrightarrow> mo_ModelPath m \<noteq> None"
    "HasProjector (EvaluateCapabilities (map l_MediaType ls)) \<longleftrightarrow> mo_ProjectorPaths m \<noteq> []"
    by (simp_all add: EvaluateCapabilities_def evaluate_fold blank_model_def image_image)
qed

section \<open>The Modelfile parses\<close>

lemma to_runes_ascii: "ascii s \<Longrightarrow> to_runes s = runes s"
proof (induction s)
  case (Cons c s)
  then have "DecodeRune (c # s) = (byte c, 1)" by simp
  then show ?case using Cons by (simp add: to_runes.simps [of "c # s"])
qed (simp add: to_runes.simps)

text \<open>The Modelfile that is shown for a model begins with a FROM command and parses back to its commands, if their values
  can be printed.\<close>

lemma shown_modelfile_parses:
  assumes "list_all (printable_command tbl) (model_commands path as_list sprint m)"
  shows "ParseFile tbl (Model_String path as_list sprint m) = Inr (model_commands path as_list sprint m)"
proof -
  let ?f = "model_commands path as_list sprint m"
  have "cmd_Name (hd ?f) = runes ''model''" "?f \<noteq> []" by (simp_all add: model_commands_def command_def to_runes_ascii)
  then have fr: "\<exists>c \<in> set ?f. cmd_Name c = runes ''model''" using hd_in_set by blast
  obtain s where "parse_runes tbl parse_start (Modelfile_String ?f) = Inr s" "between s" "cmds s = ?f"
    using read_commands [OF assms, of parse_start] by (auto simp: between_def parse_start_def)
  then show ?thesis using fr
    by (simp add: Model_String_def ParseFile_def parse_flush_def between_def Bex_set [symmetric] del: runes_simps)
qed

section \<open>Observations\<close>

text \<open>A layer of parameters, messages or license with the legacy media type is left out without an error.\<close>

lemma legacy_params_ignored:
  assumes "l_MediaType l = ''application/vnd.ollama.image.params''" "prim_ok (ms_store s)"
  shows "load_layer L l m s = (Inr m, s)"
proof -
  have "plain_name ''application/vnd.ollama.image.params''" by (simp add: plain_name_def IsSpace_def in_range_def lower_byte_def)
  then have "kind l = ''application/vnd.ollama.image.params''"
    unfolding NormalizeMediaType_def assms(1) by (simp only: normalize_plain) (simp add: type_defs)
  then show ?thesis using assms(2) by (simp add: load_layer_def BlobsPath_def Path_def Let_def) (simp add: type_defs prompt_type_def)
qed

text \<open>A capability that the program has a name for is unknown to the check.\<close>

lemma tools_unknown: "CheckCapabilities m [''tools''] = Some (UnknownCapability ''tools'')"
  by (simp add: CheckCapabilities_def capToErr_def)

text \<open>A short name is filled up by the parser, so that no existing name is looked for.\<close>

lemma short_name_not_looked_up: "resolveModelManifest order ''m'' s = resolveModelManifest order' ''m'' s"
proof -
  have "IsFullyQualified (ParseName ''m'')" by code_simp
  then show ?thesis by (simp add: resolveModelManifest_def)
qed

text \<open>A model whose metadata cannot be read counts as a model for completion.\<close>

lemma unreadable_model_completes:
  assumes "mo_ModelPath m = Some p" "isGGUF m" "mo_metadata m = no_metadata"
  shows "''completion'' \<in> set (Capabilities m)"
proof -
  have "\<not> md_Valid no_metadata ''pooling_type''" by (simp add: md_Valid_def md_lookup_def no_metadata_def)
  then have "''completion'' \<in> set (fst (ggufCapabilities m cs))" for cs
    using assms by (simp add: ggufCapabilities_def Let_def)
  then show ?thesis using capabilities_grow by (metis Capabilities_eq in_mono)
qed

end
