(* ===== verification/Model_Options.thy ===== *)
theory Model_Options
  imports Model_Load
begin

text \<open>
  The options of a runner, after \<open>api/types.go\<close> and \<open>server/routes.go\<close>: options are taken from maps of JSON values by
  reflection over the fields of \<open>Options\<close>, parameters of a Modelfile are turned into such values, and the defaults, the
  model and the request are combined before a runner is scheduled. \<open>CreateRequest\<close> of \<open>parser/parser.go\<close> gathers the
  parameters of a Modelfile. Floats are bit patterns; the result of a conversion that the language leaves open is the
  parameter \<open>wild\<close>.
\<close>

section \<open>Numbers\<close>

text \<open>\<open>int64\<close> of a \<open>float64\<close>: the fraction is cut off; \<open>wild\<close> for a value that is out of range.\<close>

definition int_of_float :: "(64 word \<Rightarrow> int) \<Rightarrow> 64 word \<Rightarrow> int" where
  "int_of_float wild w =
     (let b = unat w; ex = b div 2 ^ 52 mod 2 ^ 11; m = b mod 2 ^ 52;
          n = (if ex < 1023 then 0 else if ex < 1075 then (2 ^ 52 + m) div 2 ^ (1075 - ex) else (2 ^ 52 + m) * 2 ^ (ex - 1075));
          i = (if b < 2 ^ 63 then int n else - int n)
      in if ex = 2047 then wild w else if i < - (2 ^ 63) \<or> i \<ge> 2 ^ 63 then wild w else i)"

text \<open>Division by a power of two, rounded to the nearest value and to even.\<close>

definition round_shift :: "nat \<Rightarrow> nat \<Rightarrow> nat" where
  "round_shift n k =
     (let q = n div 2 ^ k; r = n mod 2 ^ k
      in if 2 * r > 2 ^ k \<or> 2 * r = 2 ^ k \<and> odd q then q + 1 else q)"

text \<open>\<open>float32\<close> of a \<open>float64\<close>.\<close>

definition float32_of_float :: "64 word \<Rightarrow> 32 word" where
  "float32_of_float w =
     (let b = unat w; sgn = b div 2 ^ 63; ex = b div 2 ^ 52 mod 2 ^ 11; m = b mod 2 ^ 52;
          inf = 255 * 2 ^ 23;
          sig = (if ex = 0 then m else 2 ^ 52 + m);
          k = (if ex \<le> 896 then 926 - max ex 1 else 29);
          e32 = (if ex \<le> 896 then 0 else ex - 897);
          bits = (if ex = 2047 then (if m = 0 then inf else inf + (2 ^ 22 + m div 2 ^ 29 mod 2 ^ 22))
                  else min inf (e32 * 2 ^ 23 + round_shift sig k))
      in word_of_nat (sgn * 2 ^ 31 + bits))"

fun floor_log :: "nat \<Rightarrow> nat" where
  "floor_log n = (if n < 2 then 0 else Suc (floor_log (n div 2)))"

declare floor_log.simps [simp del]

text \<open>The \<open>float64\<close> nearest to an integer, as the decoder of JSON makes it of an integer literal.\<close>

definition float_of_int :: "int \<Rightarrow> 64 word" where
  "float_of_int i =
     (let n = nat (abs i); e = floor_log n;
          bits = (if n = 0 then 0
                  else if e \<le> 52 then (e + 1022) * 2 ^ 52 + n * 2 ^ (52 - e)
                  else (e + 1022) * 2 ^ 52 + round_shift n (e - 52))
      in word_of_nat ((if i < 0 then 2 ^ 63 else 0) + bits))"

section \<open>Options\<close>

record Options =
  o_NumCtx :: int
  o_NumBatch :: int
  o_NumGPU :: int
  o_MainGPU :: "int option"
  o_UseMMap :: "bool option"
  o_NumThread :: int
  o_NumKeep :: int
  o_Seed :: int
  o_NumPredict :: int
  o_TopK :: "32 word"
  o_TopP :: "32 word"
  o_MinP :: "32 word"
  o_TypicalP :: "32 word"
  o_RepeatLastN :: int
  o_Temperature :: "32 word"
  o_RepeatPenalty :: "32 word"
  o_PresencePenalty :: "32 word"
  o_FrequencyPenalty :: "32 word"
  o_Stop :: "string list"

text \<open>The fields that reflection sees, with the values they hold.\<close>

datatype option_field = NumCtx | NumBatch | NumGPU | MainGPU | UseMMap | NumThread | NumKeep | Seed | NumPredict | TopK | TopP
  | MinP | TypicalP | RepeatLastN | Temperature | RepeatPenalty | PresencePenalty | FrequencyPenalty | Stop

datatype field_kind = KInt | KFloat32 | KStrings | KBoolPtr | KIntPtr

datatype cell = CInt int | CFloat32 "32 word" | CStrings "string list" | CBoolPtr "bool option" | CIntPtr "int option"

definition jsonOpts :: "(string \<times> option_field) list" where
  "jsonOpts = [(''num_ctx'', NumCtx), (''num_batch'', NumBatch), (''num_gpu'', NumGPU), (''main_gpu'', MainGPU), (''use_mmap'', UseMMap),
     (''num_thread'', NumThread), (''num_keep'', NumKeep), (''seed'', Seed), (''num_predict'', NumPredict), (''top_k'', TopK),
     (''top_p'', TopP), (''min_p'', MinP), (''typical_p'', TypicalP), (''repeat_last_n'', RepeatLastN), (''temperature'', Temperature),
     (''repeat_penalty'', RepeatPenalty), (''presence_penalty'', PresencePenalty), (''frequency_penalty'', FrequencyPenalty), (''stop'', Stop)]"

definition kind_of :: "option_field \<Rightarrow> field_kind" where
  "kind_of f =
     (if f = MainGPU then KIntPtr
      else if f = UseMMap then KBoolPtr
      else if f = Stop then KStrings
      else if f \<in> set [TopK, TopP, MinP, TypicalP, Temperature, RepeatPenalty, PresencePenalty, FrequencyPenalty] then KFloat32
      else KInt)"

primrec get_field :: "option_field \<Rightarrow> Options \<Rightarrow> cell" where
  "get_field NumCtx x = CInt (o_NumCtx x)"
| "get_field NumBatch x = CInt (o_NumBatch x)"
| "get_field NumGPU x = CInt (o_NumGPU x)"
| "get_field MainGPU x = CIntPtr (o_MainGPU x)"
| "get_field UseMMap x = CBoolPtr (o_UseMMap x)"
| "get_field NumThread x = CInt (o_NumThread x)"
| "get_field NumKeep x = CInt (o_NumKeep x)"
| "get_field Seed x = CInt (o_Seed x)"
| "get_field NumPredict x = CInt (o_NumPredict x)"
| "get_field TopK x = CFloat32 (o_TopK x)"
| "get_field TopP x = CFloat32 (o_TopP x)"
| "get_field MinP x = CFloat32 (o_MinP x)"
| "get_field TypicalP x = CFloat32 (o_TypicalP x)"
| "get_field RepeatLastN x = CInt (o_RepeatLastN x)"
| "get_field Temperature x = CFloat32 (o_Temperature x)"
| "get_field RepeatPenalty x = CFloat32 (o_RepeatPenalty x)"
| "get_field PresencePenalty x = CFloat32 (o_PresencePenalty x)"
| "get_field FrequencyPenalty x = CFloat32 (o_FrequencyPenalty x)"
| "get_field Stop x = CStrings (o_Stop x)"

primrec set_field :: "option_field \<Rightarrow> cell \<Rightarrow> Options \<Rightarrow> Options" where
  "set_field NumCtx c x = (case c of CInt i \<Rightarrow> x\<lparr>o_NumCtx := i\<rparr> | _ \<Rightarrow> x)"
| "set_field NumBatch c x = (case c of CInt i \<Rightarrow> x\<lparr>o_NumBatch := i\<rparr> | _ \<Rightarrow> x)"
| "set_field NumGPU c x = (case c of CInt i \<Rightarrow> x\<lparr>o_NumGPU := i\<rparr> | _ \<Rightarrow> x)"
| "set_field MainGPU c x = (case c of CIntPtr i \<Rightarrow> x\<lparr>o_MainGPU := i\<rparr> | _ \<Rightarrow> x)"
| "set_field UseMMap c x = (case c of CBoolPtr b \<Rightarrow> x\<lparr>o_UseMMap := b\<rparr> | _ \<Rightarrow> x)"
| "set_field NumThread c x = (case c of CInt i \<Rightarrow> x\<lparr>o_NumThread := i\<rparr> | _ \<Rightarrow> x)"
| "set_field NumKeep c x = (case c of CInt i \<Rightarrow> x\<lparr>o_NumKeep := i\<rparr> | _ \<Rightarrow> x)"
| "set_field Seed c x = (case c of CInt i \<Rightarrow> x\<lparr>o_Seed := i\<rparr> | _ \<Rightarrow> x)"
| "set_field NumPredict c x = (case c of CInt i \<Rightarrow> x\<lparr>o_NumPredict := i\<rparr> | _ \<Rightarrow> x)"
| "set_field TopK c x = (case c of CFloat32 w \<Rightarrow> x\<lparr>o_TopK := w\<rparr> | _ \<Rightarrow> x)"
| "set_field TopP c x = (case c of CFloat32 w \<Rightarrow> x\<lparr>o_TopP := w\<rparr> | _ \<Rightarrow> x)"
| "set_field MinP c x = (case c of CFloat32 w \<Rightarrow> x\<lparr>o_MinP := w\<rparr> | _ \<Rightarrow> x)"
| "set_field TypicalP c x = (case c of CFloat32 w \<Rightarrow> x\<lparr>o_TypicalP := w\<rparr> | _ \<Rightarrow> x)"
| "set_field RepeatLastN c x = (case c of CInt i \<Rightarrow> x\<lparr>o_RepeatLastN := i\<rparr> | _ \<Rightarrow> x)"
| "set_field Temperature c x = (case c of CFloat32 w \<Rightarrow> x\<lparr>o_Temperature := w\<rparr> | _ \<Rightarrow> x)"
| "set_field RepeatPenalty c x = (case c of CFloat32 w \<Rightarrow> x\<lparr>o_RepeatPenalty := w\<rparr> | _ \<Rightarrow> x)"
| "set_field PresencePenalty c x = (case c of CFloat32 w \<Rightarrow> x\<lparr>o_PresencePenalty := w\<rparr> | _ \<Rightarrow> x)"
| "set_field FrequencyPenalty c x = (case c of CFloat32 w \<Rightarrow> x\<lparr>o_FrequencyPenalty := w\<rparr> | _ \<Rightarrow> x)"
| "set_field Stop c x = (case c of CStrings s \<Rightarrow> x\<lparr>o_Stop := s\<rparr> | _ \<Rightarrow> x)"

text \<open>Values of type \<open>any\<close> that occur in maps of options.\<close>

datatype any_value = AInt int | AFloat "64 word" | AFloat32 "32 word" | ABool bool | ABoolPtr bool | AString string
  | AStrings "string list" | AList "any_value list" | AMap | ANil

datatype option_error = MustBeInteger string | MustBeBoolean string | MustBeFloat32 string | MustBeArray string | MustBeStrings string
  | UnknownParameter string | InvalidValue string | NoValuePanic

fun as_int :: "(64 word \<Rightarrow> int) \<Rightarrow> any_value \<Rightarrow> int option" where
  "as_int wild (AInt i) = Some i"
| "as_int wild (AFloat w) = Some (int_of_float wild w)"
| "as_int wild _ = None"

fun as_string :: "any_value \<Rightarrow> string option" where
  "as_string (AString s) = Some s"
| "as_string _ = None"

text \<open>The switch over the kinds of fields in \<open>FromMap\<close>; no field is a plain boolean or a string.\<close>

fun convert :: "(64 word \<Rightarrow> int) \<Rightarrow> field_kind \<Rightarrow> string \<Rightarrow> any_value \<Rightarrow> option_error + cell" where
  "convert wild KInt key v = (case as_int wild v of Some i \<Rightarrow> Inr (CInt i) | None \<Rightarrow> Inl (MustBeInteger key))"
| "convert wild KFloat32 key v = (case v of AFloat w \<Rightarrow> Inr (CFloat32 (float32_of_float w)) | _ \<Rightarrow> Inl (MustBeFloat32 key))"
| "convert wild KStrings key v =
     (case v of AList vs \<Rightarrow> if list_all (\<lambda>v. as_string v \<noteq> None) vs then Inr (CStrings (map (\<lambda>v. the (as_string v)) vs)) else Inl (MustBeStrings key)
      | _ \<Rightarrow> Inl (MustBeArray key))"
| "convert wild KBoolPtr key v = (case v of ABool b \<Rightarrow> Inr (CBoolPtr (Some b)) | _ \<Rightarrow> Inl (MustBeBoolean key))"
| "convert wild KIntPtr key v = (case as_int wild v of Some i \<Rightarrow> Inr (CIntPtr (Some i)) | None \<Rightarrow> Inl (MustBeInteger key))"

text \<open>\<open>Options.FromMap\<close>, with the entries in the order in which the map yields them.\<close>

fun FromMap :: "(64 word \<Rightarrow> int) \<Rightarrow> (string \<times> any_value) list \<Rightarrow> Options \<Rightarrow> option_error + Options" where
  "FromMap wild [] x = Inr x"
| "FromMap wild ((key, v) # m) x =
     (case map_of jsonOpts key of
        None \<Rightarrow> FromMap wild m x
      | Some f \<Rightarrow>
          if v = ANil then FromMap wild m x
          else (case convert wild (kind_of f) key v of
              Inl e \<Rightarrow> Inl e
            | Inr c \<Rightarrow> FromMap wild m (set_field f c x)))"

definition DefaultOptions :: "int \<Rightarrow> Options" where
  "DefaultOptions contextLength = \<lparr>o_NumCtx = contextLength, o_NumBatch = 1024, o_NumGPU = -1, o_MainGPU = None, o_UseMMap = None, o_NumThread = 0,
     o_NumKeep = 0, o_Seed = -1, o_NumPredict = -1, o_TopK = 0x42BFA419, o_TopP = 0x3F4A5E35, o_MinP = 0x3F054C98, o_TypicalP = 0x3F800000,
     o_RepeatLastN = 52, o_Temperature = 0x3FA00000, o_RepeatPenalty = 0x3F8C8B44, o_PresencePenalty = 0, o_FrequencyPenalty = 0, o_Stop = []\<rparr>"

section \<open>The options of a runner\<close>

record server_state =
  defaultNumCtx :: int
  contextLength :: int
  globalModelNumBatch :: int

definition WithDefaultModelNumBatch :: "server_state \<Rightarrow> Options \<Rightarrow> Options" where
  "WithDefaultModelNumBatch s opts = opts\<lparr>o_NumBatch := globalModelNumBatch s\<rparr>"

definition applyModelOptions :: "(64 word \<Rightarrow> int) \<Rightarrow> server_state \<Rightarrow> any_value ServerModel \<Rightarrow> (string \<times> any_value) list \<Rightarrow> bool \<Rightarrow> option_error + Options" where
  "applyModelOptions wild s m requestOpts applyModelBatchDefault =
     (let opts = DefaultOptions (contextLength s);
          opts = (if o_NumCtx opts = 0 then opts\<lparr>o_NumCtx := defaultNumCtx s\<rparr> else opts)
      in case FromMap wild (mo_Options m) opts of
           Inl e \<Rightarrow> Inl e
         | Inr opts \<Rightarrow>
             (case FromMap wild requestOpts opts of
                Inl e \<Rightarrow> Inl e
              | Inr opts \<Rightarrow> Inr (if applyModelBatchDefault then WithDefaultModelNumBatch s opts else opts)))"

definition hasOption :: "(string \<times> any_value) list \<Rightarrow> string \<Rightarrow> bool" where
  "hasOption opts name \<longleftrightarrow> map_of opts name \<noteq> None"

definition applyBatchDefault :: "any_value ServerModel \<Rightarrow> (string \<times> any_value) list \<Rightarrow> bool" where
  "applyBatchDefault m requestOpts =
     (if hasOption (mo_Options m) ''num_batch'' \<or> hasOption requestOpts ''num_batch'' then False
      else if ''embedding'' \<in> set (c_Capabilities (mo_Config m)) then True
      else mo_ModelPath m \<noteq> None \<and> CheckCapabilities m [''embedding''] = None)"

definition modelOptions :: "(64 word \<Rightarrow> int) \<Rightarrow> server_state \<Rightarrow> any_value ServerModel \<Rightarrow> (string \<times> any_value) list \<Rightarrow> bool \<Rightarrow> option_error + Options" where
  "modelOptions wild s m requestOpts applyModelBatchDefault = applyModelOptions wild s m requestOpts (applyBatchDefault m requestOpts)"

definition usesAutomaticNumCtx :: "any_value ServerModel \<Rightarrow> (string \<times> any_value) list \<Rightarrow> bool" where
  "usesAutomaticNumCtx m requestOpts \<longleftrightarrow> \<not> hasOption requestOpts ''num_ctx'' \<and> \<not> hasOption (mo_Options m) ''num_ctx''"

definition usesAutomaticNumBatch :: "any_value ServerModel \<Rightarrow> (string \<times> any_value) list \<Rightarrow> bool" where
  "usesAutomaticNumBatch m requestOpts \<longleftrightarrow> \<not> hasOption requestOpts ''num_batch'' \<and> \<not> hasOption (mo_Options m) ''num_batch''"

datatype schedule_error = ModelRequired | CapabilityErr capability_error | OptionErr option_error

text \<open>\<open>scheduleRunner\<close> up to the call of the scheduler: the options and the two flags that it is given. No model is \<open>None\<close>.\<close>

definition scheduleRunner :: "(64 word \<Rightarrow> int) \<Rightarrow> server_state \<Rightarrow> any_value ServerModel option \<Rightarrow> string list \<Rightarrow> (string \<times> any_value) list \<Rightarrow>
    schedule_error + Options \<times> bool \<times> bool" where
  "scheduleRunner wild s model capable requestOpts =
     (case model of
        None \<Rightarrow> Inl ModelRequired
      | Some m \<Rightarrow>
          if mo_Name m = [] then Inl ModelRequired
          else (case CheckCapabilities m capable of
              Some e \<Rightarrow> Inl (CapabilityErr e)
            | None \<Rightarrow>
                (let numCtxAuto = usesAutomaticNumCtx m requestOpts;
                     modelBatchDefault = applyBatchDefault m requestOpts;
                     numBatchAuto = usesAutomaticNumBatch m requestOpts \<and> \<not> modelBatchDefault
                 in case modelOptions wild s m requestOpts modelBatchDefault of
                      Inl e \<Rightarrow> Inl (OptionErr e)
                    | Inr opts \<Rightarrow> Inr (opts, numCtxAuto, numBatchAuto))))"

section \<open>Parameters of a Modelfile\<close>

definition ParseBool :: "string \<Rightarrow> bool option" where
  "ParseBool s =
     (if s \<in> set [''1'', ''t'', ''T'', ''TRUE'', ''true'', ''True''] then Some True
      else if s \<in> set [''0'', ''f'', ''F'', ''FALSE'', ''false'', ''False''] then Some False
      else None)"

text \<open>One parameter of \<open>FormatParams\<close>; \<open>parse_float\<close> is \<open>strconv.ParseFloat\<close> for 32 bits. A pointer to a boolean is stored as such.\<close>

definition format_param :: "(string \<Rightarrow> 32 word option) \<Rightarrow> string \<Rightarrow> string list \<Rightarrow> option_error + any_value" where
  "format_param parse_float key vals =
     (case map_of jsonOpts key of
        None \<Rightarrow> Inl (UnknownParameter key)
      | Some f \<Rightarrow>
          if kind_of f = KStrings then Inr (AStrings vals)
          else (case vals of
              [] \<Rightarrow> Inl NoValuePanic
            | v # _ \<Rightarrow>
                (case kind_of f of
                   KFloat32 \<Rightarrow> (case parse_float v of Some w \<Rightarrow> Inr (AFloat32 w) | None \<Rightarrow> Inl (InvalidValue key))
                 | KBoolPtr \<Rightarrow> (case ParseBool v of Some b \<Rightarrow> Inr (ABoolPtr b) | None \<Rightarrow> Inl (InvalidValue key))
                 | _ \<Rightarrow> (case Atoi v of Some i \<Rightarrow> Inr (AInt i) | None \<Rightarrow> Inl (InvalidValue key)))))"

fun FormatParams :: "(string \<Rightarrow> 32 word option) \<Rightarrow> (string \<times> string list) list \<Rightarrow> option_error + (string \<times> any_value) list" where
  "FormatParams parse_float [] = Inr []"
| "FormatParams parse_float ((key, vals) # params) =
     (case format_param parse_float key vals of
        Inl e \<Rightarrow> Inl e
      | Inr v \<Rightarrow> (case FormatParams parse_float params of Inl e \<Rightarrow> Inl e | Inr out \<Rightarrow> Inr ((key, v) # out)))"

text \<open>What becomes of a value when it is sent as JSON; \<open>via_text\<close> is the \<open>float64\<close> that is read from the decimal form of a
  \<open>float32\<close>. A float that is not finite cannot be sent, and \<open>FormatParams\<close> makes no other values.\<close>

fun through_json :: "(32 word \<Rightarrow> 64 word) \<Rightarrow> any_value \<Rightarrow> any_value option" where
  "through_json via_text (AInt i) = Some (AFloat (float_of_int i))"
| "through_json via_text (AFloat32 w) = (if finite32 w then Some (AFloat (via_text w)) else None)"
| "through_json via_text (AFloat w) = (if finite64 w then Some (AFloat w) else None)"
| "through_json via_text (ABool b) = Some (ABool b)"
| "through_json via_text (ABoolPtr b) = Some (ABool b)"
| "through_json via_text (AString s) = Some (AString (coerce s))"
| "through_json via_text (AStrings ss) = Some (AList (map (\<lambda>s. AString (coerce s)) ss))"
| "through_json via_text v = None"

section \<open>The request for a Modelfile\<close>

text \<open>\<open>utf8.AppendRune\<close>, and the text of a list of runes.\<close>

definition encode_rune :: "rune \<Rightarrow> string" where
  "encode_rune r =
     (let r = (if r > 0x10FFFF \<or> in_range 0xD800 0xDFFF r then 0xFFFD else r) in
      map char_of (if r < 0x80 then [r]
        else if r < 0x800 then [0xC0 + r div 64, 0x80 + r mod 64]
        else if r < 0x10000 then [0xE0 + r div 4096, 0x80 + r div 64 mod 64, 0x80 + r mod 64]
        else [0xF0 + r div 262144, 0x80 + r div 4096 mod 64, 0x80 + r div 64 mod 64, 0x80 + r mod 64]))"

definition go_string :: "rtext \<Rightarrow> string" where
  "go_string rs = concat (map encode_rune rs)"

text \<open>What \<open>expandPath\<close> and \<open>fileDigestMap\<close> find for a path: nothing, an error, or files with their digests.\<close>

datatype local_files = NoSuchFile | FileTrouble | Digests "(string \<times> string) list"

datatype request_error = LocalFileErr | BadRequires | ParameterErr option_error

record request_env =
  parse_float :: "string \<Rightarrow> 32 word option"
  local_files :: "string \<Rightarrow> local_files"
  semver_IsValid :: "string \<Rightarrow> bool"

record request_state =
  rs_req :: "any_value CreateRequest"
  rs_Adapters :: "(string \<times> string) list option"
  rs_licenses :: "string list"

definition empty_request :: "any_value CreateRequest" where
  "empty_request = \<lparr>r_Model = [], r_Quantize = [], r_From = [], r_Files = None, r_Template = [], r_License = NoLicense, r_System = [], r_Parameters = [],
     r_Messages = [], r_Renderer = [], r_Parser = [], r_Requires = [], r_Info = None, r_Name = [], r_Quantization = []\<rparr>"

definition deprecatedParameters :: "string list" where
  "deprecatedParameters = [''penalize_newline'', ''low_vram'', ''f16_kv'', ''logits_all'', ''vocab_only'', ''use_mlock'', ''mirostat'',
     ''mirostat_tau'', ''mirostat_eta'']"

text \<open>A list of strings is added to the list that is there; the code would fail on a value of another type.\<close>

definition add_param :: "string \<times> any_value \<Rightarrow> (string \<times> any_value) list \<Rightarrow> option_error + (string \<times> any_value) list" where
  "add_param kv params =
     (case map_of params (fst kv) of
        Some (AStrings ks) \<Rightarrow> (case snd kv of AStrings vs \<Rightarrow> Inr (AList.update (fst kv) (AStrings (ks @ vs)) params) | _ \<Rightarrow> Inl NoValuePanic)
      | _ \<Rightarrow> Inr (AList.update (fst kv) (snd kv) params))"

fun add_params :: "(string \<times> any_value) list \<Rightarrow> (string \<times> any_value) list \<Rightarrow> option_error + (string \<times> any_value) list" where
  "add_params [] params = Inr params"
| "add_params (kv # ps) params = (case add_param kv params of Inl e \<Rightarrow> Inl e | Inr params \<Rightarrow> add_params ps params)"

definition set_parameter :: "request_env \<Rightarrow> string \<Rightarrow> string \<Rightarrow> (string \<times> any_value) list \<Rightarrow> option_error + (string \<times> any_value) list" where
  "set_parameter e name args params =
     (if name \<in> set deprecatedParameters then Inr params
      else (case FormatParams (parse_float e) [(name, [args])] of Inl x \<Rightarrow> Inl x | Inr ps \<Rightarrow> add_params ps params))"

definition request_step :: "request_env \<Rightarrow> string \<Rightarrow> string \<Rightarrow> request_state \<Rightarrow> request_error + request_state" where
  "request_step e name args s =
     (let r = rs_req s; upd = (\<lambda>r. Inr (s\<lparr>rs_req := r\<rparr>)) in
      if name = ''model'' then
        (case local_files e args of
           NoSuchFile \<Rightarrow> upd (r\<lparr>r_From := args\<rparr>)
         | FileTrouble \<Rightarrow> Inl LocalFileErr
         | Digests fs \<Rightarrow> upd (r\<lparr>r_Files := Some (case r_Files r of None \<Rightarrow> fs | Some old \<Rightarrow> fold (\<lambda>(k, v). AList.update k v) fs old)\<rparr>))
      else if name = ''adapter'' then
        (case local_files e args of Digests fs \<Rightarrow> Inr (s\<lparr>rs_Adapters := Some fs\<rparr>) | _ \<Rightarrow> Inl LocalFileErr)
      else if name = ''template'' then upd (r\<lparr>r_Template := args\<rparr>)
      else if name = ''system'' then upd (r\<lparr>r_System := args\<rparr>)
      else if name = ''license'' then Inr (s\<lparr>rs_licenses := rs_licenses s @ [args]\<rparr>)
      else if name = ''renderer'' then upd (r\<lparr>r_Renderer := args\<rparr>)
      else if name = ''parser'' then upd (r\<lparr>r_Parser := args\<rparr>)
      else if name = ''requires'' then
        (let v = (if HasPrefix args ''v'' then args else ''v'' @ args) in
         if \<not> semver_IsValid e v then Inl BadRequires else upd (r\<lparr>r_Requires := tl v\<rparr>))
      else if name = ''message'' then
        (let (role, msg, _) = Cut args '': '' in upd (r\<lparr>r_Messages := r_Messages r @ [(role, msg)]\<rparr>))
      else (case set_parameter e name args (r_Parameters r) of
          Inl x \<Rightarrow> Inl (ParameterErr x)
        | Inr ps \<Rightarrow> upd (r\<lparr>r_Parameters := ps\<rparr>)))"

fun request_steps :: "request_env \<Rightarrow> (string \<times> string) list \<Rightarrow> request_state \<Rightarrow> request_error + request_state" where
  "request_steps e [] s = Inr s"
| "request_steps e ((name, args) # cs) s = (case request_step e name args s of Inl x \<Rightarrow> Inl x | Inr s \<Rightarrow> request_steps e cs s)"

text \<open>\<open>Modelfile.CreateRequest\<close>: the request and its adapters.\<close>

definition Modelfile_CreateRequest :: "request_env \<Rightarrow> Modelfile \<Rightarrow> request_error + any_value CreateRequest \<times> (string \<times> string) list option" where
  "Modelfile_CreateRequest e f =
     (case request_steps e (map (\<lambda>c. (go_string (cmd_Name c), go_string (cmd_Args c))) f)
         \<lparr>rs_req = empty_request, rs_Adapters = None, rs_licenses = []\<rparr> of
        Inl x \<Rightarrow> Inl x
      | Inr s \<Rightarrow> Inr ((rs_req s)\<lparr>r_License := if rs_licenses s = [] then NoLicense else LicenseTexts (rs_licenses s)\<rparr>, rs_Adapters s))"

section \<open>Fields of a structure\<close>

text \<open>The contract of reading and writing a field by its name: a write of a value that fits changes that field only,
  and the fields determine the structure.\<close>

locale struct_fields =
  fixes get :: "'f \<Rightarrow> 's \<Rightarrow> 'c" and put :: "'f \<Rightarrow> 'c \<Rightarrow> 's \<Rightarrow> 's" and fits :: "'f \<Rightarrow> 'c \<Rightarrow> bool"
  assumes get_put: "fits f c \<Longrightarrow> get g (put f c x) = (if g = f then c else get g x)"
    and fields_determine: "(\<And>f. get f x = get f y) \<Longrightarrow> x = y"
begin

lemma get_puts:
  "distinct (map fst w) \<Longrightarrow> \<forall>(f, c) \<in> set w. fits f c \<Longrightarrow>
   get g (fold (\<lambda>(f, c). put f c) w x) = (case map_of w g of Some c \<Rightarrow> c | None \<Rightarrow> get g x)"
proof (induction w arbitrary: x)
  case (Cons p w)
  obtain f c where p: "p = (f, c)" by (cases p)
  have "map_of w f = None" using Cons.prems(1) p by (simp add: map_of_eq_None_iff)
  then show ?case using Cons p by (auto simp: get_put split: option.split)
qed simp

text \<open>Writes to different fields can be made in any order.\<close>

lemma puts_any_order:
  assumes "distinct (map fst w)" "\<forall>(f, c) \<in> set w. fits f c" "mset w' = mset w"
  shows "fold (\<lambda>(f, c). put f c) w' x = fold (\<lambda>(f, c). put f c) w x"
proof (rule fields_determine)
  fix g
  have d: "distinct (map fst w')" using assms(1,3) by (metis mset_map mset_eq_imp_distinct_iff)
  have "map_of w' = map_of w" using map_of_eqI [of w' w] d assms(1,3) map_of_eq_Some_iff
    by (metis (no_types, lifting) ext map_of_inject_set mset_eq_setD)
  then show "get g (fold (\<lambda>(f, c). put f c) w' x) = get g (fold (\<lambda>(f, c). put f c) w x)"
    using get_puts [OF assms(1,2)] get_puts [OF d] assms(2) mset_eq_setD [OF assms(3)] by simp
qed

end

fun fits_kind :: "field_kind \<Rightarrow> cell \<Rightarrow> bool" where
  "fits_kind KInt (CInt _) = True"
| "fits_kind KFloat32 (CFloat32 _) = True"
| "fits_kind KStrings (CStrings _) = True"
| "fits_kind KBoolPtr (CBoolPtr _) = True"
| "fits_kind KIntPtr (CIntPtr _) = True"
| "fits_kind _ _ = False"

definition fits_field :: "option_field \<Rightarrow> cell \<Rightarrow> bool" where
  "fits_field f c = fits_kind (kind_of f) c"

lemma get_set_field:
  "fits_field f c \<Longrightarrow> get_field g (set_field f c x) = (if g = f then c else get_field g x)"
  by (cases f; cases c; simp add: fits_field_def kind_of_def; cases g; simp)

interpretation options: struct_fields get_field set_field fits_field
proof
  show "fits_field f c \<Longrightarrow> get_field g (set_field f c x) = (if g = f then c else get_field g x)" for f c g x by (rule get_set_field)
  show "x = y" if a: "\<And>f. get_field f x = get_field f y" for x y
    using a [of NumCtx] a [of NumBatch] a [of NumGPU] a [of MainGPU] a [of UseMMap] a [of NumThread] a [of NumKeep] a [of Seed]
      a [of NumPredict] a [of TopK] a [of TopP] a [of MinP] a [of TypicalP] a [of RepeatLastN] a [of Temperature]
      a [of RepeatPenalty] a [of PresencePenalty] a [of FrequencyPenalty] a [of Stop]
    by (simp add: Options.equality)
qed

section \<open>Facts on FromMap\<close>

lemma convert_fits: "convert wild k key v = Inr c \<Longrightarrow> fits_kind k c"
  by (cases k) (auto split: option.splits any_value.splits if_splits)

text \<open>The name of a field in JSON.\<close>

definition json_key :: "option_field \<Rightarrow> string" where
  "json_key f = fst (the (find (\<lambda>p. snd p = f) jsonOpts))"

lemma json_key: "map_of jsonOpts key = Some f \<longleftrightarrow> key = json_key f"
proof
  assume "map_of jsonOpts key = Some f"
  then have "(key, f) \<in> set jsonOpts" by (rule map_of_SomeD)
  then show "key = json_key f" by (auto simp: jsonOpts_def json_key_def)
next
  have "map_of jsonOpts (json_key f) = Some f" by (cases f) (simp_all add: jsonOpts_def json_key_def)
  then show "key = json_key f \<Longrightarrow> map_of jsonOpts key = Some f" by simp
qed

lemma json_key_inj: "json_key f = json_key g \<Longrightarrow> f = g"
  using json_key by (metis option.inject)

text \<open>What one entry does: nothing, a write, or an error.\<close>

definition entry_write :: "(64 word \<Rightarrow> int) \<Rightarrow> string \<times> any_value \<Rightarrow> option_error + (option_field \<times> cell) option" where
  "entry_write wild kv =
     (case map_of jsonOpts (fst kv) of
        None \<Rightarrow> Inr None
      | Some f \<Rightarrow> if snd kv = ANil then Inr None
          else (case convert wild (kind_of f) (fst kv) (snd kv) of Inl e \<Rightarrow> Inl e | Inr c \<Rightarrow> Inr (Some (f, c))))"

definition writes :: "(64 word \<Rightarrow> int) \<Rightarrow> (string \<times> any_value) list \<Rightarrow> (option_field \<times> cell) list" where
  "writes wild m = List.map_filter (\<lambda>kv. case entry_write wild kv of Inr (Some p) \<Rightarrow> Some p | _ \<Rightarrow> None) m"

lemma FromMap_Cons:
  "FromMap wild (kv # m) x =
    (case entry_write wild kv of Inl e \<Rightarrow> Inl e | Inr None \<Rightarrow> FromMap wild m x | Inr (Some (f, c)) \<Rightarrow> FromMap wild m (set_field f c x))"
  by (cases kv) (simp add: entry_write_def split: option.split sum.split)

lemma writes_simps:
  "writes wild [] = []"
  "writes wild (kv # m) = (case entry_write wild kv of Inr (Some p) \<Rightarrow> p # writes wild m | _ \<Rightarrow> writes wild m)"
  by (simp_all add: writes_def List.map_filter_simps split: sum.split option.split)

lemma entry_writeD:
  assumes "entry_write wild kv = Inr (Some (f, c))"
  shows "fst kv = json_key f" "fits_field f c"
proof -
  have k: "map_of jsonOpts (fst kv) = Some f" and c: "convert wild (kind_of f) (fst kv) (snd kv) = Inr c"
    using assms by (simp_all add: entry_write_def split: option.splits if_splits sum.splits)
  show "fst kv = json_key f" using k json_key by blast
  show "fits_field f c" unfolding fits_field_def by (rule convert_fits [OF c])
qed

lemma FromMap_writes:
  "FromMap wild m x = Inr y \<longleftrightarrow> (\<forall>kv \<in> set m. \<not> isl (entry_write wild kv)) \<and> y = fold (\<lambda>(f, c). set_field f c) (writes wild m) x"
proof (induction m arbitrary: x)
  case (Cons kv m)
  show ?case
  proof (cases "entry_write wild kv")
    case (Inr p)
    then show ?thesis using Cons by (cases p) (auto simp: FromMap_Cons writes_simps)
  qed (simp add: FromMap_Cons)
qed (auto simp: writes_simps)

lemma writes_member: "p \<in> set (writes wild m) \<longleftrightarrow> (\<exists>kv \<in> set m. entry_write wild kv = Inr (Some p))"
proof (induction m)
  case (Cons kv m)
  then show ?case by (cases "entry_write wild kv") (auto simp: writes_simps split: option.split)
qed (simp add: writes_simps)

lemma writes_fit: "\<forall>(f, c) \<in> set (writes wild m). fits_field f c"
  using entry_writeD(2) by (auto simp: writes_member)

lemma writes_distinct: "distinct (map fst m) \<Longrightarrow> distinct (map fst (writes wild m))"
proof (induction m)
  case (Cons kv m)
  have "f \<notin> fst ` set (writes wild m)" if "entry_write wild kv = Inr (Some (f, c))" for f c
  proof
    assume "f \<in> fst ` set (writes wild m)"
    then obtain c' where "(f, c') \<in> set (writes wild m)" by auto
    then obtain kv' where "kv' \<in> set m" "entry_write wild kv' = Inr (Some (f, c'))" by (auto simp: writes_member)
    then show False using entry_writeD(1) [OF that] entry_writeD(1) Cons.prems by (metis distinct.simps(2) image_eqI list.set_map list.simps(9))
  qed
  then show ?case using Cons by (cases "entry_write wild kv") (auto simp: writes_simps split: option.split)
qed (simp add: writes_simps)

lemma writes_lookup:
  assumes "distinct (map fst m)"
  shows "map_of (writes wild m) f = (case map_of m (json_key f) of None \<Rightarrow> None
    | Some v \<Rightarrow> (case entry_write wild (json_key f, v) of Inr (Some (_, c)) \<Rightarrow> Some c | _ \<Rightarrow> None))"
proof (cases "map_of (writes wild m) f")
  case None
  have "map_of m (json_key f) = Some v \<Longrightarrow> entry_write wild (json_key f, v) \<noteq> Inr (Some (g, c))" for v g c
  proof
    assume v: "map_of m (json_key f) = Some v" and e: "entry_write wild (json_key f, v) = Inr (Some (g, c))"
    have "g = f" using entry_writeD(1) [OF e] json_key_inj by simp
    then have "(f, c) \<in> set (writes wild m)" using e map_of_SomeD [OF v] by (auto simp: writes_member)
    then show False using None by (force simp: map_of_eq_None_iff)
  qed
  then show ?thesis using None by (auto split: option.split sum.split)
next
  case (Some c)
  then obtain kv where kv: "kv \<in> set m" "entry_write wild kv = Inr (Some (f, c))" using map_of_SomeD writes_member by metis
  have "kv = (json_key f, snd kv)" using entry_writeD(1) [OF kv(2)] by (cases kv) simp
  then have "map_of m (json_key f) = Some (snd kv)" using kv(1) assms by (metis map_of_is_SomeI)
  then show ?thesis using Some kv(2) \<open>kv = (json_key f, snd kv)\<close> by simp
qed

text \<open>The fields after a successful \<open>FromMap\<close>.\<close>

definition field_from :: "(64 word \<Rightarrow> int) \<Rightarrow> (string \<times> any_value) list \<Rightarrow> option_field \<Rightarrow> cell option" where
  "field_from wild m f =
     (case map_of m (json_key f) of
        None \<Rightarrow> None
      | Some v \<Rightarrow> if v = ANil then None else (case convert wild (kind_of f) (json_key f) v of Inr c \<Rightarrow> Some c | Inl _ \<Rightarrow> None))"

lemma field_from_writes: "distinct (map fst m) \<Longrightarrow> map_of (writes wild m) f = field_from wild m f"
proof -
  have "map_of jsonOpts (json_key f) = Some f" using json_key by blast
  then show "distinct (map fst m) \<Longrightarrow> map_of (writes wild m) f = field_from wild m f"
    by (simp add: writes_lookup field_from_def entry_write_def split: option.split sum.split)
qed

lemma FromMap_fields:
  assumes "FromMap wild m x = Inr y" "distinct (map fst m)"
  shows "get_field f y = (case field_from wild m f of Some c \<Rightarrow> c | None \<Rightarrow> get_field f x)"
  using assms options.get_puts [OF writes_distinct [OF assms(2)] writes_fit, of f wild x] by (simp add: FromMap_writes field_from_writes)

section \<open>Integers through floats\<close>

lemma floor_log_bounds: "0 < n \<Longrightarrow> 2 ^ floor_log n \<le> n \<and> n < 2 ^ Suc (floor_log n)"
proof (induction n rule: floor_log.induct)
  case (1 n)
  show ?case
  proof (cases "n < 2")
    case False
    then have "2 ^ floor_log (n div 2) \<le> n div 2" "n div 2 < 2 ^ Suc (floor_log (n div 2))" using 1 by auto
    then show ?thesis using False by (subst (1 2) floor_log.simps) auto
  qed (use 1 in \<open>simp add: floor_log.simps\<close>)
qed

lemma floor_log_eq:
  assumes "2 ^ e \<le> n" "n < 2 ^ Suc e"
  shows "floor_log n = e"
proof -
  have "0 < n" using assms(1) by (metis less_le_trans zero_less_numeral zero_less_power)
  note b = floor_log_bounds [OF this]
  have "(2::nat) ^ floor_log n < 2 ^ Suc e" "(2::nat) ^ e < 2 ^ Suc (floor_log n)" using b assms by linarith+
  then have "floor_log n < Suc e" "e < Suc (floor_log n)" by (simp_all only: power_strict_increasing_iff one_less_numeral_iff semiring_norm)
  then show ?thesis by simp
qed

lemma floor_log_power: "floor_log (2 ^ k) = k"
  by (rule floor_log_eq) simp_all

lemma unat_word_of_nat: "n < 2 ^ 64 \<Longrightarrow> unat (word_of_nat n :: 64 word) = n"
  by (simp add: unat_of_nat take_bit_eq_mod)

text \<open>The parts of a float that was put together from them.\<close>

lemma int_of_float_parts:
  fixes g e m :: nat
  assumes "m < 2 ^ 52" "e < 2047" "g < 2"
    and "v = (if e < 1023 then 0 else if e < 1075 then (2 ^ 52 + m) div 2 ^ (1075 - e) else (2 ^ 52 + m) * 2 ^ (e - 1075))" "v < 2 ^ 63"
  shows "int_of_float wild (word_of_nat (g * 2 ^ 63 + (e * 2 ^ 52 + m))) = (if g = 0 then int v else - int v)"
proof -
  let ?b = "g * 2 ^ 63 + (e * 2 ^ 52 + m)"
  have "e * 2 ^ 52 + m < 2 ^ 63" using assms(1,2) by simp
  then have "?b < 2 ^ 64" using assms(3) by auto
  then have u: "unat (word_of_nat ?b :: 64 word) = ?b" by (rule unat_word_of_nat)
  have b: "?b = m + 2 ^ 52 * (g * 2 ^ 11 + e)" by simp
  have "(m + 2 ^ 52 * k) div 2 ^ 52 = k" "(m + 2 ^ 52 * k) mod 2 ^ 52 = m" for k using assms(1) by simp_all
  then have q: "?b div 2 ^ 52 = g * 2 ^ 11 + e" "?b mod 2 ^ 52 = m" unfolding b by blast+
  have x: "?b div 2 ^ 52 mod 2 ^ 11 = e" unfolding q(1) using assms(2) by simp
  have s: "?b < 2 ^ 63 \<longleftrightarrow> g = 0" using \<open>e * 2 ^ 52 + m < 2 ^ 63\<close> by auto
  have "int v < 2 ^ 63" using assms(5) by simp
  then show ?thesis unfolding int_of_float_def Let_def u x q(2) s assms(4) [symmetric] using assms(2) by simp
qed

lemma small_int_exact:
  assumes "abs i \<le> 2 ^ 53"
  shows "int_of_float wild (float_of_int i) = i"
proof -
  let ?n = "nat (abs i)" and ?g = "if i < 0 then 1 else 0 :: nat"
  have "?n \<le> 2 ^ 53" using assms by (simp add: nat_le_iff)
  then consider (zero) "i = 0" | (top) "?n = 2 ^ 53" | (small) "0 < ?n" "?n < 2 ^ 53" by linarith
  then show ?thesis
  proof cases
    case zero
    then show ?thesis by (simp add: float_of_int_def int_of_float_def)
  next
    case top
    have e: "floor_log (2 ^ 53) = 53" by (rule floor_log_power)
    have "float_of_int i = word_of_nat (?g * 2 ^ 63 + (1076 * 2 ^ 52 + 0))"
      unfolding float_of_int_def Let_def top e by (simp add: round_shift_def)
    then show ?thesis using int_of_float_parts [of 0 1076 ?g "2 ^ 53" wild] top by (auto split: if_splits)
  next
    case small
    define e where "e = floor_log ?n"
    have b: "2 ^ e \<le> ?n" "?n < 2 ^ Suc e" using floor_log_bounds [OF small(1)] unfolding e_def by auto
    have "(2::nat) ^ e < 2 ^ 53" using b(1) small(2) by linarith
    then have "e < 53" by (rule power_less_imp_less_exp [rotated]) simp
    then have le: "e \<le> 52" by simp
    let ?sig = "?n * 2 ^ (52 - e)"
    have "(2::nat) ^ 52 = 2 ^ e * 2 ^ (52 - e)" using le by (simp flip: power_add)
    then have lo: "2 ^ 52 \<le> ?sig" using b(1) by (metis mult_le_mono1)
    have "(2::nat) ^ 53 = 2 ^ Suc e * 2 ^ (52 - e)" using le by (simp flip: power_add power_Suc)
    then have hi: "?sig < 2 ^ 53" using b(2) by (metis mult_less_mono1 zero_less_numeral zero_less_power)
    have "(e + 1022) * 2 ^ 52 + ?sig = (e + 1023) * 2 ^ 52 + (?sig - 2 ^ 52)" using lo by (simp add: algebra_simps)
    then have f: "float_of_int i = word_of_nat (?g * 2 ^ 63 + ((e + 1023) * 2 ^ 52 + (?sig - 2 ^ 52)))"
      unfolding float_of_int_def Let_def e_def [symmetric] using small(1) le by auto
    have "?n = (if e + 1023 < 1023 then 0 else if e + 1023 < 1075 then (2 ^ 52 + (?sig - 2 ^ 52)) div 2 ^ (1075 - (e + 1023))
        else (2 ^ 52 + (?sig - 2 ^ 52)) * 2 ^ (e + 1023 - 1075))"
      using lo le by (cases "e = 52") auto
    from int_of_float_parts [OF _ _ _ this, of ?g wild] show ?thesis
      unfolding f using hi lo le small(2) by (auto split: if_splits)
  qed
qed

section \<open>Properties\<close>

text \<open>C40: The order in which a map of options is visited does not matter: the options that result are the same, and if a
  value has the wrong type in one order, the map is refused in every order.\<close>

theorem options_any_order:
  assumes "distinct (map fst m)" "mset m' = mset m"
  shows "FromMap wild m' x = Inr y \<longleftrightarrow> FromMap wild m x = Inr y"
proof -
  let ?w = "\<lambda>kv. case entry_write wild kv of Inr (Some p) \<Rightarrow> Some p | _ \<Rightarrow> None"
  have "mset (List.map_filter ?w m') = mset (List.map_filter ?w m)"
    using assms(2) by (simp only: List.map_filter_def mset_map mset_filter)
  then have "mset (writes wild m') = mset (writes wild m)" by (simp only: writes_def)
  from options.puts_any_order [OF writes_distinct [OF assms(1)] writes_fit this] show ?thesis
    using mset_eq_setD [OF assms(2)] by (simp add: FromMap_writes)
qed

theorem options_any_order_witness:
  "FromMap (\<lambda>_. 0) [(''stop'', AList [AString ''a'']), (''seed'', AInt 7)] (DefaultOptions 0) =
    FromMap (\<lambda>_. 0) [(''seed'', AInt 7), (''stop'', AList [AString ''a''])] (DefaultOptions 0)"
proof -
  let ?m = "[(''seed'', AInt 7), (''stop'', AList [AString ''a''])]" and ?m' = "[(''stop'', AList [AString ''a'']), (''seed'', AInt 7)]"
  have "FromMap (\<lambda>_. 0) ?m (DefaultOptions 0) = Inr ((DefaultOptions 0)\<lparr>o_Seed := 7, o_Stop := [''a'']\<rparr>)"
    by (simp add: jsonOpts_def kind_of_def)
  then show ?thesis using options_any_order [of ?m ?m' "\<lambda>_. 0" "DefaultOptions 0"] by simp
qed

text \<open>The options before the model and the request are asked.\<close>

definition base_options :: "server_state \<Rightarrow> Options" where
  "base_options s = (DefaultOptions (contextLength s))\<lparr>o_NumCtx := if contextLength s = 0 then defaultNumCtx s else contextLength s\<rparr>"

lemma modelOptions_fields:
  assumes "modelOptions wild s m req b = Inr opts" "distinct (map fst req)" "distinct (map fst (mo_Options m))"
  shows "get_field f opts = (if f = NumBatch \<and> applyBatchDefault m req then CInt (globalModelNumBatch s)
    else (case field_from wild req f of Some c \<Rightarrow> c
      | None \<Rightarrow> (case field_from wild (mo_Options m) f of Some c \<Rightarrow> c | None \<Rightarrow> get_field f (base_options s))))"
proof -
  have d: "(if o_NumCtx (DefaultOptions (contextLength s)) = 0 then (DefaultOptions (contextLength s))\<lparr>o_NumCtx := defaultNumCtx s\<rparr>
      else DefaultOptions (contextLength s)) = base_options s"
    by (simp add: base_options_def DefaultOptions_def)
  obtain o1 o2 where o: "FromMap wild (mo_Options m) (base_options s) = Inr o1" "FromMap wild req o1 = Inr o2"
    "opts = (if applyBatchDefault m req then WithDefaultModelNumBatch s o2 else o2)"
    using assms(1) unfolding modelOptions_def applyModelOptions_def Let_def d by (auto split: sum.splits)
  have "WithDefaultModelNumBatch s o2 = set_field NumBatch (CInt (globalModelNumBatch s)) o2" by (simp add: WithDefaultModelNumBatch_def)
  moreover have "fits_field NumBatch (CInt k)" for k by (simp add: fits_field_def kind_of_def)
  ultimately have "get_field f (WithDefaultModelNumBatch s o2) = (if f = NumBatch then CInt (globalModelNumBatch s) else get_field f o2)"
    by (simp only: get_set_field)
  then show ?thesis using o(3) FromMap_fields [OF o(2) assms(2), of f] FromMap_fields [OF o(1) assms(3), of f] by (auto split: option.split)
qed

text \<open>C39: A runner is only scheduled for a model that has every capability asked for. Each of its options is what the
  request says, else what the model says, else the default, except that the batch size of a model for embeddings is
  the global one when neither sets it; the flags that leave context and batch size to the scheduler are set only if
  neither says anything about them.\<close>

theorem scheduled_options:
  assumes "scheduleRunner wild s (Some m) capable req = Inr (opts, numCtxAuto, numBatchAuto)"
    and "distinct (map fst req)" "distinct (map fst (mo_Options m))"
  shows "set capable \<subseteq> set (Capabilities m) \<and>
    (\<forall>f. get_field f opts = (if f = NumBatch \<and> applyBatchDefault m req then CInt (globalModelNumBatch s)
      else (case field_from wild req f of Some c \<Rightarrow> c
        | None \<Rightarrow> (case field_from wild (mo_Options m) f of Some c \<Rightarrow> c | None \<Rightarrow> get_field f (base_options s))))) \<and>
    (numCtxAuto \<longleftrightarrow> map_of req ''num_ctx'' = None \<and> map_of (mo_Options m) ''num_ctx'' = None) \<and>
    (applyBatchDefault m req \<or> numBatchAuto \<longleftrightarrow> map_of req ''num_batch'' = None \<and> map_of (mo_Options m) ''num_batch'' = None) \<and>
    \<not> (applyBatchDefault m req \<and> numBatchAuto)"
proof -
  have r: "CheckCapabilities m capable = None" "modelOptions wild s m req (applyBatchDefault m req) = Inr opts"
    "numCtxAuto = usesAutomaticNumCtx m req" "numBatchAuto = (usesAutomaticNumBatch m req \<and> \<not> applyBatchDefault m req)"
    using assms(1) by (auto simp: scheduleRunner_def Let_def split: if_splits option.splits sum.splits)
  have "set capable \<subseteq> set (Capabilities m)"
    using r(1) unfolding CheckCapabilities_def missing_capabilities_spec
    by (auto simp: filter_empty_conv split: option.splits if_splits)
  moreover have "applyBatchDefault m req \<Longrightarrow> usesAutomaticNumBatch m req"
    by (auto simp: applyBatchDefault_def usesAutomaticNumBatch_def split: if_splits)
  ultimately show ?thesis
    using modelOptions_fields [OF r(2) assms(2,3)] r(3,4) by (auto simp: usesAutomaticNumCtx_def usesAutomaticNumBatch_def hasOption_def)
qed

definition ex_server :: server_state where
  "ex_server = \<lparr>defaultNumCtx = 4096, contextLength = 0, globalModelNumBatch = 512\<rparr>"

definition ex_loaded :: "any_value ServerModel" where
  "ex_loaded = (blank_model ex_name None)\<lparr>mo_Options := [(''seed'', AInt 7), (''num_predict'', AInt 5)]\<rparr>"

theorem scheduled_options_witness:
  "\<exists>opts. scheduleRunner (\<lambda>_. 0) ex_server (Some ex_loaded) [] [(''seed'', AInt 3)] = Inr (opts, True, True) \<and>
    get_field Seed opts = CInt 3 \<and> get_field NumPredict opts = CInt 5 \<and> get_field NumCtx opts = CInt 4096"
proof -
  have n: "mo_Name ex_loaded \<noteq> []" unfolding ex_loaded_def blank_model_def ex_name_def by code_simp
  have b: "\<not> applyBatchDefault ex_loaded [(''seed'', AInt 3)]"
    by (simp add: applyBatchDefault_def hasOption_def ex_loaded_def blank_model_def no_config_def)
  have "\<exists>opts. scheduleRunner (\<lambda>_. 0) ex_server (Some ex_loaded) [] [(''seed'', AInt 3)] = Inr (opts, True, True)"
    using n b by (simp add: scheduleRunner_def CheckCapabilities_def modelOptions_def applyModelOptions_def usesAutomaticNumCtx_def
        usesAutomaticNumBatch_def hasOption_def Let_def) (simp add: ex_loaded_def blank_model_def jsonOpts_def kind_of_def)
  then obtain opts where o: "scheduleRunner (\<lambda>_. 0) ex_server (Some ex_loaded) [] [(''seed'', AInt 3)] = Inr (opts, True, True)" by blast
  from scheduled_options [OF o] have g: "get_field f opts =
      (case field_from (\<lambda>_. 0) [(''seed'', AInt 3)] f of Some c \<Rightarrow> c
        | None \<Rightarrow> (case field_from (\<lambda>_. 0) (mo_Options ex_loaded) f of Some c \<Rightarrow> c | None \<Rightarrow> get_field f (base_options ex_server)))" for f
    using b by (simp add: ex_loaded_def)
  note v = field_from_def json_key_def jsonOpts_def kind_of_def ex_loaded_def base_options_def ex_server_def
  have "get_field Seed opts = CInt 3" "get_field NumPredict opts = CInt 5" "get_field NumCtx opts = CInt 4096"
    using g [of Seed] g [of NumPredict] g [of NumCtx] by (simp_all add: v)
  with o show ?thesis by blast
qed

section \<open>The parameters of a Modelfile\<close>

text \<open>The arguments of the commands with a name, in order.\<close>

definition lines_of :: "(string \<times> string) list \<Rightarrow> string \<Rightarrow> string list" where
  "lines_of cs k = map snd (filter (\<lambda>c. fst c = k) cs)"

text \<open>What they are worth as a parameter: all of them for a list, else the last.\<close>

fun param_value :: "(string \<Rightarrow> 32 word option) \<Rightarrow> field_kind \<Rightarrow> string list \<Rightarrow> any_value" where
  "param_value pf KStrings vs = AStrings vs"
| "param_value pf KFloat32 vs = AFloat32 (the (pf (last vs)))"
| "param_value pf KBoolPtr vs = ABoolPtr (the (ParseBool (last vs)))"
| "param_value pf _ vs = AInt (the (Atoi (last vs)))"

definition expected_param :: "(string \<Rightarrow> 32 word option) \<Rightarrow> (string \<times> string) list \<Rightarrow> string \<Rightarrow> any_value option" where
  "expected_param pf cs k =
     (case map_of jsonOpts k of None \<Rightarrow> None | Some f \<Rightarrow> if lines_of cs k = [] then None else Some (param_value pf (kind_of f) (lines_of cs k)))"

lemma format_param_value:
  assumes "format_param pf name [v] = Inr x"
  shows "\<exists>f. name = json_key f \<and> x = param_value pf (kind_of f) [v]"
proof -
  obtain f where f: "map_of jsonOpts name = Some f" using assms by (auto simp: format_param_def split: option.splits)
  then have "x = param_value pf (kind_of f) [v]"
    using assms by (cases "kind_of f") (auto simp: format_param_def split: option.splits)
  then show ?thesis using f json_key by blast
qed

lemma param_value_append: "k \<noteq> KStrings \<Longrightarrow> param_value pf k (vs @ [v]) = param_value pf k [v]"
  by (cases k) simp_all

definition command_words :: "string list" where
  "command_words = [''model'', ''adapter'', ''template'', ''system'', ''license'', ''renderer'', ''parser'', ''requires'', ''message'']"

lemma no_fields: "list_all (\<lambda>w. map_of jsonOpts w = None) (deprecatedParameters @ command_words)"
  by (simp add: deprecatedParameters_def command_words_def jsonOpts_def)

lemma expected_param_other:
  "map_of jsonOpts name = None \<Longrightarrow> expected_param pf (cs @ [(name, args)]) k = expected_param pf cs k"
  by (auto simp: expected_param_def lines_of_def split: option.split)

lemma request_step_word:
  assumes "request_step e name args s = Inr s1" "name \<in> set command_words"
  shows "r_Parameters (rs_req s1) = r_Parameters (rs_req s)"
  using assms(2) unfolding command_words_def list.set
  by (elim insertE emptyE) (use assms(1) in \<open>simp add: request_step_def Let_def split: local_files.splits option.splits prod.splits if_splits;
    auto\<close>)+

lemma set_parameter_value:
  assumes "set_parameter e name args p = Inr p'" "\<forall>k. map_of p k = expected_param (parse_float e) cs k" "distinct (map fst p)"
  shows "(\<forall>k. map_of p' k = expected_param (parse_float e) (cs @ [(name, args)]) k) \<and> distinct (map fst p')"
proof (cases "name \<in> set deprecatedParameters")
  case True
  then have "map_of jsonOpts name = None" using no_fields by (auto simp: list_all_iff)
  then show ?thesis using assms True expected_param_other by (simp add: set_parameter_def)
next
  case False
  then obtain x where x: "format_param (parse_float e) name [args] = Inr x" "add_param (name, x) p = Inr p'"
    using assms(1) by (auto simp: set_parameter_def split: sum.splits)
  obtain f where f: "name = json_key f" "x = param_value (parse_float e) (kind_of f) [args]" using format_param_value [OF x(1)] by blast
  have j: "map_of jsonOpts name = Some f" using f(1) json_key by blast
  have at: "map_of p name = (if lines_of cs name = [] then None else Some (param_value (parse_float e) (kind_of f) (lines_of cs name)))"
    using assms(2) by (simp add: expected_param_def j)
  have "p' = AList.update name (param_value (parse_float e) (kind_of f) (lines_of cs name @ [args])) p"
  proof (cases "kind_of f = KStrings")
    case True
    then show ?thesis using x(2) at f(2) by (simp add: add_param_def split: if_splits)
  next
    case False
    then have "\<not> (\<exists>ks. map_of p name = Some (AStrings ks))" using at by (cases "kind_of f") auto
    then show ?thesis using x(2) f(2) param_value_append [OF False, of "parse_float e" "lines_of cs name" args]
      by (auto simp: add_param_def split: option.splits any_value.splits)
  qed
  then show ?thesis using assms(2,3)
    by (auto simp: update_conv' distinct_update expected_param_def lines_of_def j split: option.split)
qed

lemma request_steps_params:
  assumes "request_steps e cs s = Inr s'" "\<forall>k. map_of (r_Parameters (rs_req s)) k = expected_param (parse_float e) done_cs k"
    and "distinct (map fst (r_Parameters (rs_req s)))"
  shows "(\<forall>k. map_of (r_Parameters (rs_req s')) k = expected_param (parse_float e) (done_cs @ cs) k) \<and> distinct (map fst (r_Parameters (rs_req s')))"
  using assms
proof (induction cs arbitrary: s done_cs)
  case (Cons c cs)
  obtain name args where c: "c = (name, args)" by (cases c)
  obtain s1 where s1: "request_step e name args s = Inr s1" "request_steps e cs s1 = Inr s'"
    using Cons.prems(1) c by (auto split: sum.splits)
  let ?p = "r_Parameters (rs_req s)" and ?p1 = "r_Parameters (rs_req s1)"
  have "(\<forall>k. map_of ?p1 k = expected_param (parse_float e) (done_cs @ [(name, args)]) k) \<and> distinct (map fst ?p1)"
  proof (cases "name \<in> set command_words")
    case True
    then have "map_of jsonOpts name = None" using no_fields by (auto simp: list_all_iff)
    then show ?thesis using Cons.prems(2,3) expected_param_other request_step_word [OF s1(1) True] by simp
  next
    case False
    then have "set_parameter e name args ?p = Inr ?p1"
      using s1(1) by (auto simp: request_step_def command_words_def Let_def split: sum.splits)
    from set_parameter_value [OF this Cons.prems(2,3)] show ?thesis .
  qed
  from Cons.IH [OF s1(2) conjunct1 [OF this] conjunct2 [OF this]] show ?case by (simp add: c)
qed simp

definition modelfile_lines :: "Modelfile \<Rightarrow> option_field \<Rightarrow> string list" where
  "modelfile_lines f g = lines_of (map (\<lambda>c. (go_string (cmd_Name c), go_string (cmd_Args c))) f) (json_key g)"

lemma CreateRequest_params:
  assumes "Modelfile_CreateRequest e f = Inr (r, ad)"
  shows "map_of (r_Parameters r) (json_key g) =
      (if modelfile_lines f g = [] then None else Some (param_value (parse_float e) (kind_of g) (modelfile_lines f g)))"
    "map_of (r_Parameters r) k = Some v \<Longrightarrow> \<exists>g. k = json_key g"
    "distinct (map fst (r_Parameters r))"
proof -
  let ?cs = "map (\<lambda>c. (go_string (cmd_Name c), go_string (cmd_Args c))) f"
  obtain s where s: "request_steps e ?cs \<lparr>rs_req = empty_request, rs_Adapters = None, rs_licenses = []\<rparr> = Inr s"
    "r_Parameters r = r_Parameters (rs_req s)"
    using assms by (auto simp: Modelfile_CreateRequest_def split: sum.splits)
  have "(\<forall>k. map_of (r_Parameters r) k = expected_param (parse_float e) ?cs k) \<and> distinct (map fst (r_Parameters r))"
    using request_steps_params [OF s(1), of "[]"] s(2) by (simp add: empty_request_def expected_param_def lines_of_def split: option.split)
  then show "map_of (r_Parameters r) (json_key g) =
      (if modelfile_lines f g = [] then None else Some (param_value (parse_float e) (kind_of g) (modelfile_lines f g)))"
    "map_of (r_Parameters r) k = Some v \<Longrightarrow> \<exists>g. k = json_key g" "distinct (map fst (r_Parameters r))"
    using json_key by (auto simp: expected_param_def modelfile_lines_def json_key [THEN iffD2] split: option.splits)
qed

text \<open>The parameters as they arrive when they are sent as JSON.\<close>

definition sent :: "(32 word \<Rightarrow> 64 word) \<Rightarrow> (string \<times> any_value) list \<Rightarrow> (string \<times> any_value) list \<Rightarrow> bool" where
  "sent via_text p m = list_all2 (\<lambda>kv kv'. fst kv' = fst kv \<and> through_json via_text (snd kv) = Some (snd kv')) p m"

lemma sent_lookup:
  "sent via_text p m \<Longrightarrow> map fst m = map fst p \<and> map_of m k = (case map_of p k of None \<Rightarrow> None | Some v \<Rightarrow> through_json via_text v)"
  unfolding sent_def by (induction rule: list_all2_induct) auto

text \<open>The field that a runner gets for the arguments of its lines.\<close>

fun text_cell :: "(string \<Rightarrow> 32 word option) \<Rightarrow> (32 word \<Rightarrow> 64 word) \<Rightarrow> field_kind \<Rightarrow> string list \<Rightarrow> cell" where
  "text_cell pf via_text KStrings vs = CStrings (map coerce vs)"
| "text_cell pf via_text KFloat32 vs = CFloat32 (float32_of_float (via_text (the (pf (last vs)))))"
| "text_cell pf via_text KBoolPtr vs = CBoolPtr (Some (the (ParseBool (last vs))))"
| "text_cell pf via_text KInt vs = CInt (the (Atoi (last vs)))"
| "text_cell pf via_text KIntPtr vs = CIntPtr (Some (the (Atoi (last vs))))"

definition exact_number :: "field_kind \<Rightarrow> string list \<Rightarrow> bool" where
  "exact_number k vs \<longleftrightarrow> k \<notin> {KInt, KIntPtr} \<or> vs = [] \<or> abs (the (Atoi (last vs))) \<le> 2 ^ 53"

lemma sent_converts:
  assumes "through_json via_text (param_value pf k vs) = Some v" "vs \<noteq> []"
  shows "v \<noteq> ANil \<and> (\<exists>c. convert wild k key v = Inr c \<and> (exact_number k vs \<longrightarrow> c = text_cell pf via_text k vs))"
  using assms by (cases k) (auto simp: small_int_exact exact_number_def list_all_iff comp_def split: if_splits)


definition ex_modelfile :: Modelfile where
  "ex_modelfile = map (\<lambda>(n, a). \<lparr>cmd_Name = runes n, cmd_Args = runes a\<rparr>)
     [(''model'', ''m''), (''seed'', ''1''), (''stop'', ''a''), (''seed'', ''42''), (''stop'', ''b'')]"

definition ex_request_env :: request_env where
  "ex_request_env = \<lparr>parse_float = (\<lambda>_. None), local_files = (\<lambda>_. NoSuchFile), semver_IsValid = (\<lambda>_. True)\<rparr>"


section \<open>Observations\<close>

text \<open>An integer beyond 2 to the 53 does not survive JSON: it arrives as another number.\<close>

lemma large_seed_changes: "convert wild KInt ''seed'' (the (through_json via_text (AInt (2 ^ 53 + 1)))) = Inr (CInt (2 ^ 53))"
proof -
  have "floor_log 9007199254740993 = 53" by (rule floor_log_eq) simp_all
  then have "float_of_int (2 ^ 53 + 1) = word_of_nat (0 * 2 ^ 63 + (1076 * 2 ^ 52 + 0))" by (simp add: float_of_int_def round_shift_def)
  then show ?thesis using int_of_float_parts [of 0 1076 0 "2 ^ 53" wild] by simp
qed

text \<open>An option that is given as null sets nothing, but keeps the scheduler from choosing.\<close>

lemma null_disables_automatic: "\<not> usesAutomaticNumCtx m [(''num_ctx'', ANil)]" "field_from wild [(''num_ctx'', ANil)] f = None"
  by (simp_all add: usesAutomaticNumCtx_def hasOption_def field_from_def)

end
