(* ===== verification/Spec2Isabelle.thy ===== *)
theory Spec2Isabelle
  imports Model_Name Thinking_Parser Tool_Parser Modelfile Model_Ref Registry_Names Gguf_Lazy Devices
    Scheduler_Properties Blob_Download Model_Options
begin

text \<open>
  A verification library for Yollama, a server in Go that stores language models and runs them in external
  processes. A client asks for a model by name. The name is parsed and looked up in a store of manifests, whose
  layers are files named by their digest; missing layers are downloaded from a registry. The GGUF file of the
  model is decoded for its metadata, the scheduler decides on which devices a runner is loaded and which runner
  has to go, and the answer of the runner is cut into thinking, tool calls and content. The library follows
  these parts. All definitions are executable translations of the Go functions of the same name; errors are
  values, loops are recursive functions, machine integers are words or integers with the bounds of the code.

  \<^bold>\<open>Shared theories.\<close>
  \<^item> \<open>Go_Prelude\<close>, \<open>Go_Filepath\<close>, \<open>Go_Strconv\<close>: the functions of the Go library that the program uses, on strings,
    UTF-8, file paths and numbers, with the lemmas that the components share.
  \<^item> \<open>Chunked_Streams\<close>: the locale \<open>chunked\<close> of parsers that are fed a text in pieces, with the lemma that the
    result does not depend on the pieces. It is interpreted on the thinking parser (\<open>thinking\<close>).

  \<^bold>\<open>Names.\<close>
  \<^item> \<open>Model_Name\<close> (\<open>types/model/name.go\<close>): parsing, printing, merging and the file path of a name. Names survive
    printing and parsing, and the path of a name has exactly its parts, so that a name cannot leave its directory.
  \<^item> \<open>Model_Ref\<close> (\<open>internal/modelref\<close>) and \<open>Registry_Names\<close> (\<open>server/internal/internal/names\<close>, \<open>stringsx\<close>): the other two
    notations of names.
  \<^item> \<open>Modelfile\<close> (\<open>parser/parser.go\<close>): the automaton that reads a Modelfile and its printer. A printed Modelfile is
    read back, and an accepted one is well formed.

  \<^bold>\<open>Answers of a model.\<close>
  \<^item> \<open>Thinking_Parser\<close> (\<open>thinking/parser.go\<close>): thinking and content do not depend on how the answer is cut into pieces.
  \<^item> \<open>Tool_Parser\<close> (\<open>tools/tools.go\<close>, \<open>tools/template.go\<close>): the text before a tool call is passed on, and calls are
    numbered.

  \<^bold>\<open>Model files.\<close>
  \<^item> \<open>Ggml_Types\<close>, \<open>Ggml_KV\<close>, \<open>Gguf_Codec\<close> (\<open>fs/ggml\<close>): file and tensor types, metadata, and the reader and writer of GGUF
    files. The locale \<open>codec\<close> is the contract between a reader and a writer of one kind of datum; its
    interpretations (\<open>u32\<close>, \<open>u64\<close>, \<open>boolean\<close>, \<open>gstring\<close>, \<open>kv_pair\<close>, \<open>tensor_info\<close>) build the round trip of files.
  \<^item> \<open>Gguf_Lazy\<close> (\<open>fs/gguf\<close>): the second reader, which reads a header on demand. The locale \<open>transparent\<close> states that a
    query is answered as by a full reading; it is interpreted on the file (\<open>lazy_file\<close>). The two readers agree.
  \<^item> \<open>Gguf_Data\<close> (\<open>server/quantization.go\<close>, parts of \<open>server/create.go\<close> and \<open>fs/ggml/gguf.go\<close>): the data of tensors, written
    in any order and read back, and the files that are rewritten after a quantization.
  \<^item> \<open>Split_Gguf\<close> (\<open>server/create.go\<close>): models in several files, whose parts are recognised by name and metadata and joined.

  \<^bold>\<open>Running models.\<close>
  \<^item> \<open>Devices\<close> (\<open>ml/device.go\<close>): sorting and grouping of devices; locale \<open>device_groups\<close> with the interpretations
    \<open>by_library\<close> and \<open>by_performance\<close>.
  \<^item> \<open>Scheduler\<close>, \<open>Scheduler_Safety\<close>, \<open>Scheduler_Properties\<close> (\<open>server/sched.go\<close>): the scheduler as a step relation on
    requests, runners, timers and channels. The locale \<open>schedule_invariant\<close> turns facts about steps into facts about
    runs (\<open>structured\<close>, \<open>calm_runs\<close>). Reference counts are exact, a runner in use is not unloaded, and no
    schedule stops the program. The scheduler is examined with a limit of loaded runners as the code sets it, and
    the exact counts hold for calm schedules, in which no request is abandoned while its runner is loading.

  \<^bold>\<open>The store.\<close>
  \<^item> \<open>Blob_Digest\<close>, \<open>Blob_Cache\<close> (\<open>server/internal/cache/blob\<close>): digests and the cache of blobs, with reads and writes
    that may fail anywhere. The locale \<open>file_update\<close> (interpretation \<open>copy\<close>) is the contract of a checked copy. A blob of
    full size has the content of its digest.
  \<^item> \<open>Blob_Download\<close> (\<open>server/download.go\<close>): the parts of a download, their failures, retries and restarts. The loop that
    cuts a blob into parts is a \<open>partial_function\<close> and is shown to end.
  \<^item> \<open>Manifest_Store\<close> (\<open>manifest\<close>, parts of \<open>server/unified_shard_conductor.go\<close> and \<open>server/routes.go\<close>): two model
    directories with manifests and layers; pull, copy, delete and prune. In every run of these operations each layer
    of each model stays in place and has the content of its digest.
  \<^item> \<open>Model_Create\<close> (\<open>server/create.go\<close>, \<open>server/model.go\<close>, \<open>template.Named\<close>): the request to create a model from a model or
    from files. Operations with errors on a store are of type \<open>act\<close>, composed by \<open>bind\<close> as the code returns early.
  \<^item> \<open>Create_Safety\<close>: the locale \<open>progress\<close> holds the rules to reason about such operations over a relation of stores; it is
    interpreted on stores that only gain blobs (\<open>growing\<close>) and on stores that keep their models (\<open>keeping\<close>). A created
    model has all of its layers, a failed creation changes no model, and no model loses a layer.
  \<^item> \<open>Gguf_Metadata\<close> (\<open>server/gguf_metadata.go\<close>): the metadata of a model file, kept in files beside the store. It answers as
    the file does, a kept file is never out of date, and the race between a writer and the removal of a blob, an
    inductive relation on the points where either may be interrupted, leaves no file behind.
  \<^item> \<open>Model_Load\<close> (\<open>server/capabilities.go\<close>, \<open>server/model_data.go\<close>): a model is loaded from its manifest, its capabilities are
    derived and checked, and it is printed as a Modelfile. A model that was created is loaded as it was requested;
    a third interpretation of \<open>progress\<close> (\<open>trusting\<close>) carries the content of the blobs through the creation.
  \<^item> \<open>Model_Options\<close> (parts of \<open>api/types.go\<close>, \<open>server/routes.go\<close> and \<open>parser/parser.go\<close>): the options of a runner, read by
    reflection from maps. The locale \<open>struct_fields\<close> (interpretation \<open>options\<close>) is the contract of reading and writing a
    field by its name. The order of a map does not matter, the request comes before the model and the model before the
    defaults, and the parameters of a Modelfile arrive at the runner.

  \<^bold>\<open>What is assumed.\<close> SHA-256, the content of the registry, the program \<open>llama-quantize\<close>, the JSON texts of a model, the decimal form of floats, the order in which a map is visited, failures of the
  file system and the behaviour of runner processes are parameters of the definitions. Strings are strings of
  bytes; the functions on letters (\<open>ToLower\<close>, \<open>EqualFold\<close>) treat ASCII.

  \<^bold>\<open>Not modelled.\<close> The command line, the HTTP handlers other than the creation of models, the API client and the terminal output are input and output over
  third-party frameworks. The runner process and the discovery of hardware talk to programs and libraries outside
  the repository. Templates walk the parse trees of \<open>text/template\<close>. The directories \<open>cobra\<close>, \<open>pflag\<close>, \<open>go-yaml\<close>,
  \<open>blackfriday\<close>, \<open>go-md2man\<close>, \<open>go-lang\<close> and \<open>mousetrap\<close> are copies of third-party libraries.
\<close>

end
